(* ===== verification/Sphone_Base.thy ===== *)
theory Sphone_Base
  imports Main "HOL-Library.Word" "HOL-Library.Signed_Division"
begin

text \<open>
  Prelude of the Sicsophone development: the machine integers of the code, the outcome
  type of operations that can fault, the byte order functions of the host, and the
  generic lemmas on words, bytes and lists that the component theories share.

  Conventions. The host is the 32-bit little-endian machine the code was written for:
  \<open>int\<close>, \<open>long\<close>, pointers and \<open>size_t\<close> have 32 bits and \<open>char\<close> is an octet.
  Unsigned types of the source are words (their arithmetic wraps, as in C). A signed
  \<open>int\<close> or \<open>long\<close> is an HOL \<open>int\<close>: C gives no meaning to signed overflow, and
  wherever C does give a meaning the two agree. A conversion between the two is written
  out (\<open>sint\<close>, \<open>word_of_int\<close>).
\<close>

unbundle bit_operations_syntax

section \<open>Machine types and outcomes\<close>

type_synonym u8 = "8 word"
type_synonym u16 = "16 word"
type_synonym u32 = "32 word"
type_synonym bytes = "u8 list"

text \<open>
  What stops the program in the middle of an operation: a division by zero, a null
  pointer passed to a string function, an access outside an object, a failed
  \<open>assert\<close>, the use of a freed object, a shift by a negative count, a second release of an object
  or a descriptor. A loop that can never end, a call that never returns, and a signal that ends the
  process are more ways not to get on.
\<close>

datatype fault = Div_By_Zero | Null_Pointer | Out_Of_Bounds | Assert_Failed | Use_After_Free
  | Undefined_Shift | Double_Free | Endless_Loop | Blocks_Forever | Killed_By_Signal

type_synonym 'a res = "fault + 'a"

named_theorems bytes_simps "conversions between words and their bytes"
named_theorems inv_intros "invariant preservation"

section \<open>Byte order\<close>

text \<open>
  \<open>store16\<close> and \<open>store32\<close> are \<open>memcpy\<close> of an integer object into a buffer of the
  little-endian host, \<open>load16\<close> and \<open>load32\<close> the \<open>memcpy\<close> in the other direction.
  \<open>be16\<close> and \<open>be32\<close> are the bytes of a word in network order; \<open>htons\<close> and
  \<open>htonl\<close> give the word whose bytes in the memory of the host are those.
\<close>

definition store16 :: "u16 \<Rightarrow> bytes" where
  "store16 w = [ucast w, ucast (drop_bit 8 w)]"

definition store32 :: "u32 \<Rightarrow> bytes" where
  "store32 w = [ucast w, ucast (drop_bit 8 w), ucast (drop_bit 16 w), ucast (drop_bit 24 w)]"

definition load16 :: "bytes \<Rightarrow> u16" where
  "load16 bs = ucast (bs ! 0) OR push_bit 8 (ucast (bs ! 1))"

definition load32 :: "bytes \<Rightarrow> u32" where
  "load32 bs = ucast (bs ! 0) OR push_bit 8 (ucast (bs ! 1))
     OR push_bit 16 (ucast (bs ! 2)) OR push_bit 24 (ucast (bs ! 3))"

definition be16 :: "u16 \<Rightarrow> bytes" where
  "be16 w = [ucast (drop_bit 8 w), ucast w]"

definition be32 :: "u32 \<Rightarrow> bytes" where
  "be32 w = [ucast (drop_bit 24 w), ucast (drop_bit 16 w), ucast (drop_bit 8 w), ucast w]"

definition htons :: "u16 \<Rightarrow> u16" where
  "htons w = load16 (be16 w)"

definition htonl :: "u32 \<Rightarrow> u32" where
  "htonl w = load32 (be32 w)"

abbreviation ntohs :: "u16 \<Rightarrow> u16" where "ntohs \<equiv> htons"
abbreviation ntohl :: "u32 \<Rightarrow> u32" where "ntohl \<equiv> htonl"

lemma bit_u8_outside [simp]:
  "\<not> bit (a :: u8) (8 + n)" "\<not> bit (a :: u8) (16 + n)" "\<not> bit (a :: u8) (24 + n)"
  by (auto dest: bit_imp_le_length)

lemma length_store [simp]:
  "length (store16 w) = 2" "length (store32 v) = 4"
  "length (be16 w) = 2" "length (be32 v) = 4"
  by (simp_all add: store16_def store32_def be16_def be32_def)

lemma load_append [bytes_simps]:
  "length xs = 2 \<Longrightarrow> load16 (xs @ ys) = load16 xs"
  "length vs = 4 \<Longrightarrow> load32 (vs @ ys) = load32 vs"
  by (simp_all add: load16_def load32_def nth_append)

lemma load16_store16 [simp]: "load16 (store16 w) = w"
  by (simp add: load16_def store16_def, rule bit_word_eqI) (auto simp: bit_simps)

lemma load32_store32 [simp]: "load32 (store32 w) = w"
proof (rule bit_word_eqI)
  fix n assume "n < LENGTH(32)"
  then have "n < 8 \<or> 8 \<le> n \<and> n < 16 \<or> 16 \<le> n \<and> n < 24 \<or> 24 \<le> n \<and> n < 32" by auto
  then show "bit (load32 (store32 w)) n \<longleftrightarrow> bit w n"
    by (elim disjE) (auto simp: load32_def store32_def bit_simps)
qed

lemma store16_load16 [simp]: "store16 (load16 [a, b]) = [a, b]"
  by (auto simp: store16_def load16_def bit_simps intro!: bit_word_eqI)

lemma store32_load32 [simp]: "store32 (load32 [a, b, c, d]) = [a, b, c, d]"
  by (auto simp: store32_def load32_def bit_simps intro!: bit_word_eqI)

text \<open>A swapped word stored in memory lies there in network order, and swapping twice is
  the identity.\<close>

lemma store_hton [bytes_simps]:
  "store16 (htons w) = be16 w" "store32 (htonl v) = be32 v"
  by (simp_all add: htons_def htonl_def be16_def be32_def)

lemma be_rev: "be16 w = rev (store16 w)" "be32 v = rev (store32 v)"
  by (simp_all add: be16_def be32_def store16_def store32_def)

lemma hton_hton [simp]: "htons (htons w) = w" "htonl (htonl v) = v"
  by (simp_all add: htons_def [of "htons w"] htonl_def [of "htonl v"] be_rev store_hton)

lemma ntoh_load_be [bytes_simps]: "ntohs (load16 (be16 w)) = w" "ntohl (load32 (be32 v)) = v"
  by (simp_all flip: htons_def htonl_def)

section \<open>Reading a buffer through a moving pointer\<close>

text \<open>
  The generated encoders and decoders all move a \<open>char *ptr\<close> through a buffer:
  \<open>tmp = htons(x); memcpy(ptr, &tmp, 2); ptr += 2\<close> and the reverse. An encoder returns
  the bytes it wrote, a decoder the value and the rest of the buffer.
\<close>

definition put16 :: "u16 \<Rightarrow> bytes" where "put16 w = store16 (htons w)"
definition put32 :: "u32 \<Rightarrow> bytes" where "put32 w = store32 (htonl w)"

text \<open>Sequencing of operations that can fault.\<close>

definition bnd :: "'a res \<Rightarrow> ('a \<Rightarrow> 'b res) \<Rightarrow> 'b res" where
  "bnd m f = (case m of Inl e \<Rightarrow> Inl e | Inr x \<Rightarrow> f x)"

lemma bnd_simps [simp]: "bnd (Inl e) f = Inl e" "bnd (Inr x) f = f x"
  by (simp_all add: bnd_def)

lemma bnd_eq_Inr: "bnd m f = Inr y \<longleftrightarrow> (\<exists>x. m = Inr x \<and> f x = Inr y)"
  by (cases m) simp_all

lemma bnd_InrE:
  assumes "bnd m f = Inr y"
  obtains x where "m = Inr x" "f x = Inr y"
  using assms by (auto simp: bnd_eq_Inr)

text \<open>Following a pointer that may be null, and the octets of a fresh allocation.\<close>

definition deref :: "'a option \<Rightarrow> 'a res" where
  "deref p = (case p of None \<Rightarrow> Inl Null_Pointer | Some x \<Rightarrow> Inr x)"

lemma deref_simps [simp]: "deref None = Inl Null_Pointer" "deref (Some x) = Inr x"
  by (simp_all add: deref_def)

definition fresh :: "(nat \<Rightarrow> u8) \<Rightarrow> nat \<Rightarrow> bytes" where
  "fresh mem n = map mem [0..<n]"

lemma length_fresh [simp]: "length (fresh mem n) = n"
  by (simp add: fresh_def)

definition get16 :: "bytes \<Rightarrow> (u16 \<times> bytes) res" where
  "get16 p = (if length p < 2 then Inl Out_Of_Bounds else Inr (ntohs (load16 (take 2 p)), drop 2 p))"

definition get32 :: "bytes \<Rightarrow> (u32 \<times> bytes) res" where
  "get32 p = (if length p < 4 then Inl Out_Of_Bounds else Inr (ntohl (load32 (take 4 p)), drop 4 p))"

lemma length_put [simp]: "length (put16 w) = 2" "length (put32 v) = 4"
  by (simp_all add: put16_def put32_def)

lemma put_be: "put16 w = be16 w" "put32 v = be32 v"
  by (simp_all add: put16_def put32_def store_hton)

lemma get_put [simp]:
  "get16 (put16 w @ r) = Inr (w, r)" "get32 (put32 v @ r) = Inr (v, r)"
  by (simp_all add: get16_def get32_def put_be ntoh_load_be)

lemma get_put_end [simp]:
  "get16 (put16 w) = Inr (w, [])" "get32 (put32 v) = Inr (v, [])"
  using get_put [of _ "[]"] by simp_all

lemma put_get:
  "get16 p = Inr (w, r) \<Longrightarrow> put16 w @ r = p"
  "get32 p = Inr (v, r) \<Longrightarrow> put32 v @ r = p"
proof -
  assume g: "get16 p = Inr (w, r)"
  then obtain a b where "p = a # b # r"
    by (cases p; cases "tl p") (auto simp: get16_def split: if_splits)
  then show "put16 w @ r = p" using g by (auto simp: get16_def put16_def split: if_splits)
next
  assume g: "get32 p = Inr (v, r)"
  then obtain a b c d where "p = a # b # c # d # r"
    by (cases p; cases "tl p"; cases "tl (tl p)"; cases "tl (tl (tl p))")
      (auto simp: get32_def split: if_splits)
  then show "put32 v @ r = p" using g by (auto simp: get32_def put32_def split: if_splits)
qed

lemma get_short:
  "get16 p = Inl e \<longleftrightarrow> length p < 2 \<and> e = Out_Of_Bounds"
  "get32 p = Inl e \<longleftrightarrow> length p < 4 \<and> e = Out_Of_Bounds"
  by (auto simp: get16_def get32_def)

lemma get_length:
  "get16 p = Inr (w, r) \<Longrightarrow> length p = length r + 2"
  "get32 p = Inr (v, r) \<Longrightarrow> length p = length r + 4"
  using put_get [of p] by auto

section \<open>Headers on the wire\<close>

text \<open>
  The contract of a fixed-size header: \<open>enc\<close> writes \<open>size\<close> octets, \<open>dec\<close> reads a header
  and gives back the rest of the buffer, it faults exactly on a buffer that is too short,
  and the two are inverse to each other. Two headers in a row are again such a header.
\<close>

locale header_codec =
  fixes enc :: "'a \<Rightarrow> bytes" and dec :: "bytes \<Rightarrow> ('a \<times> bytes) res" and size :: nat
  assumes enc_length: "length (enc x) = size"
    and dec_enc: "dec (enc x @ r) = Inr (x, r)"
    and enc_dec: "dec p = Inr (x, r) \<Longrightarrow> enc x @ r = p"
    and dec_fault: "dec p = Inl e \<Longrightarrow> length p < size \<and> e = Out_Of_Bounds"
begin

lemma dec_enc_end: "dec (enc x) = Inr (x, [])"
  using dec_enc [of x "[]"] by simp

lemma enc_inj: "enc x = enc y \<longleftrightarrow> x = y"
  by (metis Pair_inject dec_enc_end sum.inject(2))

lemma enc_prefix_free: "enc x @ r = enc y @ s \<longleftrightarrow> x = y \<and> r = s"
  by (metis Pair_inject dec_enc sum.inject(2))

lemma dec_long:
  assumes "size \<le> length p"
  obtains x where "dec p = Inr (x, drop size p)" "enc x = take size p"
proof (cases "dec p")
  case (Inl e)
  then show thesis using dec_fault [OF Inl] assms by simp
next
  case (Inr y)
  obtain x r where y: "y = (x, r)" by (cases y)
  then have p: "enc x @ r = p" using Inr enc_dec by simp
  then have "r = drop size p" "enc x = take size p" using enc_length [of x] by auto
  then show thesis using that Inr y by simp
qed

lemma dec_total: "(\<exists>x r. dec p = Inr (x, r)) \<longleftrightarrow> size \<le> length p"
proof
  show "size \<le> length p" if "\<exists>x r. dec p = Inr (x, r)"
    using that enc_dec enc_length by fastforce
  show "\<exists>x r. dec p = Inr (x, r)" if "size \<le> length p" using dec_long [OF that] by metis
qed

end

locale codec_pair = a: header_codec enc1 dec1 size1 + b: header_codec enc2 dec2 size2
  for enc1 :: "'a \<Rightarrow> bytes" and dec1 size1 and enc2 :: "'b \<Rightarrow> bytes" and dec2 size2
begin

definition enc_pair :: "'a \<times> 'b \<Rightarrow> bytes" where
  "enc_pair xy = enc1 (fst xy) @ enc2 (snd xy)"

definition dec_pair :: "bytes \<Rightarrow> (('a \<times> 'b) \<times> bytes) res" where
  "dec_pair p = bnd (dec1 p) (\<lambda>(x, p). bnd (dec2 p) (\<lambda>(y, p). Inr ((x, y), p)))"

lemma pair_codec: "header_codec enc_pair dec_pair (size1 + size2)"
proof
  fix xy :: "'a \<times> 'b" and r p e
  show "length (enc_pair xy) = size1 + size2" by (simp add: enc_pair_def a.enc_length b.enc_length)
  show "dec_pair (enc_pair xy @ r) = Inr (xy, r)"
    by (simp add: enc_pair_def dec_pair_def a.dec_enc b.dec_enc)
  show "enc_pair xy @ r = p" if "dec_pair p = Inr (xy, r)"
    using that by (auto simp: dec_pair_def enc_pair_def bnd_eq_Inr dest!: a.enc_dec b.enc_dec)
  show "length p < size1 + size2 \<and> e = Out_Of_Bounds" if "dec_pair p = Inl e"
  proof (cases "dec1 p")
    case (Inl e')
    then show ?thesis using a.dec_fault [OF Inl] that by (simp add: dec_pair_def)
  next
    case (Inr y)
    obtain x q where y: "y = (x, q)" by (cases y)
    then have "length p = size1 + length q" using a.enc_dec [of p x q] Inr a.enc_length [of x] by auto
    then show ?thesis using that Inr y b.dec_fault [of q e]
      by (cases "dec2 q") (auto simp: dec_pair_def)
  qed
qed

end

sublocale codec_pair \<subseteq> pair: header_codec enc_pair dec_pair "size1 + size2"
  by (rule pair_codec)

section \<open>Lists and integers\<close>

lemma int_div_bounds:
  fixes x k :: int
  assumes "0 < k"
  shows "k * (x div k) \<le> x" "x < k * (x div k) + k"
  using assms pos_mod_bound [of k x] pos_mod_sign [of k x]
  by (simp_all add: minus_mod_eq_mult_div [symmetric])

lemma sdiv_nonneg: "0 \<le> (a :: int) \<Longrightarrow> 0 < b \<Longrightarrow> a sdiv b = a div b"
  by (cases "a = 0") (simp_all add: signed_divide_int_def sgn_if)

lemma div_upper:
  fixes x k n :: int
  assumes "0 < k" "x < n * k"
  shows "x div k < n"
proof -
  have "k * (x div k) < k * n" using int_div_bounds(1) [OF assms(1), of x] assms(2) by (simp add: mult.commute)
  then show ?thesis using assms(1) by (simp only: mult_less_cancel_left_pos)
qed

lemma div_lower:
  fixes x k n :: int
  assumes "0 < k" "n * k \<le> x"
  shows "n \<le> x div k"
proof -
  have "k * n < k * (x div k + 1)" using int_div_bounds(2) [OF assms(1), of x] assms(2) by (simp add: algebra_simps)
  then show ?thesis using assms(1) by (simp only: mult_less_cancel_left_pos)
qed

lemma unat_word_of_nat_small: "n < 2 ^ LENGTH('a::len) \<Longrightarrow> unat (word_of_nat n :: 'a word) = n"
  by (simp add: unat_of_nat take_bit_nat_eq_self)

lemma sint_of_int31: "- (2 ^ 31) \<le> x \<Longrightarrow> x < 2 ^ 31 \<Longrightarrow> sint (word_of_int x :: u32) = x"
  by (simp add: sint_sbintrunc' signed_take_bit_int_eq_self)

lemma unat_ucast_up:
  assumes "LENGTH('a) \<le> LENGTH('b)"
  shows "unat (ucast (w :: 'a::len word) :: 'b::len word) = unat w"
  using assms order.strict_trans2 [OF unsigned_less [of w] power_increasing [OF assms, of "2 :: nat"]]
  by (simp add: unsigned_ucast_eq take_bit_nat_eq_self)

lemma unat_ucast_u32 [simp]:
  "unat (ucast (c :: u8) :: u32) = unat c" "unat (ucast (h :: u16) :: u32) = unat h"
  by (rule unat_ucast_up, simp)+

lemma all_u8_by_nat: "(\<forall>i < 256. P (word_of_nat i)) \<Longrightarrow> P (c :: u8)"
proof -
  assume *: "\<forall>i < 256. P (word_of_nat i)"
  have "unat c < 256" using unsigned_less [of c] by simp
  with * have "P (word_of_nat (unat c))" by blast
  then show "P c" by simp
qed

end
