(* ===== verification/G711.thy ===== *)
theory G711
  imports Sphone_Base
begin

text \<open>
  The G.711 companding codecs of \<open>coding/g711.c\<close>: the segment search, A-law and u-law
  encoders and decoders, and the two table-driven direct conversions.

  A \<open>short\<close> argument or result is an \<open>int\<close> in \<open>-32768..32767\<close>; its callers convert
  from and to the 16-bit words of the sample buffers. The right shift of a negative
  \<open>short\<close> is arithmetic, as on every target of the code.
\<close>

section \<open>Tables and search\<close>

definition seg_aend :: "int list" where
  "seg_aend = [0x1F, 0x3F, 0x7F, 0xFF, 0x1FF, 0x3FF, 0x7FF, 0xFFF]"

definition seg_uend :: "int list" where
  "seg_uend = [0x3F, 0x7F, 0xFF, 0x1FF, 0x3FF, 0x7FF, 0xFFF, 0x1FFF]"

definition u2a_table :: "nat list" where
  "u2a_table = [
    1, 1, 2, 2, 3, 3, 4, 4, 5, 5, 6, 6, 7, 7, 8, 8,
    9, 10, 11, 12, 13, 14, 15, 16, 17, 18, 19, 20, 21, 22, 23, 24,
    25, 27, 29, 31, 33, 34, 35, 36, 37, 38, 39, 40, 41, 42, 43, 44,
    46, 48, 49, 50, 51, 52, 53, 54, 55, 56, 57, 58, 59, 60, 61, 62,
    64, 65, 66, 67, 68, 69, 70, 71, 72, 73, 74, 75, 76, 77, 78, 79,
    80, 82, 83, 84, 85, 86, 87, 88, 89, 90, 91, 92, 93, 94, 95, 96,
    97, 98, 99, 100, 101, 102, 103, 104, 105, 106, 107, 108, 109, 110, 111, 112,
    113, 114, 115, 116, 117, 118, 119, 120, 121, 122, 123, 124, 125, 126, 127, 128]"

definition a2u_table :: "nat list" where
  "a2u_table = [
    1, 3, 5, 7, 9, 11, 13, 15, 16, 17, 18, 19, 20, 21, 22, 23,
    24, 25, 26, 27, 28, 29, 30, 31, 32, 32, 33, 33, 34, 34, 35, 35,
    36, 37, 38, 39, 40, 41, 42, 43, 44, 45, 46, 47, 48, 48, 49, 49,
    50, 51, 52, 53, 54, 55, 56, 57, 58, 59, 60, 61, 62, 63, 64, 64,
    65, 66, 67, 68, 69, 70, 71, 72, 73, 74, 75, 76, 77, 78, 79, 80,
    80, 81, 82, 83, 84, 85, 86, 87, 88, 89, 90, 91, 92, 93, 94, 95,
    96, 97, 98, 99, 100, 101, 102, 103, 104, 105, 106, 107, 108, 109, 110, 111,
    112, 113, 114, 115, 116, 117, 118, 119, 120, 121, 122, 123, 124, 125, 126, 127]"

fun search_from :: "int \<Rightarrow> int list \<Rightarrow> nat \<Rightarrow> nat" where
  "search_from val [] i = i"
| "search_from val (t # ts) i = (if val \<le> t then i else search_from val ts (Suc i))"

definition search :: "int \<Rightarrow> int list \<Rightarrow> nat" where
  "search val table = search_from val table 0"

section \<open>A-law\<close>

definition linear2alaw :: "int \<Rightarrow> u8" where
  "linear2alaw pcm_val =
    (let pcm = drop_bit 3 pcm_val;
         mask = (if 0 \<le> pcm then 0xD5 else 0x55 :: int);
         pcm = (if 0 \<le> pcm then pcm else - pcm - 1);
         seg = search pcm seg_aend
     in if 8 \<le> seg then word_of_int (0x7F XOR mask)
        else let aval = push_bit 4 (word_of_nat seg) :: u8;
                 aval = (if seg < 2 then aval OR word_of_int (drop_bit 1 pcm AND 0xf)
                         else aval OR word_of_int (drop_bit seg pcm AND 0xf))
             in aval XOR word_of_int mask)"

definition alaw2linear :: "u8 \<Rightarrow> int" where
  "alaw2linear a_val =
    (let a = a_val XOR 0x55;
         t = push_bit 4 (uint (a AND 0xf));
         seg = unat (drop_bit 4 (a AND 0x70));
         t = (if seg = 0 then t + 8
              else if seg = 1 then t + 0x108
              else push_bit (seg - 1) (t + 0x108))
     in if a AND 0x80 \<noteq> 0 then t else - t)"

section \<open>u-law\<close>

definition linear2ulaw :: "int \<Rightarrow> u8" where
  "linear2ulaw pcm_val =
    (let pcm = drop_bit 2 pcm_val;
         mask = (if pcm < 0 then 0x7F else 0xFF :: int);
         pcm = (if pcm < 0 then - pcm else pcm);
         pcm = (if 8159 < pcm then 8159 else pcm);
         pcm = pcm + drop_bit 2 0x84;
         seg = search pcm seg_uend
     in if 8 \<le> seg then word_of_int (0x7F XOR mask)
        else let uval = push_bit 4 (word_of_nat seg) OR word_of_int (drop_bit (seg + 1) pcm AND 0xF)
             in uval XOR word_of_int mask)"

definition ulaw2linear :: "u8 \<Rightarrow> int" where
  "ulaw2linear u_val =
    (let u = NOT u_val;
         t = push_bit 3 (uint (u AND 0xf)) + 0x84;
         t = push_bit (unat (drop_bit 4 (u AND 0x70))) t
     in if u AND 0x80 \<noteq> 0 then 0x84 - t else t - 0x84)"

section \<open>Direct conversions\<close>

text \<open>The table index is taken modulo nothing: an index of 128 or more is a read outside
  the table.\<close>

definition alaw2ulaw :: "u8 \<Rightarrow> u8 res" where
  "alaw2ulaw aval =
    (if aval AND 0x80 \<noteq> 0 then
       (let i = unat (aval XOR 0xD5) in
        if i < length a2u_table then Inr (0xFF XOR word_of_nat (a2u_table ! i)) else Inl Out_Of_Bounds)
     else
       (let i = unat (aval XOR 0x55) in
        if i < length a2u_table then Inr (0x7F XOR word_of_nat (a2u_table ! i)) else Inl Out_Of_Bounds))"

definition ulaw2alaw :: "u8 \<Rightarrow> u8 res" where
  "ulaw2alaw uval =
    (if uval AND 0x80 \<noteq> 0 then
       (let i = unat (0xFF XOR uval) in
        if i < length u2a_table then Inr (0xD5 XOR word_of_int (int (u2a_table ! i) - 1)) else Inl Out_Of_Bounds)
     else
       (let i = unat (0x7F XOR uval) in
        if i < length u2a_table then Inr (0x55 XOR word_of_int (int (u2a_table ! i) - 1)) else Inl Out_Of_Bounds))"

section \<open>Quantisation cells\<close>

text \<open>
  Both laws split a magnitude \<open>p\<close> into cells of width \<open>2 ^ seg_exp p\<close> and decode a code to
  the middle of its cell; \<open>cell_mid\<close> is twice that middle. The error and monotonicity of
  both codecs come from the two facts about cells below.
\<close>

definition seg_exp :: "int \<Rightarrow> nat" where
  "seg_exp p = (if p < 64 then 1 else if p < 128 then 2 else if p < 256 then 3 else if p < 512 then 4
     else if p < 1024 then 5 else if p < 2048 then 6 else if p < 4096 then 7 else 8)"

definition cell_mid :: "int \<Rightarrow> int" where
  "cell_mid p = 2 ^ (seg_exp p + 1) * (p div 2 ^ seg_exp p) + 2 ^ seg_exp p"

lemma seg_exp_range:
  assumes "32 \<le> p" "p < 8192"
  shows "16 * 2 ^ seg_exp p \<le> p" "p < 32 * 2 ^ seg_exp p"
proof -
  consider "p < 64" | "64 \<le> p \<and> p < 128" | "128 \<le> p \<and> p < 256" | "256 \<le> p \<and> p < 512"
   | "512 \<le> p \<and> p < 1024" | "1024 \<le> p \<and> p < 2048" | "2048 \<le> p \<and> p < 4096" | "4096 \<le> p" using assms by linarith
  then show "16 * 2 ^ seg_exp p \<le> p" "p < 32 * 2 ^ seg_exp p"
    using assms by (cases, simp_all add: seg_exp_def)+
qed

lemma cell_mid_near:
  "cell_mid p - 2 ^ seg_exp p \<le> 2 * p" "2 * p + 2 \<le> cell_mid p + 2 ^ seg_exp p"
  using int_div_bounds [of "2 ^ seg_exp p" p] by (simp_all add: cell_mid_def)

lemma seg_exp_mono: "p \<le> p' \<Longrightarrow> seg_exp p \<le> seg_exp p'"
  unfolding seg_exp_def by (simp split: if_splits)

lemma two_power_next: "i < j \<Longrightarrow> 2 * 2 ^ i \<le> (2 ^ j :: int)"
  using power_increasing [of "Suc i" j "2 :: int"] by simp

lemma cell_mid_mono:
  assumes "0 \<le> p" "p \<le> p'" "p' < 8192"
  shows "cell_mid p \<le> cell_mid p'"
proof (cases "seg_exp p = seg_exp p'")
  case True
  then show ?thesis using assms zdiv_mono1 [of p p' "2 ^ seg_exp p'"] by (simp add: cell_mid_def)
next
  case False
  then have lt: "seg_exp p < seg_exp p'" using seg_exp_mono [OF assms(2)] by simp
  then have "32 \<le> p'" by (simp add: seg_exp_def split: if_splits)
  then have hi: "16 * 2 ^ seg_exp p' \<le> p'" using seg_exp_range assms by simp
  have lo: "p < 32 * 2 ^ seg_exp p" 
    using seg_exp_range [of p] assms by (cases "32 \<le> p") (simp_all add: seg_exp_def)
  have "p div 2 ^ seg_exp p \<le> 31" using div_upper [OF _ lo] by simp
  then have "cell_mid p \<le> 63 * 2 ^ seg_exp p" by (simp add: cell_mid_def)
  also have "\<dots> \<le> 32 * 2 ^ seg_exp p'"
    using two_power_next [OF lt] zero_less_power [of "2 :: int" "seg_exp p"] by linarith
  also have "16 \<le> p' div 2 ^ seg_exp p'" using div_lower [OF _ hi] by simp
  then have "32 * 2 ^ seg_exp p' \<le> cell_mid p'" by (simp add: cell_mid_def)
  finally show ?thesis .
qed

section \<open>Codes\<close>

text \<open>A code is a segment, a quantisation step and a mask that holds the sign.\<close>

definition g711_code :: "nat \<Rightarrow> nat \<Rightarrow> u8 \<Rightarrow> u8" where
  "g711_code s q m = (push_bit 4 (word_of_nat s) OR word_of_nat q) XOR m"

lemma less_8_cases: "(s::nat) < 8 \<Longrightarrow> s = 0 \<or> s = 1 \<or> s = 2 \<or> s = 3 \<or> s = 4 \<or> s = 5 \<or> s = 6 \<or> s = 7"
  by arith
lemma less_16_cases: "(q::nat) < 16 \<Longrightarrow> q = 0 \<or> q = 1 \<or> q = 2 \<or> q = 3 \<or> q = 4 \<or> q = 5 \<or> q = 6 \<or> q = 7
   \<or> q = 8 \<or> q = 9 \<or> q = 10 \<or> q = 11 \<or> q = 12 \<or> q = 13 \<or> q = 14 \<or> q = 15"
  by presburger

lemma u8_split:
  "\<exists>b s q. s < 8 \<and> q < 16 \<and> (a::u8) = g711_code s q (if b then 0x80 else 0)"
proof (intro exI conjI)
  let ?s = "take_bit 3 (drop_bit 4 a)" and ?q = "take_bit 4 a"
  show "unat ?s < 8" "unat ?q < 16"
    using take_bit_nat_less_exp [of 3] take_bit_nat_less_exp [of 4] 
     by (simp_all add: unsigned_take_bit_eq)
  show "a = g711_code (unat ?s) (unat ?q) (if bit a 7 then 0x80 else 0)"
  proof (rule bit_word_eqI)
    fix n assume "n < LENGTH(8)"
    then show "bit a n = bit (g711_code (unat ?s) (unat ?q) (if bit a 7 then 0x80 else 0)) n"
      using less_8_cases [of n]
      by simp (elim disjE; simp add: g711_code_def bit_simps)
  qed
qed

definition alaw_mag :: "nat \<Rightarrow> nat \<Rightarrow> int" where
  "alaw_mag s q = (if s = 0 then 16 * int q + 8 else 2 ^ (s - 1) * (16 * int q + 264))"

definition ulaw_mag :: "nat \<Rightarrow> nat \<Rightarrow> int" where
  "ulaw_mag s q = 2 ^ s * (8 * int q + 132) - 132"

definition alaw_quant :: "int \<Rightarrow> nat" where
  "alaw_quant p = nat (p div 2 ^ (if search p seg_aend < 2 then 1 else search p seg_aend) mod 16)"
definition ulaw_quant :: "int \<Rightarrow> nat" where
  "ulaw_quant p = nat (p div 2 ^ (search p seg_uend + 1) mod 16)"

lemma mod_16_up: "16 \<le> z \<Longrightarrow> z < 32 \<Longrightarrow> z mod 16 = z - (16 :: int)"
  using mod_pos_pos_trivial [of "z - 16" 16] by simp

lemma quant_high:
  assumes "32 \<le> p" "p < 8192"
  shows "int (nat (p div 2 ^ seg_exp p mod 16)) = p div 2 ^ seg_exp p - 16"
proof -
  note r = seg_exp_range [OF assms]
  have "16 \<le> p div 2 ^ seg_exp p" "p div 2 ^ seg_exp p < 32"
    using div_lower [OF _ r(1)] div_upper [OF _ r(2)] by simp_all
  then show ?thesis by (simp add: mod_16_up)
qed

lemma search_aend_exp:
  assumes "0 \<le> p" "p < 4096"
  shows "(if search p seg_aend < 2 then 1 else search p seg_aend) = seg_exp p"
    and "32 \<le> p \<Longrightarrow> search p seg_aend = seg_exp p" and "p < 32 \<Longrightarrow> search p seg_aend = 0"
  using assms unfolding search_def seg_aend_def by (simp_all add: seg_exp_def)

lemma search_uend_exp:
  assumes "32 \<le> p" "p < 8192"
  shows "search p seg_uend + 1 = seg_exp p"
  using assms unfolding search_def seg_uend_def by (simp add: seg_exp_def)

lemma seg_exp_pos: "1 \<le> seg_exp p" by (simp add: seg_exp_def)

lemma alaw_mag_mid:
  assumes "0 \<le> p" "p < 4096"
  shows "alaw_mag (search p seg_aend) (alaw_quant p) = 4 * cell_mid p"
proof (cases "p < 32")
  case True
  then show ?thesis using assms
    by (simp add: alaw_mag_def alaw_quant_def search_aend_exp seg_exp_def cell_mid_def)
next
  case False
  with assms have q: "int (alaw_quant p) = p div 2 ^ seg_exp p - 16"
    unfolding alaw_quant_def search_aend_exp(1) [OF assms] by (intro quant_high) simp_all
  obtain e where e: "seg_exp p = Suc e" using seg_exp_pos [of p] by (cases "seg_exp p") simp_all
  have "2 ^ e * (16 * (z - 16) + 264) = 4 * (2 ^ (Suc e + 1) * z + 2 ^ Suc e)" for z :: int
    by (simp add: algebra_simps)
  with False assms q e show ?thesis by (simp add: alaw_mag_def search_aend_exp cell_mid_def)
qed

lemma ulaw_mag_mid:
  assumes "32 \<le> p" "p < 8192"
  shows "ulaw_mag (search p seg_uend) (ulaw_quant p) = 2 * cell_mid p - 132"
proof -
  have s: "search p seg_uend = seg_exp p - 1" using search_uend_exp [OF assms] by simp
  have "int (ulaw_quant p) = p div 2 ^ seg_exp p - 16"
    using quant_high [OF assms] by (simp only: ulaw_quant_def search_uend_exp [OF assms])
  moreover obtain e where "seg_exp p = Suc e" using seg_exp_pos [of p] by (cases "seg_exp p") simp_all
  moreover have "2 ^ e * (8 * (z - 16) + 132) - 132 = 2 * (2 ^ (Suc e + 1) * z + 2 ^ Suc e) - 132" for z :: int and e :: nat
    by (simp add: algebra_simps)
  ultimately show ?thesis by (simp add: ulaw_mag_def s cell_mid_def)
qed

lemma int_and_0xf: "(x :: int) AND 0xf = x mod 16"
proof -
  have m: "(15 :: int) = mask 4" by (simp add: mask_eq_exp_minus_1)
  have "x AND 0xf = take_bit 4 x" by (simp only: m take_bit_eq_mask)
  then show ?thesis by (simp only: take_bit_eq_mod) simp
qed

lemma enc_int: "word_of_int (drop_bit k p AND 0xf) = (word_of_nat (nat (p div 2 ^ k mod 16)) :: u8)"
  by (simp only: int_and_0xf drop_bit_eq_div, rule word_of_int_nat) simp

lemma linear2alaw_code:
  assumes "- 32768 \<le> x" "x \<le> 32767"
  defines "p \<equiv> (if 0 \<le> x then x div 8 else (- x - 1) div 8)"
  shows "linear2alaw x = g711_code (search p seg_aend) (alaw_quant p) (if 0 \<le> x then 0xD5 else 0x55)"
    and "0 \<le> p" "p \<le> 4095" "search p seg_aend < 8" "alaw_quant p < 16"
proof -
  have drop: "drop_bit 3 x = x div 8" by (simp add: drop_bit_eq_div)
  have neg: "- (x div 8) - 1 = (- x - 1) div 8" by presburger
  have sgn: "0 \<le> x div 8 \<longleftrightarrow> 0 \<le> x" by presburger
  show p: "0 \<le> p" "p \<le> 4095" using assms by (auto simp: p_def)
  then show s: "search p seg_aend < 8" by (simp add: search_def seg_aend_def)
  show "alaw_quant p < 16" by (auto simp: alaw_quant_def nat_less_iff)
  show "linear2alaw x = g711_code (search p seg_aend) (alaw_quant p) (if 0 \<le> x then 0xD5 else 0x55)"
  proof (cases "0 \<le> x")
    case True
    then show ?thesis using s
      by (simp add: linear2alaw_def drop sgn p_def g711_code_def alaw_quant_def Let_def enc_int [of _ "x div 8"])
  next
    case False
    then show ?thesis using s
      by (simp add: linear2alaw_def drop sgn neg p_def g711_code_def alaw_quant_def Let_def enc_int [of _ "(- x - 1) div 8"])
  qed
qed

lemma alaw2linear_code:
  assumes "s < 8" "q < 16"
  shows "alaw2linear (g711_code s q 0xD5) = alaw_mag s q" "alaw2linear (g711_code s q 0x55) = - alaw_mag s q"
  using less_8_cases [OF assms(1)] less_16_cases [OF assms(2)]
  by (elim disjE; simp add: alaw2linear_def g711_code_def alaw_mag_def)+

lemma ulaw2linear_code:
  assumes "s < 8" "q < 16"
  shows "ulaw2linear (g711_code s q 0xFF) = ulaw_mag s q" 
  using less_8_cases [OF assms(1)] less_16_cases [OF assms(2)]
  by (elim disjE; simp add: ulaw2linear_def g711_code_def ulaw_mag_def)

lemma ulaw2linear_code2:
  assumes "s < 8" "q < 16"
  shows "ulaw2linear (g711_code s q 0x7F) = - ulaw_mag s q"
  using less_8_cases [OF assms(1)] less_16_cases [OF assms(2)]
  by (elim disjE; simp add: ulaw2linear_def g711_code_def ulaw_mag_def mask_eq_exp_minus_1)

text \<open>
  The biased magnitude of a sample. The code clips to 8159 and adds 33, so a sample of
  magnitude 32636 or more reaches 8192, is not found by \<open>search\<close> and gets the last code;
  that is the code of 8191.
\<close>

definition ulaw_biased :: "int \<Rightarrow> int" where
  "ulaw_biased x = min 8158 (if x < 0 then - (x div 4) else x div 4) + 33"

lemma ulaw_biased_range: "33 \<le> ulaw_biased x" "ulaw_biased x < 8192"
  by (auto simp: ulaw_biased_def min_def)

lemma linear2ulaw_code:
  "linear2ulaw x = g711_code (search (ulaw_biased x) seg_uend) (ulaw_quant (ulaw_biased x))
     (if 0 \<le> x then 0xFF else 0x7F)"
proof -
  define m where "m = (if x < 0 then - (x div 4) else x div 4)"
  define b where "b = (if 8159 < m then 8159 else m) + 33"
  have drop: "drop_bit 2 x = x div 4" by (simp add: drop_bit_eq_div)
  have sgn: "x div 4 < 0 \<longleftrightarrow> x < 0" by presburger
  have code: "linear2ulaw x = (if 8 \<le> search b seg_uend then word_of_int (0x7F XOR (if x < 0 then 0x7F else 0xFF))
     else (push_bit 4 (word_of_nat (search b seg_uend)) OR word_of_int (drop_bit (search b seg_uend + 1) b AND 0xF))
       XOR word_of_int (if x < 0 then 0x7F else 0xFF))"
    by (simp add: linear2ulaw_def drop sgn Let_def b_def m_def)
  show ?thesis
  proof (cases "m < 8159")
    case True
    then have b: "b = ulaw_biased x" by (simp add: b_def ulaw_biased_def m_def)
    then have "search b seg_uend < 8" using ulaw_biased_range [of x] by (simp add: search_def seg_uend_def)
    then show ?thesis unfolding code enc_int by (simp add: b g711_code_def ulaw_quant_def)
  next
    case False
    then have "b = 8192" "ulaw_biased x = 8191" by (simp_all add: b_def ulaw_biased_def m_def)
    moreover have "search 8192 seg_uend = 8" "search 8191 seg_uend = 7" by (simp_all add: search_def seg_uend_def)
    ultimately show ?thesis unfolding code by (simp add: ulaw_quant_def g711_code_def)
  qed
qed

lemma alaw_mag_code:
  assumes "s < 8" "q < 16"
  shows "search (alaw_mag s q div 8) seg_aend = s \<and> search ((alaw_mag s q - 1) div 8) seg_aend = s"
    "alaw_quant (alaw_mag s q div 8) = q \<and> alaw_quant ((alaw_mag s q - 1) div 8) = q"
    "0 < alaw_mag s q \<and> alaw_mag s q \<le> 32256"
  using less_8_cases [OF assms(1)] less_16_cases [OF assms(2)]
  by (elim disjE; simp add: alaw_mag_def alaw_quant_def search_def seg_aend_def)+

lemma ulaw_mag_code:
  assumes "s < 8" "q < 16"
  shows "search (ulaw_mag s q div 4 + 33) seg_uend = s" "ulaw_quant (ulaw_mag s q div 4 + 33) = q"
    and "0 \<le> ulaw_mag s q" "ulaw_mag s q \<le> 32124" "4 dvd ulaw_mag s q" "ulaw_mag s q = 0 \<longleftrightarrow> s = 0 \<and> q = 0"
  using less_8_cases [OF assms(1)] less_16_cases [OF assms(2)]
  by (elim disjE; simp add: ulaw_mag_def ulaw_quant_def search_def seg_uend_def)+

text \<open>What a coded sample decodes to.\<close>

lemma alaw_requantised:
  assumes "- 32768 \<le> x" "x \<le> 32767"
  shows "alaw2linear (linear2alaw x)
    = (if 0 \<le> x then 4 * cell_mid (x div 8) else - (4 * cell_mid ((- x - 1) div 8)))"
  using linear2alaw_code [OF assms] alaw2linear_code alaw_mag_mid
  by (cases "0 \<le> x") simp_all

lemma ulaw_requantised:
  "ulaw2linear (linear2ulaw x)
    = (if 0 \<le> x then 2 * cell_mid (ulaw_biased x) - 132 else 132 - 2 * cell_mid (ulaw_biased x))"
proof -
  have r: "32 \<le> ulaw_biased x" "ulaw_biased x < 8192" using ulaw_biased_range [of x] by simp_all
  have s: "search (ulaw_biased x) seg_uend < 8" using r by (simp add: search_def seg_uend_def)
  have q: "ulaw_quant (ulaw_biased x) < 16" by (auto simp: ulaw_quant_def nat_less_iff)
  show ?thesis
    using ulaw2linear_code [OF s q] ulaw2linear_code2 [OF s q] ulaw_mag_mid [OF r]
    by (simp add: linear2ulaw_code)
qed

text \<open>Every octet is the code of a segment and a step with one of the two masks.\<close>

lemma g711_code_xor: "g711_code s q m XOR k = g711_code s q (m XOR k)"
  by (simp add: g711_code_def xor.assoc)

lemma alaw_octet:
  obtains s q where "s < 8" "q < 16" "a = g711_code s q 0xD5" | s q where "s < 8" "q < 16" "a = g711_code s q 0x55"
proof -
  obtain b s q where sq: "s < 8" "q < 16" and a: "a XOR 0x55 = g711_code s q (if b then 0x80 else 0)"
    using u8_split [of "a XOR 0x55"] by blast
  from a have "a = g711_code s q (if b then 0x80 else 0) XOR 0x55" by (simp add: xor.assoc flip: a)
  then have "a = g711_code s q (if b then 0xD5 else 0x55)" by (simp add: g711_code_xor)
  then show thesis using that sq by (cases b) simp_all
qed

lemma ulaw_octet:
  obtains s q where "s < 8" "q < 16" "u = g711_code s q 0xFF" | s q where "s < 8" "q < 16" "u = g711_code s q 0x7F"
proof -
  obtain b s q where sq: "s < 8" "q < 16" and a: "u XOR 0x7F = g711_code s q (if b then 0x80 else 0)"
    using u8_split [of "u XOR 0x7F"] by blast
  from a have "u = g711_code s q (if b then 0x80 else 0) XOR 0x7F" by (simp add: xor.assoc flip: a)
  then have "u = g711_code s q (if b then 0xFF else 0x7F)" by (simp add: g711_code_xor)
  then show thesis using that sq by (cases b) simp_all
qed

section \<open>Companding interface\<close>

text \<open>
  What the coders of a session rely on: \<open>dec\<close> gives 16-bit samples, encoding a decoded
  octet gives its canonical octet \<open>canon\<close>, which decodes to the same sample, and a sample
  that is coded and decoded stays in order with the others and within the tolerance
  \<open>tol\<close>. From these laws a signal that has been through the codec once is not changed by
  going through it again.
\<close>

locale companding =
  fixes enc :: "int \<Rightarrow> u8" and dec :: "u8 \<Rightarrow> int" and canon :: "u8 \<Rightarrow> u8" and tol :: "int \<Rightarrow> int"
  assumes dec_range: "- 32768 \<le> dec c \<and> dec c \<le> 32767"
    and enc_dec: "enc (dec c) = canon c"
    and dec_canon: "dec (canon c) = dec c"
    and requant_mono: "- 32768 \<le> x \<Longrightarrow> x \<le> y \<Longrightarrow> y \<le> 32767 \<Longrightarrow> dec (enc x) \<le> dec (enc y)"
    and requant_near: "- 32768 \<le> x \<Longrightarrow> x \<le> 32767 \<Longrightarrow> \<bar>dec (enc x) - x\<bar> \<le> tol x"
begin

lemma requant_idem: "dec (enc (dec (enc x))) = dec (enc x)"
  by (simp add: enc_dec dec_canon)

lemma canon_idem: "canon (canon c) = canon c"
  using enc_dec [of "canon c"] by (simp add: dec_canon enc_dec)

lemma requant_fixpoint: "dec (enc x) = x \<longleftrightarrow> x \<in> range dec"
  by (metis dec_canon enc_dec rangeE rangeI)

lemma enc_image: "enc ` range dec = range canon"
  by (simp add: image_image enc_dec)

lemma block_stable: "map (dec \<circ> enc) (map dec cs) = map dec cs"
  by (simp add: enc_dec dec_canon)

lemma order_kept:
  assumes "\<forall>x \<in> set xs. - 32768 \<le> x \<and> x \<le> 32767" "sorted xs"
  shows "sorted (map (dec \<circ> enc) xs)"
  using assms by (auto simp: sorted_map intro!: sorted_wrt_mono_rel [of xs "(\<le>)"] requant_mono)

end

lemma alaw_roundtrip_aux: "linear2alaw (alaw2linear a) = a"
proof (rule alaw_octet [of a])
  fix s q assume sq: "s < 8" "q < 16" and a: "a = g711_code s q 0xD5"
  then show ?thesis
    using alaw_mag_code [OF sq] linear2alaw_code(1) [of "alaw_mag s q"] by (simp add: alaw2linear_code)
next
  fix s q assume sq: "s < 8" "q < 16" and a: "a = g711_code s q 0x55"
  then show ?thesis
    using alaw_mag_code [OF sq] linear2alaw_code(1) [of "- alaw_mag s q"] by (simp add: alaw2linear_code)
qed

lemma ulaw_roundtrip_aux: "linear2ulaw (ulaw2linear u) = (if u = 0x7F then 0xFF else u)"
proof (rule ulaw_octet [of u])
  fix s q assume sq: "s < 8" "q < 16" and u: "u = g711_code s q 0xFF"
  have "u \<noteq> 0x7F" using u sq less_8_cases [OF sq(1)] less_16_cases [OF sq(2)]
    by (elim disjE; simp add: g711_code_def)
  moreover have "ulaw_biased (ulaw_mag s q) = ulaw_mag s q div 4 + 33"
    using ulaw_mag_code [OF sq] by (simp add: ulaw_biased_def)
  ultimately show ?thesis using ulaw_mag_code [OF sq] by (simp add: u ulaw2linear_code sq linear2ulaw_code)
next
  fix s q assume sq: "s < 8" "q < 16" and u: "u = g711_code s q 0x7F"
  have z: "u = 0x7F \<longleftrightarrow> s = 0 \<and> q = 0" using u sq less_8_cases [OF sq(1)] less_16_cases [OF sq(2)]
    by (elim disjE; simp add: g711_code_def)
  have b: "ulaw_biased (- ulaw_mag s q) = ulaw_mag s q div 4 + 33"
    using ulaw_mag_code [OF sq] by (auto simp: ulaw_biased_def min_def elim!: dvdE)
  show ?thesis
  proof (cases "s = 0 \<and> q = 0")
    case True
    then have "ulaw2linear u = 0" using ulaw_mag_code(6) [OF sq] sq by (simp add: u ulaw2linear_code2)
    moreover have "linear2ulaw 0 = 0xFF" by (simp add: linear2ulaw_def search_def seg_uend_def)
    ultimately show ?thesis using z True by simp
  next
    case False
    then show ?thesis using z ulaw_mag_code [OF sq] b
      by (auto simp: u ulaw2linear_code2 sq linear2ulaw_code)
  qed
qed

lemma alaw_requant_near:
  assumes "- 32768 \<le> x" "x \<le> 32767"
  shows "\<bar>alaw2linear (linear2alaw x) - x\<bar> \<le> max 8 (\<bar>x\<bar> div 32)"
proof -
  define m where "m = (if 0 \<le> x then x else - x - 1)"
  define p where "p = m div 8"
  have m: "0 \<le> m" "m \<le> 32767" using assms by (auto simp: m_def)
  have p: "8 * p \<le> m" "m \<le> 8 * p + 7" "0 \<le> p" "p < 8192"
    using int_div_bounds [of 8 m] m by (simp_all add: p_def)
  have err: "\<bar>4 * cell_mid p - m\<bar> \<le> 4 * 2 ^ seg_exp p" "4 * cell_mid p - m \<le> 4 * 2 ^ seg_exp p"
     "m + 1 - 4 * cell_mid p \<le> 4 * 2 ^ seg_exp p"
    using cell_mid_near [of p] p by linarith+
  then have near: "\<bar>alaw2linear (linear2alaw x) - x\<bar> \<le> 4 * 2 ^ seg_exp p"
    unfolding alaw_requantised [OF assms] p_def m_def by (cases "0 \<le> x"; simp; linarith)
  show ?thesis
  proof (cases "p < 64")
    case True
    then have "4 * 2 ^ seg_exp p = (8 :: int)" by (simp add: seg_exp_def)
    with near show ?thesis by simp
  next
    case False
    then have "16 * 2 ^ seg_exp p \<le> p" using seg_exp_range p by simp
    then have "128 * 2 ^ seg_exp p \<le> \<bar>x\<bar>" using p(1) by (auto simp: m_def split: if_splits)
    then have "4 * 2 ^ seg_exp p \<le> \<bar>x\<bar> div 32" by (intro div_lower) simp_all
    with near show ?thesis by simp
  qed
qed

lemma scaled_abs_le: "32 * e \<le> y \<Longrightarrow> - (32 * e) \<le> y \<Longrightarrow> 32 * \<bar>e\<bar> \<le> (y :: int)"
  by (simp add: abs_if)

lemma scaled_div_le: "32 * e \<le> y + 231 \<Longrightarrow> e \<le> y div 32 + (8 :: int)"
  by presburger

lemma ulaw_requant_near:
  assumes "- 32768 \<le> x" "x \<le> 32767"
  shows "\<bar>ulaw2linear (linear2ulaw x) - x\<bar> \<le> \<bar>x\<bar> div 32 + 8"
proof (cases "ulaw_biased x = 8191")
  case True
  have "cell_mid 8191 = 16128" by (simp add: cell_mid_def seg_exp_def)
  moreover have "x \<le> - 32629 \<or> 32632 \<le> x" using True by (auto simp: ulaw_biased_def min_def split: if_splits)
  then have "1019 \<le> \<bar>x\<bar> div 32" by (intro div_lower) auto
  ultimately show ?thesis using assms \<open>x \<le> - 32629 \<or> 32632 \<le> x\<close> by (auto simp: ulaw_requantised True)
next
  case False
  define b where "b = ulaw_biased x"
  have r: "33 \<le> b" "b < 8192" using ulaw_biased_range by (simp_all add: b_def)
  then have d: "16 * 2 ^ seg_exp b \<le> b" using seg_exp_range [of b] by simp
  have b: "b = (if x < 0 then - (x div 4) else x div 4) + 33"
    using False by (auto simp: b_def ulaw_biased_def min_def split: if_splits)
  then have x: "0 \<le> x \<Longrightarrow> 4 * b - 132 \<le> x \<and> x \<le> 4 * b - 129" "x < 0 \<Longrightarrow> 132 - 4 * b \<le> x \<and> x \<le> 135 - 4 * b"
    using int_div_bounds [of 4 x] by auto
  have "32 * \<bar>ulaw2linear (linear2ulaw x) - x\<bar> \<le> \<bar>x\<bar> + 231"
  proof (cases "0 \<le> x")
    case True
    then have "ulaw2linear (linear2ulaw x) = 2 * cell_mid b - 132" by (simp add: ulaw_requantised b_def)
    moreover have "32 * \<bar>2 * cell_mid b - 132 - x\<bar> \<le> x + 231"
      by (rule scaled_abs_le; use x(1) [OF True] cell_mid_near [of b] d in \<open>simp add: algebra_simps\<close>)
    ultimately show ?thesis using True by simp
  next
    case False
    then have "ulaw2linear (linear2ulaw x) = 132 - 2 * cell_mid b" by (simp add: ulaw_requantised b_def)
    moreover have "32 * \<bar>132 - 2 * cell_mid b - x\<bar> \<le> 231 - x"
      by (rule scaled_abs_le; use x(2) False cell_mid_near [of b] d in \<open>simp add: algebra_simps\<close>)
    ultimately show ?thesis using False by simp
  qed
  then show ?thesis by (rule scaled_div_le)
qed

lemma alaw_requant_mono:
  assumes "- 32768 \<le> x" "x \<le> y" "y \<le> 32767"
  shows "alaw2linear (linear2alaw x) \<le> alaw2linear (linear2alaw y)"
proof -
  have x: "alaw2linear (linear2alaw x) = (if 0 \<le> x then 4 * cell_mid (x div 8) else - (4 * cell_mid ((- x - 1) div 8)))"
    and y: "alaw2linear (linear2alaw y) = (if 0 \<le> y then 4 * cell_mid (y div 8) else - (4 * cell_mid ((- y - 1) div 8)))"
    using assms by (simp_all only: alaw_requantised order.trans)
  have pos: "0 \<le> cell_mid p" if "0 \<le> p" for p using that by (simp add: cell_mid_def pos_imp_zdiv_nonneg_iff)
  show ?thesis
    using assms cell_mid_mono [of "x div 8" "y div 8"] cell_mid_mono [of "(- y - 1) div 8" "(- x - 1) div 8"]
      zdiv_mono1 [of x y 8] zdiv_mono1 [of "- y - 1" "- x - 1" 8]
      pos [of "y div 8"] pos [of "(- x - 1) div 8"]
    by (auto simp: x y pos_imp_zdiv_nonneg_iff)
qed

lemma ulaw_requant_mono:
  assumes "x \<le> y"
  shows "ulaw2linear (linear2ulaw x) \<le> ulaw2linear (linear2ulaw y)"
proof -
  have b: "0 \<le> x \<Longrightarrow> ulaw_biased x \<le> ulaw_biased y" "y < 0 \<Longrightarrow> ulaw_biased y \<le> ulaw_biased x"
    using assms zdiv_mono1 [of x y 4] by (auto simp: ulaw_biased_def)
  have low: "132 \<le> 2 * cell_mid (ulaw_biased z)" for z
    using cell_mid_mono [of 33 "ulaw_biased z"] ulaw_biased_range [of z] by (simp add: cell_mid_def seg_exp_def)
  show ?thesis
    using assms b cell_mid_mono [of "ulaw_biased x" "ulaw_biased y"] cell_mid_mono [of "ulaw_biased y" "ulaw_biased x"]
      ulaw_biased_range [of x] ulaw_biased_range [of y] low [of x] low [of y]
    by (auto simp: ulaw_requantised)
qed

lemma alaw2linear_range: "- 32768 \<le> alaw2linear a \<and> alaw2linear a \<le> 32767"
proof (rule alaw_octet [of a])
qed (use alaw_mag_code(3) in \<open>force simp: alaw2linear_code\<close>)+

lemma ulaw2linear_range: "- 32768 \<le> ulaw2linear u \<and> ulaw2linear u \<le> 32767"
proof (rule ulaw_octet [of u])
qed (use ulaw_mag_code(3,4) in \<open>force simp: ulaw2linear_code ulaw2linear_code2\<close>)+

interpretation alaw: companding linear2alaw alaw2linear id "\<lambda>x. max 8 (\<bar>x\<bar> div 32)"
  by unfold_locales
    (simp_all add: alaw_roundtrip_aux alaw_requant_mono alaw_requant_near alaw2linear_range)

interpretation ulaw: companding linear2ulaw ulaw2linear "\<lambda>u. if u = 0x7F then 0xFF else u"
    "\<lambda>x. \<bar>x\<bar> div 32 + 8"
  by unfold_locales
    (simp_all add: ulaw_roundtrip_aux ulaw_requant_mono ulaw_requant_near ulaw2linear_range,
     simp add: ulaw2linear_def)

section \<open>Direct conversions\<close>

lemma ulaw2alaw_code:
  assumes "s < 8" "q < 16"
  shows "ulaw2alaw (g711_code s q 0xFF) = Inr (word_of_nat (u2a_table ! (16 * s + q) - 1) XOR 0xD5)"
    and "ulaw2alaw (g711_code s q 0x7F) = Inr (word_of_nat (u2a_table ! (16 * s + q) - 1) XOR 0x55)"
  using less_8_cases [OF assms(1)] less_16_cases [OF assms(2)]
  by (elim disjE; simp add: g711_code_def ulaw2alaw_def u2a_table_def)+

lemma alaw2ulaw_code:
  assumes "s < 8" "q < 16"
  shows "alaw2ulaw (g711_code s q 0xD5) = Inr (word_of_nat (a2u_table ! (16 * s + q)) XOR 0xFF)"
    and "alaw2ulaw (g711_code s q 0x55) = Inr (word_of_nat (a2u_table ! (16 * s + q)) XOR 0x7F)"
  using less_8_cases [OF assms(1)] less_16_cases [OF assms(2)]
  by (elim disjE; simp add: g711_code_def alaw2ulaw_def a2u_table_def)+

lemma u2a_near:
  assumes "s < 8" "q < 16"
  shows "\<bar>alaw2linear (word_of_nat (u2a_table ! (16 * s + q) - 1) XOR 0xD5) - ulaw_mag s q\<bar> \<le> 132"
    and "\<bar>alaw2linear (word_of_nat (u2a_table ! (16 * s + q) - 1) XOR 0x55) + ulaw_mag s q\<bar> \<le> 132"
  using less_8_cases [OF assms(1)] less_16_cases [OF assms(2)]
  by (elim disjE; simp add: ulaw_mag_def u2a_table_def alaw2linear_def)+

lemma a2u_near:
  assumes "s < 8" "q < 16"
  shows "\<bar>ulaw2linear (word_of_nat (a2u_table ! (16 * s + q)) XOR 0xFF) - alaw_mag s q\<bar> \<le> 132"
    and "\<bar>ulaw2linear (word_of_nat (a2u_table ! (16 * s + q)) XOR 0x7F) + alaw_mag s q\<bar> \<le> 132"
  using less_8_cases [OF assms(1)] less_16_cases [OF assms(2)]
  by (elim disjE; simp add: alaw_mag_def a2u_table_def ulaw2linear_def mask_eq_exp_minus_1)+

lemma ulaw2alaw_near: "\<exists>a. ulaw2alaw u = Inr a \<and> \<bar>alaw2linear a - ulaw2linear u\<bar> \<le> 132"
  by (rule ulaw_octet [of u])
    (simp_all add: ulaw2alaw_code ulaw2linear_code ulaw2linear_code2 u2a_near [unfolded One_nat_def])

lemma alaw2ulaw_near: "\<exists>u. alaw2ulaw a = Inr u \<and> \<bar>ulaw2linear u - alaw2linear a\<bar> \<le> 132"
  by (rule alaw_octet [of a]) (simp_all add: alaw2ulaw_code alaw2linear_code a2u_near)

section \<open>Properties\<close>

text \<open>C23. Every octet of either law survives decoding and encoding, except that the two codes of zero in
  u-law, 0x7F and 0xFF, both become 0xFF: the encoders waste no code, and the decoders merge none.\<close>

theorem law_roundtrip:
  "linear2alaw (alaw2linear a) = a \<and> linear2ulaw (ulaw2linear u) = (if u = 0x7F then 0xFF else u)"
  using alaw.enc_dec [of a] ulaw.enc_dec [of u] by simp

text \<open>C22. A 16-bit sample that is coded and decoded keeps its order with every other sample
  and moves by at most a 32nd of its magnitude (and 8 steps near zero): the segments, the
  clipping and the bias of both encoders agree with their decoders on all 65536 samples.\<close>

theorem g711_requantisation:
  assumes "- 32768 \<le> x" "x \<le> y" "y \<le> 32767"
  shows "\<bar>alaw2linear (linear2alaw x) - x\<bar> \<le> max 8 (\<bar>x\<bar> div 32) \<and>
    \<bar>ulaw2linear (linear2ulaw x) - x\<bar> \<le> \<bar>x\<bar> div 32 + 8 \<and>
    alaw2linear (linear2alaw x) \<le> alaw2linear (linear2alaw y) \<and>
    ulaw2linear (linear2ulaw x) \<le> ulaw2linear (linear2ulaw y)"
  using assms alaw.requant_near ulaw.requant_near alaw.requant_mono ulaw.requant_mono by simp

theorem g711_requantisation_witness:
  "(- 20000 :: int) \<le> 1000 \<and> \<bar>alaw2linear (linear2alaw (- 20000)) - (- 20000)\<bar> \<le> 625"
  using g711_requantisation [of "- 20000" 1000] by simp

text \<open>The direct conversions between the laws never index outside their tables, and the
  sample they stand for moves by at most 132, the distance of two codes that have no
  common neighbour in the coarsest cells.\<close>

lemma g711_direct_conversion:
  "\<exists>a' u'. ulaw2alaw u = Inr a' \<and> \<bar>alaw2linear a' - ulaw2linear u\<bar> \<le> 132 \<and>
     alaw2ulaw a = Inr u' \<and> \<bar>ulaw2linear u' - alaw2linear a\<bar> \<le> 132"
  using ulaw2alaw_near [of u] alaw2ulaw_near [of a] by blast

end
