(* ===== verification/Sphone_Lib.thy ===== *)
theory Sphone_Lib
  imports Sphone_Base "HOL-Library.Product_Lexorder"
begin

text \<open>
  The time and size arithmetic of \<open>src/sphone_lib.c\<close>, the \<open>timeradd\<close> and \<open>timersub\<close>
  macros of \<open>include/sphone.h\<close>, and the hash \<open>md_32\<close>. The order on time values is the
  one \<open>timercmp\<close> gives the event loop.
\<close>

section \<open>Time values\<close>

record timeval =
  tv_sec :: int
  tv_usec :: int

abbreviation tv :: "int \<Rightarrow> int \<Rightarrow> timeval" where
  "tv s u \<equiv> \<lparr>tv_sec = s, tv_usec = u\<rparr>"

instantiation timeval_ext :: (linorder) linorder
begin

definition less_eq_timeval_ext :: "'a timeval_scheme \<Rightarrow> 'a timeval_scheme \<Rightarrow> bool" where
  "a \<le> b \<longleftrightarrow> (tv_sec a, tv_usec a, timeval.more a) \<le> (tv_sec b, tv_usec b, timeval.more b)"

definition less_timeval_ext :: "'a timeval_scheme \<Rightarrow> 'a timeval_scheme \<Rightarrow> bool" where
  "a < b \<longleftrightarrow> (tv_sec a, tv_usec a, timeval.more a) < (tv_sec b, tv_usec b, timeval.more b)"

instance
  by standard (auto simp: less_eq_timeval_ext_def less_timeval_ext_def)

end

lemma timeval_less:
  fixes a b :: timeval
  shows "a < b \<longleftrightarrow> (if tv_sec a = tv_sec b then tv_usec a < tv_usec b else tv_sec a < tv_sec b)"
  by (auto simp: less_timeval_ext_def)

lemma timeval_le:
  fixes a b :: timeval
  shows "a \<le> b \<longleftrightarrow> (if tv_sec a = tv_sec b then tv_usec a \<le> tv_usec b else tv_sec a \<le> tv_sec b)"
  by (auto simp: less_eq_timeval_ext_def)

definition timevalfix :: "timeval \<Rightarrow> timeval" where
  "timevalfix t =
    (let t = (if tv_usec t < 0 then tv (tv_sec t - 1) (tv_usec t + 1000000) else t)
     in if 1000000 \<le> tv_usec t then tv (tv_sec t + 1) (tv_usec t - 1000000) else t)"

definition timevaladd :: "timeval \<Rightarrow> timeval \<Rightarrow> timeval" where
  "timevaladd t1 t2 = timevalfix (tv (tv_sec t1 + tv_sec t2) (tv_usec t1 + tv_usec t2))"

definition timevalsub :: "timeval \<Rightarrow> timeval \<Rightarrow> timeval" where
  "timevalsub t1 t2 = timevalfix (tv (tv_sec t1 - tv_sec t2) (tv_usec t1 - tv_usec t2))"

definition timeradd :: "timeval \<Rightarrow> timeval \<Rightarrow> timeval" where
  "timeradd t u =
    (let s = tv_sec t + tv_sec u; us = tv_usec t + tv_usec u
     in if 1000000 \<le> us then tv (s + 1) (us - 1000000) else tv s us)"

definition timersub :: "timeval \<Rightarrow> timeval \<Rightarrow> timeval" where
  "timersub t u =
    (let s = tv_sec t - tv_sec u; us = tv_usec t - tv_usec u
     in if us < 0 then tv (s - 1) (us + 1000000) else tv s us)"

text \<open>A normal time value has its microseconds in range; \<open>tv_us\<close> is the exact number of
  microseconds it stands for, which is what \<open>timeval2usec\<close> returns while a \<open>double\<close>
  holds it exactly.\<close>

definition tv_norm :: "timeval \<Rightarrow> bool" where
  "tv_norm t \<longleftrightarrow> 0 \<le> tv_usec t \<and> tv_usec t < 1000000"

definition tv_us :: "timeval \<Rightarrow> int" where
  "tv_us t = tv_sec t * 1000000 + tv_usec t"

lemmas tv_defs = timevaladd_def timevalsub_def timevalfix_def timeradd_def timersub_def
  tv_norm_def tv_us_def Let_def

lemma tv_us_fix: "tv_us (timevalfix t) = tv_us t"
  by (simp add: tv_defs)

lemma tv_us_add [simp]: "tv_us (timevaladd a b) = tv_us a + tv_us b" "tv_us (timeradd a b) = tv_us a + tv_us b"
  by (simp_all add: tv_defs)

lemma tv_us_sub [simp]: "tv_us (timevalsub a b) = tv_us a - tv_us b" "tv_us (timersub a b) = tv_us a - tv_us b"
  by (simp_all add: tv_defs)

lemma tv_norm_fix: "- 1000000 \<le> tv_usec t \<Longrightarrow> tv_usec t < 2000000 \<Longrightarrow> tv_norm (timevalfix t)"
  by (auto simp: tv_defs)

lemma tv_norm_ops [inv_intros]:
  assumes "tv_norm a" "tv_norm b"
  shows "tv_norm (timevaladd a b)" "tv_norm (timevalsub a b)" "tv_norm (timeradd a b)" "tv_norm (timersub a b)"
  using assms by (auto simp: tv_defs)

lemma tv_us_order:
  assumes "tv_norm a" "tv_norm b"
  shows "a < b \<longleftrightarrow> tv_us a < tv_us b" "a \<le> b \<longleftrightarrow> tv_us a \<le> tv_us b"
  using assms by (auto simp: timeval_less timeval_le tv_norm_def tv_us_def)

lemma tv_us_inj: "tv_norm a \<Longrightarrow> tv_norm b \<Longrightarrow> tv_us a = tv_us b \<Longrightarrow> a = b"
  using tv_us_order [of a b] tv_us_order [of b a] by auto

section \<open>Packet sizes\<close>

text \<open>All arithmetic is on 32-bit unsigned words; the \<open>uint8_t\<close> channel count is promoted.\<close>

definition ms2bytes :: "u32 \<Rightarrow> u32 \<Rightarrow> u8 \<Rightarrow> u32 \<Rightarrow> u32" where
  "ms2bytes samp_sec bits_samp channels ms = (samp_sec * bits_samp * ucast channels * ms) div 8000"

definition bytes2ms :: "u32 \<Rightarrow> u32 \<Rightarrow> u8 \<Rightarrow> u32 \<Rightarrow> u32 res" where
  "bytes2ms samp_sec bits_samp channels bs =
    (if samp_sec * bits_samp * ucast channels = 0 then Inl Div_By_Zero
     else Inr (bs * 8000 div (samp_sec * bits_samp * ucast channels)))"

definition bytes2samples :: "u32 \<Rightarrow> u32 \<Rightarrow> u8 \<Rightarrow> u32 res" where
  "bytes2samples bits_samp bs channels =
    (if bits_samp * ucast channels = 0 then Inl Div_By_Zero
     else Inr (bs * 8 div (bits_samp * ucast channels)))"

lemma u32_mult_exact:
  fixes a b :: u32
  assumes "unat a * unat b < 2 ^ 32"
  shows "unat (a * b) = unat a * unat b"
  using assms by (simp add: unat_word_ariths)

section \<open>The 32-bit hash\<close>

text \<open>
  \<open>digest\<close> is a local union that the code never initialises: its first contents are a
  parameter. The three-word fold of the last loop leaves out the bytes 12 to 15.
\<close>

definition md_xor :: "bytes \<Rightarrow> bytes \<Rightarrow> nat \<Rightarrow> bytes" where
  "md_xor s c i = c[i mod 16 := c ! (i mod 16) XOR s ! i]"

definition md_32 :: "bytes \<Rightarrow> bytes \<Rightarrow> u32" where
  "md_32 digest s =
    (let c = foldl (md_xor s) digest [0..<length s]
     in foldl (\<lambda>r i. r XOR load32 (take 4 (drop (4 * i) c))) 0 [0..<3])"

section \<open>Properties\<close>

text \<open>On normal time values (microseconds in 0..999999) addition and subtraction are exact,
  their results are normal again, the macros and the functions agree, subtraction undoes
  addition, and the comparison of the event loop is the comparison of the instants.\<close>

lemma timeval_arith:
  assumes "tv_norm a" "tv_norm b"
  shows "tv_norm (timevaladd a b) \<and> tv_norm (timevalsub a b) \<and>
    tv_us (timevaladd a b) = tv_us a + tv_us b \<and> tv_us (timevalsub a b) = tv_us a - tv_us b \<and>
    timeradd a b = timevaladd a b \<and> timersub a b = timevalsub a b \<and>
    timevalsub (timevaladd a b) b = a \<and> (a < b \<longleftrightarrow> tv_us (timersub a b) < 0)"
  using assms by (auto simp: tv_norm_ops tv_us_order intro!: tv_us_inj)

lemma timeval_arith_witness:
  "timeradd (tv 5 999999) (tv 0 2) = tv 6 1 \<and> timersub (tv 6 1) (tv 0 2) = tv 5 999999"
proof -
  have "tv_norm (tv 5 999999)" "tv_norm (tv 0 2)" by (simp_all add: tv_norm_def)
  from timeval_arith [OF this] show ?thesis by (simp add: tv_defs)
qed

text \<open>A number of milliseconds turned into bytes and back is unchanged when a millisecond is
  a whole number of bytes and nothing overflows 32 bits, which covers every coding of the
  program (8 or 16 bits, 8000 samples per second, one or two channels).\<close>

lemma ms_bytes_roundtrip:
  assumes "unat samp * unat bits * unat ch * unat ms < 2 ^ 32" "unat samp * unat bits * unat ch < 2 ^ 32"
    and "8000 dvd unat samp * unat bits * unat ch" "0 < unat samp * unat bits * unat ch"
  shows "bytes2ms samp bits ch (ms2bytes samp bits ch ms) = Inr ms"
proof -
  define k where "k = samp * bits * ucast ch"
  define n where "n = unat samp * unat bits * unat ch"
  have n: "n * unat ms < 2 ^ 32" "n < 2 ^ 32" "8000 dvd n" "0 < n" using assms by (simp_all add: n_def)
  then have small: "n < 2 ^ 32" by simp
  have "0 < unat ch" using n(4) by (simp add: n_def)
  then have "unat samp * unat bits \<le> n" by (cases "unat ch") (simp_all add: n_def)
  then have sb: "unat samp * unat bits < 2 ^ 32" using small by simp
  have k: "unat k = n"
    using u32_mult_exact [OF sb] small by (simp add: k_def n_def unat_word_ariths)
  then have km: "unat (k * ms) = n * unat ms" using n u32_mult_exact [of k ms] by simp
  have b: "unat (ms2bytes samp bits ch ms) = n * unat ms div 8000"
    by (simp add: ms2bytes_def unat_div_distrib km flip: k_def)
  then have "unat (ms2bytes samp bits ch ms * 8000) = n * unat ms"
    using n by (subst u32_mult_exact) (simp_all add: dvd_mult2)
  then have "unat (ms2bytes samp bits ch ms * 8000 div k) = unat ms"
    using n(4) by (simp add: unat_div_distrib k)
  moreover have "k \<noteq> 0" using k n(4) by auto
  ultimately show ?thesis by (simp add: bytes2ms_def word_unat_eq_iff flip: k_def)
qed

lemma ms_bytes_roundtrip_witness: "bytes2ms 8000 16 1 (ms2bytes 8000 16 1 20) = Inr 20"
  by (rule ms_bytes_roundtrip) simp_all

end
