(* ===== verification/Silence.thy ===== *)
theory Silence
  imports Sphone_Base
begin

text \<open>
  The voice activity detection of \<open>src/sphone_silence.c\<close>: a few samples of a packet are
  compared, and a run of quiet packets longer than a threshold counts as silence.
\<close>

definition NR_SAMPLES :: int where "NR_SAMPLES = 4"

definition SILENCE_LEVEL_8 :: int where "SILENCE_LEVEL_8 = 3"
definition SILENCE_LEVEL_16 :: int where "SILENCE_LEVEL_16 = 100"
definition SILENCE_THRESHOLD_MS :: int where "SILENCE_THRESHOLD_MS = 200"

text \<open>A read of the sample buffer at an \<open>int\<close> index.\<close>

definition sample_at :: "'b list \<Rightarrow> int \<Rightarrow> 'b res" where
  "sample_at xs i = (if 0 \<le> i \<and> nat i < length xs then Inr (xs ! nat i) else Inl Out_Of_Bounds)"

text \<open>The running minimum and maximum over the samples at the given indices.\<close>

fun min_max :: "'n::len word list \<Rightarrow> int list \<Rightarrow> 'n word \<Rightarrow> 'n word \<Rightarrow> ('n word \<times> 'n word) res" where
  "min_max buf [] mn mx = Inr (mn, mx)"
| "min_max buf (i # is) mn mx =
    bnd (sample_at buf i) (\<lambda>v. min_max buf is (if v < mn then v else mn) (if mx < v then v else mx))"

definition indices8 :: "int \<Rightarrow> int list" where
  "indices8 len = map (\<lambda>i. len * i sdiv NR_SAMPLES - 1) [1, 2, 3, 4]"

definition silence8 :: "u8 list \<Rightarrow> int \<Rightarrow> int \<Rightarrow> int res" where
  "silence8 buf len threshold =
    bnd (sample_at buf 0) (\<lambda>v. bnd (min_max buf (indices8 len) v v) (\<lambda>(mn, mx).
      Inr (if uint mx - uint mn < threshold then 1 else 0)))"

text \<open>The buffer of \<open>silence16\<close> is given as its 16-bit samples, \<open>len\<close> is in octets.\<close>

definition indices16 :: "int \<Rightarrow> int list" where
  "indices16 len = map (\<lambda>i. len * i sdiv (2 * NR_SAMPLES) - 2) [1, 2, 3, 4]"

definition silence16 :: "u16 list \<Rightarrow> int \<Rightarrow> int \<Rightarrow> int res" where
  "silence16 buf len threshold =
    bnd (sample_at buf 0) (\<lambda>v. bnd (min_max buf (indices16 len) v v) (\<lambda>(mn, mx).
      Inr (if uint mx - uint mn < threshold then 1 else 0)))"

text \<open>The samples of a buffer of octets.\<close>

fun samples16 :: "bytes \<Rightarrow> u16 list" where
  "samples16 (a # b # r) = load16 [a, b] # samples16 r"
| "samples16 _ = []"

text \<open>The result is 1 for silence, 0 for none and -1 on an unsupported sample size (an error is
  reported); \<open>silence_nr\<close> is updated.\<close>

definition silence :: "bytes \<Rightarrow> int \<Rightarrow> u32 \<Rightarrow> int \<Rightarrow> int \<Rightarrow> (int \<times> int) res" where
  "silence buf len bits_samp silence_nr silence_threshold =
    (if bits_samp \<noteq> 8 \<and> bits_samp \<noteq> 16 then Inr (silence_nr, - 1)
     else
       bnd (if bits_samp = 8 then silence8 buf len SILENCE_LEVEL_8
            else silence16 (samples16 buf) len SILENCE_LEVEL_16) (\<lambda>retval.
         let nr = (if retval = 1 then silence_nr + 1 else 0)
         in Inr (nr, if nr > silence_threshold then 1 else 0)))"

section \<open>Bounds\<close>

lemma min_max_ok:
  assumes "\<forall>i \<in> set is. 0 \<le> i \<and> nat i < length buf"
  shows "\<exists>mn' mx'. min_max buf is mn mx = Inr (mn', mx') \<and> mn' \<le> mn \<and> mx \<le> mx' \<and>
    (\<forall>i \<in> set is. mn' \<le> buf ! nat i \<and> buf ! nat i \<le> mx')"
  using assms
proof (induction "is" arbitrary: mn mx)
  case (Cons i js)
  let ?v = "buf ! nat i"
  obtain mn' mx' where IH: "min_max buf js (if ?v < mn then ?v else mn) (if mx < ?v then ?v else mx) = Inr (mn', mx')"
    "mn' \<le> (if ?v < mn then ?v else mn)" "(if mx < ?v then ?v else mx) \<le> mx'"
    "\<forall>i \<in> set js. mn' \<le> buf ! nat i \<and> buf ! nat i \<le> mx'"
    using Cons.IH [of "if ?v < mn then ?v else mn" "if mx < ?v then ?v else mx"] Cons.prems by auto
  have "min_max buf (i # js) mn mx = Inr (mn', mx')" using Cons.prems IH(1) by (simp add: sample_at_def)
  moreover have "mn' \<le> mn" "mx \<le> mx'" "mn' \<le> ?v" "?v \<le> mx'"
    using IH(2,3) by (auto split: if_splits intro: order.trans less_imp_le simp: not_less)
  ultimately show ?case using IH(4) by auto
qed simp

lemma length_samples16 [simp]: "length (samples16 bs) = length bs div 2"
  by (induction bs rule: samples16.induct) auto

lemma indices8_bounds: "4 \<le> len \<Longrightarrow> \<forall>i \<in> set (indices8 len). 0 \<le> i \<and> i < len"
  by (auto simp: indices8_def NR_SAMPLES_def sdiv_nonneg)

lemma indices16_bounds: "16 \<le> len \<Longrightarrow> \<forall>i \<in> set (indices16 len). 0 \<le> i \<and> i < len div 2"
  by (auto simp: indices16_def NR_SAMPLES_def sdiv_nonneg)

section \<open>Properties\<close>

text \<open>The detection never reads outside its packet: for packets of at least 4 octets of 8-bit
  or 16 octets of 16-bit samples every sampled index is inside, the counter of quiet packets
  goes up by one or back to zero, and silence is reported exactly when the run of quiet
  packets is longer than the threshold.\<close>

lemma silence_in_bounds:
  assumes "length buf = nat len" "bits = 8 \<and> 4 \<le> len \<or> bits = 16 \<and> 16 \<le> len"
  shows "\<exists>nr'. silence buf len bits nr th = Inr (nr', if nr' > th then 1 else 0) \<and> (nr' = nr + 1 \<or> nr' = 0)"
proof -
  have "\<exists>r. (if bits = 8 then silence8 buf len SILENCE_LEVEL_8 else silence16 (samples16 buf) len SILENCE_LEVEL_16) = Inr r"
  proof (cases "bits = 8")
    case True
    then have "4 \<le> len" using assms(2) by auto
    then have b: "\<forall>i \<in> set (indices8 len). 0 \<le> i \<and> nat i < length buf" "sample_at buf 0 = Inr (buf ! 0)"
      using indices8_bounds assms(1) by (auto simp: sample_at_def)
    then show ?thesis using True min_max_ok [OF b(1), of "buf ! 0" "buf ! 0"] by (auto simp: silence8_def)
  next
    case False
    then have l: "16 \<le> len" using assms(2) by auto
    then have b: "\<forall>i \<in> set (indices16 len). 0 \<le> i \<and> nat i < length (samples16 buf)"
        "sample_at (samples16 buf) 0 = Inr (samples16 buf ! 0)"
      using indices16_bounds [OF l] assms(1) by (auto simp: sample_at_def nat_div_distrib)
    then show ?thesis using False min_max_ok [OF b(1), of "samples16 buf ! 0" "samples16 buf ! 0"]
      by (auto simp: silence16_def)
  qed
  moreover have "bits = 8 \<or> bits = 16" using assms(2) by auto
  ultimately show ?thesis by (fastforce simp: silence_def Let_def)
qed

lemma silence_in_bounds_witness:
  "\<exists>nr'. silence (replicate 4 7) 4 8 5 5 = Inr (nr', if nr' > 5 then 1 else 0) \<and> (nr' = 6 \<or> nr' = 0)"
  using silence_in_bounds [of "replicate 4 7" 4 8 5 5] by simp

text \<open>The samples are compared as unsigned numbers. A packet whose samples lie within the level
  of each other adds one to the run of quiet packets; but a 16-bit packet in which one of
  the compared samples is 0 and another is -1, the faintest possible noise, ends the run.\<close>

lemma silence_is_unsigned:
  assumes "16 \<le> len" "length buf = nat len"
  shows "((\<forall>a \<in> set buf. \<forall>b \<in> set buf. uint a - uint b < SILENCE_LEVEL_8) \<longrightarrow>
      silence buf len 8 nr th = Inr (nr + 1, if nr + 1 > th then 1 else 0)) \<and>
    (samples16 buf ! 0 = 0 \<and> samples16 buf ! nat (len div 2 - 2) = 0xFFFF \<longrightarrow>
      silence buf len 16 nr th = Inr (0, if 0 > th then 1 else 0))"
proof (intro conjI impI)
  assume close: "\<forall>a \<in> set buf. \<forall>b \<in> set buf. uint a - uint b < SILENCE_LEVEL_8"
  have b: "\<forall>i \<in> set (indices8 len). 0 \<le> i \<and> nat i < length buf" "sample_at buf 0 = Inr (buf ! 0)" "buf ! 0 \<in> set buf"
    using indices8_bounds [of len] assms by (auto simp: sample_at_def)
  have mm: "mn \<in> set buf \<Longrightarrow> mx \<in> set buf \<Longrightarrow> \<forall>i \<in> set is. 0 \<le> i \<and> nat i < length buf \<Longrightarrow>
      \<exists>mn' mx'. min_max buf is mn mx = Inr (mn', mx') \<and> mn' \<in> set buf \<and> mx' \<in> set buf" for "is" mn mx
    by (induction "is" arbitrary: mn mx) (auto simp: sample_at_def)
  obtain mn mx where "min_max buf (indices8 len) (buf ! 0) (buf ! 0) = Inr (mn, mx)" "mn \<in> set buf" "mx \<in> set buf"
    using mm [OF b(3,3,1)] by blast
  then show "silence buf len 8 nr th = Inr (nr + 1, if nr + 1 > th then 1 else 0)"
    using close b(2) by (simp add: silence_def silence8_def)
next
  assume s: "samples16 buf ! 0 = 0 \<and> samples16 buf ! nat (len div 2 - 2) = 0xFFFF"
  have b: "\<forall>i \<in> set (indices16 len). 0 \<le> i \<and> nat i < length (samples16 buf)"
      "sample_at (samples16 buf) 0 = Inr 0"
    using indices16_bounds [of len] assms s by (auto simp: sample_at_def nat_div_distrib)
  have "len div 2 - 2 \<in> set (indices16 len)" using assms(1) by (simp add: indices16_def NR_SAMPLES_def sdiv_nonneg)
  then obtain mn mx where m: "min_max (samples16 buf) (indices16 len) 0 0 = Inr (mn, mx)" "mn \<le> 0" "0xFFFF \<le> mx"
    using min_max_ok [OF b(1), of 0 0] s by fastforce
  then have "uint mn = 0" "65535 \<le> uint mx" by (simp_all add: word_le_def)
  then have "\<not> uint mx - uint mn < SILENCE_LEVEL_16" by (simp add: SILENCE_LEVEL_16_def)
  then show "silence buf len 16 nr th = Inr (0, if 0 > th then 1 else 0)"
    using m(1) b(2) by (simp add: silence_def silence16_def)
qed

lemma silence_is_unsigned_witness:
  "silence (replicate 16 7) 16 8 5 5 = Inr (6, 1)"
  using silence_is_unsigned [of 16 "replicate 16 7" 5 5] by (simp add: SILENCE_LEVEL_8_def)

end
