(* ===== verification/Coding.thy ===== *)
theory Coding
  imports G711 Sphone_Lib Silence
begin

text \<open>
  The coding module of \<open>coding/sphone_coding.c\<close>: the codec functions over packets, the table
  that selects them, the parameters of both sides of a coding, the length conversions, and
  the change of the number of channels.

  A buffer is the list of octets from the pointer to the end of its allocation. A codec
  function returns the octets it writes from the start of the output buffer. The iLBC
  coder itself (\<open>coding/iLBC_1.1.0\<close>, floating-point signal processing) is the pair of
  parameters \<open>ie\<close> (240 samples to a 50 octet frame) and \<open>idec\<close> (a frame to 240 samples,
  truncated to integers).
\<close>

section \<open>Parameters and the table of coders\<close>

datatype coding_type = CODING_LINEAR16 | CODING_ULAW | CODING_ALAW | CODING_LINEAR8 | CODING_iLBC

record coding_params =
  cp_type :: coding_type
  cp_samp_sec :: u32
  cp_precision :: u32
  cp_size_ms :: u32
  cp_size_bytes :: u32
  cp_channels :: u8

datatype coding_fn = coding_null | coding_l16_2alaw | coding_alaw2_l16 | coding_l16_2ulaw
  | coding_ulaw2_l16 | coding_ulaw2alaw | coding_alaw2ulaw | coding_l16_2ilbc | coding_ilbc_2l16

text \<open>\<open>None\<close> is the entry \<open>coding_err\<close>.\<close>

fun coding_mapping :: "coding_type \<Rightarrow> coding_type \<Rightarrow> coding_fn option" where
  "coding_mapping CODING_LINEAR16 CODING_LINEAR16 = Some coding_null"
| "coding_mapping CODING_LINEAR16 CODING_ULAW = Some coding_l16_2ulaw"
| "coding_mapping CODING_LINEAR16 CODING_ALAW = Some coding_l16_2alaw"
| "coding_mapping CODING_LINEAR16 CODING_iLBC = Some coding_l16_2ilbc"
| "coding_mapping CODING_ULAW CODING_LINEAR16 = Some coding_ulaw2_l16"
| "coding_mapping CODING_ULAW CODING_ULAW = Some coding_null"
| "coding_mapping CODING_ULAW CODING_ALAW = Some coding_ulaw2alaw"
| "coding_mapping CODING_ALAW CODING_LINEAR16 = Some coding_alaw2_l16"
| "coding_mapping CODING_ALAW CODING_ULAW = Some coding_alaw2ulaw"
| "coding_mapping CODING_ALAW CODING_ALAW = Some coding_null"
| "coding_mapping CODING_LINEAR8 CODING_LINEAR8 = Some coding_null"
| "coding_mapping CODING_iLBC CODING_LINEAR16 = Some coding_ilbc_2l16"
| "coding_mapping CODING_iLBC CODING_iLBC = Some coding_null"
| "coding_mapping _ _ = None"

fun coding2rtp :: "coding_type \<Rightarrow> int" where
  "coding2rtp CODING_LINEAR8 = 101"
| "coding2rtp CODING_LINEAR16 = 11"
| "coding2rtp CODING_ALAW = 8"
| "coding2rtp CODING_ULAW = 0"
| "coding2rtp CODING_iLBC = 101"

text \<open>\<open>None\<close> is the value -1 of an unknown payload type.\<close>

definition rtp2coding :: "int \<Rightarrow> coding_type option" where
  "rtp2coding rtp_pt =
    (if rtp_pt = 101 then Some CODING_LINEAR8
     else if rtp_pt = 11 then Some CODING_LINEAR16
     else if rtp_pt = 8 then Some CODING_ALAW
     else if rtp_pt = 0 then Some CODING_ULAW
     else None)"

section \<open>Codec functions\<close>

fun map_res :: "('x \<Rightarrow> 'y res) \<Rightarrow> 'x list \<Rightarrow> 'y list res" where
  "map_res f [] = Inr []"
| "map_res f (x # xs) = bnd (f x) (\<lambda>y. bnd (map_res f xs) (\<lambda>ys. Inr (y # ys)))"

text \<open>The 16-bit object at index \<open>i\<close> and the octet at index \<open>i\<close> of a buffer.\<close>

definition rd16 :: "bytes \<Rightarrow> nat \<Rightarrow> u16 res" where
  "rd16 buf i = (if 2 * i + 2 \<le> length buf then Inr (load16 (take 2 (drop (2 * i) buf))) else Inl Out_Of_Bounds)"

definition rd8 :: "bytes \<Rightarrow> nat \<Rightarrow> u8 res" where
  "rd8 buf i = (if i < length buf then Inr (buf ! i) else Inl Out_Of_Bounds)"

abbreviation "ILBC_ENCODE_LEN \<equiv> 480 :: nat"
abbreviation "ILBC_DECODE_LEN \<equiv> 50 :: nat"

definition clamp_sample :: "int \<Rightarrow> int" where
  "clamp_sample x = (if x < - 32768 then - 32768 else if 32767 < x then 32767 else x)"

text \<open>
  \<open>run_coding\<close> is the call \<open>fn(ca, buf1, len1, buf2, len2)\<close>. The encoders loop to the length of
  their output and the decoders to the length of their input. The two functions between the
  G.711 laws read their input as 16-bit objects, of which the conversion to
  \<open>unsigned char\<close> keeps the low octet.
\<close>

fun run_coding :: "(int list \<Rightarrow> bytes) \<Rightarrow> (bytes \<Rightarrow> int list) \<Rightarrow> coding_fn \<Rightarrow> bytes \<Rightarrow> nat \<Rightarrow> nat \<Rightarrow> bytes res" where
  "run_coding ie idec coding_l16_2alaw buf len1 len2 =
     map_res (\<lambda>i. bnd (rd16 buf i) (\<lambda>s. Inr (linear2alaw (sint s)))) [0..<len2]"
| "run_coding ie idec coding_l16_2ulaw buf len1 len2 =
     map_res (\<lambda>i. bnd (rd16 buf i) (\<lambda>s. Inr (linear2ulaw (sint s)))) [0..<len2]"
| "run_coding ie idec coding_alaw2_l16 buf len1 len2 =
     bnd (map_res (\<lambda>i. bnd (rd8 buf i) (\<lambda>c. Inr (store16 (word_of_int (alaw2linear c))))) [0..<len1]) (\<lambda>bss. Inr (concat bss))"
| "run_coding ie idec coding_ulaw2_l16 buf len1 len2 =
     bnd (map_res (\<lambda>i. bnd (rd8 buf i) (\<lambda>c. Inr (store16 (word_of_int (ulaw2linear c))))) [0..<len1]) (\<lambda>bss. Inr (concat bss))"
| "run_coding ie idec coding_alaw2ulaw buf len1 len2 =
     map_res (\<lambda>i. bnd (rd16 buf i) (\<lambda>s. alaw2ulaw (ucast s))) [0..<len2]"
| "run_coding ie idec coding_ulaw2alaw buf len1 len2 =
     map_res (\<lambda>i. bnd (rd16 buf i) (\<lambda>s. ulaw2alaw (ucast s))) [0..<len2]"
| "run_coding ie idec coding_null buf len1 len2 = map_res (rd8 buf) [0..<len1]"
| "run_coding ie idec coding_l16_2ilbc buf len1 len2 =
     (if len2 = ILBC_DECODE_LEN \<and> len1 = ILBC_ENCODE_LEN then
        bnd (map_res (\<lambda>k. bnd (rd16 buf k) (\<lambda>s. Inr (sint s))) [0..<240]) (\<lambda>block. Inr (ie block))
      else Inl Assert_Failed)"
| "run_coding ie idec coding_ilbc_2l16 buf len1 len2 =
     (if len1 = ILBC_DECODE_LEN \<and> len2 = ILBC_ENCODE_LEN then
        Inr (concat (map (\<lambda>x. store16 (word_of_int (clamp_sample x))) (idec (take 50 buf))))
      else Inl Assert_Failed)"

section \<open>Parameters\<close>

definition coding_sanity :: "coding_params \<Rightarrow> coding_params" where
  "coding_sanity cp =
    (let size = (\<lambda>cp. cp\<lparr>cp_size_bytes := ms2bytes (cp_samp_sec cp) (cp_precision cp) (cp_channels cp) (cp_size_ms cp)\<rparr>);
         l16 = (\<lambda>cp. size (cp\<lparr>cp_precision := 16\<rparr>))
     in case cp_type cp of
          CODING_LINEAR8 \<Rightarrow> l16 (size (cp\<lparr>cp_precision := 8\<rparr>))
        | CODING_LINEAR16 \<Rightarrow> l16 cp
        | CODING_ALAW \<Rightarrow> size (cp\<lparr>cp_precision := 8\<rparr>)
        | CODING_ULAW \<Rightarrow> size (cp\<lparr>cp_precision := 8\<rparr>)
        | CODING_iLBC \<Rightarrow> cp\<lparr>cp_precision := 4, cp_size_ms := 30, cp_size_bytes := of_nat ILBC_DECODE_LEN\<rparr>)"

text \<open>The size factor of a coding in hundredths (the code computes 1, 2 and 9.55 as \<open>float\<close>).\<close>

fun coding_lenfactor :: "coding_type \<Rightarrow> nat" where
  "coding_lenfactor CODING_LINEAR8 = 100"
| "coding_lenfactor CODING_LINEAR16 = 100"
| "coding_lenfactor CODING_ALAW = 200"
| "coding_lenfactor CODING_ULAW = 200"
| "coding_lenfactor CODING_iLBC = 955"

definition coding_transformlen_generic :: "coding_params \<Rightarrow> coding_params \<Rightarrow> nat \<Rightarrow> nat res" where
  "coding_transformlen_generic c1 c2 len1 =
    Inr (len1 * coding_lenfactor (cp_type c1) div coding_lenfactor (cp_type c2))"

definition coding_transformlen_ilbc :: "coding_params \<Rightarrow> coding_params \<Rightarrow> nat \<Rightarrow> nat res" where
  "coding_transformlen_ilbc c1 c2 len1 =
    (if cp_type c1 = CODING_iLBC then
       (if len1 = ILBC_DECODE_LEN then Inr ILBC_ENCODE_LEN else Inl Assert_Failed)
     else
       (if len1 = ILBC_ENCODE_LEN then Inr ILBC_DECODE_LEN else Inl Assert_Failed))"

record coding_api =
  ca_encode :: coding_fn
  ca_decode :: coding_fn
  ca_ilbc :: bool

definition ca_transformlen :: "coding_api \<Rightarrow> coding_params \<Rightarrow> coding_params \<Rightarrow> nat \<Rightarrow> nat res" where
  "ca_transformlen ca = (if ca_ilbc ca then coding_transformlen_ilbc else coding_transformlen_generic)"

text \<open>Both parameter blocks are updated in place; the result is \<open>None\<close> when the pointer returned
  is null. \<open>ok\<close> tells whether the allocations succeed.\<close>

definition coding_init :: "bool \<Rightarrow> coding_params \<Rightarrow> coding_params
    \<Rightarrow> coding_params \<times> coding_params \<times> coding_api option" where
  "coding_init ok c1 c2 =
    (let c1 = coding_sanity c1;
         c2 = c2\<lparr>cp_samp_sec := cp_samp_sec c1, cp_channels := 1,
                 cp_precision := of_nat (unat (cp_precision c1) * coding_lenfactor (cp_type c1)
                                          div coding_lenfactor (cp_type c2)),
                 cp_size_ms := cp_size_ms c1\<rparr>;
         c2 = c2\<lparr>cp_size_bytes := ms2bytes (cp_samp_sec c2) (cp_precision c2) (cp_channels c2) (cp_size_ms c2)\<rparr>
     in (c1, c2,
         if \<not> ok then None
         else case (coding_mapping (cp_type c1) (cp_type c2), coding_mapping (cp_type c2) (cp_type c1)) of
           (Some e, Some d) \<Rightarrow> Some \<lparr>ca_encode = e, ca_decode = d,
             ca_ilbc = (cp_type c1 = CODING_iLBC \<or> cp_type c2 = CODING_iLBC)\<rparr>
         | _ \<Rightarrow> None))"

section \<open>Channels\<close>

text \<open>\<open>memcpy(&buf[dst], &buf[src], n)\<close> within one buffer.\<close>

definition mem_copy :: "bytes \<Rightarrow> nat \<Rightarrow> nat \<Rightarrow> nat \<Rightarrow> bytes res" where
  "mem_copy buf dst src n =
    (if dst + n \<le> length buf \<and> src + n \<le> length buf
     then Inr (take dst buf @ take n (drop src buf) @ drop (dst + n) buf)
     else Inl Out_Of_Bounds)"

fun fold_res :: "('x \<Rightarrow> 's \<Rightarrow> 's res) \<Rightarrow> 'x list \<Rightarrow> 's \<Rightarrow> 's res" where
  "fold_res f [] s = Inr s"
| "fold_res f (x # xs) s = bnd (f x s) (fold_res f xs)"

text \<open>
  The loops step by the size of a sample, which is zero for a precision below 8: then they never
  end, and the result is \<open>None\<close>. Otherwise \<open>i\<close> takes the values \<open>k * step\<close> below \<open>len\<close>
  in the first loop, and \<open>len - (k + 1) * by_s\<close> down to 0 in the second.
\<close>

definition coding_reduce :: "bytes \<Rightarrow> nat \<Rightarrow> nat \<Rightarrow> nat \<Rightarrow> (bytes \<times> nat) res option" where
  "coding_reduce buf len precision reduce_factor =
    (let by_s = precision div 8; step = by_s * reduce_factor in
     if 0 < len \<and> step = 0 then None
     else Some (bnd (fold_res (\<lambda>k buf. mem_copy buf (k * step div reduce_factor) (k * step) by_s)
                       [0..<(if len = 0 then 0 else (len + step - 1) div step)] buf)
             (\<lambda>buf. Inr (buf, len div reduce_factor))))"

definition coding_expand :: "bytes \<Rightarrow> nat \<Rightarrow> nat \<Rightarrow> nat \<Rightarrow> (bytes \<times> nat) res option" where
  "coding_expand buf len precision expand_factor =
    (let by_s = precision div 8 in
     if by_s = 0 then None
     else Some (bnd (fold_res (\<lambda>k buf. let i = len - (k + 1) * by_s in
                        fold_res (\<lambda>j buf. mem_copy buf (i * expand_factor + j * by_s) i by_s)
                          (rev [0..<expand_factor]) buf)
                       [0..<len div by_s] buf)
             (\<lambda>buf. Inr (buf, len * expand_factor))))"

section \<open>Packets of samples\<close>

definition le16 :: "u16 list \<Rightarrow> bytes" where
  "le16 ws = concat (map store16 ws)"

lemma le16_simps [simp]: "le16 [] = []" "le16 (w # ws) = store16 w @ le16 ws" "length (le16 ws) = 2 * length ws"
  by (simp_all add: le16_def length_concat o_def sum_list_triv)

lemma rd16_le16: "i < length ws \<Longrightarrow> rd16 (le16 ws @ r) i = Inr (ws ! i)"
proof -
  assume i: "i < length ws"
  have "take 2 (drop (2 * i) (le16 ws @ r)) = store16 (ws ! i)" using i
  proof (induction ws arbitrary: i)
    case (Cons w ws)
    then show ?case by (cases i) (simp_all add: store16_def)
  qed simp
  then show ?thesis using i by (simp add: rd16_def)
qed

lemma map_res_ok: "\<forall>x \<in> set xs. f x = Inr (g x) \<Longrightarrow> map_res f xs = Inr (map g xs)"
  by (induction xs) auto

lemma map_upt_nth: "map (\<lambda>i. f (xs ! i)) [0..<length xs] = map f xs"
  by (rule nth_equalityI) simp_all

lemma run_encoders:
  "run_coding ie idec coding_l16_2alaw (le16 ws @ r) l (length ws) = Inr (map (linear2alaw \<circ> sint) ws)"
  "run_coding ie idec coding_l16_2ulaw (le16 ws @ r) l (length ws) = Inr (map (linear2ulaw \<circ> sint) ws)"
  using map_upt_nth [of "linear2alaw \<circ> sint" ws] map_upt_nth [of "linear2ulaw \<circ> sint" ws]
  by (simp_all add: map_res_ok [where g = "\<lambda>i. linear2alaw (sint (ws ! i))"]
      map_res_ok [where g = "\<lambda>i. linear2ulaw (sint (ws ! i))"] rd16_le16)

lemma run_decoders:
  "run_coding ie idec coding_alaw2_l16 (cs @ r) (length cs) l = Inr (le16 (map (word_of_int \<circ> alaw2linear) cs))"
  "run_coding ie idec coding_ulaw2_l16 (cs @ r) (length cs) l = Inr (le16 (map (word_of_int \<circ> ulaw2linear) cs))"
proof -
  have "run_coding ie idec coding_alaw2_l16 (cs @ r) (length cs) l
      = Inr (concat (map (\<lambda>i. store16 (word_of_int (alaw2linear (cs ! i)))) [0..<length cs]))"
    by (simp add: map_res_ok [where g = "\<lambda>i. store16 (word_of_int (alaw2linear (cs ! i)))"] rd8_def nth_append)
  then show "run_coding ie idec coding_alaw2_l16 (cs @ r) (length cs) l = Inr (le16 (map (word_of_int \<circ> alaw2linear) cs))"
    using map_upt_nth [of "\<lambda>c. store16 (word_of_int (alaw2linear c))" cs]
    by (simp add: le16_def o_def del: run_coding.simps)
  have "run_coding ie idec coding_ulaw2_l16 (cs @ r) (length cs) l
      = Inr (concat (map (\<lambda>i. store16 (word_of_int (ulaw2linear (cs ! i)))) [0..<length cs]))"
    by (simp add: map_res_ok [where g = "\<lambda>i. store16 (word_of_int (ulaw2linear (cs ! i)))"] rd8_def nth_append)
  then show "run_coding ie idec coding_ulaw2_l16 (cs @ r) (length cs) l = Inr (le16 (map (word_of_int \<circ> ulaw2linear) cs))"
    using map_upt_nth [of "\<lambda>c. store16 (word_of_int (ulaw2linear c))" cs]
    by (simp add: le16_def o_def del: run_coding.simps)
qed

lemma sint_sample: "- 32768 \<le> x \<Longrightarrow> x \<le> 32767 \<Longrightarrow> sint (word_of_int x :: u16) = x"
  by (simp add: sint_sbintrunc' signed_take_bit_int_eq_self)

lemma sample_range: "- 32768 \<le> sint (w :: u16)" "sint (w :: u16) \<le> 32767"
  using sint_range_size [of w] by (simp_all add: word_size)

lemma rd16_pairs:
  "i < n \<Longrightarrow> 2 * n \<le> length buf \<Longrightarrow> rd16 buf i = Inr (load16 [buf ! (2 * i), buf ! (2 * i + 1)])"
proof -
  assume i: "i < n" "2 * n \<le> length buf"
  then have "take 2 (drop (2 * i) buf) = [buf ! (2 * i), buf ! (2 * i + 1)]"
    by (simp add: take_Suc_conv_app_nth numeral_2_eq_2)
  then show ?thesis using i by (simp add: rd16_def)
qed

lemma low_octet: "ucast (load16 [a, b]) = a"
  by (rule bit_word_eqI) (auto simp: load16_def bit_simps)

section \<open>Changing the number of channels\<close>

lemma mem_copy_prefix:
  assumes "m \<le> length x" "src + b \<le> m" "dst + b = m"
  shows "mem_copy (take m x @ ys) dst src b = Inr (take dst x @ take b (drop src x) @ ys)"
proof -
  have "drop src (take m x @ ys) = take (m - src) (drop src x) @ ys"
    using assms by (simp add: drop_take)
  moreover have "b \<le> m - src" "b \<le> length (drop src x)" using assms by simp_all
  ultimately have "take b (drop src (take m x @ ys)) = take b (drop src x)" by (simp add: min_def)
  then show ?thesis using assms by (simp add: mem_copy_def min_def)
qed

lemma mem_copy_suffix:
  assumes "length r = d" "d + n \<le> length x" "d \<le> s" "s + n \<le> length x"
  shows "mem_copy (r @ drop d x) d s n = Inr (r @ take n (drop s x) @ drop (d + n) x)"
proof -
  have "drop s (r @ drop d x) = drop s x" using assms by simp
  moreover have "drop (d + n) (r @ drop d x) = drop (d + n) x" using assms(1) by (simp add: add.commute)
  ultimately show ?thesis using assms by (simp add: mem_copy_def)
qed

definition sample_no :: "nat \<Rightarrow> bytes \<Rightarrow> nat \<Rightarrow> bytes" where
  "sample_no b x k = take b (drop (k * b) x)"

lemma expand_inner:
  assumes "base + f * b \<le> length x" "src + b \<le> base + b" "n \<le> f"
  shows "fold_res (\<lambda>j buf. mem_copy buf (base + j * b) src b) (rev [0..<n]) (take (base + n * b) x @ ys)
    = Inr (take base x @ concat (replicate n (take b (drop src x))) @ ys)"
  using assms(3)
proof (induction n arbitrary: ys)
  case (Suc n)
  have "Suc n * b \<le> f * b" using Suc.prems by (rule mult_le_mono1)
  then have "mem_copy (take (base + Suc n * b) x @ ys) (base + n * b) src b
      = Inr (take (base + n * b) x @ take b (drop src x) @ ys)"
    using assms by (intro mem_copy_prefix) simp_all
  moreover have "concat (replicate n s) @ s @ ys = concat (replicate (Suc n) s) @ ys" for s :: bytes
    by (induction n) simp_all
  ultimately show ?case using Suc.IH [of "take b (drop src x) @ ys"] Suc.prems by simp
qed simp

definition expanded :: "nat \<Rightarrow> nat \<Rightarrow> bytes \<Rightarrow> nat \<Rightarrow> nat \<Rightarrow> bytes" where
  "expanded b f x k n = concat (map (\<lambda>j. concat (replicate f (sample_no b x j))) [k..<n])"

lemma coding_expand_result:
  assumes "0 < b" "0 < f" "n * b * f \<le> length x" "precision div 8 = b"
  shows "coding_expand x (n * b) precision f = Some (Inr (expanded b f x 0 n @ drop (n * b * f) x, n * b * f))"
proof -
  let ?step = "\<lambda>k buf. let i = n * b - (k + 1) * b in
    fold_res (\<lambda>j buf. mem_copy buf (i * f + j * b) i b) (rev [0..<f]) buf"
  have "m \<le> n \<Longrightarrow> fold_res ?step [0..<m] x
      = Inr (take ((n - m) * b * f) x @ expanded b f x (n - m) n @ drop (n * b * f) x)" for m
  proof (induction m)
    case 0
    then show ?case by (simp add: expanded_def)
  next
    case (Suc m)
    let ?i = "n - Suc m" and ?y = "expanded b f x (n - m) n @ drop (n * b * f) x"
    have i: "n * b - (m + 1) * b = ?i * b" "n - m = Suc ?i" using Suc.prems by (simp_all add: diff_mult_distrib)
    have app: "fold_res g (xs @ [z]) s = bnd (fold_res g xs s) (g z)" for g and xs :: "nat list" and z s
      by (induction xs arbitrary: s) (auto simp: bnd_def split: sum.splits)
    have le: "Suc ?i * b * f \<le> length x" using assms(3) Suc.prems
      by (metis i(2) diff_le_self le_trans mult_le_mono1)
    have "?i * b \<le> ?i * b * f" using assms(2) by simp
    then have "fold_res (\<lambda>j buf. mem_copy buf (?i * b * f + j * b) (?i * b) b) (rev [0..<f])
        (take (?i * b * f + f * b) x @ ?y)
      = Inr (take (?i * b * f) x @ concat (replicate f (take b (drop (?i * b) x))) @ ?y)"
      using le by (intro expand_inner [of _ f]) (simp_all add: algebra_simps)
    moreover have "?i * b * f + f * b = (n - m) * b * f" using i(2) by (simp add: algebra_simps)
    moreover have "expanded b f x ?i n = concat (replicate f (take b (drop (?i * b) x))) @ expanded b f x (n - m) n"
      using Suc.prems i(2) by (simp add: expanded_def sample_no_def upt_conv_Cons [of ?i n])
    ultimately show ?case using Suc i(1) by (simp add: app Let_def)
  qed
  from this [of n] show ?thesis using assms by (simp add: coding_expand_def Let_def)
qed

lemma ceiling_steps:
  assumes "0 < (q :: nat)"
  shows "(n * q + q - 1) div q = n"
proof -
  have "n * q + q - 1 = (q - 1) + n * q" using assms by simp
  then show ?thesis using assms by (simp only: div_mult_self1) simp
qed

lemma coding_reduce_result:
  assumes "0 < b" "0 < f" "n * b * f \<le> length x" "precision div 8 = b"
  shows "coding_reduce x (n * b * f) precision f
    = Some (Inr (concat (map (\<lambda>k. take b (drop (k * b * f) x)) [0..<n]) @ drop (n * b) x, n * b))"
proof -
  let ?R = "\<lambda>m. concat (map (\<lambda>k. take b (drop (k * b * f) x)) [0..<m])"
  have len: "m \<le> n \<Longrightarrow> length (?R m) = m * b" for m
  proof (induction m)
    case (Suc m)
    have "Suc m * b * f \<le> n * b * f" using Suc.prems by (intro mult_le_mono1)
    moreover have "m * b * f + b \<le> Suc m * b * f" using assms(2) by (simp add: algebra_simps)
    ultimately have "m * b * f + b \<le> length x" using assms(3) by linarith
    then show ?case using Suc by simp
  qed simp
  have app: "fold_res g (xs @ [z]) s = bnd (fold_res g xs s) (g z)" for g and xs :: "nat list" and z s
    by (induction xs arbitrary: s) (auto simp: bnd_def split: sum.splits)
  have "m \<le> n \<Longrightarrow> fold_res (\<lambda>k buf. mem_copy buf (k * (b * f) div f) (k * (b * f)) b) [0..<m] x
      = Inr (?R m @ drop (m * b) x)" for m
  proof (induction m)
    case (Suc m)
    have d: "m * (b * f) div f = m * b" using assms(2) by (metis mult.assoc nonzero_mult_div_cancel_right not_gr_zero)
    have "Suc m * b * f \<le> n * b * f" using Suc.prems by (intro mult_le_mono1)
    moreover have "m * b * f + b \<le> Suc m * b * f" "m * b \<le> m * b * f" using assms(2) by (simp_all add: algebra_simps)
    ultimately have le: "m * b * f + b \<le> length x" "m * b \<le> m * b * f" using assms(3) by linarith+
    have "mem_copy (?R m @ drop (m * b) x) (m * b) (m * b * f) b
        = Inr (?R m @ take b (drop (m * b * f) x) @ drop (m * b + b) x)"
      using le len [of m] Suc.prems by (intro mem_copy_suffix) linarith+
    moreover have "?R (Suc m) = ?R m @ take b (drop (m * b * f) x)" by simp
    ultimately show ?case using Suc d by (simp add: app add.commute mult.assoc)
  qed simp
  from this [of n] have fold: "fold_res (\<lambda>k buf. mem_copy buf (k * (b * f) div f) (k * (b * f)) b) [0..<n] x
      = Inr (?R n @ drop (n * b) x)" by simp
  have "(n * (b * f) + b * f - 1) div (b * f) = n" using assms(1,2) by (intro ceiling_steps) simp
  then have steps: "(if n * b * f = 0 then 0 else (n * b * f + b * f - 1) div (b * f)) = n"
    using assms(1,2) by (simp add: mult.assoc)
  have "n * b * f div f = n * b" using assms(2) by simp
  then show ?thesis using assms(1,2) unfolding coding_reduce_def Let_def assms(4) steps fold by simp
qed

section \<open>Properties\<close>

text \<open>Expanding a packet to more channels replicates every sample, and reducing the result
  gives the packet back: for any sample size of whole octets, any number of channels and any
  buffer with room for the expanded packet.\<close>

lemma expand_reduce_roundtrip:
  assumes "precision div 8 = b" "0 < b" "0 < f" "n * b * f \<le> length x"
  shows "\<exists>y z. coding_expand x (n * b) precision f = Some (Inr (y, n * b * f)) \<and>
      take (n * b * f) y = concat (map (\<lambda>k. concat (replicate f (sample_no b x k))) [0..<n]) \<and>
      coding_reduce y (n * b * f) precision f = Some (Inr (z, n * b)) \<and>
      take (n * b) z = take (n * b) x"
proof -
  define y where "y = expanded b f x 0 n @ drop (n * b * f) x"
  have lens: "k < n \<Longrightarrow> length (sample_no b x k) = b" for k
  proof -
    assume "k < n"
    then have "Suc k * b \<le> n * b" by (intro mult_le_mono1) simp
    moreover have "n * b \<le> n * b * f" using assms(3) by (cases f) simp_all
    ultimately have "Suc k * b \<le> length x" using assms(4) by (meson le_trans)
    then have "k * b + b \<le> length x" by simp
    then show ?thesis by (simp add: sample_no_def)
  qed
  have blk: "length (concat (replicate f s)) = f * length s" for s :: bytes by (induction f) simp_all
  have len: "m \<le> n \<Longrightarrow> length (expanded b f x 0 m) = m * b * f" for m
    by (induction m) (simp_all add: expanded_def blk lens algebra_simps)
  have ylen: "length y = length x" using len [of n] assms(4) by (simp add: y_def)
  have frame: "take b (drop (k * b * f) y) = sample_no b x k" if k: "k < n" for k
  proof -
    have "expanded b f x 0 n = expanded b f x 0 k @ concat (replicate f (sample_no b x k)) @ expanded b f x (Suc k) n"
      using k upt_add_eq_append [of 0 k "n - k"] by (simp add: expanded_def upt_conv_Cons [of k n] flip: upt_add_eq_append)
    then have "drop (k * b * f) y = concat (replicate f (sample_no b x k)) @ expanded b f x (Suc k) n @ drop (n * b * f) x"
      using len [of k] k by (simp add: y_def)
    moreover obtain g where "f = Suc g" using assms(3) by (cases f) auto
    ultimately show ?thesis using lens [OF k] by simp
  qed
  have all: "concat (map (sample_no b x) [0..<m]) = take (m * b) x" if "m \<le> n" for m
    using that
  proof (induction m)
    case (Suc m)
    have "take (Suc m * b) x = take (m * b) x @ take b (drop (m * b) x)"
      using take_add [of "m * b" b x] by (simp add: add.commute)
    then show ?case using Suc by (simp add: sample_no_def)
  qed simp
  have frames: "map (\<lambda>k. take b (drop (k * b * f) y)) [0..<n] = map (sample_no b x) [0..<n]"
    using frame by simp
  have "coding_reduce y (n * b * f) precision f = Some (Inr (take (n * b) x @ drop (n * b) y, n * b))"
    using coding_reduce_result [of b f n y precision, unfolded frames] assms ylen all [of n] by simp
  moreover have "n * b \<le> length x" using assms(3,4) by (metis le_trans mult_le_mono2 mult.right_neutral Suc_leI One_nat_def)
  ultimately show ?thesis
    using coding_expand_result [of b f n x precision] assms len [of n] by (simp add: y_def expanded_def)
qed

lemma expand_reduce_roundtrip_witness:
  "\<exists>y z. coding_expand [1, 2, 3, 4, 0, 0, 0, 0] 4 16 2 = Some (Inr (y, 8)) \<and>
     coding_reduce y 8 16 2 = Some (Inr (z, 4)) \<and> take 4 z = [1, 2, 3, 4]"
  using expand_reduce_roundtrip [of 16 2 2 2 "[1, 2, 3, 4, 0, 0, 0, 0]"] by auto

text \<open>A session that records 16-bit samples and sends either G.711 law works end to end: the
  coding is set up, a packet of n samples becomes n octets and again 2n, no step reads
  outside its packet, what arrives is each sample coded and decoded, and a packet that has
  been through the coding once passes it unchanged.\<close>

lemma g711_session:
  assumes "cp_type c1 = CODING_LINEAR16"
    and "cp_type c2 = CODING_ALAW \<and> rq = alaw2linear \<circ> linear2alaw \<or> cp_type c2 = CODING_ULAW \<and> rq = ulaw2linear \<circ> linear2ulaw"
  shows "\<exists>a1 a2 ca cs ds. coding_init True c1 c2 = (a1, a2, Some ca) \<and>
      cp_precision a1 = 16 \<and> cp_precision a2 = 8 \<and> cp_channels a2 = 1 \<and>
      ca_transformlen ca a1 a2 (2 * length ws) = Inr (length ws) \<and>
      ca_transformlen ca a2 a1 (length ws) = Inr (2 * length ws) \<and>
      run_coding ie idec (ca_encode ca) (le16 ws @ r) (2 * length ws) (length ws) = Inr cs \<and> length cs = length ws \<and>
      run_coding ie idec (ca_decode ca) (cs @ q) (length ws) (2 * length ws) = Inr (le16 ds) \<and>
      map sint ds = map (rq \<circ> sint) ws \<and> map (rq \<circ> sint) ds = map sint ds"
  using assms(2)
proof (elim disjE conjE)
  assume t: "cp_type c2 = CODING_ALAW" and rq: "rq = alaw2linear \<circ> linear2alaw"
  let ?cs = "map (linear2alaw \<circ> sint) ws" and ?ds = "map (word_of_int \<circ> alaw2linear \<circ> linear2alaw \<circ> sint) ws :: u16 list"
  have "run_coding ie idec coding_alaw2_l16 (?cs @ q) (length ws) (2 * length ws) = Inr (le16 ?ds)"
    using run_decoders(1) [of ie idec ?cs q "2 * length ws"] by (simp add: o_assoc del: run_coding.simps)
  moreover have "map sint ?ds = map (rq \<circ> sint) ws"
    using alaw.dec_range by (simp add: rq sint_sample)
  moreover have "map (rq \<circ> sint) ?ds = map sint ?ds"
    using alaw.dec_range alaw.requant_idem by (simp add: rq sint_sample)
  moreover obtain a1 a2 ca where "coding_init True c1 c2 = (a1, a2, Some ca)" "cp_precision a1 = 16"
      "cp_precision a2 = 8" "cp_channels a2 = 1" "ca_encode ca = coding_l16_2alaw" "ca_decode ca = coding_alaw2_l16"
      "ca_transformlen ca a1 a2 (2 * length ws) = Inr (length ws)"
      "ca_transformlen ca a2 a1 (length ws) = Inr (2 * length ws)"
    using assms(1) t by (simp add: coding_init_def coding_sanity_def Let_def ca_transformlen_def
        coding_transformlen_generic_def)
  moreover note run_encoders(1) [of ie idec ws r "2 * length ws"]
  ultimately show ?thesis
    by (intro exI [of _ a1] exI [of _ a2] exI [of _ ca] exI [of _ ?cs] exI [of _ ?ds])
      (simp del: run_coding.simps map_map list.map_comp)
next
  assume t: "cp_type c2 = CODING_ULAW" and rq: "rq = ulaw2linear \<circ> linear2ulaw"
  let ?cs = "map (linear2ulaw \<circ> sint) ws" and ?ds = "map (word_of_int \<circ> ulaw2linear \<circ> linear2ulaw \<circ> sint) ws :: u16 list"
  have "run_coding ie idec coding_ulaw2_l16 (?cs @ q) (length ws) (2 * length ws) = Inr (le16 ?ds)"
    using run_decoders(2) [of ie idec ?cs q "2 * length ws"] by (simp add: o_assoc del: run_coding.simps)
  moreover have "map sint ?ds = map (rq \<circ> sint) ws"
    using ulaw.dec_range by (simp add: rq sint_sample)
  moreover have "map (rq \<circ> sint) ?ds = map sint ?ds"
    using ulaw.dec_range ulaw.requant_idem by (simp add: rq sint_sample)
  moreover obtain a1 a2 ca where "coding_init True c1 c2 = (a1, a2, Some ca)" "cp_precision a1 = 16"
      "cp_precision a2 = 8" "cp_channels a2 = 1" "ca_encode ca = coding_l16_2ulaw" "ca_decode ca = coding_ulaw2_l16"
      "ca_transformlen ca a1 a2 (2 * length ws) = Inr (length ws)"
      "ca_transformlen ca a2 a1 (length ws) = Inr (2 * length ws)"
    using assms(1) t by (simp add: coding_init_def coding_sanity_def Let_def ca_transformlen_def
        coding_transformlen_generic_def)
  moreover note run_encoders(2) [of ie idec ws r "2 * length ws"]
  ultimately show ?thesis
    by (intro exI [of _ a1] exI [of _ a2] exI [of _ ca] exI [of _ ?cs] exI [of _ ?ds])
      (simp del: run_coding.simps map_map list.map_comp)
qed

lemma g711_session_witness:
  "\<exists>a1 a2 ca. coding_init True \<lparr>cp_type = CODING_LINEAR16, cp_samp_sec = 8000, cp_precision = 0, cp_size_ms = 20,
      cp_size_bytes = 0, cp_channels = 1\<rparr> \<lparr>cp_type = CODING_ALAW, cp_samp_sec = 0, cp_precision = 0, cp_size_ms = 0,
      cp_size_bytes = 0, cp_channels = 0\<rparr> = (a1, a2, Some ca) \<and> ca_transformlen ca a1 a2 320 = Inr 160"
  using g711_session [of "\<lparr>cp_type = CODING_LINEAR16, cp_samp_sec = 8000, cp_precision = 0, cp_size_ms = 20,
      cp_size_bytes = 0, cp_channels = 1\<rparr>" "\<lparr>cp_type = CODING_ALAW, cp_samp_sec = 0, cp_precision = 0, cp_size_ms = 0,
      cp_size_bytes = 0, cp_channels = 0\<rparr>" "alaw2linear \<circ> linear2alaw" "replicate 160 0" "\<lambda>_. []" "\<lambda>_. []" "[]" "[]"]
  by auto

text \<open>The functions that recode one G.711 law to the other read their input as 16-bit objects: a
  packet of n octets in a buffer of 2n comes out as the recoding of every second octet, twice
  as far as the packet goes, and a packet that ends its allocation is read past its end.\<close>

lemma law_recoding_skips:
  assumes "length buf = 2 * n" "0 < m"
  shows "(\<exists>out. run_coding ie idec coding_alaw2ulaw buf n n = Inr out \<and>
      map Inr out = map (\<lambda>i. alaw2ulaw (buf ! (2 * i))) [0..<n]) \<and>
    (\<exists>out. run_coding ie idec coding_ulaw2alaw buf n n = Inr out \<and>
      map Inr out = map (\<lambda>i. ulaw2alaw (buf ! (2 * i))) [0..<n]) \<and>
    run_coding ie idec coding_alaw2ulaw (replicate m c) m m = Inl Out_Of_Bounds"
proof -
  have step: "bnd (rd16 buf i) (\<lambda>s. alaw2ulaw (ucast s)) = alaw2ulaw (buf ! (2 * i))"
    "bnd (rd16 buf i) (\<lambda>s. ulaw2alaw (ucast s)) = ulaw2alaw (buf ! (2 * i))" if "i < n" for i
    using rd16_pairs [OF that] assms(1) by (simp_all add: low_octet)
  have total: "\<exists>f. \<forall>i. g (buf ! (2 * i)) = Inr (f i)" if tot: "\<forall>a. \<exists>b. g a = (Inr b :: u8 res)" for g
  proof -
    obtain h where "\<forall>a. g a = Inr (h a)" using choice [OF tot] by blast
    then have "\<forall>i. g (buf ! (2 * i)) = Inr (h (buf ! (2 * i)))" by blast
    then show ?thesis by (rule exI [of _ "\<lambda>i. h (buf ! (2 * i))"])
  qed
  obtain f where f: "\<forall>i. alaw2ulaw (buf ! (2 * i)) = Inr (f i)" using total [of alaw2ulaw] alaw2ulaw_near by meson
  obtain g where g: "\<forall>i. ulaw2alaw (buf ! (2 * i)) = Inr (g i)" using total [of ulaw2alaw] ulaw2alaw_near by meson
  have fail: "map_res h (xs @ [x] @ ys) = Inl e" if "\<forall>y \<in> set xs. \<exists>z. h y = Inr z" "h x = Inl e" for h xs x ys e
    using that by (induction xs) auto
  have "map_res (\<lambda>i. bnd (rd16 (replicate m c) i) (\<lambda>s. alaw2ulaw (ucast s))) [0..<m] = Inl Out_Of_Bounds"
  proof -
    have "[0..<m] = [0..<m div 2] @ [m div 2] @ [Suc (m div 2)..<m]"
      using assms(2) upt_add_eq_append [of 0 "m div 2" "m - m div 2"] by (simp add: upt_conv_Cons [of "m div 2" m])
    moreover have "\<forall>i \<in> set [0..<m div 2]. \<exists>z. bnd (rd16 (replicate m c) i) (\<lambda>s. alaw2ulaw (ucast s)) = Inr z"
      using alaw2ulaw_near by (fastforce simp: rd16_def)
    moreover have "rd16 (replicate m c) (m div 2) = Inl Out_Of_Bounds" by (simp add: rd16_def)
    ultimately show ?thesis by (simp only: fail bnd_simps)
  qed
  moreover have "run_coding ie idec coding_alaw2ulaw buf n n = Inr (map f [0..<n])"
    "run_coding ie idec coding_ulaw2alaw buf n n = Inr (map g [0..<n])"
    using step f g by (simp_all add: map_res_ok [where g = f] map_res_ok [where g = g])
  ultimately show ?thesis using f g by (simp del: map_res.simps)
qed

lemma law_recoding_skips_witness:
  "\<exists>out. run_coding (\<lambda>_. []) (\<lambda>_. []) coding_alaw2ulaw [0xD5, 0x55, 0xD4, 0x54] 2 2 = Inr out \<and>
    map Inr out = [alaw2ulaw 0xD5, alaw2ulaw 0xD4]"
  using law_recoding_skips [of "[0xD5, 0x55, 0xD4, 0x54]" 2 1] by (simp add: upt_rec del: run_coding.simps)

text \<open>The selected coder and decoder always belong together: whenever the set-up succeeds, the
  decoder is the table's entry in the other direction, 8-bit linear audio is never combined
  with another coding, and the payload type of a coding (iLBC apart) leads back to it.\<close>

lemma coding_selection:
  "(coding_mapping a b = None \<longleftrightarrow> coding_mapping b a = None) \<and>
   (\<exists>p q. coding_init True c1 c2 = (p, q, None)) = (coding_mapping (cp_type c1) (cp_type c2) = None) \<and>
   (rtp2coding (coding2rtp a) = Some a \<longleftrightarrow> a \<noteq> CODING_iLBC) \<and>
   cp_precision (coding_sanity (c\<lparr>cp_type := CODING_LINEAR8\<rparr>)) = 16"
proof -
  have sym: "coding_mapping a b = None \<longleftrightarrow> coding_mapping b a = None" for a b
    by (cases a; cases b) simp_all
  have ty: "cp_type (coding_sanity c) = cp_type c" for c
    by (cases "cp_type c") (simp_all add: coding_sanity_def Let_def)
  have "(\<exists>p q. coding_init True c1 c2 = (p, q, None)) = (coding_mapping (cp_type c1) (cp_type c2) = None)"
    using sym [of "cp_type c1" "cp_type c2"]
    by (auto simp: coding_init_def Let_def ty split: option.splits)
  moreover have "rtp2coding (coding2rtp a) = Some a \<longleftrightarrow> a \<noteq> CODING_iLBC"
    by (cases a) (simp_all add: rtp2coding_def)
  ultimately show ?thesis using sym by (simp add: coding_sanity_def Let_def)
qed

end
