(* ===== verification/Rtp.thy ===== *)
theory Rtp
  imports Sphone_Lib
begin

text \<open>
  The RTP header of \<open>include/sphone_rtp.h\<close> and \<open>src/sphone_rtp.c\<close>: the flag macros, the
  two timestamp conversions, the encoder and decoder, the source identifier and the
  filling and checking of a header.
\<close>

section \<open>Flags\<close>

abbreviation RTP_V :: u16 where "RTP_V \<equiv> 0xC000"
abbreviation RTP_P :: u16 where "RTP_P \<equiv> 0x2000"
abbreviation RTP_X :: u16 where "RTP_X \<equiv> 0x1000"
abbreviation RTP_CC :: u16 where "RTP_CC \<equiv> 0x0F00"
abbreviation RTP_M :: u16 where "RTP_M \<equiv> 0x0080"
abbreviation RTP_PT :: u16 where "RTP_PT \<equiv> 0x007F"
abbreviation RTP_VERSION :: u16 where "RTP_VERSION \<equiv> 2"
abbreviation RTP_PT_DYNAMIC :: u16 where "RTP_PT_DYNAMIC \<equiv> 101"

text \<open>The macros read and write one field each; a setter clears the field first.\<close>

definition rtp_get_v :: "u16 \<Rightarrow> u16" where "rtp_get_v flags = drop_bit 14 (flags AND RTP_V)"
definition rtp_get_p :: "u16 \<Rightarrow> u16" where "rtp_get_p flags = drop_bit 13 (flags AND RTP_P)"
definition rtp_get_x :: "u16 \<Rightarrow> u16" where "rtp_get_x flags = drop_bit 12 (flags AND RTP_X)"
definition rtp_get_cc :: "u16 \<Rightarrow> u16" where "rtp_get_cc flags = drop_bit 8 (flags AND RTP_CC)"
definition rtp_get_m :: "u16 \<Rightarrow> u16" where "rtp_get_m flags = drop_bit 7 (flags AND RTP_M)"
definition rtp_get_pt :: "u16 \<Rightarrow> u16" where "rtp_get_pt flags = flags AND RTP_PT"

definition rtp_set_v :: "u16 \<Rightarrow> u16 \<Rightarrow> u16" where
  "rtp_set_v flags v = (flags AND NOT RTP_V) OR (push_bit 14 v AND RTP_V)"
definition rtp_set_p :: "u16 \<Rightarrow> u16 \<Rightarrow> u16" where
  "rtp_set_p flags p = (flags AND NOT RTP_P) OR (push_bit 13 p AND RTP_P)"
definition rtp_set_x :: "u16 \<Rightarrow> u16 \<Rightarrow> u16" where
  "rtp_set_x flags x = (flags AND NOT RTP_X) OR (push_bit 12 x AND RTP_X)"
definition rtp_set_cc :: "u16 \<Rightarrow> u16 \<Rightarrow> u16" where
  "rtp_set_cc flags cc = (flags AND NOT RTP_CC) OR (push_bit 8 cc AND RTP_CC)"
definition rtp_set_m :: "u16 \<Rightarrow> u16 \<Rightarrow> u16" where
  "rtp_set_m flags m = (flags AND NOT RTP_M) OR (push_bit 7 m AND RTP_M)"
definition rtp_set_pt :: "u16 \<Rightarrow> u16 \<Rightarrow> u16" where
  "rtp_set_pt flags pt = (flags AND NOT RTP_PT) OR (pt AND RTP_PT)"

text \<open>
  A field of the flags word: the \<open>w\<close> bits from bit \<open>k\<close>. Reading a field that was set gives
  the low bits of the value, and fields that do not overlap do not disturb each other.
\<close>

locale flag_field =
  fixes get :: "u16 \<Rightarrow> u16" and set :: "u16 \<Rightarrow> u16 \<Rightarrow> u16" and k w :: nat
  assumes field_fits: "k + w \<le> 16"
    and get_bits: "bit (get f) n \<longleftrightarrow> n < w \<and> bit f (k + n)"
    and set_bits: "bit (set f v) n \<longleftrightarrow> (if k \<le> n \<and> n < k + w then bit v (n - k) else bit f n)"
begin

lemma get_set: "get (set f v) = take_bit w v"
  by (rule bit_word_eqI) (auto simp: get_bits set_bits bit_simps)

lemma set_get: "set f (get f) = f"
  by (rule bit_word_eqI) (use field_fits in \<open>auto simp: get_bits set_bits\<close>)

lemma set_set: "set (set f v) u = set f u"
  by (rule bit_word_eqI) (auto simp: set_bits)

end

locale two_fields = a: flag_field get1 set1 k1 w1 + b: flag_field get2 set2 k2 w2
  for get1 set1 k1 w1 get2 set2 k2 w2 +
  assumes apart: "k1 + w1 \<le> k2 \<or> k2 + w2 \<le> k1"
begin

lemma get_other: "get1 (set2 f v) = get1 f"
  by (rule bit_word_eqI) (use apart in \<open>auto simp: a.get_bits b.set_bits\<close>)

lemma set_commute: "set1 (set2 f v) u = set2 (set1 f u) v"
  by (rule bit_word_eqI) (use apart in \<open>auto simp: a.set_bits b.set_bits\<close>)

end

lemma field_masks:
  "RTP_V = push_bit 14 (mask 2)" "RTP_P = push_bit 13 (mask 1)" "RTP_X = push_bit 12 (mask 1)"
  "RTP_CC = push_bit 8 (mask 4)" "RTP_M = push_bit 7 (mask 1)" "RTP_PT = push_bit 0 (mask 7)"
  by (simp_all add: mask_eq_exp_minus_1)

lemma mask_field:
  fixes f :: u16
  assumes "k + w \<le> 16"
  shows "flag_field (\<lambda>f. drop_bit k (f AND push_bit k (mask w)))
    (\<lambda>f v. (f AND NOT (push_bit k (mask w))) OR (push_bit k v AND push_bit k (mask w))) k w"
proof
  show "k + w \<le> 16" by (fact assms)
qed (use assms in \<open>auto simp: bit_simps dest: bit_imp_le_length\<close>)

interpretation v: flag_field rtp_get_v rtp_set_v 14 2
  unfolding rtp_get_v_def [abs_def] rtp_set_v_def [abs_def] field_masks(1)
  by (rule mask_field) simp

interpretation p: flag_field rtp_get_p rtp_set_p 13 1
  unfolding rtp_get_p_def [abs_def] rtp_set_p_def [abs_def] field_masks(2)
  by (rule mask_field) simp

interpretation x: flag_field rtp_get_x rtp_set_x 12 1
  unfolding rtp_get_x_def [abs_def] rtp_set_x_def [abs_def] field_masks(3)
  by (rule mask_field) simp

interpretation cc: flag_field rtp_get_cc rtp_set_cc 8 4
  unfolding rtp_get_cc_def [abs_def] rtp_set_cc_def [abs_def] field_masks(4)
  by (rule mask_field) simp

interpretation m: flag_field rtp_get_m rtp_set_m 7 1
  unfolding rtp_get_m_def [abs_def] rtp_set_m_def [abs_def] field_masks(5)
  by (rule mask_field) simp

interpretation pt: flag_field rtp_get_pt rtp_set_pt 0 7
  unfolding rtp_get_pt_def [abs_def] rtp_set_pt_def [abs_def] field_masks(6)
  using mask_field [of 0 7] by simp

interpretation v_pt: two_fields rtp_get_v rtp_set_v 14 2 rtp_get_pt rtp_set_pt 0 7
  by unfold_locales simp

interpretation pt_v: two_fields rtp_get_pt rtp_set_pt 0 7 rtp_get_v rtp_set_v 14 2
  by unfold_locales simp

lemmas field_bits = v.get_bits v.set_bits p.get_bits p.set_bits x.get_bits x.set_bits
  cc.get_bits cc.set_bits m.get_bits m.set_bits pt.get_bits pt.set_bits

section \<open>Timestamps\<close>

record NTP_timestamp =
  ntp_sec :: u16
  ntp_frac :: u16

record NTP_timestamp_64 =
  ntp64_sec :: u32
  ntp64_frac :: u32

text \<open>\<open>T\<close> is the current time that \<open>NTP2TV\<close> reads to find the upper half of the seconds.\<close>

definition NTP2TV :: "timeval \<Rightarrow> NTP_timestamp \<Rightarrow> timeval" where
  "NTP2TV T NTP =
    tv (sint (ucast (ntp_sec NTP) OR (word_of_int (tv_sec T) AND 0xffff0000) :: u32))
       (drop_bit 10 (uint (ntp_frac NTP) * 15625))"

definition TV2NTP :: "timeval \<Rightarrow> NTP_timestamp" where
  "TV2NTP TV = \<lparr>ntp_sec = word_of_int (tv_sec TV AND 0xffff),
     ntp_frac = word_of_int (push_bit 10 (tv_usec TV) sdiv 15625)\<rparr>"

text \<open>The conversion to 64 bits multiplies by 4294.967296 in floating point. For microseconds in
  0..999999 its truncation is the integer quotient written here.\<close>

definition TV2NTP_64 :: "timeval \<Rightarrow> NTP_timestamp_64" where
  "TV2NTP_64 TV = \<lparr>ntp64_sec = word_of_int (tv_sec TV),
     ntp64_frac = word_of_int (tv_usec TV * 2 ^ 32 div 1000000)\<rparr>"

section \<open>The header\<close>

record rtp_header =
  rh_flags :: u16
  rh_seq :: u16
  rh_ts :: NTP_timestamp
  rh_ssrc :: u32

definition marshal_rtp_hdr :: "rtp_header \<Rightarrow> bytes" where
  "marshal_rtp_hdr h = put16 (rh_flags h) @ put16 (rh_seq h) @ put16 (ntp_sec (rh_ts h)) @
     put16 (ntp_frac (rh_ts h)) @ put32 (rh_ssrc h)"

definition unmarshal_rtp_hdr :: "bytes \<Rightarrow> (rtp_header \<times> bytes) res" where
  "unmarshal_rtp_hdr ptr =
    bnd (get16 ptr) (\<lambda>(fl, ptr). bnd (get16 ptr) (\<lambda>(sq, ptr). bnd (get16 ptr) (\<lambda>(s, ptr).
    bnd (get16 ptr) (\<lambda>(fr, ptr). bnd (get32 ptr) (\<lambda>(sr, ptr).
      Inr (\<lparr>rh_flags = fl, rh_seq = sq, rh_ts = \<lparr>ntp_sec = s, ntp_frac = fr\<rparr>, rh_ssrc = sr\<rparr>, ptr))))))"

interpretation rtp: header_codec marshal_rtp_hdr unmarshal_rtp_hdr 12
proof
  fix h r p e
  show "length (marshal_rtp_hdr h) = 12" by (simp add: marshal_rtp_hdr_def)
  show "unmarshal_rtp_hdr (marshal_rtp_hdr h @ r) = Inr (h, r)"
    by (simp add: marshal_rtp_hdr_def unmarshal_rtp_hdr_def)
  show "marshal_rtp_hdr h @ r = p" if "unmarshal_rtp_hdr p = Inr (h, r)"
    using that by (auto simp: unmarshal_rtp_hdr_def marshal_rtp_hdr_def bnd_eq_Inr dest!: put_get)
  show "length p < 12 \<and> e = Out_Of_Bounds" if "unmarshal_rtp_hdr p = Inl e"
    using that by (auto simp: unmarshal_rtp_hdr_def bnd_def get_short split: sum.splits dest!: get_length)
qed

text \<open>
  The struct hashed by \<open>random_ssrc\<close> is the type, the time and the process id, 16 octets;
  \<open>digest\<close> is the uninitialised buffer of \<open>md_32\<close>.
\<close>

definition random_ssrc :: "bytes \<Rightarrow> timeval \<Rightarrow> int \<Rightarrow> int \<Rightarrow> u32" where
  "random_ssrc digest now pid ty =
    md_32 digest (store32 (word_of_int ty) @ store32 (word_of_int (tv_sec now)) @
      store32 (word_of_int (tv_usec now)) @ store32 (word_of_int pid))"

text \<open>\<open>sp\<close> is a pointer that may be null; \<open>hdr\<close> is the uninitialised header of the run-time
  test.\<close>

definition rtp_init :: "u32 \<Rightarrow> rtp_header \<Rightarrow> u32 option \<Rightarrow> u32 option \<times> int" where
  "rtp_init rnd hdr sp =
    ((if sp = Some 0 then Some rnd else sp),
     (if length (marshal_rtp_hdr hdr) \<noteq> 12 then - 1 else 0))"

definition rtp_set_hdr :: "timeval \<Rightarrow> rtp_header \<Rightarrow> timeval option \<Rightarrow> u32 \<Rightarrow> rtp_header" where
  "rtp_set_hdr now hdr T0 sr =
    (let hdr = hdr\<lparr>rh_flags := 0\<rparr>;
         hdr = hdr\<lparr>rh_flags := rtp_set_v (rh_flags hdr) RTP_VERSION\<rparr>;
         hdr = hdr\<lparr>rh_flags := rtp_set_pt (rh_flags hdr) RTP_PT_DYNAMIC\<rparr>;
         T = (case T0 of Some T \<Rightarrow> T | None \<Rightarrow> now)
     in hdr\<lparr>rh_ts := TV2NTP T, rh_ssrc := sr\<rparr>)"

definition rtp_check_hdr :: "rtp_header \<Rightarrow> int" where
  "rtp_check_hdr hdr = (if rtp_get_v (rh_flags hdr) \<noteq> RTP_VERSION then - 1 else 0)"

text \<open>The integers that \<open>rtp_print_hdr\<close> formats, in the order of its format string.\<close>

definition rtp_print_hdr :: "rtp_header \<Rightarrow> int list" where
  "rtp_print_hdr hdr =
    [uint (rtp_get_v (rh_flags hdr)), uint (rtp_get_p (rh_flags hdr)), uint (rtp_get_x (rh_flags hdr)),
     uint (rtp_get_cc (rh_flags hdr)), uint (rtp_get_m (rh_flags hdr)), uint (rtp_get_pt (rh_flags hdr)),
     uint (rh_seq hdr), uint (ntp_sec (rh_ts hdr)) mod 1000,
     drop_bit 10 (uint (ntp_frac (rh_ts hdr)) * 15625) div 1000, uint (rh_ssrc hdr)]"

section \<open>Lemmas on timestamps and the hash\<close>

lemma ntp_sec_word:
  assumes "s div 65536 = n div 65536"
  shows "(ucast (word_of_int (s AND 0xffff) :: u16) OR (word_of_int n AND 0xffff0000) :: u32) = word_of_int s"
proof (rule bit_word_eqI)
  have m: "(0xffff0000 :: u32) = push_bit 16 (mask 16)" "(0xffff :: int) = mask 16"
    by (simp_all add: mask_eq_exp_minus_1)
  have "drop_bit 16 s = drop_bit 16 n" using assms by (simp add: drop_bit_eq_div)
  then have "bit (drop_bit 16 s) i = bit (drop_bit 16 n) i" for i by simp
  then have hi: "bit s (16 + i) = bit n (16 + i)" for i by (simp only: bit_drop_bit_eq o_apply)
  fix i assume i: "i < LENGTH(32)"
  have hi: "16 \<le> i \<Longrightarrow> bit n i = bit s i" using hi [of "i - 16"] by simp
  have "bit (ucast (word_of_int (s AND 0xffff) :: u16) :: u32) i \<longleftrightarrow> i < 16 \<and> bit s i"
    unfolding m using i by (simp only: bit_simps) auto
  moreover have "bit (word_of_int n AND 0xffff0000 :: u32) i \<longleftrightarrow> 16 \<le> i \<and> bit n i"
    unfolding m using i by (simp only: bit_simps) auto
  ultimately show "bit (ucast (word_of_int (s AND 0xffff) :: u16) OR (word_of_int n AND 0xffff0000) :: u32) i
      = bit (word_of_int s :: u32) i"
    using i hi by (simp only: bit_or_iff bit_word_of_int_iff) auto
qed

lemma uint_word_of_int_small: "0 \<le> x \<Longrightarrow> x < 2 ^ 16 \<Longrightarrow> uint (word_of_int x :: u16) = x"
  by (simp add: uint_word_of_int)

lemma ntp_frac_exact:
  assumes "tv_norm t"
  shows "uint (ntp_frac (TV2NTP t)) = tv_usec t * 1024 div 15625"
proof -
  have u: "0 \<le> tv_usec t" "tv_usec t < 1000000" using assms by (simp_all add: tv_norm_def)
  then have "tv_usec t * 1024 div 15625 < 65536" by (intro div_upper) simp_all
  then show ?thesis using u
    by (simp add: TV2NTP_def push_bit_eq_mult sdiv_nonneg uint_word_of_int_small)
qed

lemma nested_quotient:
  assumes "0 \<le> (u::int)"
  shows "u - 16 \<le> u * 1024 div 15625 * 15625 div 1024" "u * 1024 div 15625 * 15625 div 1024 \<le> u"
  using int_div_bounds [of 15625 "u * 1024"] int_div_bounds [of 1024 "u * 1024 div 15625 * 15625"] by simp_all

lemma md_xor_16:
  assumes "length d = 16" "length s = 16"
  shows "foldl (md_xor s) d [0..<16] = map2 (XOR) d s"
proof -
  have step: "n \<le> 16 \<Longrightarrow> foldl (md_xor s) d [0..<n] = map2 (XOR) (take n d) (take n s) @ drop n d" for n
  proof (induction n)
    case (Suc n)
    then have "drop n d = d ! n # drop (Suc n) d" using assms by (simp add: Cons_nth_drop_Suc)
    moreover have "take (Suc n) d = take n d @ [d ! n]" "take (Suc n) s = take n s @ [s ! n]"
      using Suc.prems assms by (simp_all add: take_Suc_conv_app_nth)
    ultimately show ?case using Suc assms
      by (simp add: md_xor_def list_update_append nth_append)
  qed simp
  show ?thesis using step [of 16] assms by simp
qed

lemma load32_xor:
  "length a = 4 \<Longrightarrow> length b = 4 \<Longrightarrow> load32 (map2 (XOR) a b) = load32 a XOR load32 b"
proof -
  assume "length a = 4" "length b = 4"
  then obtain a0 a1 a2 a3 b0 b1 b2 b3 where ab: "a = [a0, a1, a2, a3]" "b = [b0, b1, b2, b3]"
    by (auto simp: numeral_eq_Suc length_Suc_conv)
  show ?thesis
  proof (rule bit_word_eqI)
    fix n assume "n < LENGTH(32)"
    then have "n < 8 \<or> 8 \<le> n \<and> n < 16 \<or> 16 \<le> n \<and> n < 24 \<or> 24 \<le> n \<and> n < 32" by auto
    then show "bit (load32 (map2 (XOR) a b)) n \<longleftrightarrow> bit (load32 a XOR load32 b) n"
      by (elim disjE) (auto simp: ab load32_def bit_simps dest: bit_imp_le_length)
  qed
qed

definition digest_seed :: "bytes \<Rightarrow> u32" where
  "digest_seed d = load32 (take 4 d) XOR load32 (take 4 (drop 4 d)) XOR load32 (take 4 (drop 8 d))"

lemma random_ssrc_value:
  assumes "length d = 16"
  shows "random_ssrc d now pid ty = digest_seed d XOR word_of_int ty XOR word_of_int (tv_sec now)
    XOR word_of_int (tv_usec now)"
proof -
  define a b c e where abce: "a = store32 (word_of_int ty)" "b = store32 (word_of_int (tv_sec now))"
    "c = store32 (word_of_int (tv_usec now))" "e = store32 (word_of_int pid)"
  have len: "length a = 4" "length b = 4" "length c = 4" "length e = 4" by (simp_all add: abce)
  have "foldl (md_xor (a @ b @ c @ e)) d [0..<16] = map2 (XOR) d (a @ b @ c @ e)"
    using len assms by (intro md_xor_16) simp_all
  moreover have "take 4 (drop k (map2 (XOR) d (a @ b @ c @ e)))
      = map2 (XOR) (take 4 (drop k d)) (take 4 (drop k (a @ b @ c @ e)))" for k
    by (simp add: take_map drop_map take_zip drop_zip)
  moreover have "length (a @ b @ c @ e) = 16" "[0..<3] = [0, 1, 2]" using len by (simp_all add: upt_rec)
  ultimately have "random_ssrc d now pid ty = load32 (map2 (XOR) (take 4 d) a)
      XOR load32 (map2 (XOR) (take 4 (drop 4 d)) b) XOR load32 (map2 (XOR) (take 4 (drop 8 d)) c)"
    unfolding random_ssrc_def md_32_def Let_def abce [symmetric] using len by (simp add: xor.assoc)
  then show ?thesis using len assms
    by (simp add: load32_xor digest_seed_def abce xor.assoc xor.left_commute xor.commute)
qed

section \<open>Properties\<close>

text \<open>C21. An RTP header survives the wire: it takes 12 octets, the flags and the sequence number
  stand first in network order, decoding what was encoded gives the header and the rest of
  the packet back, and decoding succeeds exactly on buffers of at least 12 octets.\<close>

theorem rtp_header_roundtrip:
  "unmarshal_rtp_hdr (marshal_rtp_hdr h @ payload) = Inr (h, payload) \<and>
   length (marshal_rtp_hdr h) = 12 \<and>
   take 4 (marshal_rtp_hdr h) = be16 (rh_flags h) @ be16 (rh_seq h) \<and>
   ((\<exists>h' r. unmarshal_rtp_hdr p = Inr (h', r)) \<longleftrightarrow> 12 \<le> length p)"
  using rtp.dec_enc rtp.enc_length rtp.dec_total by (simp add: marshal_rtp_hdr_def put_be)

definition rtp_set_all :: "u16 \<Rightarrow> u16 \<Rightarrow> u16 \<Rightarrow> u16 \<Rightarrow> u16 \<Rightarrow> u16 \<Rightarrow> u16 \<Rightarrow> u16" where
  "rtp_set_all f vv pp xx cn mm tt =
    rtp_set_pt (rtp_set_m (rtp_set_cc (rtp_set_x (rtp_set_p (rtp_set_v f vv) pp) xx) cn) mm) tt"

text \<open>The six flag fields are independent: whatever the flags word held before, after setting
  all fields each one reads back as the low bits of what was set, and the word consists of
  these fields alone.\<close>

lemma rtp_flags_independent:
  "let f = rtp_set_all f0 vv pp xx cn mm tt in rtp_get_v f = take_bit 2 vv \<and> rtp_get_p f = take_bit 1 pp \<and>
    rtp_get_x f = take_bit 1 xx \<and> rtp_get_cc f = take_bit 4 cn \<and>
    rtp_get_m f = take_bit 1 mm \<and> rtp_get_pt f = take_bit 7 tt \<and>
    f = rtp_set_all 0 vv pp xx cn mm tt"
  unfolding Let_def
proof (intro conjI)
  show "rtp_set_all f0 vv pp xx cn mm tt = rtp_set_all 0 vv pp xx cn mm tt"
    by (rule bit_word_eqI) (auto simp: rtp_set_all_def field_bits)
qed (rule bit_word_eqI, auto simp: rtp_set_all_def field_bits bit_take_bit_iff bit_0)+

text \<open>A header filled in for sending is accepted by the receiver's check after the trip over
  the wire, has version 2, payload type 101 and all other flags clear, carries the given
  source and keeps the sequence number the caller had put there.\<close>

lemma rtp_set_hdr_accepted:
  "let h = rtp_set_hdr now hdr T0 sr in
     unmarshal_rtp_hdr (marshal_rtp_hdr h @ r) = Inr (h, r) \<and> rtp_check_hdr h = 0 \<and>
     rtp_get_pt (rh_flags h) = 101 \<and> rh_flags h = 0x8065 \<and> rh_ssrc h = sr \<and> rh_seq h = rh_seq hdr"
proof -
  have "rtp_set_pt (rtp_set_v 0 2) 101 = 0x8065" by (simp add: rtp_set_v_def rtp_set_pt_def)
  then show ?thesis
    by (simp add: rtp_set_hdr_def rtp_check_hdr_def rtp.dec_enc rtp_get_v_def rtp_get_pt_def Let_def)
qed

text \<open>The receiver recovers the send time from the 32-bit timestamp of a packet: the seconds
  exactly while sender and receiver are in the same period of 65536 seconds, the
  microseconds rounded down by at most 16.\<close>

lemma ntp_roundtrip:
  assumes "tv_norm t" "0 \<le> tv_sec t" "tv_sec t < 2 ^ 31" "tv_sec t div 65536 = tv_sec now div 65536"
  shows "tv_sec (NTP2TV now (TV2NTP t)) = tv_sec t \<and> tv_norm (NTP2TV now (TV2NTP t)) \<and>
    tv_usec t - 16 \<le> tv_usec (NTP2TV now (TV2NTP t)) \<and> tv_usec (NTP2TV now (TV2NTP t)) \<le> tv_usec t"
proof -
  have "tv_sec (NTP2TV now (TV2NTP t)) = tv_sec t"
    using ntp_sec_word [OF assms(4)] sint_of_int31 [of "tv_sec t"] assms(2,3)
    by (simp add: NTP2TV_def TV2NTP_def)
  moreover have "tv_usec (NTP2TV now (TV2NTP t)) = tv_usec t * 1024 div 15625 * 15625 div 1024"
    by (simp add: NTP2TV_def ntp_frac_exact [OF assms(1)] drop_bit_eq_div)
  moreover have "0 \<le> tv_usec t" "tv_usec t < 1000000" using assms(1) by (simp_all add: tv_norm_def)
  ultimately show ?thesis using nested_quotient [of "tv_usec t"]
    by (simp add: tv_norm_def pos_imp_zdiv_nonneg_iff)
qed

lemma ntp_roundtrip_witness:
  "tv_sec (NTP2TV (tv 1000003 5) (TV2NTP (tv 1000000 500000))) = 1000000 \<and>
   500000 - 16 \<le> tv_usec (NTP2TV (tv 1000003 5) (TV2NTP (tv 1000000 500000)))"
  using ntp_roundtrip [of "tv 1000000 500000" "tv 1000003 5"] by (simp add: tv_norm_def)

text \<open>The source identifier is the exclusive or of the stack contents, the type and the two
  words of the time. The process id that the code puts in the hashed struct never reaches
  it: two processes started in the same microsecond draw the same identifier.\<close>

lemma random_ssrc_ignores_pid:
  assumes "length d = 16"
  shows "random_ssrc d now pid ty = digest_seed d XOR word_of_int ty XOR word_of_int (tv_sec now)
      XOR word_of_int (tv_usec now) \<and>
    random_ssrc d now pid ty = random_ssrc d now pid' ty"
  using assms by (simp add: random_ssrc_value)

lemma random_ssrc_ignores_pid_witness:
  "random_ssrc (replicate 16 0) (tv 7 9) 1 2 = random_ssrc (replicate 16 0) (tv 7 9) 3 2"
  by (rule conjunct2 [OF random_ssrc_ignores_pid]) simp

end
