(* ===== verification/Playout.thy ===== *)
theory Playout
  imports Complex_Main Sphone_Lib
begin

text \<open>
  Playing received audio: \<open>src/sphone_playout.c\<close> chooses between a device that queues what
  it is given and a device with a circular buffer, for which
  \<open>src/sphone_playout_shbuf.c\<close> computes where in the buffer each packet goes.

  The device is a parameter: \<open>pos\<close> is what \<open>pa_play_pos\<close> reports (\<open>None\<close> for a failure),
  and a play operation is the output \<open>Play\<close> with its position, whose result the device
  gives back in \<open>pr\<close>. The running mean of the queue length is a rational number; it only
  decides about calls of the empty \<open>queue_reset\<close>.
\<close>

datatype playout_type = PLAYOUT_FIFO | PLAYOUT_SHMEM

text \<open>The classification of a packet by its sequence number, \<open>enum seq_type\<close> of
  \<open>include/sphone_rcv.h\<close>.\<close>

datatype seq_type = SEQ_NORMAL | SEQ_GAP | SEQ_RESET | SEQ_BAD | SEQ_DUP | SEQ_TALK_START

record playout_shbuf =
  ps_bits_samp :: u32
  ps_len :: u32
  ps_cursor_r :: u32
  ps_cursor_w :: u32
  ps_cursor_w_prev :: u32
  ps_playbuflen :: u32
  ps_c :: u32
  ps_c_old :: u32
  ps_qmin :: u32
  ps_qmean :: u32
  ps_qmax :: u32
  ps_d :: u32
  ps_d_s :: rat
  ps_drop :: u32
  ps_silentbuf :: bytes
  ps_silentlen :: u32
  ps_nextsilence :: int

section \<open>Differences of positions\<close>

definition wrap :: "int \<Rightarrow> u32 \<Rightarrow> int" where
  "wrap d len =
    (if d < - sint (len div 2) then sint (word_of_int d + len)
     else if d > sint (len div 2) then sint (word_of_int d - len)
     else d)"

definition wrap1 :: "int \<Rightarrow> u32 \<Rightarrow> int" where
  "wrap1 d len = (if d < 0 then sint (word_of_int d + len) else d)"

section \<open>Where the next packet goes\<close>

definition shbuf_reset :: "playout_shbuf \<Rightarrow> playout_shbuf" where
  "shbuf_reset ps =
    (let ps = ps\<lparr>ps_c := (ps_cursor_w ps + ps_qmean ps) mod ps_playbuflen ps\<rparr>;
         ps = ps\<lparr>ps_d := ps_qmean ps\<rparr>;
         ps = ps\<lparr>ps_d_s := of_int (uint (ps_d ps))\<rparr>
     in ps\<lparr>ps_cursor_w_prev := ps_cursor_w ps\<rparr>)"

text \<open>The promoted \<open>seq_gap\<close> multiplies a \<open>size_t\<close>; the argument of \<open>wrap\<close> is converted to
  \<open>int\<close>. The value of \<open>delta\<close> is not used.\<close>

definition shbuf_gap :: "playout_shbuf \<Rightarrow> u16 \<Rightarrow> playout_shbuf" where
  "shbuf_gap ps seq_gap =
    (let ps = ps\<lparr>ps_c := (ps_cursor_w ps + ps_qmean ps) mod ps_playbuflen ps\<rparr>;
         ps = ps\<lparr>ps_d := word_of_int (wrap (sint (ps_c ps + ucast seq_gap * ps_len ps - ps_cursor_w ps)) (ps_playbuflen ps))\<rparr>;
         ps = ps\<lparr>ps_d_s := 1 / 10 * of_int (uint (ps_d ps)) + 9 / 10 * ps_d_s ps\<rparr>;
         ps = ps\<lparr>ps_cursor_w_prev := ps_cursor_w_prev ps + ((ucast seq_gap + 1) * ps_len ps) mod ps_playbuflen ps\<rparr>
     in ps\<lparr>ps_cursor_w_prev := ps_cursor_w ps\<rparr>)"

text \<open>The late-packet test compares the unsigned \<open>ps_d\<close> with zero; both branches behind it and
  both calls of \<open>queue_reset\<close> leave the state as it is.\<close>

definition shbuf_normal :: "playout_shbuf \<Rightarrow> playout_shbuf" where
  "shbuf_normal ps =
    (let ps = ps\<lparr>ps_c := (ps_c_old ps + ps_len ps) mod ps_playbuflen ps\<rparr>;
         ps = ps\<lparr>ps_d := word_of_int (wrap (sint (ps_c ps - ps_cursor_w ps)) (ps_playbuflen ps))\<rparr>;
         ps = ps\<lparr>ps_d_s := 1 / 10 * of_int (uint (ps_d ps)) + 9 / 10 * ps_d_s ps\<rparr>;
         ps = ps\<lparr>ps_cursor_w_prev := ps_cursor_w ps\<rparr>
     in ps)"

text \<open>What a play function hands to the device: the packet and its position, or nothing.\<close>

type_synonym play_out = "(bytes \<times> u32) option"

text \<open>
  \<open>playout_shbuf_play\<close>: \<open>pr\<close> is the result of the device's play function. A position modulo a
  buffer length of zero divides by zero. An illegal type reports an error and goes on.
\<close>

definition playout_shbuf_play :: "(u32 \<times> u32) option \<Rightarrow> int \<Rightarrow> u16 \<Rightarrow> u16 \<Rightarrow> playout_shbuf
    \<Rightarrow> bytes \<Rightarrow> u32 \<Rightarrow> seq_type \<Rightarrow> (playout_shbuf \<times> play_out \<times> int) res" where
  "playout_shbuf_play pos pr seq_cur seq_prev ps buf len seqtype =
    (let seq_gap = seq_cur - seq_prev;
         ps = ps\<lparr>ps_len := len\<rparr>;
         done = (\<lambda>ps. ps\<lparr>ps_c_old := ps_c ps, ps_drop := 0\<rparr>)
     in case pos of
       None \<Rightarrow> Inr (done ps, None, - 1)
     | Some (r, w) \<Rightarrow>
        (if ps_playbuflen ps = 0 then Inl Div_By_Zero
         else
          (let ps = ps\<lparr>ps_cursor_r := r mod ps_playbuflen ps, ps_cursor_w := w mod ps_playbuflen ps\<rparr>;
               ps = (if 8 < ps_bits_samp ps \<and> odd (ps_cursor_w ps)
                     then ps\<lparr>ps_cursor_w := ps_cursor_w ps + 1\<rparr> else ps);
               ps = (case seqtype of
                       SEQ_RESET \<Rightarrow> shbuf_reset ps
                     | SEQ_TALK_START \<Rightarrow> shbuf_reset ps
                     | SEQ_GAP \<Rightarrow> shbuf_gap ps seq_gap
                     | SEQ_NORMAL \<Rightarrow> shbuf_normal ps
                     | _ \<Rightarrow> ps)
           in if ps_drop ps \<noteq> 0 then Inr (done ps, None, 0)
              else Inr (done ps, Some (take (unat (ps_len ps)) buf, ps_c ps), pr))))"

section \<open>Background audio\<close>

text \<open>\<open>usecs\<close> are the microseconds of the clock read for each octet; the shift by
  \<open>bits_samp - 1\<close> is by -1 when the sample size is zero, which C leaves undefined.\<close>

definition silentbuf_init :: "int list \<Rightarrow> nat \<Rightarrow> int \<Rightarrow> bytes res" where
  "silentbuf_init usecs len bits_samp =
    (if 0 < len \<and> bits_samp < 1 then Inl Undefined_Shift
     else Inr (map (\<lambda>i. word_of_int (push_bit (nat (bits_samp - 1)) 1 + usecs ! i smod 10)) [0..<len]))"

text \<open>The inner loop of \<open>silentout_play\<close>: the background is played until \<open>tmp_len\<close> is used up.
  \<open>prs\<close> are the answers of the device, one for each play. The result: the positions played, the
  next position, and the value returned; \<open>None\<close> when the loop wants more answers than given.\<close>

fun silent_loop :: "int list \<Rightarrow> int \<Rightarrow> int \<Rightarrow> int \<Rightarrow> int \<Rightarrow> (int list \<times> int \<times> int) option" where
  "silent_loop prs plen len next tmp_len =
    (if tmp_len \<le> 0 then Some ([], next, 0)
     else case prs of
       [] \<Rightarrow> None
     | pr # prs \<Rightarrow>
        (if pr < 0 then Some ([next], next, - 1)
         else map_option (\<lambda>(ps, n, r). (next # ps, n, r))
                (silent_loop prs plen len ((next + len) smod plen) (tmp_len - len))))"

declare silent_loop.simps [simp del]

abbreviation "SILENT_INTERVAL_MS \<equiv> 200 :: int"

text \<open>The result: the new state, the positions played, and the time for which the next run is
  registered.\<close>

definition silentout_play :: "(int \<times> int) option \<Rightarrow> int list \<Rightarrow> timeval \<Rightarrow> playout_shbuf
    \<Rightarrow> (playout_shbuf \<times> int list \<times> timeval option \<times> int) option res" where
  "silentout_play pos prs now ps =
    (let plen = sint (ps_playbuflen ps); len = sint (ps_silentlen ps) in
     case pos of
       None \<Rightarrow> Inr (Some (ps, [], None, - 1))
     | Some (p, w) \<Rightarrow>
        (if plen = 0 then Inl Div_By_Zero
         else
          (let (next, tmp_len) =
                 (if ps_nextsilence ps \<noteq> 0 then (ps_nextsilence ps, (p - ps_nextsilence ps + plen) smod plen)
                  else ((p - len + plen) smod plen, len));
               next = (if next smod 2 \<noteq> 0 then next - 1 else next)
           in Inr (map_option (\<lambda>(ps', n, r). (ps\<lparr>ps_nextsilence := n\<rparr>, ps',
                      if r < 0 then None else Some (timeradd now (tv 0 (SILENT_INTERVAL_MS * 1000))), r))
                    (silent_loop prs plen len next (tmp_len - len))))))"

text \<open>With a background of at least one octet the loop ends: one answer for each octet is enough.\<close>

lemma silent_loop_returns:
  assumes "0 < len" "nat tmp_len \<le> length prs"
  shows "\<exists>r. silent_loop prs plen len nx tmp_len = Some r"
  using assms
proof (induction prs arbitrary: nx tmp_len)
  case (Cons pr prs)
  then have "0 < tmp_len \<Longrightarrow> nat (tmp_len - len) \<le> length prs" by auto
  then show ?case using Cons.IH [of "tmp_len - len" "(nx + len) smod plen"] Cons.prems(1)
    by (subst silent_loop.simps) (cases "0 < tmp_len", auto simp del: split_paired_Ex)
qed (simp add: silent_loop.simps)

section \<open>Setting up\<close>

abbreviation "QMIN_DEFAULT_MS \<equiv> 50 :: u32"
abbreviation "Q_DELTA_MS \<equiv> 100 :: u32"

definition shbuf_zero :: playout_shbuf where
  "shbuf_zero = \<lparr>ps_bits_samp = 0, ps_len = 0, ps_cursor_r = 0, ps_cursor_w = 0, ps_cursor_w_prev = 0,
     ps_playbuflen = 0, ps_c = 0, ps_c_old = 0, ps_qmin = 0, ps_qmean = 0, ps_qmax = 0, ps_d = 0, ps_d_s = 0,
     ps_drop = 0, ps_silentbuf = [], ps_silentlen = 0, ps_nextsilence = 0\<rparr>"

text \<open>\<open>buflen\<close> is the answer of the device to the buffer length request; the result carries the
  time of the first run of the background audio. The sample size stays zero.\<close>

definition playout_shbuf_init :: "u32 option \<Rightarrow> int list \<Rightarrow> timeval
    \<Rightarrow> (playout_shbuf \<times> timeval option \<times> int) res" where
  "playout_shbuf_init buflen usecs now =
    (let ps = shbuf_zero\<lparr>ps_qmin := QMIN_DEFAULT_MS\<rparr>;
         ps = ps\<lparr>ps_qmax := ps_qmin ps + Q_DELTA_MS\<rparr>;
         ps = ps\<lparr>ps_qmean := ps_qmin ps + (ps_qmax ps - ps_qmin ps) div 2\<rparr>
     in case buflen of
          None \<Rightarrow> Inr (ps, None, - 1)
        | Some l \<Rightarrow>
           (let ps = ps\<lparr>ps_playbuflen := l, ps_silentlen := l div 3\<rparr> in
            bnd (silentbuf_init usecs (unat (ps_silentlen ps)) (sint (ps_bits_samp ps))) (\<lambda>sb.
              Inr (ps\<lparr>ps_silentbuf := sb\<rparr>, Some (timeradd now (tv 0 (SILENT_INTERVAL_MS * 1000))), 0))))"

text \<open>The common interface. A queueing device plays every packet at position 0; an impossible type
  returns an indeterminate value, given here by \<open>junk\<close>.\<close>

datatype playout = Fifo | Shbuf playout_shbuf

definition playout_fifo_play :: "int \<Rightarrow> int \<Rightarrow> bytes \<Rightarrow> u32 \<Rightarrow> seq_type \<Rightarrow> play_out \<times> int" where
  "playout_fifo_play junk pr buf len seqtype =
    (if seqtype = SEQ_DUP \<or> seqtype = SEQ_BAD then (None, junk)
     else (Some (take (unat len) buf, 0), pr))"

definition playout_play :: "int \<Rightarrow> (u32 \<times> u32) option \<Rightarrow> int \<Rightarrow> u16 \<Rightarrow> u16 \<Rightarrow> playout
    \<Rightarrow> bytes \<Rightarrow> u32 \<Rightarrow> seq_type \<Rightarrow> (playout \<times> play_out \<times> int) res" where
  "playout_play junk pos pr seq_cur seq_prev pl buf len seqtype =
    (case pl of
       Fifo \<Rightarrow> (case playout_fifo_play junk pr buf len seqtype of (o1, r) \<Rightarrow> Inr (Fifo, o1, r))
     | Shbuf ps \<Rightarrow> bnd (playout_shbuf_play pos pr seq_cur seq_prev ps buf len seqtype)
                      (\<lambda>(ps, o1, r). Inr (Shbuf ps, o1, r)))"

text \<open>\<open>playout_init\<close> allocates the state of the chosen type (\<open>ok\<close>: the allocation succeeds; a failure
  reports an error).\<close>

definition playout_init :: "bool \<Rightarrow> u32 option \<Rightarrow> int list \<Rightarrow> timeval \<Rightarrow> playout_type
    \<Rightarrow> (playout option \<times> timeval option \<times> int) res" where
  "playout_init ok buflen usecs now type =
    (if \<not> ok then Inr (None, None, - 1)
     else case type of
       PLAYOUT_FIFO \<Rightarrow> Inr (Some Fifo, None, 0)
     | PLAYOUT_SHMEM \<Rightarrow> bnd (playout_shbuf_init buflen usecs now) (\<lambda>(ps, t, r).
         Inr (Some (Shbuf ps), t, if r < 0 then - 1 else 0)))"

text \<open>What the two exit functions free. The one that is called is \<open>playout_exit\<close>, which leaves the
  background audio of a circular buffer allocated.\<close>

datatype playout_object = Silentbuf | Playout_Struct

definition playout_exit :: "playout option \<Rightarrow> playout_object list" where
  "playout_exit pl = (case pl of None \<Rightarrow> [] | Some _ \<Rightarrow> [Playout_Struct])"

definition playout_shbuf_exit :: "playout_shbuf option \<Rightarrow> playout_object list" where
  "playout_shbuf_exit p = (case p of None \<Rightarrow> []
     | Some ps \<Rightarrow> (if ps_silentbuf ps \<noteq> [] then [Silentbuf] else []) @ [Playout_Struct])"

section \<open>Lemmas\<close>

lemma sint_nonneg_word: "uint (w :: u32) < 2 ^ 31 \<Longrightarrow> sint w = uint w"
proof -
  assume "uint w < 2 ^ 31"
  moreover have "0 \<le> uint w" by simp
  then have "- 2147483648 \<le> uint w" by linarith
  ultimately show ?thesis using sint_of_int31 [of "uint w"] by simp
qed

lemma wrap_value:
  assumes "uint len < 2 ^ 31" "\<bar>d\<bar> < uint len"
  shows "wrap d len = (if d < - (uint len div 2) then d + uint len
    else if d > uint len div 2 then d - uint len else d)"
proof -
  have h: "sint (len div 2) = uint len div 2"
  proof -
    have "uint (len div 2) = uint len div 2" by (simp add: uint_div_distrib)
    moreover have "uint len div 2 < 2 ^ 31" using assms(1) by simp
    ultimately show ?thesis using sint_nonneg_word [of "len div 2"] by simp
  qed
  have a: "sint (word_of_int d + len) = d + uint len" if "d < 0"
    using sint_of_int31 [of "d + uint len"] that assms by simp
  have b: "sint (word_of_int d - len) = d - uint len" if "0 < d"
    using sint_of_int31 [of "d - uint len"] that assms by simp
  have "0 \<le> uint len div 2" using pos_imp_zdiv_nonneg_iff [of 2 "uint len"] by simp
  moreover have "d < - (uint len div 2) \<Longrightarrow> 0 \<le> uint len div 2 \<Longrightarrow> d < 0" by linarith
  moreover have "uint len div 2 < d \<Longrightarrow> 0 \<le> uint len div 2 \<Longrightarrow> 0 < d" by linarith
  ultimately show ?thesis using a b by (simp add: wrap_def h)
qed

lemma uint_add_mod:
  fixes c l b :: u32
  assumes "uint c + uint l < 2 ^ 32"
  shows "uint ((c + l) mod b) = (uint c + uint l) mod uint b"
proof -
  have "uint (c + l) = uint c + uint l" using assms by (simp add: uint_add_lem [symmetric])
  then show ?thesis by (simp add: uint_mod_distrib)
qed

lemma word_mod_less: "b \<noteq> (0 :: u32) \<Longrightarrow> c mod b < b"
  by (simp add: word_mod_less_divisor word_neq_0_conv)


lemma shbuf_steps:
  "ps_playbuflen (shbuf_reset ps) = ps_playbuflen ps" "ps_playbuflen (shbuf_gap ps g) = ps_playbuflen ps"
  "ps_playbuflen (shbuf_normal ps) = ps_playbuflen ps"
  "ps_drop (shbuf_reset ps) = ps_drop ps" "ps_drop (shbuf_gap ps g) = ps_drop ps" "ps_drop (shbuf_normal ps) = ps_drop ps"
  "ps_len (shbuf_reset ps) = ps_len ps" "ps_len (shbuf_gap ps g) = ps_len ps" "ps_len (shbuf_normal ps) = ps_len ps"
  "ps_c (shbuf_reset ps) = (ps_cursor_w ps + ps_qmean ps) mod ps_playbuflen ps"
  "ps_c (shbuf_gap ps g) = (ps_cursor_w ps + ps_qmean ps) mod ps_playbuflen ps"
  "ps_c (shbuf_normal ps) = (ps_c_old ps + ps_len ps) mod ps_playbuflen ps"
  by (simp_all add: shbuf_reset_def shbuf_gap_def shbuf_normal_def Let_def)

text \<open>Playing packets of one length one after the other, with the positions the device reports.\<close>

fun shbuf_run :: "(u32 \<times> u32) list \<Rightarrow> playout_shbuf \<Rightarrow> u32 \<Rightarrow> u32 list res" where
  "shbuf_run [] ps len = Inr []"
| "shbuf_run (p # pos) ps len =
    bnd (playout_shbuf_play (Some p) 0 0 0 ps (replicate (unat len) 0) len SEQ_NORMAL) (\<lambda>(ps', o1, _).
      bnd (shbuf_run pos ps' len) (\<lambda>cs. Inr (case o1 of None \<Rightarrow> cs | Some (_, c) \<Rightarrow> c # cs)))"

lemma shbuf_normal_play:
  assumes "ps_playbuflen ps \<noteq> 0" "ps_drop ps = 0"
  shows "\<exists>ps'. playout_shbuf_play (Some p) pr sc sp ps buf len SEQ_NORMAL
      = Inr (ps', Some (take (unat len) buf, (ps_c_old ps + len) mod ps_playbuflen ps), pr) \<and>
    ps_playbuflen ps' = ps_playbuflen ps \<and> ps_drop ps' = 0 \<and> ps_c_old ps' = (ps_c_old ps + len) mod ps_playbuflen ps"
  using assms by (cases p) (simp add: playout_shbuf_play_def Let_def shbuf_steps)

section \<open>Properties\<close>

text \<open>The difference of two positions in the circular buffer is taken the short way round: the
  result names the same position modulo the buffer length and is at most half a buffer.\<close>

lemma wrap_shortest:
  assumes "uint len < 2 ^ 31" "\<bar>d\<bar> < uint len"
  shows "wrap d len mod uint len = d mod uint len \<and> \<bar>wrap d len\<bar> \<le> uint len div 2 \<and>
    wrap1 d len = d mod uint len"
proof -
  have "wrap1 d len = d mod uint len"
  proof (cases "d < 0")
    case True
    have "sint (word_of_int d + len) = d + uint len"
      using sint_of_int31 [of "d + uint len"] True assms by simp
    moreover have "(d + uint len) mod uint len = d + uint len" using True assms by (intro mod_pos_pos_trivial) simp_all
    ultimately show ?thesis using True by (simp add: wrap1_def)
  qed (use assms in \<open>simp add: wrap1_def\<close>)
  then show ?thesis using assms by (auto simp: wrap_value)
qed

lemma wrap_shortest_witness: "\<bar>wrap (- 900) 1000\<bar> \<le> 500 \<and> wrap (- 900) 1000 mod 1000 = 100"
  using wrap_shortest [of 1000 "- 900"] by simp









text \<open>Packets in sequence are laid end to end round the buffer: n packets of the same length
  start at c + len, c + 2 len, ..., modulo the buffer length, wherever the device's cursors are.\<close>

lemma shbuf_contiguous:
  assumes "ps_playbuflen ps \<noteq> 0" "ps_drop ps = 0" "ps_c_old ps < ps_playbuflen ps"
    and "uint (ps_playbuflen ps) + uint len < 2 ^ 32"
  shows "\<exists>cs. shbuf_run pos ps len = Inr cs \<and>
    map uint cs = map (\<lambda>i. (uint (ps_c_old ps) + int (Suc i) * uint len) mod uint (ps_playbuflen ps)) [0..<length pos]"
  using assms
proof (induction pos arbitrary: ps)
  case Nil
  then show ?case by simp
next
  case (Cons p pos)
  let ?b = "ps_playbuflen ps" and ?c = "(ps_c_old ps + len) mod ps_playbuflen ps"
  obtain ps' where play: "playout_shbuf_play (Some p) 0 0 0 ps (replicate (unat len) 0) len SEQ_NORMAL
      = Inr (ps', Some (replicate (unat len) 0, ?c), 0)"
    and ps': "ps_playbuflen ps' = ?b" "ps_drop ps' = 0" "ps_c_old ps' = ?c"
    using shbuf_normal_play [OF Cons.prems(1,2), of p 0 0 0 "replicate (unat len) 0" len] by auto
  obtain cs where cs: "shbuf_run pos ps' len = Inr cs"
    "map uint cs = map (\<lambda>i. (uint ?c + int (Suc i) * uint len) mod uint ?b) [0..<length pos]"
    using Cons.IH [of ps'] Cons.prems ps' word_mod_less [of ?b] by auto
  have "uint (ps_c_old ps) + uint len < 2 ^ 32" using Cons.prems(3,4) by (simp add: word_less_def)
  then have c: "uint ?c = (uint (ps_c_old ps) + uint len) mod uint ?b" by (rule uint_add_mod)
  have "(uint ?c + int i * uint len) mod uint ?b = (uint (ps_c_old ps) + int (Suc i) * uint len) mod uint ?b" for i
  proof -
    have "(uint ?c + int i * uint len) mod uint ?b = (uint (ps_c_old ps) + uint len + int i * uint len) mod uint ?b"
      unfolding c by (rule mod_add_left_eq)
    then show ?thesis by (simp add: algebra_simps)
  qed
  then have "map uint cs = map (\<lambda>i. (uint (ps_c_old ps) + int (Suc i) * uint len) mod uint ?b) (map Suc [0..<length pos])"
    unfolding cs(2) map_map by (intro map_cong refl) (simp only: o_apply)
  then have "map uint (?c # cs) = map (\<lambda>i. (uint (ps_c_old ps) + int (Suc i) * uint len) mod uint ?b) [0..<length (p # pos)]"
    using c by (simp add: upt_conv_Cons [of 0] flip: map_Suc_upt del: upt_Suc)
  then show ?case using play cs(1) by auto
qed

lemma shbuf_contiguous_witness:
  "\<exists>cs. shbuf_run [(0, 0), (5, 7), (9, 30)] (shbuf_zero\<lparr>ps_playbuflen := 1000, ps_c_old := 700\<rparr>) 160 = Inr cs \<and>
    map uint cs = [860, 20, 180]"
  using shbuf_contiguous [of "shbuf_zero\<lparr>ps_playbuflen := 1000, ps_c_old := 700\<rparr>" 160 "[(0, 0), (5, 7), (9, 30)]"]
  by (auto simp: shbuf_zero_def upt_rec)

end
