(* ===== verification/Rtp_Session.thy ===== *)
theory Rtp_Session
  imports Sphone_Lib
begin

text \<open>
  The sockets of a session: \<open>src/sphone_inet.c\<close> and \<open>src/sphone_rtp_session.c\<close>.

  The system is a parameter, call by call: \<open>sock0\<close> and \<open>sock1\<close> are what the two \<open>socket\<close>
  calls return, \<open>bnd_ok\<close> tells for a socket and a port (in network order) whether \<open>bind\<close>
  succeeds, \<open>inet_addr\<close> and \<open>gethostbyname\<close> are the resolver of the C library. What the code does
  to the outside is a list of effects. A call of \<open>sphone_error\<close> is one of them: at that point the
  exit functions run, which is the subject of the theory of errors.
\<close>

record sockaddr_in =
  sin_family :: u16
  sin_port :: u16
  s_addr :: u32

definition AF_INET :: u16 where "AF_INET = 2"
definition INADDR_ANY :: u32 where "INADDR_ANY = 0"
definition INADDR_LOOPBACK :: u32 where "INADDR_LOOPBACK = 0x7f000001"

definition zero_addr :: sockaddr_in where
  "zero_addr = \<lparr>sin_family = 0, sin_port = 0, s_addr = 0\<rparr>"

datatype effect = Sphone_Error | Sphone_Warning | Bind int u16 | Close int
  | Send_To int bytes sockaddr_in | Reg_Timeout timeval string | Reg_Fd int string

text \<open>The result of a function that returns an \<open>int\<close>: the new state, what it did, and its value.
  \<open>call_or\<close> is the idiom \<open>if (f(...) < 0) return -1;\<close>.\<close>

type_synonym 's called = "('s \<times> effect list \<times> int) res"

definition call_or :: "'s called \<Rightarrow> ('s \<Rightarrow> 't called) \<Rightarrow> ('s \<Rightarrow> 't) \<Rightarrow> 't called" where
  "call_or m k fail = bnd m (\<lambda>(s, es, r).
     if r < 0 then Inr (fail s, es, - 1)
     else bnd (k s) (\<lambda>(t, es', r'). Inr (t, es @ es', r')))"

lemma call_or_simps [simp]:
  "call_or (Inl e) k fail = Inl e"
  "r < 0 \<Longrightarrow> call_or (Inr (s, es, r)) k fail = Inr (fail s, es, - 1)"
  "0 \<le> r \<Longrightarrow> call_or (Inr (s, es, r)) k fail = bnd (k s) (\<lambda>(t, es', r'). Inr (t, es @ es', r'))"
  by (simp_all add: call_or_def)

section \<open>Addresses and sockets\<close>

text \<open>The address of the resolver is copied over \<open>sin_addr\<close>, four octets; the test for a symbolic
  name compares with -1, the value of \<open>inet_addr\<close> on a name.\<close>

definition inet_host2addr :: "(string \<Rightarrow> u32) \<Rightarrow> (string \<Rightarrow> bytes option) \<Rightarrow> string \<Rightarrow> u16
    \<Rightarrow> sockaddr_in \<Rightarrow> sockaddr_in called" where
  "inet_host2addr inet_addr gethostbyname hostname port addr =
    (let addr = addr\<lparr>sin_family := AF_INET, sin_port := port, s_addr := inet_addr hostname\<rparr> in
     if s_addr addr = - 1 then
       (case gethostbyname hostname of
          None \<Rightarrow> Inr (addr, [Sphone_Error], - 1)
        | Some h \<Rightarrow>
            if 4 < length h then Inl Out_Of_Bounds
            else Inr (addr\<lparr>s_addr := load32 (h @ drop (length h) (store32 (s_addr addr)))\<rparr>, [], 0))
     else Inr (addr, [], 0))"

definition inet_init :: "int \<Rightarrow> int \<Rightarrow> int \<times> int \<Rightarrow> (int \<times> int) called" where
  "inet_init sock0 sock1 s =
    (let s = (sock0, snd s) in
     if sock0 < 0 then Inr (s, [Sphone_Error], - 1)
     else (let s = (sock0, sock1) in
           if sock1 < 0 then Inr (s, [Sphone_Error], - 1) else Inr (s, [], 0)))"

definition inet_bind :: "(int \<Rightarrow> u16 \<Rightarrow> bool) \<Rightarrow> int \<Rightarrow> u16 \<Rightarrow> 's \<Rightarrow> 's called" where
  "inet_bind bnd_ok s port st =
    (if \<not> bnd_ok s port then Inr (st, [Bind s port, Sphone_Error], - 1) else Inr (st, [Bind s port], 0))"

text \<open>What \<open>recvfrom\<close> gives: a failure, or a datagram with its sender and the length of the
  sender's address. \<open>inet_input\<close> leaves the datagram at the start of the buffer, which keeps its
  old contents behind it; a datagram longer than the buffer is cut.\<close>

datatype recv_result = Recv_Failed | Received bytes sockaddr_in nat

definition inet_input :: "recv_result \<Rightarrow> bytes \<Rightarrow> (bytes \<times> nat \<times> sockaddr_in) called" where
  "inet_input rr buf =
    (case rr of
       Recv_Failed \<Rightarrow> Inr ((buf, length buf, zero_addr), [], - 1)
     | Received d from fromlen \<Rightarrow>
        (let d = take (length buf) d; st = (d @ drop (length d) buf, length d, from) in
         if length d = 0 then Inr (st, [Sphone_Error], - 1)
         else if fromlen \<noteq> 16 then Inr (st, [Sphone_Error], - 1)
         else Inr (st, [], 0)))"

section \<open>The address of this host\<close>

text \<open>
  \<open>inet_get_default_addr\<close>: an interface is its family and its address. \<open>answers\<close> are the
  results of the successive \<open>ioctl\<close> calls, \<open>ifnum\<close> the room offered, \<open>lastlen\<close> the number of
  interfaces of the previous answer. The loop ends when an answer is no longer than the one before;
  \<open>None\<close> means that it asks for one more answer.
\<close>

type_synonym ifreq = "u16 \<times> u32"

fun ifconf_loop :: "(nat \<Rightarrow> ifreq list option) \<Rightarrow> nat \<Rightarrow> nat \<Rightarrow> nat \<Rightarrow> ifreq list option option" where
  "ifconf_loop ioctl 0 ifnum lastlen = None"
| "ifconf_loop ioctl (Suc fuel) ifnum lastlen =
    (case ioctl ifnum of
       None \<Rightarrow> Some None
     | Some ifs \<Rightarrow>
         if lastlen < length ifs then ifconf_loop ioctl fuel (ifnum + 10) (length ifs)
         else Some (Some ifs))"

definition suitable :: "ifreq \<Rightarrow> bool" where
  "suitable i \<longleftrightarrow> fst i = AF_INET \<and> ntohl (snd i) \<noteq> INADDR_LOOPBACK \<and> ntohl (snd i) \<noteq> INADDR_ANY"

text \<open>The scan copies the address of every internet interface on its way.\<close>

fun ifconf_scan :: "ifreq list \<Rightarrow> u32 \<Rightarrow> u32 \<times> int" where
  "ifconf_scan [] addr = (addr, 0)"
| "ifconf_scan (i # ifs) addr =
    (if fst i = AF_INET then
       (if suitable i then (snd i, 1) else ifconf_scan ifs (snd i))
     else ifconf_scan ifs addr)"

definition inet_get_default_addr :: "int \<Rightarrow> (nat \<Rightarrow> ifreq list option) \<Rightarrow> nat \<Rightarrow> u32 \<Rightarrow> (u32 \<times> int) option" where
  "inet_get_default_addr sock ioctl fuel addr =
    (if sock < 0 then Some (addr, - 1)
     else map_option (\<lambda>r. case r of None \<Rightarrow> (addr, 0) | Some ifs \<Rightarrow> ifconf_scan ifs addr)
            (ifconf_loop ioctl fuel 32 0))"

section \<open>Sessions\<close>

record rtp_session =
  rtp_s :: int
  rtp_port :: u16
  rtp_sport :: u16
  rtp_payload :: u8
  rtp_ssrc :: u32
  rtp_rcv_addr :: sockaddr_in
  rtcp_s :: int
  rtcp_rport :: u16
  rtcp_sport :: u16
  rtcp_dst_addr :: sockaddr_in
  rtcp_timer :: timeval

definition rtp_session_new :: rtp_session where
  "rtp_session_new = \<lparr>rtp_s = 0, rtp_port = 0, rtp_sport = 0, rtp_payload = 0, rtp_ssrc = 0,
     rtp_rcv_addr = zero_addr, rtcp_s = 0, rtcp_rport = 0, rtcp_sport = 0, rtcp_dst_addr = zero_addr,
     rtcp_timer = tv 0 0\<rparr>"

definition session_sockets :: "int \<Rightarrow> int \<Rightarrow> rtp_session \<Rightarrow> rtp_session called" where
  "session_sockets sock0 sock1 rtp =
    bnd (inet_init sock0 sock1 (rtp_s rtp, rtcp_s rtp)) (\<lambda>((s0, s1), es, r).
      Inr (rtp\<lparr>rtp_s := s0, rtcp_s := s1\<rparr>, es, r))"

definition rtp_send_session_init :: "(string \<Rightarrow> u32) \<Rightarrow> (string \<Rightarrow> bytes option) \<Rightarrow> int \<Rightarrow> int
    \<Rightarrow> (int \<Rightarrow> u16 \<Rightarrow> bool) \<Rightarrow> rtp_session \<Rightarrow> string \<Rightarrow> rtp_session called" where
  "rtp_send_session_init inet_addr gethostbyname sock0 sock1 bnd_ok rtp dst_hostname =
    call_or (session_sockets sock0 sock1 rtp) (\<lambda>rtp.
    call_or (inet_host2addr inet_addr gethostbyname dst_hostname (htons (rtp_port rtp)) (rtp_rcv_addr rtp)) (\<lambda>a.
    let rtp = rtp\<lparr>rtp_rcv_addr := a\<rparr> in
    call_or (inet_host2addr inet_addr gethostbyname dst_hostname (htons (rtcp_rport rtp)) (rtcp_dst_addr rtp)) (\<lambda>a.
    let rtp = rtp\<lparr>rtcp_dst_addr := a\<rparr> in
    call_or (if rtp_sport rtp \<noteq> 0 then inet_bind bnd_ok (rtp_s rtp) (htons (rtp_sport rtp)) rtp
             else Inr (rtp, [], 0)) (\<lambda>rtp.
    call_or (inet_bind bnd_ok (rtcp_s rtp) (htons (rtcp_sport rtp)) rtp) (\<lambda>rtp.
    Inr (rtp, [], 0)) id) id)
      (\<lambda>a. rtp\<lparr>rtcp_dst_addr := a\<rparr>))
      (\<lambda>a. rtp\<lparr>rtp_rcv_addr := a\<rparr>)) id"

definition rtp_rcv_session_init :: "int \<Rightarrow> int \<Rightarrow> (int \<Rightarrow> u16 \<Rightarrow> bool) \<Rightarrow> rtp_session \<Rightarrow> rtp_session called" where
  "rtp_rcv_session_init sock0 sock1 bnd_ok rtp =
    call_or (session_sockets sock0 sock1 rtp) (\<lambda>rtp.
    let rtp = rtp\<lparr>rtcp_dst_addr := zero_addr\<lparr>sin_family := AF_INET, sin_port := htons (rtcp_sport rtp)\<rparr>\<rparr> in
    call_or (inet_bind bnd_ok (rtp_s rtp) (htons (rtp_port rtp)) rtp) (\<lambda>rtp.
    call_or (inet_bind bnd_ok (rtcp_s rtp) (htons (rtcp_rport rtp)) rtp) (\<lambda>rtp.
    Inr (rtp, [], 0)) id) id) id"

definition rtp_session_exit :: "rtp_session \<Rightarrow> effect list" where
  "rtp_session_exit rtp =
    (if rtp_s rtp \<noteq> 0 then [Close (rtp_s rtp)] else []) @
    (if rtcp_s rtp \<noteq> 0 then [Close (rtcp_s rtp)] else [])"

section \<open>Lemmas\<close>

lemma ifconf_scan_none: "filter suitable ifs = [] \<Longrightarrow> snd (ifconf_scan ifs addr) = 0"
  by (induction ifs arbitrary: addr) (auto split: if_splits)

lemma ifconf_scan_found: "filter suitable ifs = i # r \<Longrightarrow> ifconf_scan ifs addr = (snd i, 1)"
  by (induction ifs arbitrary: addr) (auto simp: suitable_def split: if_splits)

lemma ifconf_loop_complete:
  assumes "length (all :: ifreq list) < ifnum + 10 * fuel" "lastlen \<le> length all" "lastlen < ifnum"
  shows "ifconf_loop (\<lambda>n. Some (take n all)) (Suc (Suc fuel)) ifnum lastlen = Some (Some all)"
  using assms
proof (induction fuel arbitrary: ifnum lastlen)
  case (Suc fuel)
  then show ?case using Suc.IH [of "ifnum + 10" "min (length all) ifnum"]
    by (auto simp: min_def)
qed auto

text \<open>A call sequence that returns 0 went through all its calls.\<close>

lemma call_or_0:
  assumes "call_or m k fail = Inr (t, es, 0)"
  obtains s es1 r es2 where "m = Inr (s, es1, r)" "0 \<le> r" "k s = Inr (t, es2, 0)" "es = es1 @ es2"
  using assms by (auto simp: call_or_def bnd_eq_Inr split: if_splits)

lemma inet_bind_ok: "inet_bind b s p st = Inr (st', es, r) \<Longrightarrow> 0 \<le> r \<Longrightarrow> st' = st \<and> es = [Bind s p] \<and> b s p"
  by (auto simp: inet_bind_def split: if_splits)

lemma inet_host2addr_ok:
  "inet_host2addr ia gh h p a = Inr (a', es, r) \<Longrightarrow> 0 \<le> r \<Longrightarrow> sin_port a' = p \<and> sin_family a' = AF_INET \<and> es = []"
  by (auto simp: inet_host2addr_def Let_def split: if_splits option.splits)

lemma session_sockets_ok:
  "session_sockets s0 s1 rtp = Inr (rtp', es, r) \<Longrightarrow> 0 \<le> r
    \<Longrightarrow> rtp' = rtp\<lparr>rtp_s := s0, rtcp_s := s1\<rparr> \<and> 0 \<le> s0 \<and> 0 \<le> s1 \<and> es = []"
  by (auto simp: session_sockets_def inet_init_def Let_def split: if_splits)

lemma send_session_ok:
  assumes "rtp_send_session_init ia gh s0 s1 b rtp h = Inr (s, es, 0)"
  shows "rtp_s s = s0 \<and> rtcp_s s = s1 \<and> 0 \<le> s0 \<and> 0 \<le> s1 \<and>
    sin_port (rtp_rcv_addr s) = htons (rtp_port rtp) \<and> sin_port (rtcp_dst_addr s) = htons (rtcp_rport rtp) \<and>
    Bind s1 (htons (rtcp_sport rtp)) \<in> set es \<and>
    (rtp_sport rtp \<noteq> 0 \<longrightarrow> Bind s0 (htons (rtp_sport rtp)) \<in> set es)"
  using assms unfolding rtp_send_session_init_def
  by (elim call_or_0) (auto simp: Let_def elim!: call_or_0 dest!: session_sockets_ok inet_host2addr_ok inet_bind_ok
      split: if_splits)

lemma rcv_session_ok:
  assumes "rtp_rcv_session_init s0 s1 b rtp = Inr (s, es, 0)"
  shows "rtp_s s = s0 \<and> rtcp_s s = s1 \<and> 0 \<le> s0 \<and> 0 \<le> s1 \<and>
    sin_port (rtcp_dst_addr s) = htons (rtcp_sport rtp) \<and>
    Bind s0 (htons (rtp_port rtp)) \<in> set es \<and> Bind s1 (htons (rtcp_rport rtp)) \<in> set es"
  using assms unfolding rtp_rcv_session_init_def
  by (elim call_or_0) (auto simp: Let_def elim!: call_or_0 dest!: session_sockets_ok inet_bind_ok)

section \<open>Properties\<close>

text \<open>The two ends of a call with the same three ports fit together: the sender's media and control
  addresses name ports on which the receiver's sockets were bound, and the receiver's control
  address names the port on which the sender's control socket was bound.\<close>

lemma session_ends_fit:
  assumes "rtp_send_session_init ia gh s0 s1 b rtp h = Inr (s, es, 0)"
    and "rtp_rcv_session_init r0 r1 b' rtp' = Inr (r, er, 0)"
    and "rtp_port rtp = rtp_port rtp'" "rtcp_rport rtp = rtcp_rport rtp'" "rtcp_sport rtp = rtcp_sport rtp'"
  shows "Bind (rtp_s r) (sin_port (rtp_rcv_addr s)) \<in> set er \<and>
    Bind (rtcp_s r) (sin_port (rtcp_dst_addr s)) \<in> set er \<and>
    Bind (rtcp_s s) (sin_port (rtcp_dst_addr r)) \<in> set es"
  using send_session_ok [OF assms(1)] rcv_session_ok [OF assms(2)] assms(3-5) by auto

lemma session_ends_fit_witness:
  "\<exists>s es r er. rtp_send_session_init (\<lambda>_. 0x0100007f) (\<lambda>_. None) 3 4 (\<lambda>_ _. True)
      (rtp_session_new\<lparr>rtp_port := 5004, rtcp_rport := 5005, rtcp_sport := 6005\<rparr>) ''127.0.0.1'' = Inr (s, es, 0) \<and>
    rtp_rcv_session_init 3 4 (\<lambda>_ _. True)
      (rtp_session_new\<lparr>rtp_port := 5004, rtcp_rport := 5005, rtcp_sport := 6005\<rparr>) = Inr (r, er, 0) \<and>
    Bind (rtp_s r) (sin_port (rtp_rcv_addr s)) \<in> set er"
proof -
  let ?rtp = "rtp_session_new\<lparr>rtp_port := 5004, rtcp_rport := 5005, rtcp_sport := 6005\<rparr>"
  obtain s es where s: "rtp_send_session_init (\<lambda>_. 0x0100007f) (\<lambda>_. None) 3 4 (\<lambda>_ _. True) ?rtp ''127.0.0.1'' = Inr (s, es, 0)"
    by (simp add: rtp_send_session_init_def session_sockets_def inet_init_def inet_host2addr_def inet_bind_def
        rtp_session_new_def Let_def)
  obtain r er where r: "rtp_rcv_session_init 3 4 (\<lambda>_ _. True) ?rtp = Inr (r, er, 0)"
    by (simp add: rtp_rcv_session_init_def session_sockets_def inet_init_def inet_bind_def rtp_session_new_def Let_def)
  show ?thesis using session_ends_fit [OF s r] s r by auto
qed

text \<open>On a system that answers with as many of its interfaces as fit, the search for the host's
  address ends, whatever the number of interfaces, and finds the first one among all of them
  that is neither the loopback nor the unset address; it reports 0 exactly when there is none.\<close>

lemma default_addr_complete:
  assumes "length all < 32 + 10 * fuel" "0 \<le> sock"
  shows "\<exists>a. inet_get_default_addr sock (\<lambda>n. Some (take n all)) (Suc (Suc fuel)) addr
    = Some (case filter suitable all of i # _ \<Rightarrow> (snd i, 1) | [] \<Rightarrow> (a, 0))"
proof -
  have "ifconf_loop (\<lambda>n. Some (take n all)) (Suc (Suc fuel)) 32 0 = Some (Some all)"
    using assms(1) by (intro ifconf_loop_complete) auto
  then show ?thesis using assms(2) ifconf_scan_none [of all addr] ifconf_scan_found [of all]
    by (cases "filter suitable all"; cases "ifconf_scan all addr") (auto simp: inet_get_default_addr_def)
qed

lemma default_addr_complete_witness:
  "inet_get_default_addr 3 (\<lambda>n. Some (take n [(AF_INET, 0x0100007f), (AF_INET, 0x0200000a)])) 2 0 = Some (0x0200000a, 1)"
proof -
  have "filter suitable [(AF_INET, 0x0100007f), (AF_INET, 0x0200000a)] = [(AF_INET, 0x0200000a)]"
    by (simp add: suitable_def AF_INET_def INADDR_LOOPBACK_def INADDR_ANY_def) code_simp
  then show ?thesis
    using default_addr_complete [of "[(AF_INET, 0x0100007f), (AF_INET, 0x0200000a)]" 0 3 0]
    by (simp add: numeral_2_eq_2)
qed

end
