(* ===== verification/Receive.thy ===== *)
theory Receive
  imports Coding Rtp Playout Rtp_Session
begin

text \<open>
  The receiving half of a call, \<open>src/sphone_rcv.c\<close>: a session with its parts, the
  classification of sequence numbers, and the callback that takes a packet from the network
  through decoding to the playout.

  Pointers that may be null are options. The environment of one callback is a record of what
  the system does: the datagram, the contents of fresh memory, the answers of the audio
  device. The log file only receives text and is reduced to whether it is open.
\<close>

record pkt_ctx =
  pc_seq :: u16
  pc_ts :: int

record rcv_stats =
  rst_rbytes :: u32
  rst_rpkt :: u32
  rst_pbytes :: u32
  rst_ppkt :: u32
  rst_lost_pkts :: u32

record rtcp_rcv_stats =
  rrs_RR_pkts :: u32
  rrs_SR_pkts :: u32
  rrs_timestamp_SR :: timeval
  rrs_timestamp_SR_ntp :: NTP_timestamp
  rrs_bytes_sent2us :: u32
  rrs_packets_sent2us :: u32
  rrs_prev_pktLost :: u32
  rrs_prev_pktSeq :: u32
  rtcp_stats_bytes :: u32
  rtcp_stats_pkt :: u32

record rcv_session =
  rs_rtp :: "rtp_session option"
  rs_rtcp :: "rtcp_rcv_stats option"
  rs_play_api :: bool
  rs_coding_api :: "coding_api option"
  rs_stats :: rcv_stats
  rs_cp_audio :: "coding_params option"
  rs_cp_nw :: "coding_params option"
  rs_logf :: bool
  rs_accept_all_ssrc :: bool
  rs_playout :: "playout option"
  seq_initial :: u16
  seq_bad :: u16
  seq_cycles :: u32
  rs_cur_pkt :: pkt_ctx
  rs_prev_pkt :: pkt_ctx

abbreviation seq_cur :: "rcv_session \<Rightarrow> u16" where "seq_cur rs \<equiv> pc_seq (rs_cur_pkt rs)"
abbreviation seq_prev :: "rcv_session \<Rightarrow> u16" where "seq_prev rs \<equiv> pc_seq (rs_prev_pkt rs)"

definition seq2str :: "seq_type \<Rightarrow> string" where
  "seq2str t = (case t of SEQ_NORMAL \<Rightarrow> ''SEQ_NORMAL'' | SEQ_GAP \<Rightarrow> ''SEQ_GAP''
     | SEQ_RESET \<Rightarrow> ''SEQ_RESET'' | SEQ_BAD \<Rightarrow> ''SEQ_BAD'' | SEQ_DUP \<Rightarrow> ''SEQ_DUP''
     | SEQ_TALK_START \<Rightarrow> ''SEQ_TALK_START'')"

section \<open>Sequence numbers\<close>

abbreviation "RTP_SEQ_MOD \<equiv> 65536 :: int"
abbreviation "MAX_DROPOUT \<equiv> 3000 :: int"
abbreviation "MAX_MISORDER \<equiv> 100 :: int"

text \<open>The operands of the first comparison are promoted to \<open>int\<close>, so that the number after 65535
  is not its successor. The cycle count is an \<open>int\<close> of 32 bits, whose sum wraps as it does on the host.\<close>

definition update_seq :: "rcv_session \<Rightarrow> u16 \<Rightarrow> rcv_session \<times> seq_type" where
  "update_seq rs seq =
    (let udelta = uint (seq - seq_prev rs) in
     if seq_initial rs = 0 then (rs\<lparr>seq_initial := seq_initial rs + 1\<rparr>, SEQ_RESET)
     else if uint seq = uint (seq_prev rs) + 1 then (rs, SEQ_NORMAL)
     else if udelta < MAX_DROPOUT then
       ((if seq < seq_prev rs then rs\<lparr>seq_cycles := seq_cycles rs + word_of_int RTP_SEQ_MOD\<rparr> else rs), SEQ_GAP)
     else if udelta \<le> RTP_SEQ_MOD - MAX_MISORDER then
       (if seq = seq_bad rs then (rs, SEQ_RESET)
        else (rs\<lparr>seq_bad := word_of_int ((uint seq + 1) AND (RTP_SEQ_MOD - 1))\<rparr>, SEQ_BAD))
     else (rs, SEQ_DUP))"

section \<open>The session\<close>

definition rcv_session_zero :: rcv_session where
  "rcv_session_zero = \<lparr>rs_rtp = None, rs_rtcp = None, rs_play_api = False, rs_coding_api = None,
     rs_stats = \<lparr>rst_rbytes = 0, rst_rpkt = 0, rst_pbytes = 0, rst_ppkt = 0, rst_lost_pkts = 0\<rparr>,
     rs_cp_audio = None, rs_cp_nw = None, rs_logf = False, rs_accept_all_ssrc = False, rs_playout = None,
     seq_initial = 0, seq_bad = 0, seq_cycles = 0,
     rs_cur_pkt = \<lparr>pc_seq = 0, pc_ts = 0\<rparr>, rs_prev_pkt = \<lparr>pc_seq = 0, pc_ts = 0\<rparr>\<rparr>"

text \<open>\<open>alloc\<close> and \<open>reg\<close> tell whether the allocation and the registration of the exit function
  succeed; the result is \<open>None\<close> for a null pointer.\<close>

definition rcv_session_new :: "bool \<Rightarrow> bool \<Rightarrow> rcv_session option \<times> effect list" where
  "rcv_session_new alloc reg =
    (if \<not> alloc then (None, [Sphone_Error])
     else if \<not> reg then (None, [])
     else (Some (rcv_session_zero\<lparr>rs_accept_all_ssrc := True\<rparr>), []))"

text \<open>The parts of a session, in the order in which the exit function gives them up.\<close>

datatype rcv_part = Part_Rtp | Part_Rtcp | Part_Play | Part_Coding | Part_Cp_Audio | Part_Cp_Nw
  | Part_Playout | Part_Logf | Part_Session

definition rcv_session_exit :: "rcv_session \<Rightarrow> rcv_part list" where
  "rcv_session_exit rs =
    (if rs_rtp rs \<noteq> None then [Part_Rtp] else []) @
    (if rs_rtcp rs \<noteq> None then [Part_Rtcp] else []) @
    (if rs_play_api rs then [Part_Play] else []) @
    (if rs_coding_api rs \<noteq> None then [Part_Coding] else []) @
    (if rs_cp_audio rs \<noteq> None then [Part_Cp_Audio] else []) @
    (if rs_cp_nw rs \<noteq> None then [Part_Cp_Nw] else []) @
    (if rs_playout rs \<noteq> None then [Part_Playout] else []) @
    (if rs_logf rs then [Part_Logf] else []) @ [Part_Session]"

section \<open>A packet arrives\<close>

abbreviation "INBUF_LEN \<equiv> 10000 :: nat"

record rcv_env =
  env_recv :: recv_result
  env_mem :: "nat \<Rightarrow> u8"
  env_alloc :: bool
  env_pos :: "(u32 \<times> u32) option"
  env_pr :: int
  env_junk :: int

definition count_rtcp :: "nat \<Rightarrow> rcv_session \<Rightarrow> rcv_session res" where
  "count_rtcp len rs =
    bnd (deref (rs_rtcp rs)) (\<lambda>r.
      let r = r\<lparr>rtcp_stats_bytes := rtcp_stats_bytes r + of_nat len\<rparr>;
          r = r\<lparr>rtcp_stats_bytes := rtcp_stats_bytes r + 1\<rparr>
      in Inr (rs\<lparr>rs_rtcp := Some r\<rparr>))"

text \<open>The first sender is locked on; \<open>None\<close> is the early return for an unexpected one.\<close>

definition lock_sender :: "rtp_header \<Rightarrow> sockaddr_in \<Rightarrow> bool \<Rightarrow> rtp_session \<Rightarrow> rtp_session option" where
  "lock_sender hdr from_addr accept_all rtp =
    (if rtp_ssrc rtp = 0 then
       Some (rtp\<lparr>rtp_ssrc := rh_ssrc hdr, rtcp_dst_addr := (rtcp_dst_addr rtp)\<lparr>s_addr := s_addr from_addr\<rparr>\<rparr>)
     else if rtp_ssrc rtp \<noteq> rh_ssrc hdr then
       (if accept_all then Some (rtp\<lparr>rtp_ssrc := rh_ssrc hdr\<rparr>) else None)
     else Some rtp)"

text \<open>The \<open>switch\<close> on the type of an acceptable packet. The addition of 0.5 to the time, an unsigned
  quotient, is lost in the assignment to an \<open>int\<close> (which C defines for quotients below
  \<open>2 ^ 31\<close>).\<close>

definition note_packet :: "rtp_header \<Rightarrow> u32 \<Rightarrow> seq_type \<Rightarrow> rcv_session \<Rightarrow> rcv_session res" where
  "note_packet hdr len seq_type rs =
    (let rs = (if seq_type = SEQ_GAP then
                 rs\<lparr>rs_stats := (rs_stats rs)\<lparr>rst_lost_pkts := rst_lost_pkts (rs_stats rs) +
                   word_of_int (uint (seq_cur rs) - uint (seq_prev rs) - 1)\<rparr>\<rparr> else rs);
         rs = rs\<lparr>rs_cur_pkt := (rs_cur_pkt rs)\<lparr>pc_seq := ucast (seq_cycles rs + ucast (rh_seq hdr))\<rparr>\<rparr>
     in bnd (deref (rs_cp_audio rs)) (\<lambda>cp_audio.
        bnd (bytes2samples (cp_precision cp_audio) len (cp_channels cp_audio)) (\<lambda>n.
          if n = 0 then Inl Div_By_Zero
          else Inr (rs\<lparr>rs_cur_pkt := (rs_cur_pkt rs)\<lparr>pc_ts :=
            uint ((ucast (ntp_sec (rh_ts hdr)) * 0x10000 + ucast (ntp_frac (rh_ts hdr))) div n)\<rparr>\<rparr>))))"

text \<open>Decoding: \<open>p\<close> is the payload with what lies behind it in the input buffer. The result is the
  decoded packet with its length, \<open>None\<close> when its buffer cannot be allocated.\<close>

definition decode_packet :: "(int list \<Rightarrow> bytes) \<Rightarrow> (bytes \<Rightarrow> int list) \<Rightarrow> rcv_env \<Rightarrow> coding_api \<Rightarrow> bytes
    \<Rightarrow> nat \<Rightarrow> coding_params \<Rightarrow> coding_params \<Rightarrow> (bytes \<times> nat) option res" where
  "decode_packet ie idec env ca p len cp_audio cp_nw =
    bnd (ca_transformlen ca cp_nw cp_audio len) (\<lambda>dec_len.
    if cp_channels cp_nw = 0 then Inl Div_By_Zero
    else let expand_factor = unat (cp_channels cp_audio div cp_channels cp_nw);
             size = dec_len * expand_factor in
    if \<not> env_alloc env then Inr None
    else bnd (run_coding ie idec (ca_decode ca) p len dec_len) (\<lambda>out.
    if size < length out then Inl Out_Of_Bounds
    else let dec_buf = out @ drop (length out) (fresh (env_mem env) size) in
    if 1 < expand_factor then
      (case coding_expand dec_buf dec_len (unat (cp_precision cp_audio)) expand_factor of
         None \<Rightarrow> Inl Endless_Loop | Some r \<Rightarrow> bnd r (\<lambda>d. Inr (Some d)))
    else Inr (Some (dec_buf, dec_len))))"

text \<open>
  \<open>sphone_error\<close> calls the exit functions that are registered, and \<open>rcv_session_new\<close> has registered
  \<open>rcv_session_exit\<close>: where it is called, the session is freed before the callback goes on. The session
  that a callback leaves is \<open>None\<close> then; the event loop ends after such a callback, because the error
  has set \<open>sphone_exit\<close>.
\<close>

definition play_packet :: "(int list \<Rightarrow> bytes) \<Rightarrow> (bytes \<Rightarrow> int list) \<Rightarrow> rcv_env \<Rightarrow> coding_api \<Rightarrow> bytes
    \<Rightarrow> nat \<Rightarrow> seq_type \<Rightarrow> effect list \<Rightarrow> rcv_session \<Rightarrow> (rcv_session option \<times> play_out) called" where
  "play_packet ie idec env ca p len seq_type es rs =
    bnd (deref (rs_cp_audio rs)) (\<lambda>cp_audio. bnd (deref (rs_cp_nw rs)) (\<lambda>cp_nw.
    bnd (decode_packet ie idec env ca p len cp_audio cp_nw) (\<lambda>d. case d of
      None \<Rightarrow> Inr ((None, None), es @ [Sphone_Error], - 1)
    | Some (dec_buf, dec_len) \<Rightarrow>
        bnd (deref (rs_playout rs)) (\<lambda>pl.
        bnd (playout_play (env_junk env) (env_pos env) (env_pr env) (seq_cur rs) (seq_prev rs) pl dec_buf
              (of_nat dec_len) seq_type) (\<lambda>(pl, out, r).
        let rs = rs\<lparr>rs_playout := Some pl\<rparr> in
        if r < 0 then Inr ((Some rs, out), es, - 1)
        else Inr ((Some (rs\<lparr>rs_prev_pkt := rs_cur_pkt rs\<rparr>), out), es, 0))))))"

text \<open>
  A packet with an acceptable header, from the check of its sender on. After a changed payload type the
  code reports an error, which runs the exit function of this very session, and goes on with the
  freed coder and parameters.
\<close>

definition receive_packet :: "(int list \<Rightarrow> bytes) \<Rightarrow> (bytes \<Rightarrow> int list) \<Rightarrow> rcv_env \<Rightarrow> coding_api \<Rightarrow> rtp_session
    \<Rightarrow> rtp_header \<Rightarrow> bytes \<Rightarrow> nat \<Rightarrow> sockaddr_in \<Rightarrow> effect list \<Rightarrow> rcv_session \<Rightarrow> (rcv_session option \<times> play_out) called" where
  "receive_packet ie idec env ca rtp hdr p n from_addr es rs =
    (case lock_sender hdr from_addr (rs_accept_all_ssrc rs) rtp of
       None \<Rightarrow> Inr ((Some rs, None), es @ [Sphone_Warning], - 1)
     | Some rtp \<Rightarrow>
        (let rs = rs\<lparr>rs_rtp := Some rtp\<rparr>;
             (rs, seq_type) = update_seq rs (rh_seq hdr);
             len = of_nat n - 12 :: u32
         in if len = 0 then Inr ((Some rs, None), es @ [Sphone_Warning], 0)
            else if seq_type = SEQ_BAD \<or> seq_type = SEQ_DUP then Inr ((Some rs, None), es, - 1)
            else bnd (note_packet hdr len seq_type rs) (\<lambda>rs.
              if rtp_get_pt (rh_flags hdr) \<noteq> ucast (rtp_payload rtp) then Inl Use_After_Free
              else play_packet ie idec env ca p (unat len) seq_type es rs)))"

definition receive_and_playout :: "(int list \<Rightarrow> bytes) \<Rightarrow> (bytes \<Rightarrow> int list) \<Rightarrow> rcv_env
    \<Rightarrow> rcv_session \<Rightarrow> (rcv_session option \<times> play_out) called" where
  "receive_and_playout ie idec env rs =
    (case (rs_coding_api rs, rs_rtp rs) of
      (Some ca, Some rtp) \<Rightarrow>
        bnd (inet_input (env_recv env) (fresh (env_mem env) INBUF_LEN)) (\<lambda>((inbuf, n, from_addr), es, r).
        if r < 0 then Inr ((if Sphone_Error \<in> set es then None else Some rs, None), es, 0)
        else bnd (count_rtcp n rs) (\<lambda>rs.
        bnd (unmarshal_rtp_hdr inbuf) (\<lambda>(hdr, p).
        if rtp_check_hdr hdr < 0 then Inr ((Some rs, None), es, 0)
        else receive_packet ie idec env ca rtp hdr p n from_addr es rs)))
    | _ \<Rightarrow> Inl Assert_Failed)"

definition rcv_start :: "bool \<Rightarrow> rcv_session \<Rightarrow> rcv_session called" where
  "rcv_start ok rs =
    bnd (deref (rs_rtp rs)) (\<lambda>rtp.
      if ok then Inr (rs, [Reg_Fd (rtp_s rtp) ''rcv_start - rtp receive''], 0) else Inr (rs, [], - 1))"

section \<open>Lemmas\<close>

lemma uint_word16: "uint (word_of_int x :: u16) = x mod 65536"
  by (simp add: uint_word_of_int)

lemma uint_sub16: "uint (a - b :: u16) = (uint a - uint b) mod 65536"
  by (simp add: uint_word_arith_bintrs(2) take_bit_eq_mod)

lemma mod_diff_small:
  fixes m n :: int
  assumes "n < m" "m < n + 65536"
  shows "(m mod 65536 - n mod 65536) mod 65536 = m - n"
proof -
  have "(m mod 65536 - n mod 65536) mod 65536 = (m - n) mod 65536" by (rule mod_diff_eq)
  then show ?thesis using assms by simp
qed

lemma split_65536: "x = 65536 * (x div 65536) + x mod 65536 \<and> 0 \<le> x mod 65536 \<and> x mod 65536 < (65536 :: int)"
  by simp

lemma cycle_carry:
  fixes m n :: int
  assumes "n < m" "m < n + 65536"
  shows "m div 65536 = n div 65536 + (if m mod 65536 < n mod 65536 then 1 else 0)"
proof (cases "m mod 65536 < n mod 65536")
  case True
  then have "m div 65536 = n div 65536 + 1" using assms split_65536 [of m] split_65536 [of n] by linarith
  then show ?thesis using True by simp
next
  case False
  then have "m div 65536 = n div 65536" using assms split_65536 [of m] split_65536 [of n] by linarith
  then show ?thesis using False by simp
qed

lemma next_number:
  fixes m n :: int
  assumes "n < m" "m < n + 65536"
  shows "m mod 65536 = n mod 65536 + 1 \<longleftrightarrow> m = n + 1 \<and> m mod 65536 \<noteq> 0"
proof
  assume "m mod 65536 = n mod 65536 + 1"
  moreover from this have "m div 65536 = n div 65536" using assms split_65536 [of m] split_65536 [of n] by linarith
  ultimately have "m = n + 1" "0 < m mod 65536" using split_65536 [of m] split_65536 [of n] by linarith+
  then show "m = n + 1 \<and> m mod 65536 \<noteq> 0" by simp
next
  assume a: "m = n + 1 \<and> m mod 65536 \<noteq> 0"
  then have "0 < m mod 65536" using split_65536 [of m] by linarith
  then have "m div 65536 = n div 65536" using a split_65536 [of m] split_65536 [of n] by linarith
  then show "m mod 65536 = n mod 65536 + 1" using a split_65536 [of m] split_65536 [of n] by linarith
qed

definition rcv_ready :: "rcv_session \<Rightarrow> bool" where
  "rcv_ready rs \<longleftrightarrow> rs_rtp rs \<noteq> None \<and> rs_rtcp rs \<noteq> None \<and> rs_coding_api rs \<noteq> None \<and>
    rs_cp_audio rs \<noteq> None \<and> rs_cp_nw rs \<noteq> None \<and> rs_playout rs \<noteq> None \<and> seq_cur rs = seq_prev rs"

text \<open>What each step leaves of the session: \<open>same_parts\<close> compares everything a packet never changes.\<close>

definition same_parts :: "rcv_session \<Rightarrow> rcv_session \<Rightarrow> bool" where
  "same_parts rs rs' \<longleftrightarrow> rs_coding_api rs' = rs_coding_api rs \<and> rs_cp_audio rs' = rs_cp_audio rs \<and>
    rs_cp_nw rs' = rs_cp_nw rs \<and> rs_play_api rs' = rs_play_api rs \<and> rs_logf rs' = rs_logf rs \<and>
    rs_accept_all_ssrc rs' = rs_accept_all_ssrc rs"

lemma update_seq_parts:
  assumes "update_seq rs seq = (rs', t)"
  shows "same_parts rs rs'" "rs_rtp rs' = rs_rtp rs" "rs_rtcp rs' = rs_rtcp rs" "rs_playout rs' = rs_playout rs"
    "rs_stats rs' = rs_stats rs" "rs_cur_pkt rs' = rs_cur_pkt rs" "rs_prev_pkt rs' = rs_prev_pkt rs"
  using assms by (auto simp: update_seq_def Let_def same_parts_def split: if_splits)

lemma count_rtcp_parts:
  assumes "count_rtcp n rs = Inr rs'"
  shows "\<exists>r. rs' = rs\<lparr>rs_rtcp := Some r\<rparr>"
  using assms by (auto simp: count_rtcp_def deref_def Let_def split: option.splits)

lemma note_packet_parts:
  assumes "note_packet hdr len t rs = Inr rs'"
  shows "same_parts rs rs' \<and> rs_rtp rs' = rs_rtp rs \<and> rs_rtcp rs' = rs_rtcp rs \<and> rs_playout rs' = rs_playout rs \<and>
    rs_prev_pkt rs' = rs_prev_pkt rs \<and> seq_cur rs' = ucast (seq_cycles rs + ucast (rh_seq hdr)) \<and>
    seq_cycles rs' = seq_cycles rs \<and> seq_initial rs' = seq_initial rs \<and>
    rst_lost_pkts (rs_stats rs') = rst_lost_pkts (rs_stats rs) +
      (if t = SEQ_GAP then word_of_int (uint (seq_cur rs) - uint (seq_prev rs) - 1) else 0)"
  using assms by (auto simp: note_packet_def Let_def deref_def bnd_eq_Inr same_parts_def split: option.splits if_splits)

lemma play_packet_parts:
  assumes "play_packet ie idec env ca p len t es rs = Inr ((rs', out), es', r)"
  shows "case rs' of None \<Rightarrow> r = - 1 \<and> es' = es @ [Sphone_Error]
    | Some rs' \<Rightarrow> es' = es \<and> same_parts rs rs' \<and> rs_rtp rs' = rs_rtp rs \<and> rs_rtcp rs' = rs_rtcp rs \<and> rs_stats rs' = rs_stats rs \<and>
        rs_cur_pkt rs' = rs_cur_pkt rs \<and> (r \<noteq> - 1 \<longrightarrow> r = 0 \<and> rs_prev_pkt rs' = rs_cur_pkt rs \<and> rs_playout rs' \<noteq> None)"
  using assms unfolding play_packet_def
  by (elim bnd_InrE) (auto simp: Let_def same_parts_def elim!: bnd_InrE split: if_splits prod.splits option.splits)

text \<open>What any packet does to a session that is set up.\<close>

lemma same_parts_rules:
  "same_parts a a" "same_parts a b \<Longrightarrow> same_parts b c \<Longrightarrow> same_parts a c"
  "same_parts (a\<lparr>rs_rtp := x\<rparr>) b \<Longrightarrow> same_parts a b" "same_parts (a\<lparr>rs_rtcp := y\<rparr>) b \<Longrightarrow> same_parts a b"
  by (simp_all add: same_parts_def)

definition lost_step :: "rcv_session \<Rightarrow> rcv_session \<Rightarrow> bool" where
  "lost_step rs rs' \<longleftrightarrow> rst_lost_pkts (rs_stats rs') \<in> {rst_lost_pkts (rs_stats rs), rst_lost_pkts (rs_stats rs) - 1}"

text \<open>What a callback leaves: nothing exactly after an error; otherwise a session with the same parts.\<close>

definition leaves :: "rcv_session \<Rightarrow> rcv_session option \<Rightarrow> effect list \<Rightarrow> int \<Rightarrow> bool" where
  "leaves rs rs' es r \<longleftrightarrow> (case rs' of None \<Rightarrow> Sphone_Error \<in> set es
     | Some rs2 \<Rightarrow> Sphone_Error \<notin> set es \<and> same_parts rs rs2 \<and> (0 \<le> r \<longrightarrow> rcv_ready rs2) \<and> lost_step rs rs2)"

lemma leaves_simps [simp]:
  "leaves rs None es r \<longleftrightarrow> Sphone_Error \<in> set es"
  "leaves rs (Some rs2) es r \<longleftrightarrow> Sphone_Error \<notin> set es \<and> same_parts rs rs2 \<and> (0 \<le> r \<longrightarrow> rcv_ready rs2) \<and> lost_step rs rs2"
  by (simp_all add: leaves_def)

lemma receive_packet_parts:
  assumes "receive_packet ie idec env ca rtp hdr p n from es rs = Inr ((rs', out), es', r)" "rcv_ready rs"
    and es: "Sphone_Error \<notin> set es"
  shows "leaves rs rs' es' r"
proof (cases "lock_sender hdr from (rs_accept_all_ssrc rs) rtp")
  case None
  then show ?thesis using assms by (auto simp: receive_packet_def same_parts_rules lost_step_def)
next
  case (Some rtp')
  obtain rs1 t where u: "update_seq (rs\<lparr>rs_rtp := Some rtp'\<rparr>) (rh_seq hdr) = (rs1, t)" by fastforce
  note up = update_seq_parts [OF u]
  have s1: "same_parts rs rs1" "rcv_ready rs1" "lost_step rs rs1" using up same_parts_rules(3) [OF up(1)] assms(2)
    by (auto simp: rcv_ready_def lost_step_def same_parts_def)
  show ?thesis
  proof (cases "of_nat n - 12 = (0 :: u32) \<or> t = SEQ_BAD \<or> t = SEQ_DUP")
    case True
    then show ?thesis using assms(1) Some u s1 es by (auto simp: receive_packet_def Let_def split: if_splits)
  next
    case False
    then obtain rs2 where n2: "note_packet hdr (of_nat n - 12) t rs1 = Inr rs2"
      and pp: "play_packet ie idec env ca p (unat (of_nat n - 12 :: u32)) t es rs2 = Inr ((rs', out), es', r)"
      using assms(1) Some u by (auto simp: receive_packet_def Let_def elim!: bnd_InrE split: if_splits)
    note np = note_packet_parts [OF n2] and pl = play_packet_parts [OF pp]
    have "lost_step rs rs2" using np s1 up by (auto simp: lost_step_def rcv_ready_def)
    then show ?thesis using np pl s1 es by (cases rs') (auto simp: rcv_ready_def lost_step_def same_parts_def)
  qed
qed

lemma inet_input_error:
  assumes "inet_input rr buf = Inr (x, es, r)"
  shows "Sphone_Error \<in> set es \<Longrightarrow> r < 0" "0 \<le> r \<Longrightarrow> Sphone_Error \<notin> set es"
  using assms by (auto simp: inet_input_def Let_def split: recv_result.splits if_splits)

lemma receive_parts:
  assumes "receive_and_playout ie idec env rs = Inr ((rs', out), es, r)" "rcv_ready rs"
  shows "leaves rs rs' es r"
proof -
  obtain ca rtp where ca: "rs_coding_api rs = Some ca" "rs_rtp rs = Some rtp"
    using assms(2) by (auto simp: rcv_ready_def)
  obtain inbuf n addr es1 r1 where i: "inet_input (env_recv env) (fresh (env_mem env) INBUF_LEN) = Inr ((inbuf, n, addr), es1, r1)"
    using assms(1) ca by (auto simp: receive_and_playout_def elim!: bnd_InrE)
  show ?thesis
  proof (cases "r1 < 0")
    case True
    then show ?thesis using assms ca i by (auto simp: receive_and_playout_def same_parts_rules lost_step_def)
  next
    case False
    then have q: "Sphone_Error \<notin> set es1" using inet_input_error [OF i] by auto
    obtain rs1 hdr p where c: "count_rtcp n rs = Inr rs1"
      and k: "(if rtp_check_hdr hdr < 0 then Inr ((Some rs1, None), es1, 0)
        else receive_packet ie idec env ca rtp hdr p n addr es1 rs1) = Inr ((rs', out), es, r)"
      using assms(1) ca i False by (auto simp: receive_and_playout_def elim!: bnd_InrE)
    have r1: "rcv_ready rs1" "same_parts rs rs1" "lost_step rs rs1" "rst_lost_pkts (rs_stats rs1) = rst_lost_pkts (rs_stats rs)"
      using count_rtcp_parts [OF c] assms(2) by (auto simp: rcv_ready_def same_parts_def lost_step_def)
    show ?thesis
    proof (cases "rtp_check_hdr hdr < 0")
      case False
      then have "leaves rs1 rs' es r" using k q r1(1) receive_packet_parts by auto
      then show ?thesis using r1 same_parts_rules(2) [OF r1(2)] by (cases rs') (auto simp: lost_step_def)
    qed (use k r1 q in auto)
  qed
qed

text \<open>The receive call that the kernel ends with a datagram of no octets, or of an unexpected sender address.\<close>

lemma receive_error:
  assumes "rcv_ready rs" "env_recv env = Received d addr len" "d = [] \<or> len \<noteq> 16"
  shows "receive_and_playout ie idec env rs = Inr ((None, None), [Sphone_Error], 0)"
  using assms by (auto simp: rcv_ready_def receive_and_playout_def inet_input_def Let_def)

section \<open>A good packet\<close>

lemma update_seq_frame:
  "update_seq (rs\<lparr>rs_rtp := x\<rparr>) seq = (case update_seq rs seq of (rs1, t) \<Rightarrow> (rs1\<lparr>rs_rtp := x\<rparr>, t))"
  "update_seq (rs\<lparr>rs_rtcp := y\<rparr>) seq = (case update_seq rs seq of (rs1, t) \<Rightarrow> (rs1\<lparr>rs_rtcp := y\<rparr>, t))"
  by (simp_all add: update_seq_def Let_def)

lemma lock_sender_all:
  "\<exists>rtp'. lock_sender hdr addr True rtp = Some rtp' \<and> rtp_payload rtp' = rtp_payload rtp"
  by (simp add: lock_sender_def)

text \<open>The packet that \<open>hdr\<close> and \<open>payload\<close> make, as the callback receives it, and what the session has
  to be like to play it through a queueing device.\<close>

definition arrives :: "rtp_header \<Rightarrow> bytes \<Rightarrow> rcv_env \<Rightarrow> bool" where
  "arrives hdr payload env \<longleftrightarrow> (\<exists>addr. env_recv env = Received (marshal_rtp_hdr hdr @ payload) addr 16) \<and>
    payload \<noteq> [] \<and> length payload \<le> INBUF_LEN - 12"

definition device_ok :: "rcv_env \<Rightarrow> bool" where
  "device_ok env \<longleftrightarrow> env_alloc env \<and> 0 \<le> env_pr env"

definition fifo_session :: "coding_api \<Rightarrow> coding_params \<Rightarrow> coding_params \<Rightarrow> u8 \<Rightarrow> rcv_session \<Rightarrow> bool" where
  "fifo_session ca cpa cpn pt rs \<longleftrightarrow> rcv_ready rs \<and> rs_playout rs = Some Fifo \<and> rs_coding_api rs = Some ca \<and>
    rs_cp_audio rs = Some cpa \<and> rs_cp_nw rs = Some cpn \<and> rs_accept_all_ssrc rs \<and>
    (\<forall>rtp. rs_rtp rs = Some rtp \<longrightarrow> rtp_payload rtp = pt)"

lemma note_packet_ok:
  assumes "rs_cp_audio rs = Some cpa" "bytes2samples (cp_precision cpa) len (cp_channels cpa) = Inr k" "k \<noteq> 0"
  shows "\<exists>rs'. note_packet hdr len t rs = Inr rs'"
  using assms by (cases "t = SEQ_GAP") (simp_all add: note_packet_def Let_def)

lemma play_packet_fifo:
  assumes "rs_playout rs = Some Fifo" "rs_cp_audio rs = Some cpa" "rs_cp_nw rs = Some cpn" "0 \<le> env_pr env"
    and "decode_packet ie idec env ca p len cpa cpn = Inr (Some (buf, l))" "t \<noteq> SEQ_BAD" "t \<noteq> SEQ_DUP"
  shows "play_packet ie idec env ca p len t es rs =
    Inr ((Some (rs\<lparr>rs_playout := Some Fifo, rs_prev_pkt := rs_cur_pkt rs\<rparr>), Some (take (unat (of_nat l :: u32)) buf, 0)), es, 0)"
  using assms by (simp add: play_packet_def playout_play_def playout_fifo_play_def Let_def)

text \<open>How far a packet with a good header gets: to the switch on its sequence number, with the sender
  locked on and the octets counted.\<close>

lemma receive_arrival:
  assumes rdy: "rcv_ready rs" "rs_accept_all_ssrc rs" and a: "arrives hdr payload env" and h: "rtp_check_hdr hdr = 0"
    and parts: "rs_coding_api rs = Some ca" "rs_rtp rs = Some rtp" and u: "update_seq rs (rh_seq hdr) = (rs1, t)"
  shows "\<exists>x rtp' rest. rtp_payload rtp' = rtp_payload rtp \<and>
    receive_and_playout ie idec env rs =
      (let rs3 = rs1\<lparr>rs_rtcp := Some x, rs_rtp := Some rtp'\<rparr> in
       if t = SEQ_BAD \<or> t = SEQ_DUP then Inr ((Some rs3, None), [], - 1)
       else bnd (note_packet hdr (of_nat (length payload)) t rs3) (\<lambda>rs4.
         if rtp_get_pt (rh_flags hdr) \<noteq> ucast (rtp_payload rtp) then Inl Use_After_Free
         else play_packet ie idec env ca (payload @ rest) (length payload) t [] rs4))"
proof -
  obtain addr where r: "env_recv env = Received (marshal_rtp_hdr hdr @ payload) addr 16"
    and pl: "payload \<noteq> []" "length payload \<le> INBUF_LEN - 12"
    using a by (auto simp: arrives_def)
  obtain st where st: "rs_rtcp rs = Some st" using rdy by (auto simp: rcv_ready_def)
  let ?rest = "drop (12 + length payload) (fresh (env_mem env) INBUF_LEN)"
  let ?n = "12 + length payload"
  have lh: "length (marshal_rtp_hdr hdr) = 12" by (simp add: marshal_rtp_hdr_def)
  have i: "inet_input (env_recv env) (fresh (env_mem env) INBUF_LEN)
      = Inr ((marshal_rtp_hdr hdr @ payload @ ?rest, ?n, addr), [], 0)"
    using pl lh by (simp add: r inet_input_def Let_def)
  obtain rs2 where c1: "count_rtcp ?n rs = Inr rs2" using st by (simp add: count_rtcp_def Let_def)
  obtain x where x: "rs2 = rs\<lparr>rs_rtcp := Some x\<rparr>" using count_rtcp_parts [OF c1] by blast
  obtain rtp' where l: "lock_sender hdr addr True rtp = Some rtp'" "rtp_payload rtp' = rtp_payload rtp"
    using lock_sender_all [of hdr addr rtp] by auto
  define rs3 where "rs3 = rs1\<lparr>rs_rtcp := Some x, rs_rtp := Some rtp'\<rparr>"
  have u3: "update_seq (rs2\<lparr>rs_rtp := Some rtp'\<rparr>) (rh_seq hdr) = (rs3, t)"
    using u by (simp add: x update_seq_frame rs3_def)
  have len: "(of_nat ?n - 12 :: u32) = of_nat (length payload)" by simp
  have unat: "unat (of_nat (length payload) :: u32) = length payload"
    using pl(2) by (intro unat_word_of_nat_small) simp
  then have nz: "(of_nat (length payload) :: u32) \<noteq> 0" using pl(1) by (metis length_0_conv unat_0)
  have "receive_and_playout ie idec env rs =
      (if t = SEQ_BAD \<or> t = SEQ_DUP then Inr ((Some rs3, None), [], - 1)
       else bnd (note_packet hdr (of_nat (length payload)) t rs3) (\<lambda>rs4.
         if rtp_get_pt (rh_flags hdr) \<noteq> ucast (rtp_payload rtp) then Inl Use_After_Free
         else play_packet ie idec env ca (payload @ ?rest) (length payload) t [] rs4))"
    using rdy(2) parts i c1 h l u3 nz x
    by (auto simp: receive_and_playout_def receive_packet_def len Let_def rtp.dec_enc simp del: of_nat_add)
      (simp only: unat)
  then show ?thesis using l(2) unfolding rs3_def Let_def by blast
qed

lemma receive_plays:
  assumes s: "fifo_session ca cpa cpn pt rs" and a: "arrives hdr payload env" "device_ok env"
    and h: "rtp_check_hdr hdr = 0" "rtp_get_pt (rh_flags hdr) = ucast pt"
    and u: "update_seq rs (rh_seq hdr) = (rs1, t)" "t \<noteq> SEQ_BAD" "t \<noteq> SEQ_DUP"
    and n: "bytes2samples (cp_precision cpa) (of_nat (length payload)) (cp_channels cpa) = Inr k" "k \<noteq> 0"
    and d: "\<And>r. decode_packet ie idec env ca (payload @ r) (length payload) cpa cpn = Inr (Some (buf, l))"
  shows "\<exists>rs'. receive_and_playout ie idec env rs = Inr ((Some rs', Some (take (unat (of_nat l :: u32)) buf, 0)), [], 0) \<and>
    fifo_session ca cpa cpn pt rs' \<and> seq_prev rs' = ucast (seq_cycles rs1 + ucast (rh_seq hdr)) \<and>
    seq_cycles rs' = seq_cycles rs1 \<and> seq_initial rs' = seq_initial rs1"
proof -
  obtain rtp where rs: "rcv_ready rs" "rs_accept_all_ssrc rs" "rs_coding_api rs = Some ca" "rs_rtp rs = Some rtp"
    "rs_cp_audio rs = Some cpa" "rs_cp_nw rs = Some cpn" "rs_playout rs = Some Fifo" "rtp_payload rtp = pt"
    using s by (auto simp: fifo_session_def rcv_ready_def)
  obtain x rtp' rest where rtp': "rtp_payload rtp' = pt"
    and r: "receive_and_playout ie idec env rs = (let rs3 = rs1\<lparr>rs_rtcp := Some x, rs_rtp := Some rtp'\<rparr> in
       bnd (note_packet hdr (of_nat (length payload)) t rs3) (\<lambda>rs4.
         play_packet ie idec env ca (payload @ rest) (length payload) t [] rs4))"
    using receive_arrival [OF rs(1,2) a(1) h(1) rs(3,4) u(1), of ie idec] u(2,3) h(2) rs(8) by auto
  define rs3 where "rs3 = rs1\<lparr>rs_rtcp := Some x, rs_rtp := Some rtp'\<rparr>"
  have rs3: "rs_playout rs3 = Some Fifo" "rs_cp_audio rs3 = Some cpa" "rs_cp_nw rs3 = Some cpn" "rs_coding_api rs3 = Some ca"
    "rs_accept_all_ssrc rs3" "rs_rtp rs3 = Some rtp'" "seq_cycles rs3 = seq_cycles rs1" "seq_initial rs3 = seq_initial rs1"
    "rs_rtcp rs3 \<noteq> None"
    using update_seq_parts [OF u(1)] rs by (auto simp: same_parts_def rs3_def)
  obtain rs4 where n4: "note_packet hdr (of_nat (length payload)) t rs3 = Inr rs4"
    using note_packet_ok [OF rs3(2) n] by blast
  note np = note_packet_parts [OF n4]
  have rs4: "rs_playout rs4 = Some Fifo" "rs_cp_audio rs4 = Some cpa" "rs_cp_nw rs4 = Some cpn"
    using np rs3 by (auto simp: same_parts_def)
  have "receive_and_playout ie idec env rs =
      Inr ((Some (rs4\<lparr>rs_playout := Some Fifo, rs_prev_pkt := rs_cur_pkt rs4\<rparr>), Some (take (unat (of_nat l :: u32)) buf, 0)), [], 0)"
    using r play_packet_fifo [OF rs4 _ d u(2,3)] a(2) n4 by (simp add: rs3_def [symmetric] device_ok_def)
  then show ?thesis using np rs3 rtp' by (auto simp: fifo_session_def rcv_ready_def same_parts_def)
qed

lemma two_octets_enough:
  assumes "2 \<le> n" "n \<le> INBUF_LEN - 12"
  shows "(of_nat n * 8 div 16 :: u32) \<noteq> 0"
proof -
  have e: "(of_nat n * 8 :: u32) = of_nat (n * 8)" by simp
  have "unat (of_nat n * 8 :: u32) = n * 8"
    unfolding e using assms by (intro unat_word_of_nat_small) simp
  then have "unat (of_nat n * 8 div 16 :: u32) = n * 8 div 16" by (simp add: unat_div)
  moreover have "0 < n * 8 div 16" using assms(1) by (simp add: div_greater_zero_iff)
  ultimately show ?thesis by (metis less_irrefl unat_0)
qed

lemma seq_stream:
  assumes "seq_initial rs \<noteq> 0" "uint (seq_prev rs) = n mod 65536" "n < m" "m < n + 3000"
  shows "update_seq rs (word_of_int m)
    = (rs\<lparr>seq_cycles := seq_cycles rs + word_of_int (65536 * (m div 65536 - n div 65536))\<rparr>,
       if m = n + 1 \<and> m mod 65536 \<noteq> 0 then SEQ_NORMAL else SEQ_GAP)"
proof -
  have d: "uint (word_of_int m - seq_prev rs) = m - n"
    using assms by (simp add: uint_sub16 uint_word16 mod_diff_small)
  have w: "uint (word_of_int m :: u16) = m mod 65536" by (rule uint_word16)
  have lt: "(word_of_int m < seq_prev rs) = (m mod 65536 < n mod 65536)"
    using assms(2) w by (simp add: word_less_def)
  have c: "m div 65536 = n div 65536 + (if m mod 65536 < n mod 65536 then 1 else 0)"
    using assms by (intro cycle_carry) auto
  have nx: "m mod 65536 = n mod 65536 + 1 \<longleftrightarrow> m = n + 1 \<and> m mod 65536 \<noteq> 0"
    using assms by (intro next_number) auto
  show ?thesis
  proof (cases "m = n + 1 \<and> m mod 65536 \<noteq> 0")
    case True
    have e: "m mod 65536 = n mod 65536 + 1" unfolding nx by (rule True)
    have t: "(if m = n + 1 \<and> m mod 65536 \<noteq> 0 then SEQ_NORMAL else SEQ_GAP) = SEQ_NORMAL" by (rule if_P [OF True])
    show ?thesis unfolding t using e assms(1) by (simp add: update_seq_def Let_def w assms(2) c)
  next
    case False
    then have "m mod 65536 \<noteq> n mod 65536 + 1" unfolding nx .
    then show ?thesis using False assms(1,4) d lt by (simp add: update_seq_def Let_def w assms(2) c)
  qed
qed

section \<open>Sessions over time\<close>

text \<open>What the event loop makes of a series of callbacks: it ends after one that fails, and after an
  error, which frees the session. The result is the session with the blocks that were played.\<close>

fun receive_all :: "(int list \<Rightarrow> bytes) \<Rightarrow> (bytes \<Rightarrow> int list) \<Rightarrow> rcv_env list \<Rightarrow> rcv_session
    \<Rightarrow> (rcv_session option \<times> (bytes \<times> u32) list) res" where
  "receive_all ie idec [] rs = Inr (Some rs, [])"
| "receive_all ie idec (env # envs) rs = bnd (receive_and_playout ie idec env rs) (\<lambda>((rs', out), _, r).
     case rs' of
       None \<Rightarrow> Inr (None, [])
     | Some rs' \<Rightarrow>
         if r < 0 then Inr (Some rs', [])
         else bnd (receive_all ie idec envs rs') (\<lambda>(rs2, outs). Inr (rs2, (case out of None \<Rightarrow> [] | Some b \<Rightarrow> [b]) @ outs)))"

text \<open>The sessions reached from \<open>rs\<close> while every callback returns without failing.\<close>

inductive rcv_reach :: "(int list \<Rightarrow> bytes) \<Rightarrow> (bytes \<Rightarrow> int list) \<Rightarrow> rcv_session \<Rightarrow> nat \<Rightarrow> rcv_session \<Rightarrow> bool"
  for ie idec rs where
  reach_start: "rcv_reach ie idec rs 0 rs"
| reach_packet: "rcv_reach ie idec rs n rs1
    \<Longrightarrow> receive_and_playout ie idec env rs1 = Inr ((Some rs2, out), es, r) \<Longrightarrow> 0 \<le> r
    \<Longrightarrow> rcv_reach ie idec rs (Suc n) rs2"

inductive_cases rcv_reach_zero: "rcv_reach ie idec rs 0 rs'"

lemma rcv_reach_keeps:
  assumes "rcv_reach ie idec rs n rs'" "rcv_ready rs"
  shows "rcv_ready rs' \<and> same_parts rs rs' \<and>
    (\<exists>k \<le> n. rst_lost_pkts (rs_stats rs') = rst_lost_pkts (rs_stats rs) - of_nat k)"
  using assms
proof (induction rule: rcv_reach.induct)
  case reach_start
  then show ?case by (simp add: same_parts_rules(1))
next
  case (reach_packet n rs1 env rs2 out es r)
  then obtain k where k: "k \<le> n" "rst_lost_pkts (rs_stats rs1) = rst_lost_pkts (rs_stats rs) - of_nat k"
    and rs1: "rcv_ready rs1" "same_parts rs rs1" by auto
  note p = receive_parts [OF reach_packet(2) rs1(1)]
  have "rst_lost_pkts (rs_stats rs2) = rst_lost_pkts (rs_stats rs) - of_nat k \<or>
      rst_lost_pkts (rs_stats rs2) = rst_lost_pkts (rs_stats rs) - of_nat (Suc k)"
    using p k(2) by (auto simp: lost_step_def)
  then have "\<exists>k \<le> Suc n. rst_lost_pkts (rs_stats rs2) = rst_lost_pkts (rs_stats rs) - of_nat k"
    using k(1) by (meson Suc_le_mono le_Suc_eq)
  then show ?case using p reach_packet.hyps(3) same_parts_rules(2) [OF rs1(2)] by auto
qed

section \<open>A stream of packets\<close>

text \<open>A packet of a stream: its true number, of which 16 bits travel in the header, and the block that
  decoding its payload gives.\<close>

record stream_packet =
  sk_number :: int
  sk_hdr :: rtp_header
  sk_payload :: bytes
  sk_env :: rcv_env
  sk_block :: bytes

definition good_packet :: "(int list \<Rightarrow> bytes) \<Rightarrow> (bytes \<Rightarrow> int list) \<Rightarrow> coding_api \<Rightarrow> coding_params \<Rightarrow> coding_params
    \<Rightarrow> u8 \<Rightarrow> stream_packet \<Rightarrow> bool" where
  "good_packet ie idec ca cpa cpn pt p \<longleftrightarrow>
    arrives (sk_hdr p) (sk_payload p) (sk_env p) \<and> device_ok (sk_env p) \<and>
    rtp_check_hdr (sk_hdr p) = 0 \<and> rtp_get_pt (rh_flags (sk_hdr p)) = ucast pt \<and> rh_seq (sk_hdr p) = word_of_int (sk_number p) \<and>
    (\<exists>k. bytes2samples (cp_precision cpa) (of_nat (length (sk_payload p))) (cp_channels cpa) = Inr k \<and> k \<noteq> 0) \<and>
    (\<exists>buf l. sk_block p = take (unat (of_nat l :: u32)) buf \<and>
      (\<forall>r. decode_packet ie idec (sk_env p) ca (sk_payload p @ r) (length (sk_payload p)) cpa cpn = Inr (Some (buf, l))))"

text \<open>Each true number is above the one before it, by less than 3000.\<close>

fun stream_from :: "int \<Rightarrow> int list \<Rightarrow> bool" where
  "stream_from n [] \<longleftrightarrow> True"
| "stream_from n (m # ms) \<longleftrightarrow> n < m \<and> m < n + MAX_DROPOUT \<and> m < 2 ^ 31 \<and> stream_from m ms"

text \<open>The session after packet number \<open>n\<close>: the cycles and the last number in the packet make up \<open>n\<close>.\<close>

definition follows :: "int \<Rightarrow> rcv_session \<Rightarrow> bool" where
  "follows n rs \<longleftrightarrow> seq_initial rs \<noteq> 0 \<and> uint (seq_prev rs) = n mod 65536 \<and>
    seq_cycles rs = word_of_int (65536 * (n div 65536))"

lemma number_kept:
  assumes "uint (c :: u32) mod 65536 = 0"
  shows "(ucast (c + ucast (s :: u16)) :: u16) = s"
proof (rule word_uint_eqI)
  have "uint (ucast s :: u32) = uint s"
    using uint_lt2p [of s] by (simp add: unsigned_ucast_eq take_bit_eq_mod)
  then have "uint (ucast (c + ucast s :: u32) :: u16) = (uint c + uint s) mod 65536"
    by (simp add: unsigned_ucast_eq [of "c + ucast s"] take_bit_eq_mod uint_word_arith_bintrs mod_mod_cancel)
  also have "\<dots> = uint s"
    using assms uint_lt2p [of s] by (simp add: mod_add_left_eq [symmetric])
  finally show "uint (ucast (c + ucast s :: u32) :: u16) = uint s" .
qed

lemma cycles_mod: "uint (word_of_int (65536 * k) :: u32) mod 65536 = 0"
  unfolding uint_word_of_int by (simp add: mod_mod_cancel del: of_int_mult)

lemma follows_number:
  assumes "follows n rs" "0 \<le> n" "n < 2 ^ 31"
  shows "sint (seq_cycles rs) + uint (seq_prev rs) = n"
proof -
  have b: "0 \<le> 65536 * (n div 65536)" "65536 * (n div 65536) < 2 ^ 31"
    using assms(2,3) split_65536 [of n] by (simp, linarith)
  have "sint (word_of_int (65536 * (n div 65536)) :: u32) = 65536 * (n div 65536)"
    using b by (simp add: sint_sbintrunc' signed_take_bit_int_eq_self del: of_int_mult)
  then show ?thesis using assms(1) by (simp add: follows_def)
qed

lemma follows_play:
  assumes f: "fifo_session ca cpa cpn pt rs" and g: "good_packet ie idec ca cpa cpn pt p"
    and u: "update_seq rs (rh_seq (sk_hdr p)) = (rs1, t)" "t \<noteq> SEQ_BAD" "t \<noteq> SEQ_DUP"
    and c: "seq_cycles rs1 = word_of_int (65536 * (sk_number p div 65536))" "seq_initial rs1 \<noteq> 0"
  shows "\<exists>rs'. receive_and_playout ie idec (sk_env p) rs = Inr ((Some rs', Some (sk_block p, 0)), [], 0) \<and>
    fifo_session ca cpa cpn pt rs' \<and> follows (sk_number p) rs'"
proof -
  obtain k buf l where k: "bytes2samples (cp_precision cpa) (of_nat (length (sk_payload p))) (cp_channels cpa) = Inr k" "k \<noteq> 0"
    and d: "sk_block p = take (unat (of_nat l :: u32)) buf"
      "\<And>r. decode_packet ie idec (sk_env p) ca (sk_payload p @ r) (length (sk_payload p)) cpa cpn = Inr (Some (buf, l))"
    using g by (auto simp: good_packet_def)
  have a: "arrives (sk_hdr p) (sk_payload p) (sk_env p)" "device_ok (sk_env p)" "rtp_check_hdr (sk_hdr p) = 0"
    "rtp_get_pt (rh_flags (sk_hdr p)) = ucast pt" "rh_seq (sk_hdr p) = word_of_int (sk_number p)"
    using g by (auto simp: good_packet_def)
  show ?thesis
    using receive_plays [OF f a(1-4) u k d(2)] c a(5) d(1) number_kept [OF cycles_mod]
    by (auto simp: follows_def uint_word16)
qed

lemma follows_next:
  assumes f: "fifo_session ca cpa cpn pt rs" "follows n rs" and g: "good_packet ie idec ca cpa cpn pt p"
    and n: "n < sk_number p" "sk_number p < n + 3000"
  shows "\<exists>rs'. receive_and_playout ie idec (sk_env p) rs = Inr ((Some rs', Some (sk_block p, 0)), [], 0) \<and>
    fifo_session ca cpa cpn pt rs' \<and> follows (sk_number p) rs'"
proof -
  have s: "rh_seq (sk_hdr p) = word_of_int (sk_number p)" using g by (simp add: good_packet_def)
  have "update_seq rs (rh_seq (sk_hdr p)) = (rs\<lparr>seq_cycles := seq_cycles rs + word_of_int (65536 * (sk_number p div 65536 - n div 65536))\<rparr>,
       if sk_number p = n + 1 \<and> sk_number p mod 65536 \<noteq> 0 then SEQ_NORMAL else SEQ_GAP)"
    unfolding s using f(2) n by (intro seq_stream) (simp_all add: follows_def)
  then show ?thesis
    by (rule follows_play [OF f(1) g]) (use f(2) in \<open>simp_all add: follows_def right_diff_distrib flip: of_int_add\<close>)
qed

lemma receive_stream:
  assumes "fifo_session ca cpa cpn pt rs" "follows n rs" "\<forall>p \<in> set ps. good_packet ie idec ca cpa cpn pt p"
    and "stream_from n (map sk_number ps)"
  shows "\<exists>rs'. receive_all ie idec (map sk_env ps) rs = Inr (Some rs', map (\<lambda>p. (sk_block p, 0)) ps) \<and>
    fifo_session ca cpa cpn pt rs' \<and> follows (last (n # map sk_number ps)) rs'"
  using assms
proof (induction ps arbitrary: n rs)
  case (Cons p ps)
  obtain rs1 where r: "receive_and_playout ie idec (sk_env p) rs = Inr ((Some rs1, Some (sk_block p, 0)), [], 0)"
    "fifo_session ca cpa cpn pt rs1" "follows (sk_number p) rs1"
    using follows_next [OF Cons.prems(1,2), of ie idec p] Cons.prems(3,4) by auto
  then show ?case using Cons.IH [OF r(2,3)] Cons.prems(3,4) by auto
qed simp

lemma receive_new_stream:
  assumes f: "fifo_session ca cpa cpn pt rs" "seq_initial rs = 0" "seq_cycles rs = 0"
    and g: "\<forall>q \<in> set (p # ps). good_packet ie idec ca cpa cpn pt q"
    and n: "0 \<le> sk_number p" "sk_number p < 65536" "stream_from (sk_number p) (map sk_number ps)"
  shows "\<exists>rs'. receive_all ie idec (map sk_env (p # ps)) rs = Inr (Some rs', map (\<lambda>p. (sk_block p, 0)) (p # ps)) \<and>
    fifo_session ca cpa cpn pt rs' \<and> follows (last (map sk_number (p # ps))) rs'"
proof -
  have "update_seq rs (rh_seq (sk_hdr p)) = (rs\<lparr>seq_initial := 1\<rparr>, SEQ_RESET)"
    using f(2) by (simp add: update_seq_def)
  then have "\<exists>rs'. receive_and_playout ie idec (sk_env p) rs = Inr ((Some rs', Some (sk_block p, 0)), [], 0) \<and>
      fifo_session ca cpa cpn pt rs' \<and> follows (sk_number p) rs'"
    by (rule follows_play [OF f(1), rotated]) (use g f(3) n(1,2) in \<open>simp_all add: div_pos_pos_trivial\<close>)
  then show ?thesis using receive_stream [OF _ _ _ n(3)] g by fastforce
qed

lemma stream_bounds:
  assumes "stream_from n ms" "0 \<le> n" "n < 2 ^ 31"
  shows "0 \<le> last (n # ms) \<and> last (n # ms) < 2 ^ 31"
  using assms by (induction ms arbitrary: n) auto

section \<open>Samples\<close>

definition demo_rcv_session :: rcv_session where
  "demo_rcv_session = rcv_session_zero\<lparr>rs_rtp := Some (rtp_session_new\<lparr>rtp_payload := 8\<rparr>),
     rs_rtcp := Some \<lparr>rrs_RR_pkts = 0, rrs_SR_pkts = 0, rrs_timestamp_SR = tv 0 0,
       rrs_timestamp_SR_ntp = \<lparr>ntp_sec = 0, ntp_frac = 0\<rparr>, rrs_bytes_sent2us = 0, rrs_packets_sent2us = 0,
       rrs_prev_pktLost = 0, rrs_prev_pktSeq = 0, rtcp_stats_bytes = 0, rtcp_stats_pkt = 0\<rparr>,
     rs_coding_api := Some \<lparr>ca_encode = coding_l16_2alaw, ca_decode = coding_alaw2_l16, ca_ilbc = False\<rparr>,
     rs_cp_audio := Some \<lparr>cp_type = CODING_LINEAR16, cp_samp_sec = 8000, cp_precision = 16, cp_size_ms = 20,
       cp_size_bytes = 320, cp_channels = 1\<rparr>,
     rs_cp_nw := Some \<lparr>cp_type = CODING_ALAW, cp_samp_sec = 8000, cp_precision = 8, cp_size_ms = 20,
       cp_size_bytes = 160, cp_channels = 1\<rparr>,
     rs_accept_all_ssrc := True, rs_playout := Some Fifo\<rparr>"

definition demo_env :: "recv_result \<Rightarrow> rcv_env" where
  "demo_env r = \<lparr>env_recv = r, env_mem = (\<lambda>_. 0), env_alloc = True, env_pos = None, env_pr = 0, env_junk = 0\<rparr>"

lemma demo_ready: "rcv_ready demo_rcv_session" "fifo_session
    \<lparr>ca_encode = coding_l16_2alaw, ca_decode = coding_alaw2_l16, ca_ilbc = False\<rparr>
    \<lparr>cp_type = CODING_LINEAR16, cp_samp_sec = 8000, cp_precision = 16, cp_size_ms = 20, cp_size_bytes = 320, cp_channels = 1\<rparr>
    \<lparr>cp_type = CODING_ALAW, cp_samp_sec = 8000, cp_precision = 8, cp_size_ms = 20, cp_size_bytes = 160, cp_channels = 1\<rparr>
    8 demo_rcv_session"
  by (simp_all add: rcv_ready_def fifo_session_def demo_rcv_session_def rcv_session_zero_def rtp_session_new_def)

definition demo_hdr :: "u16 \<Rightarrow> rtp_header" where
  "demo_hdr seq = \<lparr>rh_flags = 0x8008, rh_seq = seq, rh_ts = \<lparr>ntp_sec = 0, ntp_frac = 0\<rparr>, rh_ssrc = 7\<rparr>"

lemma demo_hdr: "rtp_check_hdr (demo_hdr seq) = 0" "rtp_get_pt (rh_flags (demo_hdr seq)) = 8"
  by (simp_all add: rtp_check_hdr_def demo_hdr_def rtp_get_v_def rtp_get_pt_def)

definition demo_packet :: "int \<Rightarrow> stream_packet" where
  "demo_packet n = \<lparr>sk_number = n, sk_hdr = demo_hdr (word_of_int n), sk_payload = [0xD5, 0xD5],
     sk_env = demo_env (Received (marshal_rtp_hdr (demo_hdr (word_of_int n)) @ [0xD5, 0xD5]) zero_addr 16), sk_block = [8, 0, 8, 0]\<rparr>"

lemma demo_packet_fields: "sk_number (demo_packet n) = n" "sk_block (demo_packet n) = [8, 0, 8, 0]"
  by (simp_all add: demo_packet_def)

lemma demo_packet: "good_packet ie idec
    \<lparr>ca_encode = coding_l16_2alaw, ca_decode = coding_alaw2_l16, ca_ilbc = False\<rparr>
    \<lparr>cp_type = CODING_LINEAR16, cp_samp_sec = 8000, cp_precision = 16, cp_size_ms = 20, cp_size_bytes = 320, cp_channels = 1\<rparr>
    \<lparr>cp_type = CODING_ALAW, cp_samp_sec = 8000, cp_precision = 8, cp_size_ms = 20, cp_size_bytes = 160, cp_channels = 1\<rparr>
    8 (demo_packet n)"
proof -
  have l: "store16 8 @ store16 8 = [8, 0, 8, 0]" by (simp add: store16_def)
  have a: "alaw2linear 0xD5 = 8" by code_simp
  have d: "run_coding ie idec coding_alaw2_l16 ([0xD5, 0xD5] @ r) 2 4 = Inr [8, 0, 8, 0]" for r
    using run_decoders(1) [of ie idec "[0xD5, 0xD5]" r 4] by (simp add: a l numeral_2_eq_2 del: run_coding.simps)
  have e: "decode_packet ie idec (demo_env x) \<lparr>ca_encode = coding_l16_2alaw, ca_decode = coding_alaw2_l16, ca_ilbc = False\<rparr>
      ([0xD5, 0xD5] @ r) 2
      \<lparr>cp_type = CODING_LINEAR16, cp_samp_sec = 8000, cp_precision = 16, cp_size_ms = 20, cp_size_bytes = 320, cp_channels = 1\<rparr>
      \<lparr>cp_type = CODING_ALAW, cp_samp_sec = 8000, cp_precision = 8, cp_size_ms = 20, cp_size_bytes = 160, cp_channels = 1\<rparr>
      = Inr (Some ([8, 0, 8, 0], 4))" for r x
    using d [of r]
    by (simp add: decode_packet_def ca_transformlen_def coding_transformlen_generic_def Let_def demo_env_def del: run_coding.simps append.simps)
  have t: "[8, 0, 8, 0] = take (unat (of_nat 4 :: u32)) [8, 0, 8, 0 :: u8]" by simp
  have h: "rh_seq (demo_hdr x) = x" for x by (simp add: demo_hdr_def)
  have b: "\<exists>k. bytes2samples 16 (of_nat (length [0xD5, 0xD5 :: u8])) 1 = Inr k \<and> k \<noteq> 0" by (simp add: bytes2samples_def)
  have c: "\<exists>buf l. [8, 0, 8, 0] = take (unat (of_nat l :: u32)) buf \<and> (\<forall>r. decode_packet ie idec (demo_env x)
      \<lparr>ca_encode = coding_l16_2alaw, ca_decode = coding_alaw2_l16, ca_ilbc = False\<rparr> ([0xD5, 0xD5] @ r) (length [0xD5, 0xD5 :: u8])
      \<lparr>cp_type = CODING_LINEAR16, cp_samp_sec = 8000, cp_precision = 16, cp_size_ms = 20, cp_size_bytes = 320, cp_channels = 1\<rparr>
      \<lparr>cp_type = CODING_ALAW, cp_samp_sec = 8000, cp_precision = 8, cp_size_ms = 20, cp_size_bytes = 160, cp_channels = 1\<rparr>
      = Inr (Some (buf, l)))" for x
    using e [of x] t by (intro exI [of _ "[8, 0, 8, 0]"] exI [of _ 4]) (simp add: numeral_2_eq_2)
  show ?thesis
    unfolding good_packet_def demo_packet_def stream_packet.simps coding_params.simps
    by (intro conjI b c) (simp_all add: demo_hdr h arrives_def demo_env_def device_ok_def)
qed

section \<open>Properties\<close>

text \<open>C36. Over a stream of packets that each can be decoded, to a new session with a queueing device, whose numbers grow by
  less than 3000 from packet to packet, the receiver plays the block of every packet, in order, and keeps track of
  the true numbers although only their last 16 bits travel: after the stream, the cycles and the number of the last packet
  make up its true number, over every wrap of the 16 bits, as long as it fits the 31 bits of the cycle count. The packet that comes then is called
  normal exactly when it is the next one and the 16 bits have not wrapped, and otherwise a gap.\<close>

theorem seq_follows_stream:
  assumes "fifo_session ca cpa cpn pt rs" "seq_initial rs = 0" "seq_cycles rs = 0"
    and "\<forall>q \<in> set (p # ps). good_packet ie idec ca cpa cpn pt q"
    and "0 \<le> sk_number p" "sk_number p < 65536" "stream_from (sk_number p) (map sk_number ps)"
  shows "\<exists>rs'. receive_all ie idec (map sk_env (p # ps)) rs = Inr (Some rs', map (\<lambda>q. (sk_block q, 0)) (p # ps)) \<and>
    (let n = sk_number (last (p # ps)) in
     sint (seq_cycles rs') + uint (seq_prev rs') = n \<and>
     (\<forall>m. n < m \<and> m < n + 3000 \<longrightarrow>
        snd (update_seq rs' (word_of_int m)) = (if m = n + 1 \<and> m mod 65536 \<noteq> 0 then SEQ_NORMAL else SEQ_GAP)))"
proof -
  let ?n = "sk_number (last (p # ps))"
  have e: "last (map sk_number (p # ps)) = ?n" by (simp only: last_map list.distinct not_False_eq_True)
  obtain rs' where r: "receive_all ie idec (map sk_env (p # ps)) rs = Inr (Some rs', map (\<lambda>q. (sk_block q, 0)) (p # ps))"
    and f: "follows ?n rs'"
    using receive_new_stream [OF assms] unfolding e by blast
  have "0 \<le> ?n \<and> ?n < 2 ^ 31" using stream_bounds [OF assms(7,5)] assms(6) e by simp
  then have "sint (seq_cycles rs') + uint (seq_prev rs') = ?n" using follows_number [OF f] by blast
  moreover have "snd (update_seq rs' (word_of_int m)) = (if m = ?n + 1 \<and> m mod 65536 \<noteq> 0 then SEQ_NORMAL else SEQ_GAP)"
    if "?n < m" "m < ?n + 3000" for m
    using seq_stream [OF _ _ that] f by (simp add: follows_def)
  ultimately show ?thesis using r unfolding Let_def by blast
qed

theorem seq_follows_stream_witness:
  "\<exists>rs. receive_all (\<lambda>_. []) (\<lambda>_. []) (map sk_env [demo_packet 65530, demo_packet 65540]) demo_rcv_session
      = Inr (Some rs, [([8, 0, 8, 0], 0), ([8, 0, 8, 0], 0)]) \<and> sint (seq_cycles rs) + uint (seq_prev rs) = 65540"
  using seq_follows_stream [OF demo_ready(2), where p = "demo_packet 65530" and ie = "\<lambda>_. []" and idec = "\<lambda>_. []" and ps = "[demo_packet 65540]"] demo_packet
  by (auto simp: demo_packet_fields demo_rcv_session_def rcv_session_zero_def Let_def)

text \<open>C37. A session that is set up stays so as long as packets arrive and no callback fails or reports an error: its
  parts, parameters and options are those it started with, and the current packet is the previous one
  between callbacks. Because the loss is computed from these two, which are then equal, the loss
  count only ever goes down by one: from zero it wraps to the largest number at the first gap. A callback that returns
  leaves the session freed exactly when it reports an error, and every datagram of no octets makes it do that.\<close>

theorem rcv_session_invariant:
  assumes "rcv_reach ie idec rs n rs'" "rcv_ready rs"
  shows "rcv_ready rs' \<and> same_parts rs rs' \<and>
    (\<exists>k \<le> n. rst_lost_pkts (rs_stats rs') = rst_lost_pkts (rs_stats rs) - of_nat k) \<and>
    (\<forall>env rs2 out es r. receive_and_playout ie idec env rs' = Inr ((rs2, out), es, r) \<longrightarrow>
      (rs2 = None \<longleftrightarrow> Sphone_Error \<in> set es)) \<and>
    (\<forall>env addr len. env_recv env = Received [] addr len \<longrightarrow>
      receive_and_playout ie idec env rs' = Inr ((None, None), [Sphone_Error], 0))"
proof -
  note k = rcv_reach_keeps [OF assms]
  have "rs2 = None \<longleftrightarrow> Sphone_Error \<in> set es" if "receive_and_playout ie idec env rs' = Inr ((rs2, out), es, r)" for env rs2 out es r
    using receive_parts [OF that] k by (cases rs2) auto
  then show ?thesis using k receive_error by blast
qed

lemma receive_nothing:
  assumes "rcv_ready rs" "env_recv env = Recv_Failed"
  shows "receive_and_playout ie idec env rs = Inr ((Some rs, None), [], 0)"
  using assms by (auto simp: rcv_ready_def receive_and_playout_def inet_input_def)

theorem rcv_session_invariant_witness:
  "\<exists>rs. rcv_reach (\<lambda>_. []) (\<lambda>_. []) demo_rcv_session 1 rs \<and> rcv_ready rs \<and> same_parts demo_rcv_session rs"
proof -
  have "rcv_reach (\<lambda>_. []) (\<lambda>_. []) demo_rcv_session (Suc 0) demo_rcv_session"
    by (rule reach_packet [OF reach_start receive_nothing [OF demo_ready(1), of "demo_env Recv_Failed"]])
      (simp_all add: demo_env_def)
  then show ?thesis using rcv_session_invariant [OF _ demo_ready(1)] by force
qed

text \<open>Three kinds of packet from the network stop a receiver that plays 16-bit audio: a payload of one
  octet divides by zero, a payload type other than the session's makes it go on with a freed
  session, and a packet that is late or far ahead ends the program with an error.\<close>

lemma packets_that_stop:
  assumes "rcv_ready rs" "rs_accept_all_ssrc rs" "rs_cp_audio rs = Some cpa" "cp_precision cpa = 16" "cp_channels cpa = 1"
    and "arrives hdr payload env" "rtp_check_hdr hdr = 0" "rs_rtp rs = Some rtp" "update_seq rs (rh_seq hdr) = (rs1, t)"
  shows "if t = SEQ_BAD \<or> t = SEQ_DUP
    then \<exists>rs'. receive_and_playout ie idec env rs = Inr ((Some rs', None), [], - 1)
    else if length payload = 1 then receive_and_playout ie idec env rs = Inl Div_By_Zero
    else rtp_get_pt (rh_flags hdr) = ucast (rtp_payload rtp) \<or> receive_and_playout ie idec env rs = Inl Use_After_Free"
proof -
  obtain ca where ca: "rs_coding_api rs = Some ca" using assms(1) by (auto simp: rcv_ready_def)
  obtain x rtp' rest where r: "receive_and_playout ie idec env rs =
      (let rs3 = rs1\<lparr>rs_rtcp := Some x, rs_rtp := Some rtp'\<rparr> in
       if t = SEQ_BAD \<or> t = SEQ_DUP then Inr ((Some rs3, None), [], - 1)
       else bnd (note_packet hdr (of_nat (length payload)) t rs3) (\<lambda>rs4.
         if rtp_get_pt (rh_flags hdr) \<noteq> ucast (rtp_payload rtp) then Inl Use_After_Free
         else play_packet ie idec env ca (payload @ rest) (length payload) t [] rs4))"
    using receive_arrival [OF assms(1,2,6,7) ca assms(8,9), of ie idec] by blast
  define rs3 where "rs3 = rs1\<lparr>rs_rtcp := Some x, rs_rtp := Some rtp'\<rparr>"
  have cp: "rs_cp_audio rs3 = Some cpa" using update_seq_parts [OF assms(9)] assms(3) by (simp add: rs3_def same_parts_def)
  have n: "note_packet hdr (of_nat (length payload)) t rs3 = Inl Div_By_Zero" if "length payload = 1"
    using that cp assms(4,5) by (cases "t = SEQ_GAP") (simp_all add: note_packet_def Let_def bytes2samples_def)
  have m: "\<exists>rs4. note_packet hdr (of_nat (length payload)) t rs3 = Inr rs4" if "length payload \<noteq> 1"
  proof (rule note_packet_ok [OF cp])
    show "bytes2samples (cp_precision cpa) (of_nat (length payload)) (cp_channels cpa) = Inr (of_nat (length payload) * 8 div 16)"
      using assms(4,5) by (simp add: bytes2samples_def)
    show "(of_nat (length payload) * 8 div 16 :: u32) \<noteq> 0"
      using that assms(6) by (intro two_octets_enough) (auto simp: arrives_def Suc_le_eq neq_Nil_conv)
  qed
  show ?thesis using r n m by (auto simp: rs3_def [symmetric] Let_def split: if_splits)
qed

lemma packets_that_stop_witness:
  "receive_and_playout (\<lambda>_. []) (\<lambda>_. []) (demo_env (Received (marshal_rtp_hdr (demo_hdr 5) @ [0xD5]) zero_addr 16)) demo_rcv_session
    = Inl Div_By_Zero"
proof -
  have u: "update_seq demo_rcv_session (rh_seq (demo_hdr 5)) = (demo_rcv_session\<lparr>seq_initial := 1\<rparr>, SEQ_RESET)"
    by (simp add: update_seq_def demo_rcv_session_def rcv_session_zero_def)
  have a: "arrives (demo_hdr 5) [0xD5] (demo_env (Received (marshal_rtp_hdr (demo_hdr 5) @ [0xD5]) zero_addr 16))"
    by (auto simp: arrives_def demo_env_def)
  show ?thesis
    using packets_that_stop [OF demo_ready(1) _ _ _ _ a demo_hdr(1) _ u,
        of "\<lparr>cp_type = CODING_LINEAR16, cp_samp_sec = 8000, cp_precision = 16, cp_size_ms = 20, cp_size_bytes = 320, cp_channels = 1\<rparr>"
           "rtp_session_new\<lparr>rtp_payload := 8\<rparr>" "\<lambda>_. []" "\<lambda>_. []"]
    by (simp add: demo_rcv_session_def)
qed

end
