(* ===== verification/Send.thy ===== *)
theory Send
  imports Coding Rtp Rtp_Session
begin

text \<open>
  The sending half of a call, \<open>src/sphone_send.c\<close>: a session with its parts, and the callback
  that takes a block of recorded samples through channel reduction, silence detection and
  coding to a packet on the network.

  The static output buffer keeps the octets of the packets before; \<open>senv_stale\<close> gives them. The
  static header is overwritten in all its fields, so what it held does not matter.
\<close>

record send_stats =
  sst_sbytes :: u32
  sst_spkt :: u32
  sst_rbytes :: u32
  sst_rpkt :: u32

record rtcp_send_stats =
  rss_RR_pkts :: u32
  rss_SR_pkts :: u32
  rss_peer_fraction_lost :: u32
  rss_peer_jitter :: u32
  rss_RTT_delay :: u32
  rss_peer_culm_lost :: u32
  rss_peer_last_seq :: u32

record send_session =
  ss_rtp :: "rtp_session option"
  ss_rtcp :: "rtcp_send_stats option"
  ss_record_api :: bool
  ss_coding_api :: "coding_api option"
  ss_stats :: send_stats
  ss_cp_audio :: "coding_params option"
  ss_cp_nw :: "coding_params option"
  ss_seq :: u32
  ss_silence_detection :: bool
  ss_silence_nr :: int
  ss_silence_threshold :: int

definition send_session_zero :: send_session where
  "send_session_zero = \<lparr>ss_rtp = None, ss_rtcp = None, ss_record_api = False, ss_coding_api = None,
     ss_stats = \<lparr>sst_sbytes = 0, sst_spkt = 0, sst_rbytes = 0, sst_rpkt = 0\<rparr>, ss_cp_audio = None,
     ss_cp_nw = None, ss_seq = 0, ss_silence_detection = False, ss_silence_nr = 0, ss_silence_threshold = 0\<rparr>"

definition send_session_new :: "bool \<Rightarrow> bool \<Rightarrow> send_session option \<times> effect list" where
  "send_session_new alloc reg =
    (if \<not> alloc then (None, [Sphone_Error])
     else if \<not> reg then (None, [])
     else (Some send_session_zero, []))"

datatype send_part = SPart_Rtp | SPart_Rtcp | SPart_Record | SPart_Coding | SPart_Cp_Audio | SPart_Cp_Nw
  | SPart_Session

definition send_session_exit :: "send_session \<Rightarrow> send_part list" where
  "send_session_exit ss =
    (if ss_rtp ss \<noteq> None then [SPart_Rtp] else []) @
    (if ss_rtcp ss \<noteq> None then [SPart_Rtcp] else []) @
    (if ss_record_api ss then [SPart_Record] else []) @
    (if ss_coding_api ss \<noteq> None then [SPart_Coding] else []) @
    (if ss_cp_audio ss \<noteq> None then [SPart_Cp_Audio] else []) @
    (if ss_cp_nw ss \<noteq> None then [SPart_Cp_Nw] else []) @ [SPart_Session]"

abbreviation "MAX_PKT_SIZE \<equiv> 1472 :: nat"

record send_env =
  senv_now :: timeval
  senv_stale :: bytes
  senv_sendto :: bool

definition rtp_header_zero :: rtp_header where
  "rtp_header_zero = \<lparr>rh_flags = 0, rh_seq = 0, rh_ts = \<lparr>ntp_sec = 0, ntp_frac = 0\<rparr>, rh_ssrc = 0\<rparr>"

text \<open>Fewer channels: the recorded block with its new length.\<close>

definition reduce_block :: "coding_params \<Rightarrow> coding_params \<Rightarrow> bytes \<Rightarrow> nat \<Rightarrow> (bytes \<times> nat) res" where
  "reduce_block cp_audio cp_nw databuf datalen =
    (if cp_channels cp_nw = 0 then Inl Div_By_Zero
     else let reduce_factor = unat (cp_channels cp_audio div cp_channels cp_nw) in
       if 1 < reduce_factor then
         (case coding_reduce databuf datalen (unat (cp_precision cp_audio)) reduce_factor of
            None \<Rightarrow> Inl Endless_Loop | Some r \<Rightarrow> r)
       else Inr (databuf, datalen))"

text \<open>The silence detection of a session: the new session and what the test returns, 0 when it is
  switched off.\<close>

definition check_silence :: "coding_params \<Rightarrow> bytes \<Rightarrow> nat \<Rightarrow> send_session \<Rightarrow> (send_session \<times> int) res" where
  "check_silence cp_audio databuf datalen ss =
    (if \<not> ss_silence_detection ss then Inr (ss, 0)
     else if cp_size_ms cp_audio = 0 then Inl Div_By_Zero
     else let ss = ss\<lparr>ss_silence_threshold := uint (word_of_int SILENCE_THRESHOLD_MS div cp_size_ms cp_audio)\<rparr> in
       bnd (silence databuf (int datalen) (cp_precision cp_audio) (ss_silence_nr ss) (ss_silence_threshold ss))
         (\<lambda>(nr, r). Inr (ss\<lparr>ss_silence_nr := nr\<rparr>, r)))"

text \<open>From the header to the network: \<open>out\<close> is what the coder wrote behind the room for the header.\<close>

definition send_packet :: "send_env \<Rightarrow> rtp_session \<Rightarrow> bytes \<Rightarrow> nat \<Rightarrow> send_session \<Rightarrow> send_session called" where
  "send_packet env rtp out encodelen ss =
    (let hdr = rtp_set_hdr (senv_now env) rtp_header_zero None (rtp_ssrc rtp);
         hdr = hdr\<lparr>rh_flags := rtp_set_pt (rh_flags hdr) (ucast (rtp_payload rtp))\<rparr>;
         hdr = hdr\<lparr>rh_seq := ucast (ss_seq ss mod 0x10000)\<rparr>;
         ss = ss\<lparr>ss_seq := ss_seq ss + 1\<rparr>;
         outbuf = marshal_rtp_hdr hdr @ out @ drop (12 + length out) (senv_stale env);
         len = 12 + encodelen;
         send = Send_To (rtp_s rtp) (take len outbuf) (rtp_rcv_addr rtp)
     in if \<not> senv_sendto env then Inr (ss, [send, Sphone_Error], - 1)
        else let st = ss_stats ss;
                 st = st\<lparr>sst_sbytes := sst_sbytes st + of_nat len\<rparr>;
                 st = st\<lparr>sst_sbytes := sst_sbytes st + 1\<rparr>
             in Inr (ss\<lparr>ss_stats := st\<rparr>, [send], 0))"

text \<open>The room that the code checks for is the whole buffer, the header not deducted.\<close>

definition record_and_send :: "(int list \<Rightarrow> bytes) \<Rightarrow> (bytes \<Rightarrow> int list) \<Rightarrow> send_env
    \<Rightarrow> bytes \<Rightarrow> nat \<Rightarrow> send_session \<Rightarrow> send_session called" where
  "record_and_send ie idec env databuf datalen ss =
    (case (ss_rtp ss, ss_coding_api ss) of
      (Some rtp, Some ca) \<Rightarrow>
        bnd (deref (ss_cp_audio ss)) (\<lambda>cp_audio. bnd (deref (ss_cp_nw ss)) (\<lambda>cp_nw.
        bnd (reduce_block cp_audio cp_nw databuf datalen) (\<lambda>(databuf, datalen).
        bnd (ca_transformlen ca cp_audio cp_nw datalen) (\<lambda>encodelen.
        if MAX_PKT_SIZE - 0 < encodelen then Inr (ss, [Sphone_Error], - 1)
        else bnd (check_silence cp_audio databuf datalen ss) (\<lambda>(ss, silent).
        if silent < 0 then Inr (ss, [Sphone_Error], - 1)
        else if silent = 1 then Inr (ss, [], 0)
        else bnd (run_coding ie idec (ca_encode ca) databuf datalen encodelen) (\<lambda>out.
        if MAX_PKT_SIZE < 12 + length out then Inl Out_Of_Bounds
        else if MAX_PKT_SIZE < 12 + encodelen then Inl Out_Of_Bounds
        else send_packet env rtp out encodelen ss))))))
    | _ \<Rightarrow> Inl Assert_Failed)"

section \<open>Lemmas\<close>

text \<open>What a block of recorded samples can change in a session.\<close>

definition same_sender :: "send_session \<Rightarrow> send_session \<Rightarrow> bool" where
  "same_sender ss ss' \<longleftrightarrow> ss_rtp ss' = ss_rtp ss \<and> ss_rtcp ss' = ss_rtcp ss \<and> ss_record_api ss' = ss_record_api ss \<and>
    ss_coding_api ss' = ss_coding_api ss \<and> ss_cp_audio ss' = ss_cp_audio ss \<and> ss_cp_nw ss' = ss_cp_nw ss \<and>
    ss_silence_detection ss' = ss_silence_detection ss \<and> sst_spkt (ss_stats ss') = sst_spkt (ss_stats ss)"

lemma send_packet_parts:
  assumes "send_packet env rtp out l ss = Inr (ss', es, r)"
  shows "same_sender ss ss' \<and> ss_seq ss' = ss_seq ss + 1 \<and> (\<exists>a d b. es = Send_To a d b # (if r = 0 then [] else [Sphone_Error]))"
  using assms by (auto simp: send_packet_def Let_def same_sender_def split: if_splits)

lemma check_silence_parts:
  assumes "check_silence cp buf l ss = Inr (ss', r)"
  shows "same_sender ss ss' \<and> ss_seq ss' = ss_seq ss \<and> ss_stats ss' = ss_stats ss \<and> (\<not> ss_silence_detection ss \<longrightarrow> ss' = ss \<and> r = 0)"
  using assms by (auto simp: check_silence_def Let_def same_sender_def bnd_eq_Inr split: if_splits)

definition sends :: "effect list \<Rightarrow> nat" where
  "sends es = length (filter (\<lambda>e. \<exists>a d b. e = Send_To a d b) es)"

lemma sends_simps [simp]: "sends [] = 0" "sends (Send_To a d b # es) = Suc (sends es)" "sends (Sphone_Error # es) = sends es"
  by (simp_all add: sends_def)

lemma record_and_send_parts:
  assumes "record_and_send ie idec env buf l ss = Inr (ss', es, r)"
  shows "same_sender ss ss' \<and> ss_seq ss' = ss_seq ss + of_nat (sends es) \<and> sends es \<le> 1"
proof -
  obtain rtp ca where p: "ss_rtp ss = Some rtp" "ss_coding_api ss = Some ca"
    using assms by (auto simp: record_and_send_def split: option.splits)
  have refl: "same_sender ss ss" by (simp add: same_sender_def)
  have trans: "\<lbrakk>same_sender b c; same_sender ss b\<rbrakk> \<Longrightarrow> same_sender ss c" for b c by (simp add: same_sender_def)
  show ?thesis using assms p refl unfolding record_and_send_def
    by (auto elim!: bnd_InrE split: if_splits dest!: send_packet_parts check_silence_parts)
      (use trans in blast)+
qed

section \<open>A block of samples\<close>

text \<open>A session that sends one channel as it records it, without silence detection.\<close>

definition mono_sender :: "coding_api \<Rightarrow> coding_params \<Rightarrow> coding_params \<Rightarrow> rtp_session \<Rightarrow> send_session \<Rightarrow> bool" where
  "mono_sender ca cpa cpn rtp ss \<longleftrightarrow> ss_rtp ss = Some rtp \<and> ss_coding_api ss = Some ca \<and> ss_cp_audio ss = Some cpa \<and>
    ss_cp_nw ss = Some cpn \<and> cp_channels cpa = 1 \<and> cp_channels cpn = 1 \<and> \<not> ss_silence_detection ss"

definition sent_hdr :: "send_env \<Rightarrow> rtp_session \<Rightarrow> u32 \<Rightarrow> rtp_header" where
  "sent_hdr env rtp seq =
    (let hdr = rtp_set_hdr (senv_now env) rtp_header_zero None (rtp_ssrc rtp)
     in hdr\<lparr>rh_flags := rtp_set_pt (rh_flags hdr) (ucast (rtp_payload rtp)), rh_seq := ucast (seq mod 0x10000)\<rparr>)"

lemma mono_sender_steps:
  assumes "mono_sender ca cpa cpn rtp ss" "ca_transformlen ca cpa cpn l = Inr m" "m \<le> 1472"
    and "run_coding ie idec (ca_encode ca) buf l m = Inr out"
  shows "record_and_send ie idec env buf l ss =
    (if 1460 < length out \<or> 1460 < m then Inl Out_Of_Bounds else send_packet env rtp out m ss)"
  using assms by (simp add: mono_sender_def record_and_send_def reduce_block_def check_silence_def)

lemma record_and_send_mono:
  assumes "mono_sender ca cpa cpn rtp ss" "ca_transformlen ca cpa cpn l = Inr m" "m \<le> 1460"
    and "run_coding ie idec (ca_encode ca) buf l m = Inr out" "length out = m" "senv_sendto env"
  shows "\<exists>ss'. record_and_send ie idec env buf l ss
      = Inr (ss', [Send_To (rtp_s rtp) (marshal_rtp_hdr (sent_hdr env rtp (ss_seq ss)) @ out) (rtp_rcv_addr rtp)], 0) \<and>
    mono_sender ca cpa cpn rtp ss' \<and> ss_seq ss' = ss_seq ss + 1"
  using assms mono_sender_steps [of ca cpa cpn rtp ss l m ie idec buf out env]
  by (simp add: send_packet_def Let_def sent_hdr_def mono_sender_def rtp.enc_length)

lemma sent_hdr_fields:
  "rh_seq (sent_hdr env rtp seq) = ucast (seq mod 0x10000)" "rh_ssrc (sent_hdr env rtp seq) = rtp_ssrc rtp"
  "rtp_check_hdr (sent_hdr env rtp seq) = 0"
  by (simp_all add: sent_hdr_def Let_def rtp_set_hdr_def rtp_check_hdr_def v_pt.get_other v.get_set)

text \<open>The sessions reached from \<open>ss\<close> by blocks that are handled without an error, with the packets sent.\<close>

inductive send_reach :: "(int list \<Rightarrow> bytes) \<Rightarrow> (bytes \<Rightarrow> int list) \<Rightarrow> send_session \<Rightarrow> effect list \<Rightarrow> send_session \<Rightarrow> bool"
  for ie idec ss where
  send_start: "send_reach ie idec ss [] ss"
| send_block: "send_reach ie idec ss es ss1
    \<Longrightarrow> record_and_send ie idec env buf l ss1 = Inr (ss2, es', r) \<Longrightarrow> 0 \<le> r
    \<Longrightarrow> send_reach ie idec ss (es @ es') ss2"

section \<open>Properties\<close>

text \<open>C13. The sequence number of a sender counts its packets exactly: after any blocks of samples, silent,
  reduced or coded, it has grown by the number of packets sent. The packet count of the sender's
  statistics, from which the sender reports are made, never moves.\<close>

theorem sequence_counts_packets:
  assumes "send_reach ie idec ss es ss'"
  shows "ss_seq ss' = ss_seq ss + of_nat (sends es) \<and> same_sender ss ss' \<and> sst_spkt (ss_stats ss') = sst_spkt (ss_stats ss)"
  using assms
proof (induction rule: send_reach.induct)
  case send_start
  then show ?case by (simp add: same_sender_def)
next
  case (send_block es ss1 env buf l ss2 es' r)
  moreover have "sends (es @ es') = sends es + sends es'" by (simp add: sends_def)
  ultimately show ?case using record_and_send_parts [OF send_block.hyps(2)] by (auto simp: same_sender_def)
qed

definition demo_cpa :: coding_params where
  "demo_cpa = \<lparr>cp_type = CODING_LINEAR16, cp_samp_sec = 8000, cp_precision = 16, cp_size_ms = 20, cp_size_bytes = 320, cp_channels = 1\<rparr>"

definition demo_send_session :: "coding_type \<Rightarrow> coding_fn \<Rightarrow> send_session" where
  "demo_send_session ty enc = send_session_zero\<lparr>ss_rtp := Some (rtp_session_new\<lparr>rtp_payload := 8\<rparr>),
     ss_coding_api := Some \<lparr>ca_encode = enc, ca_decode = coding_alaw2_l16, ca_ilbc = False\<rparr>,
     ss_cp_audio := Some demo_cpa, ss_cp_nw := Some (demo_cpa\<lparr>cp_type := ty\<rparr>)\<rparr>"

lemma demo_sender:
  "mono_sender \<lparr>ca_encode = enc, ca_decode = coding_alaw2_l16, ca_ilbc = False\<rparr> demo_cpa (demo_cpa\<lparr>cp_type := ty\<rparr>)
    (rtp_session_new\<lparr>rtp_payload := 8\<rparr>) (demo_send_session ty enc)"
  by (simp add: mono_sender_def demo_send_session_def demo_cpa_def send_session_zero_def)

definition demo_send_env :: send_env where
  "demo_send_env = \<lparr>senv_now = tv 1 0, senv_stale = replicate 1472 0, senv_sendto = True\<rparr>"

theorem sequence_counts_packets_witness:
  "\<exists>es ss'. send_reach (\<lambda>_. []) (\<lambda>_. []) (demo_send_session CODING_ALAW coding_l16_2alaw) es ss' \<and> sends es = 1 \<and> ss_seq ss' = 1"
proof -
  let ?ss = "demo_send_session CODING_ALAW coding_l16_2alaw"
  let ?ca = "\<lparr>ca_encode = coding_l16_2alaw, ca_decode = coding_alaw2_l16, ca_ilbc = False\<rparr>"
  have t: "ca_transformlen ?ca demo_cpa (demo_cpa\<lparr>cp_type := CODING_ALAW\<rparr>) 4 = Inr 2"
    by (simp add: ca_transformlen_def coding_transformlen_generic_def demo_cpa_def)
  have c: "run_coding (\<lambda>_. []) (\<lambda>_. []) (ca_encode ?ca) (le16 [1, 2]) 4 2 = Inr (map (linear2alaw \<circ> sint) [1 :: u16, 2])"
    using run_encoders(1) [of "\<lambda>_. []" "\<lambda>_. []" "[1, 2]" "[]" 4] by (simp add: numeral_2_eq_2 del: run_coding.simps)
  obtain ss' d where r: "record_and_send (\<lambda>_. []) (\<lambda>_. []) demo_send_env (le16 [1, 2]) 4 ?ss = Inr (ss', [Send_To 0 d zero_addr], 0)"
    using record_and_send_mono [OF demo_sender t _ c, of demo_send_env] by (auto simp: demo_send_env_def rtp_session_new_def)
  have reach: "send_reach (\<lambda>_. []) (\<lambda>_. []) ?ss ([] @ [Send_To 0 d zero_addr]) ss'"
    by (rule send_reach.send_block [OF send_reach.send_start r]) simp
  show ?thesis using sequence_counts_packets [OF reach] reach
    by (auto simp: demo_send_session_def send_session_zero_def intro!: exI [of _ "[Send_To 0 d zero_addr]"] exI [of _ ss'])
qed

text \<open>The check of the packet size forgets the header: a block that is coded to more than 1460 and at
  most 1472 octets passes it, and the coder writes past the end of the static buffer.\<close>

lemma large_block_overflows:
  assumes "mono_sender ca cpa cpn rtp ss" "ca_transformlen ca cpa cpn l = Inr m"
    and "run_coding ie idec (ca_encode ca) buf l m = Inr out" "length out = m"
  shows "record_and_send ie idec env buf l ss =
    (if 1472 < m then Inr (ss, [Sphone_Error], - 1)
     else if 1460 < m then Inl Out_Of_Bounds
     else send_packet env rtp out m ss)"
  using assms mono_sender_steps [of ca cpa cpn rtp ss l m ie idec buf out env]
  by (auto simp: mono_sender_def record_and_send_def reduce_block_def)

lemma large_block_overflows_witness:
  "record_and_send (\<lambda>_. []) (\<lambda>_. []) demo_send_env (replicate 1470 0) 1470 (demo_send_session CODING_LINEAR16 coding_null)
    = Inl Out_Of_Bounds"
  using large_block_overflows [OF demo_sender [of coding_null CODING_LINEAR16], of 1470 1470 "\<lambda>_. []" "\<lambda>_. []" "replicate 1470 0" "replicate 1470 0" demo_send_env]
    map_res_ok [of "[0..<1470]" "rd8 (replicate 1470 0)" "\<lambda>_. 0"]
  by (simp add: ca_transformlen_def coding_transformlen_generic_def demo_cpa_def rd8_def map_replicate_const)

end
