(* ===== verification/Audio_File.thy ===== *)
theory Audio_File
  imports Receive Send
begin

text \<open>
  Audio devices on files: \<open>audio/sphone_audio_file_play.c\<close> and
  \<open>audio/sphone_audio_file_record.c\<close>, with the selection of a device in
  \<open>sphone_audio_play.c\<close> and \<open>sphone_audio_record.c\<close>.

  A file that is read is its contents with a position; whether reading and seeking work are
  fields of it. The time that has passed is computed in floating point: \<open>rnd\<close> is the rounding of an
  operation to a \<open>double\<close>, a parameter, of which the properties use that it errs by at most one part in
  \<open>2 ^ 52\<close> (half of which is what IEEE 754 allows a \<open>double\<close> within its range).
\<close>

datatype audio_type = AUDIO_FILE | AUDIO_DIRECTSOUND | AUDIO_DEVAUDIO

abbreviation "SPHONE_AUDIO_IOCTL_LOOP \<equiv> 1 :: int"
abbreviation "SPHONE_AUDIO_IOCTL_PLAYOUT_GET \<equiv> 2 :: int"

section \<open>Playing to a file\<close>

record audio_file_play =
  ap_fd :: int
  ap_out :: bytes

text \<open>\<open>opened\<close> is the result of \<open>open\<close>. A descriptor that is already there is closed first.\<close>

definition audio_file_play_open :: "int \<Rightarrow> audio_file_play \<Rightarrow> audio_file_play called" where
  "audio_file_play_open opened ap =
    (let es = (if ap_fd ap \<noteq> 0 then [Close (ap_fd ap)] else []); ap = ap\<lparr>ap_fd := opened, ap_out := []\<rparr>
     in if opened < 0 then Inr (ap, es @ [Sphone_Error], - 1) else Inr (ap, es, 0))"

definition audio_file_play_ioctl :: "int \<Rightarrow> playout_type option \<times> effect list \<times> int" where
  "audio_file_play_ioctl op =
    (if op = SPHONE_AUDIO_IOCTL_PLAYOUT_GET then (Some PLAYOUT_FIFO, [], 0) else (None, [Sphone_Error], - 1))"

text \<open>\<open>wr\<close> is the number of octets that \<open>write\<close> takes, \<open>None\<close> for a failure.\<close>

definition audio_file_play_play :: "nat option \<Rightarrow> bytes \<Rightarrow> audio_file_play \<times> rcv_stats \<Rightarrow> (audio_file_play \<times> rcv_stats) called" where
  "audio_file_play_play wr pkt s =
    (case wr of
       None \<Rightarrow> Inr (s, [Sphone_Error], - 1)
     | Some n \<Rightarrow>
        (let (ap, rst) = s in
         Inr ((ap\<lparr>ap_out := ap_out ap @ take n pkt\<rparr>,
               rst\<lparr>rst_pbytes := rst_pbytes rst + of_nat (length pkt), rst_ppkt := rst_ppkt rst + 1\<rparr>), [], 0)))"

definition audio_file_play_init :: "bool \<Rightarrow> audio_file_play option \<times> effect list \<times> int" where
  "audio_file_play_init alloc =
    (if \<not> alloc then (None, [Sphone_Error], - 1) else (Some \<lparr>ap_fd = 0, ap_out = []\<rparr>, [], 0))"

text \<open>On a system without other devices. \<open>None\<close> is the null pointer.\<close>

definition audio_play_init :: "bool \<Rightarrow> bool \<Rightarrow> audio_type \<Rightarrow> audio_file_play option \<times> effect list" where
  "audio_play_init alloc alloc_private type =
    (if \<not> alloc then (None, [Sphone_Error])
     else if type = AUDIO_FILE then
       (case audio_file_play_init alloc_private of (p, es, r) \<Rightarrow> (if r < 0 then None else p, es))
     else (None, [Sphone_Error]))"

text \<open>The contract of a queueing device: while it works, what is played is added to what it has played.\<close>

locale fifo_device =
  fixes play :: "bytes \<Rightarrow> 'd \<Rightarrow> 'd called" and contents :: "'d \<Rightarrow> bytes"
  assumes play_appends: "\<exists>d'. play b d = Inr (d', [], 0) \<and> contents d' = contents d @ b"
begin

fun play_all :: "bytes list \<Rightarrow> 'd \<Rightarrow> 'd called" where
  "play_all [] d = Inr (d, [], 0)"
| "play_all (b # bs) d = call_or (play b d) (play_all bs) id"

lemma play_all_contents: "\<exists>d'. play_all bs d = Inr (d', [], 0) \<and> contents d' = contents d @ concat bs"
proof (induction bs arbitrary: d)
  case (Cons b bs)
  obtain d1 where "play b d = Inr (d1, [], 0)" "contents d1 = contents d @ b" using play_appends by blast
  moreover obtain d2 where "play_all bs d1 = Inr (d2, [], 0)" "contents d2 = contents d1 @ concat bs" using Cons.IH by blast
  ultimately show ?case by simp
qed simp

end

interpretation file_out: fifo_device "\<lambda>b. audio_file_play_play (Some (length b)) b" "\<lambda>(ap, rst). ap_out ap"
  by unfold_locales (auto simp: audio_file_play_play_def)

section \<open>Recording from a file\<close>

record in_file =
  f_data :: bytes
  f_pos :: nat
  f_reads :: bool
  f_seeks :: bool

record audio_file_record =
  ar_file :: in_file
  ar_fd :: int
  ar_loop :: bool
  ar_buf :: bytes
  ar_T :: timeval

text \<open>The result of \<open>add_buffer\<close>: the file, the octets put into the buffer from its start, the end-of-file
  flag, and the value returned.\<close>

function add_buffer :: "in_file \<Rightarrow> nat \<Rightarrow> bool \<Rightarrow> bool \<Rightarrow> bytes \<Rightarrow> in_file \<times> bytes \<times> bool \<times> int" where
  "add_buffer f len loop looped acc =
    (if \<not> f_reads f then (f, acc, False, - 1)
     else let d = take len (drop (f_pos f) (f_data f)); f1 = f\<lparr>f_pos := f_pos f + length d\<rparr> in
     if d = [] then
       (if looped then (f1, acc, False, - 1)
        else if loop then
          (if \<not> f_seeks f then (f1, acc, False, - 1) else add_buffer (f1\<lparr>f_pos := 0\<rparr>) len loop True acc)
        else (f1, acc, True, 0))
     else if length d < len then add_buffer f1 (len - length d) loop looped (acc @ d)
     else (f1, acc @ d, False, 0))"
  by pat_completeness auto

termination
  by (relation "measures [\<lambda>(f, len, loop, looped, acc). len, \<lambda>(f, len, loop, looped, acc). if looped then 0 else 1]")
    (auto simp: Let_def)

declare add_buffer.simps [simp del]

definition audio_file_record_ioctl :: "int \<Rightarrow> int \<Rightarrow> audio_file_record \<Rightarrow> audio_file_record called" where
  "audio_file_record_ioctl op oparg ar =
    (if op = SPHONE_AUDIO_IOCTL_LOOP then Inr (ar\<lparr>ar_loop := oparg \<noteq> 0\<rparr>, [], 0) else Inr (ar, [Sphone_Error], - 1))"

definition audio_file_record_open :: "int \<Rightarrow> in_file \<Rightarrow> audio_file_record \<Rightarrow> audio_file_record called" where
  "audio_file_record_open opened f ar =
    (let es = (if ar_fd ar \<noteq> 0 then [Close (ar_fd ar)] else []); ar = ar\<lparr>ar_fd := opened\<rparr>
     in if opened < 0 then Inr (ar, es @ [Sphone_Error], - 1) else Inr (ar\<lparr>ar_file := f\<rparr>, es, 0))"

definition rounds :: "(real \<Rightarrow> real) \<Rightarrow> bool" where
  "rounds rnd \<longleftrightarrow> (\<forall>x. \<bar>rnd x - x\<bar> \<le> \<bar>x\<bar> / 2 ^ 52)"

definition timeval2sec :: "(real \<Rightarrow> real) \<Rightarrow> timeval \<Rightarrow> real" where
  "timeval2sec rnd t = rnd (rnd (of_int (tv_sec t)) + rnd (rnd (of_int (tv_usec t)) / 1000000))"

text \<open>The loop over the packets that are due: \<open>ms\<close> is the time left in milliseconds, a \<open>double\<close>, \<open>cb\<close> the callback (such
  as \<open>record_and_send\<close>) on the rest of the program's state \<open>'w\<close>. \<open>None\<close> means that \<open>fuel\<close>
  iterations were not enough.\<close>

type_synonym 'w recorder = "bytes \<Rightarrow> nat \<Rightarrow> 'w \<Rightarrow> 'w called"

fun record_loop :: "(real \<Rightarrow> real) \<Rightarrow> nat \<Rightarrow> 'w recorder \<Rightarrow> coding_params \<Rightarrow> real \<Rightarrow> audio_file_record \<Rightarrow> send_stats \<Rightarrow> 'w
    \<Rightarrow> (audio_file_record \<times> send_stats \<times> 'w) called option" where
  "record_loop rnd fuel cb cp ms ar sst w =
    (if ms \<le> 0 then Some (Inr ((ar, sst, w), [], 0))
     else case fuel of 0 \<Rightarrow> None
     | Suc fuel \<Rightarrow>
        (let len = unat (cp_size_bytes cp);
             sst = sst\<lparr>sst_rpkt := sst_rpkt sst + 1, sst_rbytes := sst_rbytes sst + cp_size_bytes cp\<rparr> in
         if length (ar_buf ar) < len then Some (Inl Out_Of_Bounds)
         else case add_buffer (ar_file ar) len (ar_loop ar) False [] of (f, d, eof, r) \<Rightarrow>
           (let ar = ar\<lparr>ar_file := f, ar_buf := d @ replicate (len - length d) 0 @ drop len (ar_buf ar)\<rparr> in
            if r < 0 then Some (Inr ((ar, sst, w), [Sphone_Error], - 1))
            else if eof then Some (Inr ((ar, sst, w), [Sphone_Warning], - 1))
            else case cb (ar_buf ar) len w of
                Inl e \<Rightarrow> Some (Inl e)
              | Inr (w, es, r) \<Rightarrow>
                 if r < 0 then Some (Inr ((ar, sst, w), es, - 1))
                 else (let ar = ar\<lparr>ar_T := timevalfix (tv (tv_sec (ar_T ar)) (tv_usec (ar_T ar) + uint (cp_size_ms cp * 1000)))\<rparr>
                       in map_option (\<lambda>m. bnd m (\<lambda>(s, es', r). Inr (s, es @ es', r)))
                            (record_loop rnd fuel cb cp (rnd (ms - of_int (uint (cp_size_ms cp)))) ar sst w)))))"

declare record_loop.simps [simp del]

definition audio_file_record_poll :: "(real \<Rightarrow> real) \<Rightarrow> nat \<Rightarrow> 'w recorder \<Rightarrow> coding_params \<Rightarrow> timeval \<Rightarrow> audio_file_record \<Rightarrow> send_stats \<Rightarrow> 'w
    \<Rightarrow> (audio_file_record \<times> send_stats \<times> 'w) called option" where
  "audio_file_record_poll rnd fuel cb cp T ar sst w =
    (if T < ar_T ar then Some (Inr ((ar, sst, w), [], 0))
     else record_loop rnd fuel cb cp (rnd (timeval2sec rnd (timersub T (ar_T ar)) * 1000)) ar sst w)"

definition audio_file_record_poll_wrapper :: "(real \<Rightarrow> real) \<Rightarrow> nat \<Rightarrow> 'w recorder \<Rightarrow> coding_params \<Rightarrow> timeval \<Rightarrow> bool
    \<Rightarrow> audio_file_record \<Rightarrow> send_stats \<Rightarrow> 'w \<Rightarrow> (audio_file_record \<times> send_stats \<times> 'w) called option" where
  "audio_file_record_poll_wrapper rnd fuel cb cp T reg ar sst w =
    map_option (\<lambda>m. call_or m (\<lambda>(ar, sst, w).
        if reg then Inr ((ar, sst, w), [Reg_Timeout (ar_T ar) ''audio_file_record''], 0) else Inr ((ar, sst, w), [], - 1)) id)
      (audio_file_record_poll rnd fuel cb cp T ar sst w)"

definition audio_file_record_start :: "bool \<Rightarrow> bool \<Rightarrow> coding_params \<Rightarrow> timeval \<Rightarrow> audio_file_record \<Rightarrow> audio_file_record called" where
  "audio_file_record_start alloc reg cp now ar =
    (if ar_fd ar = 0 then Inl Assert_Failed
     else if \<not> alloc then Inr (ar\<lparr>ar_buf := []\<rparr>, [Sphone_Error], - 1)
     else let ar = ar\<lparr>ar_buf := replicate (unat (cp_size_bytes cp)) 0,
                      ar_T := timevalfix (tv (tv_sec now) (tv_usec now + uint (cp_size_ms cp * 1000)))\<rparr>
          in if reg then Inr (ar, [Reg_Timeout (ar_T ar) ''audio_file record''], 0) else Inr (ar, [], - 1))"

definition audio_file_record_init :: "bool \<Rightarrow> audio_file_record option \<times> effect list \<times> int" where
  "audio_file_record_init alloc =
    (if \<not> alloc then (None, [Sphone_Error], - 1)
     else (Some \<lparr>ar_file = \<lparr>f_data = [], f_pos = 0, f_reads = False, f_seeks = False\<rparr>, ar_fd = 0,
       ar_loop = False, ar_buf = [], ar_T = tv 0 0\<rparr>, [], 0))"

definition audio_record_init :: "bool \<Rightarrow> bool \<Rightarrow> audio_type \<Rightarrow> audio_file_record option \<times> effect list" where
  "audio_record_init alloc alloc_private type =
    (if \<not> alloc then (None, [Sphone_Error])
     else if type = AUDIO_FILE then
       (case audio_file_record_init alloc_private of (p, es, r) \<Rightarrow> (if r < 0 then None else p, es))
     else (None, [Sphone_Error]))"

section \<open>Lemmas\<close>

text \<open>A file that plays in a loop: it can be read and rewound, and is not empty.\<close>

definition endless :: "in_file \<Rightarrow> bool" where
  "endless f \<longleftrightarrow> f_reads f \<and> f_seeks f \<and> f_data f \<noteq> [] \<and> f_pos f \<le> length (f_data f)"

lemma add_buffer_rest:
  assumes "f_reads f" "0 < len" "len \<le> length (f_data f) - f_pos f"
  shows "add_buffer f len loop looped acc = (f\<lparr>f_pos := f_pos f + len\<rparr>, acc @ take len (drop (f_pos f) (f_data f)), False, 0)"
  using assms by (subst add_buffer.simps) (auto simp: Let_def min_def)

lemma add_buffer_short:
  assumes "f_reads f" "f_pos f < length (f_data f)" "length (f_data f) - f_pos f < len"
  shows "add_buffer f len loop looped acc = add_buffer (f\<lparr>f_pos := length (f_data f)\<rparr>)
      (len - (length (f_data f) - f_pos f)) loop looped (acc @ drop (f_pos f) (f_data f))"
  using assms by (subst add_buffer.simps) (auto simp: Let_def min_def)

lemma add_buffer_eof:
  assumes "f_reads f" "f_pos f = length (f_data f)" "f_seeks f"
  shows "add_buffer f len True looped acc =
    (if looped then (f, acc, False, - 1) else add_buffer (f\<lparr>f_pos := 0\<rparr>) len True True acc)"
  using assms by (subst add_buffer.simps) (auto simp: Let_def)

lemma add_buffer_again:
  assumes "endless f" "f_pos f = 0" "0 < len"
  shows "if len \<le> length (f_data f)
    then add_buffer f len True True acc = (f\<lparr>f_pos := len\<rparr>, acc @ take len (f_data f), False, 0)
    else snd (snd (add_buffer f len True True acc)) = (False, - 1)"
proof (cases "len \<le> length (f_data f)")
  case True
  then show ?thesis using add_buffer_rest [of f len True True acc] assms by (simp add: endless_def)
next
  case False
  then have "add_buffer f len True True acc
      = add_buffer (f\<lparr>f_pos := length (f_data f)\<rparr>) (len - length (f_data f)) True True (acc @ f_data f)"
    using add_buffer_short [of f len True True acc] assms by (simp add: endless_def)
  then show ?thesis using False add_buffer_eof [of "f\<lparr>f_pos := length (f_data f)\<rparr>"] assms(1) by (simp add: endless_def)
qed

lemma add_buffer_at_end:
  assumes "endless f" "f_pos f = length (f_data f)" "0 < len"
  shows "if len \<le> length (f_data f)
    then add_buffer f len True False acc = (f\<lparr>f_pos := len\<rparr>, acc @ take len (f_data f), False, 0)
    else snd (snd (add_buffer f len True False acc)) = (False, - 1)"
  using add_buffer_eof [of f len False acc] add_buffer_again [of "f\<lparr>f_pos := 0\<rparr>" len acc] assms
  by (simp add: endless_def)

lemma add_buffer_loop:
  assumes "endless f" "0 < len"
  shows "let rest = drop (f_pos f) (f_data f) in
    if len \<le> length rest then add_buffer f len True False [] = (f\<lparr>f_pos := f_pos f + len\<rparr>, take len rest, False, 0)
    else if len \<le> length rest + length (f_data f)
    then add_buffer f len True False [] = (f\<lparr>f_pos := len - length rest\<rparr>, rest @ take (len - length rest) (f_data f), False, 0)
    else snd (snd (add_buffer f len True False [])) = (False, - 1)"
proof (cases "len \<le> length (drop (f_pos f) (f_data f))")
  case True
  then show ?thesis using add_buffer_rest [of f len True False "[]"] assms by (simp add: endless_def Let_def)
next
  case False
  let ?r = "length (f_data f) - f_pos f"
  have e: "endless (f\<lparr>f_pos := length (f_data f)\<rparr>)" using assms(1) by (simp add: endless_def)
  show ?thesis
  proof (cases "f_pos f < length (f_data f)")
    case True
    then have "add_buffer f len True False [] = add_buffer (f\<lparr>f_pos := length (f_data f)\<rparr>) (len - ?r) True False (drop (f_pos f) (f_data f))"
      using add_buffer_short [of f len True False "[]"] False assms(1) by (simp add: endless_def)
    moreover have "len - ?r \<le> length (f_data f) \<longleftrightarrow> len \<le> ?r + length (f_data f)" by auto
    ultimately show ?thesis
      using add_buffer_at_end [OF e, of "len - ?r" "drop (f_pos f) (f_data f)"] False by (auto simp: Let_def split: if_splits)
  next
    case exact: False
    then have "f_pos f = length (f_data f)" using assms(1) by (simp add: endless_def)
    then show ?thesis using add_buffer_at_end [OF assms(1) _ assms(2), of "[]"] False by (simp add: Let_def)
  qed
qed

text \<open>A file no shorter than a packet always fills it.\<close>

lemma add_buffer_fills:
  assumes "endless f" "0 < len" "len \<le> length (f_data f)"
  shows "\<exists>f' d. add_buffer f len True False [] = (f', d, False, 0) \<and> length d = len \<and> endless f' \<and> f_data f' = f_data f"
proof (cases "len \<le> length (f_data f) - f_pos f")
  case True
  then show ?thesis using add_buffer_loop [OF assms(1,2)] assms by (auto simp: Let_def endless_def)
next
  case False
  then show ?thesis using add_buffer_loop [OF assms(1,2)] assms by (auto simp: Let_def endless_def)
qed

definition never_fails :: "'w recorder \<Rightarrow> bool" where
  "never_fails cb \<longleftrightarrow> (\<forall>b l w. \<exists>w' es. cb b l w = Inr (w', es, 0))"

text \<open>One round of the loop: a packet is handled, its time added to the clock of the recording.\<close>

lemma record_loop_step:
  assumes "never_fails cb" "0 < unat (cp_size_bytes cp)" "0 < ms"
    and "endless (ar_file ar)" "ar_loop ar" "unat (cp_size_bytes cp) \<le> length (f_data (ar_file ar))" "unat (cp_size_bytes cp) \<le> length (ar_buf ar)"
  shows "\<exists>ar2 sst2 w2 es. record_loop rnd (Suc n) cb cp ms ar sst w
      = map_option (\<lambda>m. bnd m (\<lambda>(s, es', r). Inr (s, es @ es', r))) (record_loop rnd n cb cp (rnd (ms - of_int (uint (cp_size_ms cp)))) ar2 sst2 w2) \<and>
    endless (ar_file ar2) \<and> ar_loop ar2 \<and> unat (cp_size_bytes cp) \<le> length (f_data (ar_file ar2)) \<and> unat (cp_size_bytes cp) \<le> length (ar_buf ar2) \<and>
    tv_us (ar_T ar2) = tv_us (ar_T ar) + uint (cp_size_ms cp * 1000) \<and> sst_rpkt sst2 = sst_rpkt sst + 1"
proof -
  let ?len = "unat (cp_size_bytes cp)"
  obtain f d where f: "add_buffer (ar_file ar) ?len True False [] = (f, d, False, 0)" "length d = ?len" "endless f" "f_data f = f_data (ar_file ar)"
    using add_buffer_fills [OF assms(4,2,6)] by blast
  let ?ar = "ar\<lparr>ar_file := f, ar_buf := d @ drop ?len (ar_buf ar)\<rparr>"
  obtain w2 es where w: "cb (ar_buf ?ar) ?len w = Inr (w2, es, 0)" using assms(1) unfolding never_fails_def by blast
  let ?ar2 = "?ar\<lparr>ar_T := timevalfix (tv (tv_sec (ar_T ar)) (tv_usec (ar_T ar) + uint (cp_size_ms cp * 1000)))\<rparr>"
  let ?sst2 = "sst\<lparr>sst_rpkt := sst_rpkt sst + 1, sst_rbytes := sst_rbytes sst + cp_size_bytes cp\<rparr>"
  have "record_loop rnd (Suc n) cb cp ms ar sst w
      = map_option (\<lambda>m. bnd m (\<lambda>(s, es', r). Inr (s, es @ es', r))) (record_loop rnd n cb cp (rnd (ms - of_int (uint (cp_size_ms cp)))) ?ar2 ?sst2 w2)"
    using assms(3,5,7) f w by (subst record_loop.simps) (simp add: Let_def)
  moreover have "tv_us (ar_T ?ar2) = tv_us (ar_T ar) + uint (cp_size_ms cp * 1000)" by (simp add: tv_us_fix) (simp add: tv_us_def)
  ultimately show ?thesis
    using f assms(5,6,7) by (intro exI [of _ ?ar2] exI [of _ ?sst2] exI [of _ w2] exI [of _ es]) simp
qed

text \<open>A negative number stays negative when it is rounded, and zero stays zero.\<close>

lemma rounds_sign:
  assumes "rounds rnd"
  shows "x < 0 \<Longrightarrow> rnd x < 0" "rnd 0 = 0"
proof -
  have r: "\<bar>rnd y - y\<bar> \<le> \<bar>y\<bar> / 2 ^ 52" for y using assms by (simp add: rounds_def)
  show "rnd x < 0" if "x < 0"
  proof -
    have "\<bar>x\<bar> / 2 ^ 52 < - x" using that by (simp add: field_simps)
    then show ?thesis using r [of x] by linarith
  qed
  show "rnd 0 = 0" using r [of 0] by simp
qed

text \<open>The loop, with \<open>us\<close> the exact time left in microseconds and \<open>E\<close> the error of \<open>ms\<close> so far. As long as the
  errors stay below half a microsecond, only a time left of exactly zero can be mistaken.\<close>

lemma record_loop_runs:
  assumes "rounds rnd" "never_fails cb" "0 < unat (cp_size_bytes cp)" and q: "q = uint (cp_size_ms cp)" "0 < q" "q * 1000 < 2 ^ 32"
    and "endless (ar_file ar)" "ar_loop ar" "unat (cp_size_bytes cp) \<le> length (f_data (ar_file ar))" "unat (cp_size_bytes cp) \<le> length (ar_buf ar)"
    and "int n * (q * 1000) - q * 1000 < us" "us \<le> int n * (q * 1000)" "us \<le> R"
    and "\<bar>ms - of_int us / 1000\<bar> \<le> E" "E + of_nat n * ((of_int R / 1000 + of_int q + 1) / 2 ^ 52) \<le> 1 / 2000"
  shows "\<exists>m ar' sst' w' es. record_loop rnd (n + 1 + k) cb cp ms ar sst w = Some (Inr ((ar', sst', w'), es, 0)) \<and>
    (m = n \<or> m = n + 1 \<and> us = int n * (q * 1000)) \<and>
    tv_us (ar_T ar') = tv_us (ar_T ar) + int m * (q * 1000) \<and> sst_rpkt sst' = sst_rpkt sst + of_nat m"
  using assms(7-)
proof (induction n arbitrary: us ms E ar sst w)
  case 0
  have d: "uint (cp_size_ms cp * 1000) = q * 1000" using q by (simp add: uint_word_arith_bintrs take_bit_eq_mod)
  have E: "\<bar>ms - of_int us / 1000\<bar> \<le> E" "E \<le> 1 / 2000" using 0 by simp_all
  show ?case
  proof (cases "ms \<le> 0")
    case True
    then show ?thesis by (intro exI [of _ 0]) (simp add: record_loop.simps)
  next
    case False
    have us: "us = 0"
    proof (rule ccontr)
      assume "us \<noteq> 0"
      then have "(of_int us :: real) \<le> - 1" using 0(6) by simp
      then show False using E False by linarith
    qed
    obtain ar2 sst2 w2 es where s: "record_loop rnd (Suc k) cb cp ms ar sst w
      = map_option (\<lambda>m. bnd m (\<lambda>(s, es', r). Inr (s, es @ es', r))) (record_loop rnd k cb cp (rnd (ms - of_int q)) ar2 sst2 w2)"
      "tv_us (ar_T ar2) = tv_us (ar_T ar) + q * 1000" "sst_rpkt sst2 = sst_rpkt sst + 1"
      using record_loop_step [OF assms(2,3) _ 0(1-4), of ms rnd k sst w] False unfolding d q(1) by auto
    have "(1 :: real) \<le> of_int q" using q(2) by linarith
    then have "ms - of_int q < 0" using E us by simp
    then have "rnd (ms - of_int q) \<le> 0" using rounds_sign [OF assms(1)] by (simp add: less_imp_le)
    then show ?thesis using s us by (intro exI [of _ 1]) (simp add: record_loop.simps)
  qed
next
  case (Suc n)
  let ?e = "(of_int R / 1000 + of_int q + 1) / (2 ^ 52 :: real)"
  have d: "uint (cp_size_ms cp * 1000) = q * 1000" using q by (simp add: uint_word_arith_bintrs take_bit_eq_mod)
  have n0: "0 \<le> int n * (q * 1000)" using q(2) by simp
  have "int (Suc n) * (q * 1000) - q * 1000 = int n * (q * 1000)" by (simp add: algebra_simps)
  then have us: "int n * (q * 1000) < us" using Suc.prems(5) by simp
  then have us1: "1 \<le> us" using n0 by linarith
  then have R: "1 \<le> R" using Suc.prems(7) by simp
  have q1: "(1 :: real) \<le> of_int q" using q(2) by linarith
  have e: "0 \<le> ?e" using R q(2) by simp
  then have "0 \<le> of_nat (Suc n) * ?e" by (simp only: mult_nonneg_nonneg of_nat_0_le_iff)
  then have E: "\<bar>ms - of_int us / 1000\<bar> \<le> E" "E \<le> 1 / 2000" using Suc.prems(8,9) by linarith+
  have ms: "0 < ms" using E us1 by linarith
  obtain ar2 sst2 w2 es where s: "record_loop rnd (Suc (n + 1 + k)) cb cp ms ar sst w
      = map_option (\<lambda>m. bnd m (\<lambda>(s, es', r). Inr (s, es @ es', r))) (record_loop rnd (n + 1 + k) cb cp (rnd (ms - of_int q)) ar2 sst2 w2)"
      "endless (ar_file ar2)" "ar_loop ar2" "unat (cp_size_bytes cp) \<le> length (f_data (ar_file ar2))" "unat (cp_size_bytes cp) \<le> length (ar_buf ar2)"
      "tv_us (ar_T ar2) = tv_us (ar_T ar) + q * 1000" "sst_rpkt sst2 = sst_rpkt sst + 1"
    using record_loop_step [OF assms(2,3) ms Suc.prems(1-4), of rnd "n + 1 + k" sst w] unfolding d q(1) by auto
  have "(of_int us :: real) \<le> of_int R" using Suc.prems(7) by simp
  then have "\<bar>ms - of_int q\<bar> \<le> of_int R / 1000 + of_int q + 1" using E ms q1 by linarith
  then have "\<bar>ms - of_int q\<bar> / 2 ^ 52 \<le> ?e" by (rule divide_right_mono) simp
  moreover have "\<bar>rnd (ms - of_int q) - (ms - of_int q)\<bar> \<le> \<bar>ms - of_int q\<bar> / 2 ^ 52" using assms(1) by (simp add: rounds_def)
  moreover have "(of_int (us - q * 1000) :: real) / 1000 = of_int us / 1000 - of_int q" by (simp add: diff_divide_distrib)
  ultimately have c: "\<bar>rnd (ms - of_int q) - of_int (us - q * 1000) / 1000\<bar> \<le> E + ?e" using E(1) by linarith
  have "of_nat (Suc n) * ?e = ?e + of_nat n * ?e" by (simp only: of_nat_Suc distrib_right mult_1)
  then have sum: "E + ?e + of_nat n * ?e \<le> 1 / 2000" using Suc.prems(9) by linarith
  have "\<exists>m ar' sst' w' es. record_loop rnd (n + 1 + k) cb cp (rnd (ms - of_int q)) ar2 sst2 w2 = Some (Inr ((ar', sst', w'), es, 0)) \<and>
    (m = n \<or> m = n + 1 \<and> us - q * 1000 = int n * (q * 1000)) \<and>
    tv_us (ar_T ar') = tv_us (ar_T ar2) + int m * (q * 1000) \<and> sst_rpkt sst' = sst_rpkt sst2 + of_nat m"
    by (rule Suc.IH [OF s(2-5) _ _ _ c sum]) (use us Suc.prems(6,7) q(2) in \<open>simp_all add: algebra_simps\<close>)
  then obtain m ar' sst' w' es' where m: "record_loop rnd (n + 1 + k) cb cp (rnd (ms - of_int q)) ar2 sst2 w2 = Some (Inr ((ar', sst', w'), es', 0))"
    "m = n \<or> m = n + 1 \<and> us - q * 1000 = int n * (q * 1000)"
    "tv_us (ar_T ar') = tv_us (ar_T ar2) + int m * (q * 1000)" "sst_rpkt sst' = sst_rpkt sst2 + of_nat m" by blast
  have "record_loop rnd (Suc n + 1 + k) cb cp ms ar sst w = Some (Inr ((ar', sst', w'), es @ es', 0))" using s(1) m(1) by simp
  moreover have "Suc m = Suc n \<or> Suc m = Suc n + 1 \<and> us = int (Suc n) * (q * 1000)" using m(2) by (auto simp: algebra_simps)
  moreover have "tv_us (ar_T ar') = tv_us (ar_T ar) + int (Suc m) * (q * 1000)" "sst_rpkt sst' = sst_rpkt sst + of_nat (Suc m)"
    using m(3,4) s(6,7) by (simp_all add: algebra_simps)
  ultimately show ?case by blast
qed

text \<open>The error of the milliseconds that the poll starts from.\<close>

lemma rounds_le:
  assumes "rounds rnd" "\<bar>x - y\<bar> \<le> a * d" "\<bar>x\<bar> \<le> b * d" "(a + b / 2 ^ 52) \<le> c" "0 \<le> d"
  shows "\<bar>rnd x - y\<bar> \<le> c * d"
proof -
  have "\<bar>rnd x - x\<bar> \<le> \<bar>x\<bar> / 2 ^ 52" using assms(1) by (simp add: rounds_def)
  also have "\<dots> \<le> (b / 2 ^ 52) * d" using assms(3) by (simp add: divide_right_mono)
  finally have "\<bar>rnd x - x\<bar> \<le> (b / 2 ^ 52) * d" .
  moreover have "\<bar>rnd x - y\<bar> \<le> \<bar>rnd x - x\<bar> + \<bar>x - y\<bar>" by linarith
  ultimately have "\<bar>rnd x - y\<bar> \<le> (a + b / 2 ^ 52) * d" using assms(2) unfolding distrib_right by linarith
  also have "\<dots> \<le> c * d" using assms(4,5) by (rule mult_right_mono)
  finally show ?thesis .
qed

lemma below_twice:
  fixes x d c :: real
  assumes "\<bar>x - d\<bar> \<le> c * d" "c \<le> 1" "0 \<le> d"
  shows "\<bar>x\<bar> \<le> 2 * d"
proof -
  have "c * d \<le> 1 * d" using assms(2,3) by (rule mult_right_mono)
  then show ?thesis using assms(1,3) by linarith
qed

lemma thousand_fold:
  fixes x d c :: real
  assumes "\<bar>x - d\<bar> \<le> c * d"
  shows "\<bar>x * 1000 - 1000 * d\<bar> \<le> c * (1000 * d)"
proof -
  have "x * 1000 - 1000 * d = 1000 * (x - d)" by simp
  then show ?thesis using assms by (simp add: abs_mult)
qed

lemma timeval2ms_error:
  assumes r: "rounds rnd" and t: "0 \<le> tv_sec t" "0 \<le> tv_usec t"
  shows "\<bar>rnd (timeval2sec rnd t * 1000) - of_int (tv_us t) / 1000\<bar> \<le> (7 / 2 ^ 52) * (of_int (tv_us t) / 1000)"
proof -
  let ?s = "of_int (tv_sec t) :: real" and ?u = "of_int (tv_usec t) / 1000000 :: real"
  let ?d = "?s + ?u"
  have d: "0 \<le> ?s" "0 \<le> ?u" "0 \<le> ?d" using t by simp_all
  have e: "of_int (tv_us t) / 1000 = 1000 * ?d" by (simp add: tv_us_def field_simps)
  have a: "\<bar>rnd ?s - ?s\<bar> \<le> (1 / 2 ^ 52) * ?s"
    by (rule rounds_le [OF r, where a = 0 and b = 1]) (use d in simp_all)
  have b1: "\<bar>rnd (of_int (tv_usec t)) - of_int (tv_usec t)\<bar> \<le> (1 / 2 ^ 52) * of_int (tv_usec t)"
    by (rule rounds_le [OF r, where a = 0 and b = 1]) (use t in simp_all)
  let ?v = "rnd (of_int (tv_usec t)) / 1000000"
  have v: "\<bar>?v - ?u\<bar> \<le> (1 / 2 ^ 52) * ?u" using b1 by (simp add: field_simps)
  then have "\<bar>?v\<bar> \<le> 2 * ?u" by (rule below_twice) (use d in simp_all)
  then have b: "\<bar>rnd ?v - ?u\<bar> \<le> (3 / 2 ^ 52) * ?u" by (rule rounds_le [OF r v]) (use d in simp_all)
  have s: "\<bar>rnd ?s + rnd ?v - ?d\<bar> \<le> (3 / 2 ^ 52) * ?d" 
  proof -
    have "(1 / 2 ^ 52) * ?s \<le> (3 / 2 ^ 52) * ?s" by (rule mult_right_mono) (use d in simp_all)
    then show ?thesis using a b unfolding distrib_left by linarith
  qed
  then have "\<bar>rnd ?s + rnd ?v\<bar> \<le> 2 * ?d" by (rule below_twice) (use d in simp_all)
  then have c: "\<bar>timeval2sec rnd t - ?d\<bar> \<le> (5 / 2 ^ 52) * ?d"
    unfolding timeval2sec_def by (rule rounds_le [OF r s]) (use d in simp_all)
  then have m: "\<bar>timeval2sec rnd t * 1000 - 1000 * ?d\<bar> \<le> (5 / 2 ^ 52) * (1000 * ?d)" by (rule thousand_fold)
  then have "\<bar>timeval2sec rnd t * 1000\<bar> \<le> 2 * (1000 * ?d)" by (rule below_twice) (use d in simp_all)
  with m have "\<bar>rnd (timeval2sec rnd t * 1000) - 1000 * ?d\<bar> \<le> (7 / 2 ^ 52) * (1000 * ?d)"
    by (rule rounds_le [OF r]) (use d in simp_all)
  then show ?thesis unfolding e .
qed

text \<open>Over a thousand seconds the errors of all packets together stay below half a microsecond.\<close>

lemma errors_stay_small:
  assumes "0 < q" "q * 1000 < 2 ^ 32" "0 \<le> us" "us \<le> 1000000000" "int n * (q * 1000) - q * 1000 < us"
  shows "(7 / 2 ^ 52) * (of_int us / 1000) + of_nat n * ((of_int us / 1000 + of_int q + 1) / 2 ^ 52) \<le> (1 / 2000 :: real)"
proof -
  let ?t = "of_int us / 1000 :: real" and ?q = "of_int q :: real" and ?n = "of_nat n :: real"
  have t: "0 \<le> ?t" "?t \<le> 1000000" using assms(3,4) by simp_all
  have "1 \<le> q" "q \<le> 4294967" using assms(1,2) by simp_all
  then have q: "1 \<le> ?q" "?q \<le> 4294967" by linarith+
  have "of_int (int n * (q * 1000) - q * 1000) < (of_int us :: real)" using assms(5) by (simp only: of_int_less_iff)
  then have nq: "?n * ?q \<le> ?t + ?q" by simp
  have "?n * 1 \<le> ?n * ?q" using q(1) by (intro mult_left_mono) simp_all
  moreover have "(?n - 1) * 1 \<le> (?n - 1) * ?q" if "1 \<le> ?n" using that q(1) by (intro mult_left_mono) simp_all
  ultimately have n: "?n \<le> 1000001" using nq t by (cases "1 \<le> ?n") (simp_all add: left_diff_distrib)
  have "?n * ?t \<le> 1000001 * 1000000" using n t by (intro mult_mono) simp_all
  then have "7 * ?t + ?n * (?t + ?q + 1) \<le> 2251799813685" using nq n t q unfolding distrib_left mult_1_right by linarith
  then have "(7 * ?t + ?n * (?t + ?q + 1)) / 2 ^ 52 \<le> 2251799813685 / 2 ^ 52" by (rule divide_right_mono) simp
  also have "\<dots> \<le> 1 / (2000 :: real)" by simp
  finally have *: "(7 * ?t + ?n * (?t + ?q + 1)) / 2 ^ 52 \<le> 1 / 2000" .
  have "(7 / 2 ^ 52) * x + m * (y / 2 ^ 52) = (7 * x + m * y) / 2 ^ 52" for x m y :: real by (simp add: add_divide_distrib)
  then show ?thesis using * by metis
qed

section \<open>Properties\<close>

text \<open>C20. A recording that plays a file in a loop fills a packet with the octets that follow in the endless
  repetition of the file, over the end of the file when needed, as long as one further pass is
  enough. A packet that is longer than what is left and a whole pass together is an error, which
  ends the program.\<close>

theorem loop_recording_is_cyclic:
  assumes "f_reads f" "f_seeks f" "f_data f \<noteq> []" "f_pos f \<le> length (f_data f)" "0 < len"
  shows "let rest = drop (f_pos f) (f_data f) in
    if len \<le> length rest + length (f_data f)
    then \<exists>f'. add_buffer f len True False [] = (f', take len (rest @ f_data f), False, 0) \<and>
      f_pos f' = (if len \<le> length rest then f_pos f + len else len - length rest)
    else snd (snd (add_buffer f len True False [])) = (False, - 1)"
  using add_buffer_loop [of f len] assms by (auto simp: endless_def Let_def split: if_splits)

theorem loop_recording_is_cyclic_witness:
  "\<exists>f'. add_buffer \<lparr>f_data = [1, 2, 3], f_pos = 2, f_reads = True, f_seeks = True\<rparr> 3 True False [] = (f', [3, 1, 2], False, 0)"
  using loop_recording_is_cyclic [of "\<lparr>f_data = [1, 2, 3], f_pos = 2, f_reads = True, f_seeks = True\<rparr>" 3] by auto

text \<open>C19. A poll of a recorded file catches up with the clock: with a file that always fills a packet and a
  callback that does not fail, it ends within a bounded number of rounds and handles every packet that is due at T. When the time
  that has passed, of at most a thousand seconds, is no whole number of packets, it handles no more, and the next packet's time is after T and less than a packet after.
  When it is a positive whole number of packets, the rounding of the milliseconds decides whether one more packet is handled
  before its time (as for 1.14 seconds of packets of 20 ms in \<open>double\<close>s).\<close>

theorem poll_catches_up:
  assumes "rounds rnd" "never_fails cb" "cp_size_bytes cp \<noteq> 0" "cp_size_ms cp \<noteq> 0" "uint (cp_size_ms cp) * 1000 < 2 ^ 32"
    and "f_reads (ar_file ar)" "f_seeks (ar_file ar)" "f_pos (ar_file ar) \<le> length (f_data (ar_file ar))" "ar_loop ar"
    and "unat (cp_size_bytes cp) \<le> length (f_data (ar_file ar))" "unat (cp_size_bytes cp) \<le> length (ar_buf ar)"
    and "tv_norm T" "tv_norm (ar_T ar)" "ar_T ar \<le> T"
    and "us = tv_us T - tv_us (ar_T ar)" "us \<le> 1000000000" "d = uint (cp_size_ms cp) * 1000" "int n = (us + d - 1) div d"
  shows "\<exists>m ar' sst' w' es. audio_file_record_poll rnd (n + 1 + k) cb cp T ar sst w = Some (Inr ((ar', sst', w'), es, 0)) \<and>
    (m = n \<or> m = n + 1 \<and> 0 < us \<and> us = int n * d) \<and>
    sst_rpkt sst' = sst_rpkt sst + of_nat m \<and> tv_us (ar_T ar') = tv_us (ar_T ar) + int m * d \<and>
    tv_us T \<le> tv_us (ar_T ar') \<and> tv_us (ar_T ar') \<le> tv_us T + d"
proof -
  let ?q = "uint (cp_size_ms cp)" and ?t = "timersub T (ar_T ar)"
  have q: "0 < ?q" using assms(4) by (metis less_le uint_0_iff unsigned_greater_eq)
  have len: "0 < unat (cp_size_bytes cp)" using assms(3) by (simp add: unat_gt_0)
  have us0: "0 \<le> us" using assms(12-15) by (simp add: tv_us_order)
  have "d * int n \<le> us + d - 1" "us + d - 1 < d * int n + d"
    using int_div_bounds [of d "us + d - 1"] q assms(17) unfolding assms(18) by (simp_all add: algebra_simps)
  then have n: "int n * (?q * 1000) - ?q * 1000 < us" "us \<le> int n * (?q * 1000)" using assms(17) by (simp_all add: algebra_simps)
  have f: "endless (ar_file ar)" using assms(6-8,10) len by (auto simp: endless_def)
  have t: "tv_us ?t = us" "0 \<le> tv_usec ?t" "0 \<le> tv_sec ?t"
    using assms(12-15) by (auto simp: timersub_def Let_def tv_us_def tv_norm_def timeval_le split: if_splits)
  have run: "\<not> T < ar_T ar" using assms(14) by simp
  show ?thesis
  proof (cases "us = 0")
    case True
    then have z: "tv_sec ?t = 0" "tv_usec ?t = 0" using t by (simp_all add: tv_us_def)
    have "rnd (timeval2sec rnd ?t * 1000) = 0" by (simp add: timeval2sec_def z rounds_sign(2) [OF assms(1)])
    then show ?thesis using run True n assms(15,17) q
      by (intro exI [of _ 0]) (auto simp: audio_file_record_poll_def record_loop.simps zero_le_mult_iff)
  next
    case False
    let ?ms = "rnd (timeval2sec rnd ?t * 1000)"
    have "\<bar>?ms - of_int us / 1000\<bar> \<le> (7 / 2 ^ 52) * (of_int us / 1000)"
      using timeval2ms_error [OF assms(1) t(3,2)] unfolding t(1) .
    from record_loop_runs [OF assms(1,2) len refl q assms(5) f assms(9,10,11) n order_refl this
        errors_stay_small [OF q assms(5) us0 assms(16) n(1)], of k sst w]
    obtain m ar' sst' w' es where r: "record_loop rnd (n + 1 + k) cb cp ?ms ar sst w = Some (Inr ((ar', sst', w'), es, 0))"
      "m = n \<or> m = n + 1 \<and> us = int n * (?q * 1000)"
      "tv_us (ar_T ar') = tv_us (ar_T ar) + int m * (?q * 1000)" "sst_rpkt sst' = sst_rpkt sst + of_nat m" by blast
    have "tv_us T \<le> tv_us (ar_T ar')" "tv_us (ar_T ar') \<le> tv_us T + d"
      using r(2,3) n assms(15,17) q by (auto simp: algebra_simps)
    then show ?thesis using r run False us0 assms(17)
      by (intro exI [of _ m] exI [of _ ar'] exI [of _ sst'] exI [of _ w'] exI [of _ es]) (auto simp: audio_file_record_poll_def)
  qed
qed

text \<open>A rounding to 53 bits, as that of a \<open>double\<close>.\<close>

definition round53 :: "real \<Rightarrow> real" where
  "round53 x = (if x = 0 then 0 else (let u = 2 powr (of_int \<lfloor>log 2 \<bar>x\<bar>\<rfloor> - 52) in of_int (round (x / u)) * u))"

lemma rounds_round53: "rounds round53"
  unfolding rounds_def
proof (intro allI)
  fix x :: real
  show "\<bar>round53 x - x\<bar> \<le> \<bar>x\<bar> / 2 ^ 52"
  proof (cases "x = 0")
    case False
    let ?u = "2 powr (of_int \<lfloor>log 2 \<bar>x\<bar>\<rfloor> - 52) :: real"
    have "2 powr of_int \<lfloor>log 2 \<bar>x\<bar>\<rfloor> \<le> 2 powr log 2 \<bar>x\<bar>" by (intro powr_mono) simp_all
    also have "\<dots> = \<bar>x\<bar>" using False by simp
    finally have u: "?u \<le> \<bar>x\<bar> / 2 ^ 52" by (simp add: powr_diff powr_numeral divide_right_mono)
    have "\<bar>of_int (round (x / ?u)) - x / ?u\<bar> \<le> 1 / 2" by (rule of_int_round_abs_le)
    then have "\<bar>of_int (round (x / ?u)) - x / ?u\<bar> * ?u \<le> 1 / 2 * ?u" by (rule mult_right_mono) simp
    moreover have "round53 x - x = (of_int (round (x / ?u)) - x / ?u) * ?u"
      using False by (simp add: round53_def Let_def left_diff_distrib)
    ultimately have "\<bar>round53 x - x\<bar> \<le> 1 / 2 * ?u" by (simp add: abs_mult)
    also have "\<dots> \<le> ?u" by simp
    finally show ?thesis using u by linarith
  qed (simp add: round53_def)
qed

theorem poll_catches_up_witness:
  "\<exists>ar' sst' w' es. audio_file_record_poll round53 4 (\<lambda>b l w. Inr (w @ b, [], 0)) (demo_cpa\<lparr>cp_size_bytes := 2\<rparr>) (tv 5 50000)
      \<lparr>ar_file = \<lparr>f_data = [1, 2, 3], f_pos = 0, f_reads = True, f_seeks = True\<rparr>, ar_fd = 3, ar_loop = True, ar_buf = [0, 0], ar_T = tv 5 0\<rparr>
      (ss_stats send_session_zero) [] = Some (Inr ((ar', sst', w' :: bytes), es, 0)) \<and> sst_rpkt sst' = 3 \<and> tv_us (ar_T ar') = 5060000"
proof -
  let ?ar = "\<lparr>ar_file = \<lparr>f_data = [1, 2, 3], f_pos = 0, f_reads = True, f_seeks = True\<rparr>, ar_fd = 3, ar_loop = True, ar_buf = [0, 0], ar_T = tv 5 0\<rparr>"
  have "\<exists>m ar' sst' w' es. audio_file_record_poll round53 (3 + 1 + 0) (\<lambda>b l w. Inr (w @ b, [], 0)) (demo_cpa\<lparr>cp_size_bytes := 2\<rparr>) (tv 5 50000)
        ?ar (ss_stats send_session_zero) [] = Some (Inr ((ar', sst', w' :: bytes), es, 0)) \<and>
      (m = 3 \<or> m = 3 + 1 \<and> 0 < (50000 :: int) \<and> 50000 = int 3 * 20000) \<and>
      sst_rpkt sst' = sst_rpkt (ss_stats send_session_zero) + of_nat m \<and> tv_us (ar_T ar') = tv_us (ar_T ?ar) + int m * 20000 \<and>
      tv_us (tv 5 50000) \<le> tv_us (ar_T ar') \<and> tv_us (ar_T ar') \<le> tv_us (tv 5 50000) + 20000"
    by (rule poll_catches_up [OF rounds_round53])
      (simp_all add: never_fails_def demo_cpa_def tv_norm_def tv_us_def timeval_le)
  then show ?thesis by (auto simp: send_session_zero_def tv_us_def)
qed

end
