(* ===== verification/Call.thy ===== *)
theory Call
  imports Audio_File
begin

text \<open>
  A call: the sending half and the receiving half put together over a network that delivers
  every packet, in order. Blocks of samples are recorded at one end and played at the other.
\<close>

text \<open>Each block comes with what the system does at both ends; a packet sent is a packet received. A receiver
  whose callback fails, or whose session an error has freed, plays nothing more.\<close>

fun call_run :: "(int list \<Rightarrow> bytes) \<Rightarrow> (bytes \<Rightarrow> int list) \<Rightarrow> sockaddr_in \<Rightarrow> (send_env \<times> rcv_env \<times> u16 list) list
    \<Rightarrow> send_session \<Rightarrow> rcv_session \<Rightarrow> bytes list res" where
  "call_run ie idec addr [] ss rs = Inr []"
| "call_run ie idec addr ((se, re, ws) # bs) ss rs =
    bnd (record_and_send ie idec se (le16 ws) (2 * length ws) ss) (\<lambda>(ss, es, _). case es of
      [Send_To _ d _] \<Rightarrow>
        bnd (receive_and_playout ie idec (re\<lparr>env_recv := Received d addr 16\<rparr>) rs) (\<lambda>((rs, out), _, r).
          bnd (case rs of Some rs \<Rightarrow> if r < 0 then Inr [] else call_run ie idec addr bs ss rs | None \<Rightarrow> Inr []) (\<lambda>outs. Inr ((case out of None \<Rightarrow> [] | Some (b, _) \<Rightarrow> [b]) @ outs)))
    | _ \<Rightarrow> call_run ie idec addr bs ss rs)"

section \<open>One packet\<close>

text \<open>The receiver has seen every packet before the sender's next one.\<close>

definition in_step :: "send_session \<Rightarrow> rcv_session \<Rightarrow> bool" where
  "in_step ss rs \<longleftrightarrow> uint (seq_cycles rs) mod 65536 = 0 \<and>
    (seq_initial rs = 0 \<or> uint (seq_prev rs) = (uint (ss_seq ss) - 1) mod 65536)"

lemma seq_of_packet: "(ucast (s mod 0x10000 :: u32) :: u16) = word_of_int (uint s)"
  by (rule word_uint_eqI) (simp add: unsigned_ucast_eq take_bit_eq_mod uint_mod_distrib uint_word_of_int)

lemma cycles_add:
  assumes "uint (c :: u32) mod 65536 = 0"
  shows "uint (c + word_of_int (65536 * k)) mod 65536 = 0"
proof -
  have "uint (c + word_of_int (65536 * k)) mod 65536 = (uint c + uint (word_of_int (65536 * k) :: u32)) mod 65536"
    by (simp add: uint_word_arith_bintrs take_bit_eq_mod mod_mod_cancel del: of_int_mult)
  also have "\<dots> = (uint c mod 65536 + uint (word_of_int (65536 * k) :: u32) mod 65536) mod 65536"
    by (rule mod_add_eq [symmetric])
  finally show ?thesis unfolding assms cycles_mod by simp
qed

lemma accepted_in_step:
  assumes "in_step ss rs"
  obtains rs1 t where "update_seq rs (word_of_int (uint (ss_seq ss))) = (rs1, t)" "t \<noteq> SEQ_BAD" "t \<noteq> SEQ_DUP"
    "uint (seq_cycles rs1) mod 65536 = 0" "seq_initial rs1 \<noteq> 0"
proof (cases "seq_initial rs = 0")
  case True
  then show ?thesis using that assms by (simp add: update_seq_def in_step_def)
next
  case False
  let ?m = "uint (ss_seq ss)"
  have u: "update_seq rs (word_of_int ?m) = (rs\<lparr>seq_cycles := seq_cycles rs + word_of_int (65536 * (?m div 65536 - (?m - 1) div 65536))\<rparr>,
      if ?m = ?m - 1 + 1 \<and> ?m mod 65536 \<noteq> 0 then SEQ_NORMAL else SEQ_GAP)"
    using assms False by (intro seq_stream) (simp_all add: in_step_def)
  have u1: "seq_cycles (rs\<lparr>seq_cycles := x\<rparr>) = x" for x by simp
  show ?thesis
  proof (rule that [OF u])
    show "uint (seq_cycles (rs\<lparr>seq_cycles := seq_cycles rs + word_of_int (65536 * (?m div 65536 - (?m - 1) div 65536))\<rparr>)) mod 65536 = 0"
      unfolding u1 by (rule cycles_add) (use assms in \<open>simp add: in_step_def\<close>)
  qed (use False in simp_all)
qed

lemma still_in_step:
  assumes "uint (seq_cycles rs) mod 65536 = 0" "seq_prev rs' = ucast (seq_cycles rs + ucast (word_of_int (uint (ss_seq ss)) :: u16))"
    and "seq_cycles rs' = seq_cycles rs" "ss_seq ss' = ss_seq ss + 1"
  shows "in_step ss' rs'"
proof -
  have "seq_prev rs' = word_of_int (uint (ss_seq ss))" unfolding assms(2) by (rule number_kept [OF assms(1)])
  then have "uint (seq_prev rs') = uint (ss_seq ss) mod 65536" by (simp only: uint_word16)
  also have "\<dots> = (uint (ss_seq ss + 1) - 1) mod 65536"
  proof -
    have "(uint (ss_seq ss + 1) - 1) mod 65536 = (uint (ss_seq ss + 1) mod 65536 - 1) mod 65536" by (simp add: mod_diff_left_eq)
    also have "uint (ss_seq ss + 1) mod 65536 = (uint (ss_seq ss) + 1) mod 65536"
      by (simp add: uint_word_arith_bintrs take_bit_eq_mod mod_mod_cancel)
    finally show ?thesis by (simp add: mod_diff_left_eq)
  qed
  finally show ?thesis using assms by (simp add: in_step_def)
qed

text \<open>A pair of G.711 codec functions as the table gives them, with what they do to a sample.\<close>

definition g711_coder :: "coding_api \<Rightarrow> coding_params \<Rightarrow> coding_params \<Rightarrow> (int \<Rightarrow> int) \<Rightarrow> bool" where
  "g711_coder ca cpa cpn rq \<longleftrightarrow> \<not> ca_ilbc ca \<and> cp_type cpa = CODING_LINEAR16 \<and> cp_precision cpa = 16 \<and>
    cp_channels cpa = 1 \<and> cp_channels cpn = 1 \<and>
    (cp_type cpn = CODING_ALAW \<and> ca_encode ca = coding_l16_2alaw \<and> ca_decode ca = coding_alaw2_l16 \<and> rq = alaw2linear \<circ> linear2alaw \<or>
     cp_type cpn = CODING_ULAW \<and> ca_encode ca = coding_l16_2ulaw \<and> ca_decode ca = coding_ulaw2_l16 \<and> rq = ulaw2linear \<circ> linear2ulaw)"

definition played :: "(int \<Rightarrow> int) \<Rightarrow> u16 list \<Rightarrow> bytes" where
  "played rq ws = le16 (map (word_of_int \<circ> rq \<circ> sint) ws)"

lemma g711_block:
  assumes "g711_coder ca cpa cpn rq"
  obtains cs where "run_coding ie idec (ca_encode ca) (le16 ws) (2 * length ws) (length ws) = Inr cs" "length cs = length ws"
    "\<And>env r. env_alloc env \<Longrightarrow> decode_packet ie idec env ca (cs @ r) (length ws) cpa cpn = Inr (Some (played rq ws, 2 * length ws))"
    "ca_transformlen ca cpa cpn (2 * length ws) = Inr (length ws)"
proof -
  let ?a = "map (linear2alaw \<circ> sint) ws" and ?u = "map (linear2ulaw \<circ> sint) ws"
  have d: "decode_packet ie idec env ca (cs @ r) (length ws) cpa cpn = Inr (Some (le16 ds, 2 * length ws))"
    if "run_coding ie idec (ca_decode ca) (cs @ r) (length ws) (2 * length ws) = Inr (le16 ds)" "length ds = length ws" "env_alloc env"
    for env cs r ds
    using that assms by (auto simp: g711_coder_def decode_packet_def ca_transformlen_def coding_transformlen_generic_def Let_def)
  note e = run_encoders [of ie idec ws "[]", unfolded append_Nil2]
  note q = run_decoders [of ie idec ?a _ "2 * length ws", unfolded length_map] run_decoders [of ie idec ?u _ "2 * length ws", unfolded length_map]
  have t: "ca_transformlen ca cpa cpn (2 * length ws) = Inr (length ws)"
    using assms by (auto simp: g711_coder_def ca_transformlen_def coding_transformlen_generic_def)
  show thesis
  proof (cases "cp_type cpn = CODING_ALAW")
    case True
    then show ?thesis using assms that [of ?a] e d [of ?a] q(1) t
      by (auto simp: g711_coder_def played_def o_assoc simp del: run_coding.simps)
  next
    case False
    then show ?thesis using assms that [of ?u] e d [of ?u] q(4) t
      by (auto simp: g711_coder_def played_def o_assoc simp del: run_coding.simps)
  qed
qed

lemma sent_hdr_pt:
  assumes "rtp_payload rtp < 128"
  shows "rtp_get_pt (rh_flags (sent_hdr env rtp seq)) = ucast (rtp_payload rtp)"
proof -
  have p: "0 \<le> uint (rtp_payload rtp)" "uint (rtp_payload rtp) < 128" using assms by (simp_all add: word_less_def)
  have "take_bit 7 (ucast (rtp_payload rtp) :: u16) = ucast (rtp_payload rtp)"
  proof (rule word_uint_eqI)
    have u: "uint (ucast (rtp_payload rtp) :: u16) = uint (rtp_payload rtp)"
      using p by (simp add: unsigned_ucast_eq take_bit_eq_mod)
    have "uint (take_bit 7 (ucast (rtp_payload rtp) :: u16)) = take_bit 7 (uint (ucast (rtp_payload rtp) :: u16))"
      by (rule unsigned_take_bit_eq)
    then show "uint (take_bit 7 (ucast (rtp_payload rtp) :: u16)) = uint (ucast (rtp_payload rtp) :: u16)"
      unfolding u take_bit_eq_mod using p by simp
  qed
  then show ?thesis by (simp add: sent_hdr_def Let_def pt.get_set)
qed

lemma call_run_blocks:
  assumes "g711_coder ca cpa cpn rq" "mono_sender ca cpa cpn rtp ss" "fifo_session ca cpa cpn (rtp_payload rtp) rs"
    and "rtp_payload rtp < 128" "in_step ss rs"
    and "\<forall>(se, re, ws) \<in> set bs. senv_sendto se \<and> device_ok re \<and> 2 \<le> length ws \<and> length ws \<le> 1460"
  shows "call_run ie idec addr bs ss rs = Inr (map (\<lambda>(_, _, ws). played rq ws) bs)"
  using assms
proof (induction bs arbitrary: ss rs)
  case (Cons b bs)
  obtain se re ws where b: "b = (se, re, ws)" by (cases b)
  have env: "senv_sendto se" "device_ok re" "env_alloc re" "2 \<le> length ws" "length ws \<le> 1460"
    using Cons.prems(6) by (auto simp: b device_ok_def)
  obtain cs where cs: "run_coding ie idec (ca_encode ca) (le16 ws) (2 * length ws) (length ws) = Inr cs" "length cs = length ws"
    "\<And>env r. env_alloc env \<Longrightarrow> decode_packet ie idec env ca (cs @ r) (length ws) cpa cpn = Inr (Some (played rq ws, 2 * length ws))"
    "ca_transformlen ca cpa cpn (2 * length ws) = Inr (length ws)"
    using g711_block [OF Cons.prems(1)] by blast
  let ?hdr = "sent_hdr se rtp (ss_seq ss)"
  let ?env = "re\<lparr>env_recv := Received (marshal_rtp_hdr ?hdr @ cs) addr 16\<rparr>"
  obtain ss' where s: "record_and_send ie idec se (le16 ws) (2 * length ws) ss
      = Inr (ss', [Send_To (rtp_s rtp) (marshal_rtp_hdr ?hdr @ cs) (rtp_rcv_addr rtp)], 0)"
    "mono_sender ca cpa cpn rtp ss'" "ss_seq ss' = ss_seq ss + 1"
    using record_and_send_mono [OF Cons.prems(2) cs(4) env(5) cs(1,2) env(1)] by auto
  obtain rs1 t where u: "update_seq rs (rh_seq ?hdr) = (rs1, t)" "t \<noteq> SEQ_BAD" "t \<noteq> SEQ_DUP"
    "uint (seq_cycles rs1) mod 65536 = 0" "seq_initial rs1 \<noteq> 0"
    using accepted_in_step [OF Cons.prems(5)] by (metis sent_hdr_fields(1) seq_of_packet)
  have a: "arrives ?hdr cs ?env" "device_ok ?env"
    using env cs(2) by (auto simp: arrives_def device_ok_def)
  have n: "bytes2samples (cp_precision cpa) (of_nat (length cs)) (cp_channels cpa) = Inr (of_nat (length cs) * 8 div 16)"
    "(of_nat (length cs) * 8 div 16 :: u32) \<noteq> 0"
    using Cons.prems(1) two_octets_enough [of "length cs"] env cs(2) by (simp_all add: bytes2samples_def g711_coder_def)
  have d: "decode_packet ie idec ?env ca (cs @ r) (length cs) cpa cpn = Inr (Some (played rq ws, 2 * length ws))" for r
    using cs(2,3) env(3) by simp
  obtain rs' where r: "receive_and_playout ie idec ?env rs
      = Inr ((Some rs', Some (take (unat (of_nat (2 * length ws) :: u32)) (played rq ws), 0)), [], 0)"
    "fifo_session ca cpa cpn (rtp_payload rtp) rs'" "seq_prev rs' = ucast (seq_cycles rs1 + ucast (rh_seq ?hdr))"
    "seq_cycles rs' = seq_cycles rs1"
    using receive_plays [OF Cons.prems(3) a sent_hdr_fields(3) sent_hdr_pt [OF Cons.prems(4)] u(1-3) n d] by blast
  have "in_step ss' rs'"
    using still_in_step [OF u(4) _ r(4) s(3)] r(3) by (simp add: sent_hdr_fields seq_of_packet)
  moreover have "take (unat (of_nat (2 * length ws) :: u32)) (played rq ws) = played rq ws"
    using env(5) by (simp add: played_def unat_word_of_nat_small del: of_nat_mult)
  ultimately show ?case
    using Cons.IH [OF Cons.prems(1) s(2) r(2) Cons.prems(4)] Cons.prems(6) s(1) r(1) by (simp add: b)
qed simp

section \<open>Properties\<close>

text \<open>C1. A call over a network that keeps its packets: whatever the recorded blocks of 2 to 1460 samples
  are, and for as long as the call lasts, the receiver plays one block for each, in order, and it
  is the recorded block with every sample coded and decoded in the chosen G.711 law. No step
  faults, and the 16-bit and 32-bit sequence counters may wrap. Played to a file, the blocks lie
  there end to end.\<close>

theorem call_plays_every_block:
  assumes "g711_coder ca cpa cpn rq" "mono_sender ca cpa cpn rtp ss" "fifo_session ca cpa cpn (rtp_payload rtp) rs"
    and "rtp_payload rtp < 128" "in_step ss rs"
    and "\<forall>(se, re, ws) \<in> set bs. senv_sendto se \<and> device_ok re \<and> 2 \<le> length ws \<and> length ws \<le> 1460"
  shows "call_run ie idec addr bs ss rs = Inr (map (\<lambda>(_, _, ws). played rq ws) bs) \<and>
    (\<exists>ap' rst'. file_out.play_all (map (\<lambda>(_, _, ws). played rq ws) bs) (ap, rst) = Inr ((ap', rst'), [], 0) \<and>
      ap_out ap' = ap_out ap @ concat (map (\<lambda>(_, _, ws). played rq ws) bs))"
  using call_run_blocks [OF assms, of ie idec addr]
    file_out.play_all_contents [of "map (\<lambda>(_, _, ws). played rq ws) bs" "(ap, rst)"] by auto

theorem call_plays_every_block_witness:
  "call_run (\<lambda>_. []) (\<lambda>_. []) zero_addr
      [(demo_send_env, demo_env Recv_Failed, [0, 1000]), (demo_send_env, demo_env Recv_Failed, [5, 6, 7])]
      (demo_send_session CODING_ALAW coding_l16_2alaw) (demo_rcv_session\<lparr>rs_cp_nw := Some (demo_cpa\<lparr>cp_type := CODING_ALAW\<rparr>)\<rparr>)
    = Inr [played (alaw2linear \<circ> linear2alaw) [0, 1000], played (alaw2linear \<circ> linear2alaw) [5, 6, 7]]"
proof -
  have g: "g711_coder \<lparr>ca_encode = coding_l16_2alaw, ca_decode = coding_alaw2_l16, ca_ilbc = False\<rparr> demo_cpa
      (demo_cpa\<lparr>cp_type := CODING_ALAW\<rparr>) (alaw2linear \<circ> linear2alaw)"
    by (simp add: g711_coder_def demo_cpa_def)
  have r: "fifo_session \<lparr>ca_encode = coding_l16_2alaw, ca_decode = coding_alaw2_l16, ca_ilbc = False\<rparr> demo_cpa
      (demo_cpa\<lparr>cp_type := CODING_ALAW\<rparr>) (rtp_payload (rtp_session_new\<lparr>rtp_payload := 8\<rparr>))
      (demo_rcv_session\<lparr>rs_cp_nw := Some (demo_cpa\<lparr>cp_type := CODING_ALAW\<rparr>)\<rparr>)"
    using demo_ready(2) by (simp add: fifo_session_def rcv_ready_def demo_cpa_def)
  have i: "in_step (demo_send_session CODING_ALAW coding_l16_2alaw)
      (demo_rcv_session\<lparr>rs_cp_nw := Some (demo_cpa\<lparr>cp_type := CODING_ALAW\<rparr>)\<rparr>)"
    by (simp add: in_step_def demo_rcv_session_def rcv_session_zero_def)
  show ?thesis
    using call_plays_every_block [OF g demo_sender r _ i, of "[(demo_send_env, demo_env Recv_Failed, [0, 1000]), (demo_send_env, demo_env Recv_Failed, [5, 6, 7])]"]
    by (simp add: demo_send_env_def demo_env_def device_ok_def)
qed

end
