(* ===== verification/Rtcp.thy ===== *)
theory Rtcp
  imports Rtp
begin

text \<open>
  The RTCP packets of \<open>include/sphone_rtcp.h\<close> and \<open>src/sphone_rtcp.c\<close>: flag macros, the
  conversions between time values, milliseconds and RTP timestamps, and the encoders and
  decoders of the header, the sender information and the report block. Sender reports and
  receiver reports are two of these in a row, so their codecs are the composed ones.
\<close>

section \<open>Flags and packet types\<close>

abbreviation RTCP_SR :: int where "RTCP_SR \<equiv> 200"
abbreviation RTCP_RR :: int where "RTCP_RR \<equiv> 201"
abbreviation RTCP_SDES :: int where "RTCP_SDES \<equiv> 202"
abbreviation RTCP_BYE :: int where "RTCP_BYE \<equiv> 203"
abbreviation RTCP_APP :: int where "RTCP_APP \<equiv> 204"

definition rtcp_get_v :: "u16 \<Rightarrow> u16" where "rtcp_get_v flags = drop_bit 14 (flags AND 0xC000)"
definition rtcp_get_p :: "u16 \<Rightarrow> u16" where "rtcp_get_p flags = drop_bit 13 (flags AND 0x2000)"
definition rtcp_get_rc :: "u16 \<Rightarrow> u16" where "rtcp_get_rc flags = drop_bit 8 (flags AND 0x1F00)"
definition rtcp_get_t :: "u16 \<Rightarrow> u16" where "rtcp_get_t flags = flags AND 0x00FF"

definition rtcp_set_v :: "u16 \<Rightarrow> u16 \<Rightarrow> u16" where
  "rtcp_set_v flags v = (flags AND NOT 0xC000) OR (push_bit 14 v AND 0xC000)"
definition rtcp_set_p :: "u16 \<Rightarrow> u16 \<Rightarrow> u16" where
  "rtcp_set_p flags p = (flags AND NOT 0x2000) OR (push_bit 13 p AND 0x2000)"
definition rtcp_set_rc :: "u16 \<Rightarrow> u16 \<Rightarrow> u16" where
  "rtcp_set_rc flags rc = (flags AND NOT 0x1F00) OR (push_bit 8 rc AND 0x1F00)"
definition rtcp_set_t :: "u16 \<Rightarrow> u16 \<Rightarrow> u16" where
  "rtcp_set_t flags t = (flags AND NOT 0x00FF) OR (t AND 0x00FF)"

definition rtcp_get_lost_frac :: "u32 \<Rightarrow> u32" where
  "rtcp_get_lost_frac val = drop_bit 24 (val AND 0xFF000000)"
definition rtcp_get_lost_culm :: "u32 \<Rightarrow> u32" where
  "rtcp_get_lost_culm val = val AND 0x00FFFFFF"

lemma rtcp_field_masks:
  "(0xC000 :: u16) = push_bit 14 (mask 2)" "(0x2000 :: u16) = push_bit 13 (mask 1)"
  "(0x1F00 :: u16) = push_bit 8 (mask 5)" "(0x00FF :: u16) = push_bit 0 (mask 8)"
  by (simp_all add: mask_eq_exp_minus_1)

interpretation rtcp_v: flag_field rtcp_get_v rtcp_set_v 14 2
  unfolding rtcp_get_v_def [abs_def] rtcp_set_v_def [abs_def] rtcp_field_masks(1)
  by (rule mask_field) simp

interpretation rtcp_p: flag_field rtcp_get_p rtcp_set_p 13 1
  unfolding rtcp_get_p_def [abs_def] rtcp_set_p_def [abs_def] rtcp_field_masks(2)
  by (rule mask_field) simp

interpretation rtcp_rc: flag_field rtcp_get_rc rtcp_set_rc 8 5
  unfolding rtcp_get_rc_def [abs_def] rtcp_set_rc_def [abs_def] rtcp_field_masks(3)
  by (rule mask_field) simp

interpretation rtcp_t: flag_field rtcp_get_t rtcp_set_t 0 8
  unfolding rtcp_get_t_def [abs_def] rtcp_set_t_def [abs_def] rtcp_field_masks(4)
  using mask_field [of 0 8] by simp

definition rtcp_print_type :: "int \<Rightarrow> string" where
  "rtcp_print_type ty =
    (if ty = RTCP_SR then ''Sender report''
     else if ty = RTCP_RR then ''Receiver report''
     else if ty = RTCP_SDES then ''Source Description''
     else if ty = RTCP_BYE then ''Bye''
     else if ty = RTCP_APP then ''application defined''
     else ''packet not known'')"

section \<open>Timestamps\<close>

text \<open>
  The three conversions below multiply or divide by 65.536 in floating point and truncate.
  For every argument that occurs (milliseconds below 1000, fractions below 65536,
  microseconds below 1000000) the truncated result is the integer quotient written here.
  Milliseconds are whole: the only caller passes 0.
\<close>

definition ms2rtpTimestamp :: "int \<Rightarrow> u32" where
  "ms2rtpTimestamp ms =
    (let sec = word_of_int (ms div 1000) :: u32; ms = ms - uint sec * 1000
     in push_bit 16 sec + word_of_int (ms * 65536 div 1000))"

definition rtpTimestamp2ms :: "u32 \<Rightarrow> u32" where
  "rtpTimestamp2ms ts =
    drop_bit 16 (ts AND 0xffff0000) * 1000 +
    word_of_int ((2000 * uint (ts AND 0x0000ffff) + 65536) div 131072)"

definition timeval2dlsr :: "timeval \<Rightarrow> u32" where
  "timeval2dlsr t =
    push_bit 16 (word_of_int (tv_sec t AND 0xffff)) + word_of_int (tv_usec t * 1024 div 15625)"

definition timeval2rtptimestamp :: "timeval \<Rightarrow> u32" where
  "timeval2rtptimestamp t = timeval2dlsr t"

definition calculateRTT :: "u32 \<Rightarrow> u32 \<Rightarrow> timeval \<Rightarrow> u32" where
  "calculateRTT lsr dlsr t =
    rtpTimestamp2ms (timeval2rtptimestamp t) - rtpTimestamp2ms lsr - rtpTimestamp2ms dlsr"

definition ntp2lsr :: "NTP_timestamp \<Rightarrow> u32" where
  "ntp2lsr ntp = push_bit 16 (ucast (ntp_sec ntp) AND 0xffff) + (ucast (ntp_frac ntp) AND 0xffff)"

definition ntp2rtptimestamp :: "NTP_timestamp \<Rightarrow> u32" where
  "ntp2rtptimestamp ntp = ntp2lsr ntp"

definition ntp2rtp :: "NTP_timestamp_64 \<Rightarrow> u32 \<Rightarrow> u32 \<Rightarrow> u32" where
  "ntp2rtp NTP start_rtp rtp_now =
    (let temp_sec = ntp64_sec NTP AND 0x0000ffff; temp_usec = ntp64_frac NTP AND 0xffff0000
     in rtp_now + (temp_sec + drop_bit 16 temp_usec + start_rtp))"

section \<open>Packets\<close>

record rtcp_common_t =
  rc_flags :: u16
  rc_length :: u16
  rc_ssrc :: u32

text \<open>\<open>lost\<close> is an \<open>int32_t\<close> whose top octet is the fraction lost; it is kept as the word of its
  bits.\<close>

record rtcp_rr_t =
  rr_ssrc :: u32
  rr_lost :: u32
  rr_last_seq :: u32
  rr_jitter :: u32
  rr_lsr :: u32
  rr_dlsr :: u32

record rtcp_si_t =
  si_ntp_sec :: u32
  si_ntp_frac :: u32
  si_rtp_ts :: u32
  si_psent :: u32
  si_osent :: u32

text \<open>The lengths are \<open>sizeof\<close> sums less one: 8 octets for the common header, 20 for the sender
  information, 24 for a report block and 4 for the list of a bye. Another type leaves the
  length as it was.\<close>

definition rtcp_set_hdr :: "rtcp_common_t \<Rightarrow> int \<Rightarrow> u32 \<Rightarrow> rtcp_common_t" where
  "rtcp_set_hdr hdr packet_type src =
    (let f = rtcp_set_t (rtcp_set_rc (rtcp_set_p (rtcp_set_v 0 RTP_VERSION) 0) 1) (word_of_int packet_type);
         hdr = hdr\<lparr>rc_flags := f\<rparr>;
         hdr = (if packet_type = RTCP_SR then hdr\<lparr>rc_length := 8 + 20 - 1\<rparr>
                else if packet_type = RTCP_RR then hdr\<lparr>rc_length := 8 + 24 - 1\<rparr>
                else if packet_type = RTCP_BYE then hdr\<lparr>rc_length := 8 + 4 - 1\<rparr>
                else hdr)
     in hdr\<lparr>rc_ssrc := src\<rparr>)"

definition encode_rtcp_header :: "rtcp_common_t \<Rightarrow> bytes" where
  "encode_rtcp_header h = put16 (rc_flags h) @ put16 (rc_length h) @ put32 (rc_ssrc h)"

definition decode_rtcp_header :: "bytes \<Rightarrow> (rtcp_common_t \<times> bytes) res" where
  "decode_rtcp_header ptr =
    bnd (get16 ptr) (\<lambda>(f, ptr). bnd (get16 ptr) (\<lambda>(l, ptr). bnd (get32 ptr) (\<lambda>(s, ptr).
      Inr (\<lparr>rc_flags = f, rc_length = l, rc_ssrc = s\<rparr>, ptr))))"

definition encode_rtcp_bye_message :: "rtcp_common_t \<Rightarrow> bytes" where
  "encode_rtcp_bye_message h = put16 (rc_flags h) @ put16 (rc_length h) @ put32 (rc_ssrc h)"

definition decode_rtcp_bye_message :: "bytes \<Rightarrow> (rtcp_common_t \<times> bytes) res" where
  "decode_rtcp_bye_message ptr =
    bnd (get16 ptr) (\<lambda>(f, ptr). bnd (get16 ptr) (\<lambda>(l, ptr). bnd (get32 ptr) (\<lambda>(s, ptr).
      Inr (\<lparr>rc_flags = f, rc_length = l, rc_ssrc = s\<rparr>, ptr))))"

definition encode_sender_info :: "rtcp_si_t \<Rightarrow> bytes" where
  "encode_sender_info s = put32 (si_ntp_sec s) @ put32 (si_ntp_frac s) @ put32 (si_rtp_ts s) @
     put32 (si_psent s) @ put32 (si_osent s)"

definition decode_sender_info :: "bytes \<Rightarrow> (rtcp_si_t \<times> bytes) res" where
  "decode_sender_info ptr =
    bnd (get32 ptr) (\<lambda>(a, ptr). bnd (get32 ptr) (\<lambda>(b, ptr). bnd (get32 ptr) (\<lambda>(c, ptr).
    bnd (get32 ptr) (\<lambda>(d, ptr). bnd (get32 ptr) (\<lambda>(e, ptr).
      Inr (\<lparr>si_ntp_sec = a, si_ntp_frac = b, si_rtp_ts = c, si_psent = d, si_osent = e\<rparr>, ptr))))))"

definition encode_report_block :: "rtcp_rr_t \<Rightarrow> bytes" where
  "encode_report_block r = put32 (rr_ssrc r) @ put32 (rr_lost r) @ put32 (rr_last_seq r) @
     put32 (rr_jitter r) @ put32 (rr_lsr r) @ put32 (rr_dlsr r)"

definition decode_report_block :: "bytes \<Rightarrow> (rtcp_rr_t \<times> bytes) res" where
  "decode_report_block ptr =
    bnd (get32 ptr) (\<lambda>(a, ptr). bnd (get32 ptr) (\<lambda>(b, ptr). bnd (get32 ptr) (\<lambda>(c, ptr).
    bnd (get32 ptr) (\<lambda>(d, ptr). bnd (get32 ptr) (\<lambda>(e, ptr). bnd (get32 ptr) (\<lambda>(f, ptr).
      Inr (\<lparr>rr_ssrc = a, rr_lost = b, rr_last_seq = c, rr_jitter = d, rr_lsr = e, rr_dlsr = f\<rparr>, ptr)))))))"

lemmas rtcp_codec_defs = encode_rtcp_header_def decode_rtcp_header_def encode_sender_info_def
  decode_sender_info_def encode_report_block_def decode_report_block_def

interpretation hdr: header_codec encode_rtcp_header decode_rtcp_header 8
  by unfold_locales
    (auto simp: rtcp_codec_defs bnd_eq_Inr bnd_def get_short split: sum.splits dest!: put_get dest: get_length)

interpretation si: header_codec encode_sender_info decode_sender_info 20
  by unfold_locales
    (auto simp: rtcp_codec_defs bnd_eq_Inr bnd_def get_short split: sum.splits dest!: put_get dest: get_length)

interpretation rr: header_codec encode_report_block decode_report_block 24
  by unfold_locales
    (auto simp: rtcp_codec_defs bnd_eq_Inr bnd_def get_short split: sum.splits dest!: put_get dest: get_length)

interpretation sr_pkt: codec_pair encode_rtcp_header decode_rtcp_header 8 encode_sender_info decode_sender_info 20
  ..

interpretation rr_pkt: codec_pair encode_rtcp_header decode_rtcp_header 8 encode_report_block decode_report_block 24
  ..

section \<open>Lemmas on timestamps\<close>

lemma word_halves:
  fixes ts :: u32
  shows "uint ts = 65536 * uint (drop_bit 16 (ts AND 0xffff0000)) + uint (ts AND 0x0000ffff)"
    and "uint (drop_bit 16 (ts AND 0xffff0000)) < 65536" and "uint (ts AND 0x0000ffff) < 65536"
proof -
  have m: "(0xffff0000 :: u32) = push_bit 16 (mask 16)" "(0xffff :: u32) = mask 16"
    by (simp_all add: mask_eq_exp_minus_1)
  have hi: "drop_bit 16 (ts AND 0xffff0000) = drop_bit 16 ts"
    unfolding m by (rule bit_word_eqI) (auto simp: bit_simps simp del: mask_numeral dest: bit_imp_le_length)
  have lo: "ts AND 0xffff = take_bit 16 ts" unfolding m by (simp only: take_bit_eq_mask)
  have h: "uint (drop_bit 16 ts) = uint ts div 65536"
    by (simp add: drop_bit_eq_div uint_div_distrib)
  have l: "uint (take_bit 16 ts) = uint ts mod 65536"
    by (simp add: unsigned_take_bit_eq) (simp add: take_bit_eq_mod)
  show "uint ts = 65536 * uint (drop_bit 16 (ts AND 0xffff0000)) + uint (ts AND 0x0000ffff)"
    unfolding hi lo h l by simp
  have "uint ts < 65536 * 65536" using unsigned_less [of ts] by simp
  then show "uint (drop_bit 16 (ts AND 0xffff0000)) < 65536" unfolding hi h by (intro div_upper) simp_all
  show "uint (ts AND 0x0000ffff) < 65536" unfolding lo l by simp
qed

lemma uint_small:
  "0 \<le> x \<Longrightarrow> x < 2 ^ 32 \<Longrightarrow> uint (word_of_int x :: u32) = x"
  by (simp add: uint_word_of_int)

lemma rtpTimestamp2ms_near:
  "- 32768 \<le> 65536 * uint (rtpTimestamp2ms ts) - 1000 * uint ts"
  "65536 * uint (rtpTimestamp2ms ts) - 1000 * uint ts \<le> 32768"
  "uint (rtpTimestamp2ms ts) \<le> 65536000"
proof -
  define h where "h = uint (drop_bit 16 (ts AND 0xffff0000))"
  define l where "l = uint (ts AND 0x0000ffff)"
  define q where "q = (2000 * l + 65536) div 131072"
  have ts: "uint ts = 65536 * h + l" "0 \<le> h" "h < 65536" "0 \<le> l" "l < 65536"
    using word_halves [of ts] by (simp_all add: h_def l_def)
  have q: "131072 * q \<le> 2000 * l + 65536" "2000 * l + 65536 < 131072 * q + 131072"
    using int_div_bounds [of 131072 "2000 * l + 65536"] by (simp_all add: q_def)
  then have q0: "0 \<le> q" "q \<le> 1000" using ts by linarith+
  have "rtpTimestamp2ms ts = word_of_int (h * 1000 + q)"
    by (simp add: rtpTimestamp2ms_def h_def l_def q_def)
  then have v: "uint (rtpTimestamp2ms ts) = h * 1000 + q"
    using ts q0 uint_small [of "h * 1000 + q"] by simp
  show "- 32768 \<le> 65536 * uint (rtpTimestamp2ms ts) - 1000 * uint ts"
    "65536 * uint (rtpTimestamp2ms ts) - 1000 * uint ts \<le> 32768"
    "uint (rtpTimestamp2ms ts) \<le> 65536000"
    using ts q q0 by (simp_all add: v)
qed

lemma sint_of_int32:
  assumes "- (2 ^ 31) \<le> x" "x < 2 ^ 31" "w = (word_of_int x :: u32)"
  shows "sint w = x"
  using sint_of_int31 [OF assms(1,2)] assms(3) by simp

lemma sint_calculateRTT:
  "sint (calculateRTT lsr dlsr t) =
    uint (rtpTimestamp2ms (timeval2dlsr t)) - uint (rtpTimestamp2ms lsr) - uint (rtpTimestamp2ms dlsr)"
proof (rule sint_of_int32)
  show "calculateRTT lsr dlsr t = word_of_int (uint (rtpTimestamp2ms (timeval2dlsr t))
      - uint (rtpTimestamp2ms lsr) - uint (rtpTimestamp2ms dlsr))"
    by (simp add: calculateRTT_def timeval2rtptimestamp_def)
  have r: "0 \<le> uint (rtpTimestamp2ms w)" "uint (rtpTimestamp2ms w) \<le> 65536000" for w
    by (simp_all add: rtpTimestamp2ms_near)
  have "- 2147483648 \<le> uint (rtpTimestamp2ms (timeval2dlsr t)) - uint (rtpTimestamp2ms lsr) - uint (rtpTimestamp2ms dlsr)"
    "uint (rtpTimestamp2ms (timeval2dlsr t)) - uint (rtpTimestamp2ms lsr) - uint (rtpTimestamp2ms dlsr) < 2147483648"
    using r [of "timeval2dlsr t"] r [of lsr] r [of dlsr] by linarith+
  then show "- (2 ^ 31) \<le> uint (rtpTimestamp2ms (timeval2dlsr t)) - uint (rtpTimestamp2ms lsr) - uint (rtpTimestamp2ms dlsr)"
    "uint (rtpTimestamp2ms (timeval2dlsr t)) - uint (rtpTimestamp2ms lsr) - uint (rtpTimestamp2ms dlsr) < 2 ^ 31"
    by simp_all
qed

lemma ms2rtpTimestamp_value:
  assumes "0 \<le> ms" "ms < 65536000"
  shows "uint (ms2rtpTimestamp ms) = 65536 * (ms div 1000) + ms mod 1000 * 65536 div 1000"
proof -
  define s r where "s = ms div 1000" and "r = ms mod 1000"
  have s: "0 \<le> s" "s < 65536" "0 \<le> r" "r < 1000" "ms = 1000 * s + r"
    using assms div_upper [of 1000 ms 65536] by (simp_all add: s_def r_def pos_imp_zdiv_nonneg_iff)
  have q: "0 \<le> r * 65536 div 1000" "r * 65536 div 1000 < 65536"
    using s by (simp_all add: pos_imp_zdiv_nonneg_iff div_upper)
  have m: "ms - uint (word_of_int s :: u32) * 1000 = r" using s by (simp add: uint_small)
  have "push_bit 16 (word_of_int s :: u32) = word_of_int (65536 * s)" by (simp add: push_bit_eq_mult)
  then have "ms2rtpTimestamp ms = word_of_int (65536 * s + r * 65536 div 1000)"
    unfolding ms2rtpTimestamp_def Let_def s_def [symmetric] m by simp
  then show ?thesis unfolding s_def [symmetric] r_def [symmetric]
    using s(1-4) q uint_small [of "65536 * s + r * 65536 div 1000"] by simp
qed

lemma rtcp_flag_word:
  "rtcp_get_v (rtcp_set_t (rtcp_set_rc (rtcp_set_p (rtcp_set_v f vv) pp) rc) ty) = take_bit 2 vv"
  "rtcp_get_p (rtcp_set_t (rtcp_set_rc (rtcp_set_p (rtcp_set_v f vv) pp) rc) ty) = take_bit 1 pp"
  "rtcp_get_rc (rtcp_set_t (rtcp_set_rc (rtcp_set_p (rtcp_set_v f vv) pp) rc) ty) = take_bit 5 rc"
  "rtcp_get_t (rtcp_set_t (rtcp_set_rc (rtcp_set_p (rtcp_set_v f vv) pp) rc) ty) = take_bit 8 ty"
  by (rule bit_word_eqI; auto simp: rtcp_v.get_bits rtcp_v.set_bits rtcp_p.get_bits rtcp_p.set_bits
      rtcp_rc.get_bits rtcp_rc.set_bits rtcp_t.get_bits rtcp_t.set_bits bit_take_bit_iff bit_0)+

lemma near_sum:
  fixes a b c x y z :: int
  assumes "- k \<le> 65536 * a - 1000 * x" "65536 * a - 1000 * x \<le> k" "- k \<le> 65536 * b - 1000 * y"
    "65536 * b - 1000 * y \<le> k" "- k \<le> 65536 * c - 1000 * z" "65536 * c - 1000 * z \<le> k"
  shows "\<bar>65536 * (a - b - c) - 1000 * (x - y - z)\<bar> \<le> 3 * k"
  using assms by (simp add: algebra_simps abs_if)

section \<open>Properties\<close>

text \<open>The number of octets that the length field of a header announces: the comment of \<open>rtcp_common_t\<close> and
  RFC 3550 let it count 32-bit words, less one.\<close>

definition announced_octets :: "rtcp_common_t \<Rightarrow> int" where
  "announced_octets h = 4 * (uint (rc_length h) + 1)"

text \<open>C31. Sender and receiver reports survive the wire: decoding the header and then the body of
  an encoded report gives both back with the rest of the packet, whatever follows. A sender report has 28 octets
  and a receiver report 32, which is what the session allocates, the \<open>length + 1\<close> of its header; but the header is
  wrong: it holds octets less one, where the comment of its type and RFC 3550 ask for words less one, so that
  a reader who goes by them is told of 112 and 128 octets, four times what is there, and neither of the two lengths
  is the right one.\<close>

theorem rtcp_report_roundtrip:
  "bnd (decode_rtcp_header (encode_rtcp_header h @ encode_sender_info s @ r))
      (\<lambda>(h', p). bnd (decode_sender_info p) (\<lambda>(s', p). Inr (h', s', p))) = Inr (h, s, r) \<and>
   bnd (decode_rtcp_header (encode_rtcp_header h @ encode_report_block b @ r))
      (\<lambda>(h', p). bnd (decode_report_block p) (\<lambda>(b', p). Inr (h', b', p))) = Inr (h, b, r) \<and>
   length (encode_rtcp_header h @ encode_sender_info s) = 28 \<and>
   length (encode_rtcp_header h @ encode_report_block b) = 32 \<and>
   unat (rc_length (rtcp_set_hdr h0 RTCP_SR src)) + 1 = 28 \<and>
   unat (rc_length (rtcp_set_hdr h0 RTCP_RR src)) + 1 = 32 \<and>
   announced_octets (rtcp_set_hdr h0 RTCP_SR src) = 4 * 28 \<and>
   announced_octets (rtcp_set_hdr h0 RTCP_RR src) = 4 * 32"
  by (simp add: hdr.dec_enc si.dec_enc rr.dec_enc hdr.enc_length si.enc_length rr.enc_length
      rtcp_set_hdr_def announced_octets_def Let_def)

text \<open>The header of every outgoing report has version 2, no padding, one report block and the
  given packet type, and survives the wire.\<close>

lemma rtcp_set_hdr_fields:
  "let h = rtcp_set_hdr h0 ty src in
     rtcp_get_v (rc_flags h) = RTP_VERSION \<and> rtcp_get_p (rc_flags h) = 0 \<and> rtcp_get_rc (rc_flags h) = 1 \<and>
     uint (rtcp_get_t (rc_flags h)) = ty mod 256 \<and> rc_ssrc h = src \<and>
     decode_rtcp_header (encode_rtcp_header h @ r) = Inr (h, r)"
proof -
  define f where "f = rtcp_set_t (rtcp_set_rc (rtcp_set_p (rtcp_set_v 0 RTP_VERSION) 0) 1) (word_of_int ty)"
  have "rtcp_get_v f = RTP_VERSION" "rtcp_get_p f = 0" "rtcp_get_rc f = 1" "rtcp_get_t f = take_bit 8 (word_of_int ty)"
    by (simp_all add: f_def rtcp_flag_word)
  moreover have "uint (take_bit 8 (word_of_int ty :: u16)) = ty mod 256"
    by (simp add: unsigned_take_bit_eq uint_word_of_int) (simp add: take_bit_eq_mod mod_mod_cancel)
  moreover have "rc_flags (rtcp_set_hdr h0 ty src) = f" by (simp add: rtcp_set_hdr_def f_def Let_def)
  moreover have "rc_ssrc (rtcp_set_hdr h0 ty src) = src" by (simp add: rtcp_set_hdr_def Let_def)
  ultimately show ?thesis by (simp add: Let_def hdr.dec_enc)
qed

text \<open>Milliseconds turned into an RTP timestamp and back are unchanged, for every duration a
  timestamp can hold (18 hours).\<close>

lemma ms_timestamp_roundtrip:
  assumes "0 \<le> ms" "ms < 65536000"
  shows "uint (rtpTimestamp2ms (ms2rtpTimestamp ms)) = ms"
proof -
  have "1000 * (ms mod 1000 * 65536 div 1000) \<le> ms mod 1000 * 65536"
    "ms mod 1000 * 65536 < 1000 * (ms mod 1000 * 65536 div 1000) + 1000"
    using int_div_bounds [of 1000 "ms mod 1000 * 65536"] by simp_all
  moreover have "ms = 1000 * (ms div 1000) + ms mod 1000" by simp
  ultimately show ?thesis
    using rtpTimestamp2ms_near [of "ms2rtpTimestamp ms"] ms2rtpTimestamp_value [OF assms] by linarith
qed

lemma ms_timestamp_roundtrip_witness: "uint (rtpTimestamp2ms (ms2rtpTimestamp 12345)) = 12345"
  by (rule ms_timestamp_roundtrip) simp_all

text \<open>C32. The round-trip time is exact to 1.5 milliseconds: with all times in units of 1/65536
  second, the result, read as signed, differs from now minus the time of the last sender
  report minus the delay at the peer only by the rounding of its three terms. The code
  returns it unsigned, and a round trip faster than the rounding comes out as 2^32 - 1 ms.\<close>

theorem calculateRTT_accurate:
  "\<bar>65536 * sint (calculateRTT lsr dlsr t)
     - 1000 * (uint (timeval2dlsr t) - uint lsr - uint dlsr)\<bar> \<le> 3 * 32768 \<and>
   calculateRTT 33 33 (tv 0 1008) = 2 ^ 32 - 1"
proof
  show "\<bar>65536 * sint (calculateRTT lsr dlsr t)
     - 1000 * (uint (timeval2dlsr t) - uint lsr - uint dlsr)\<bar> \<le> 3 * 32768"
    unfolding sint_calculateRTT by (rule near_sum; rule rtpTimestamp2ms_near)
  show "calculateRTT 33 33 (tv 0 1008) = 2 ^ 32 - 1"
    by (simp add: calculateRTT_def timeval2rtptimestamp_def timeval2dlsr_def rtpTimestamp2ms_def)
qed

end
