(* ===== verification/Rtcp_Session.thy ===== *)
theory Rtcp_Session
  imports Receive Send Rtcp
begin

text \<open>
  The control protocol of a call: \<open>src/sphone_rtcp_send.c\<close> builds and sends the reports of both
  ends on a timer, \<open>src/sphone_rtcp_rcv.c\<close> takes them in.

  \<open>renv_junk\<close> is the value of the stack word that a report block's loss field is left with: the
  code never sets it. Allocations have the size the code asks for and writes beyond them fault.
\<close>

record rtcp_env =
  renv_now :: timeval
  renv_alloc :: bool
  renv_sendto :: bool
  renv_reg :: bool
  renv_junk :: u32

abbreviation "RTCP_REPORT_INTERVAL_S \<equiv> 5 :: int"

definition rtcp_common_zero :: rtcp_common_t where
  "rtcp_common_zero = \<lparr>rc_flags = 0, rc_length = 0, rc_ssrc = 0\<rparr>"

text \<open>Writing into an allocation of \<open>sz\<close> octets.\<close>

definition write_into :: "nat \<Rightarrow> bytes \<Rightarrow> bytes res" where
  "write_into sz bs = (if sz < length bs then Inl Out_Of_Bounds else Inr bs)"

section \<open>Statistics\<close>

definition rtcp_send_stats_new :: "bool \<Rightarrow> rtcp_send_stats option \<times> effect list" where
  "rtcp_send_stats_new alloc =
    (if \<not> alloc then (None, [Sphone_Error])
     else (Some \<lparr>rss_RR_pkts = 0, rss_SR_pkts = 0, rss_peer_fraction_lost = 0, rss_peer_jitter = 0,
       rss_RTT_delay = 0, rss_peer_culm_lost = 0, rss_peer_last_seq = 0\<rparr>, []))"

definition rtcp_rcv_stats_new :: "bool \<Rightarrow> rtcp_rcv_stats option \<times> effect list" where
  "rtcp_rcv_stats_new alloc =
    (if \<not> alloc then (None, [Sphone_Error])
     else (Some \<lparr>rrs_RR_pkts = 0, rrs_SR_pkts = 0, rrs_timestamp_SR = tv 0 0,
       rrs_timestamp_SR_ntp = \<lparr>ntp_sec = 0, ntp_frac = 0\<rparr>, rrs_bytes_sent2us = 0, rrs_packets_sent2us = 0,
       rrs_prev_pktLost = 0, rrs_prev_pktSeq = 0, rtcp_stats_bytes = 0, rtcp_stats_pkt = 0\<rparr>, []))"

section \<open>Sending\<close>

text \<open>The time of a sender report in samples; the products are of 32 bits.\<close>

definition sr_block :: "timeval \<Rightarrow> u32 \<Rightarrow> u32 \<Rightarrow> u32 \<Rightarrow> rtcp_si_t" where
  "sr_block now samp_sec packets_sent bytes_sent =
    (let ntp = TV2NTP_64 now in
     \<lparr>si_ntp_sec = ntp64_sec ntp, si_ntp_frac = ntp64_frac ntp,
      si_rtp_ts = samp_sec * word_of_int (tv_sec now) + samp_sec * word_of_int (tv_usec now) div 1000000,
      si_psent = packets_sent, si_osent = bytes_sent\<rparr>)"

definition rtcp_send_SR :: "rtcp_env \<Rightarrow> rtp_session \<Rightarrow> rtcp_send_stats \<Rightarrow> u32 \<Rightarrow> u32 \<Rightarrow> u32 \<Rightarrow> rtcp_send_stats called" where
  "rtcp_send_SR env rtp rss samp_sec packets_sent bytes_sent =
    (let hdr = rtcp_set_hdr rtcp_common_zero RTCP_SR (rtp_ssrc rtp);
         blk = sr_block (renv_now env) samp_sec packets_sent bytes_sent
     in if \<not> renv_alloc env then Inr (rss, [Sphone_Error], - 1)
        else bnd (write_into (unat (rc_length hdr) + 1) (encode_rtcp_header hdr @ encode_sender_info blk)) (\<lambda>databuf.
          let send = Send_To (rtcp_s rtp) databuf (rtcp_dst_addr rtp) in
          if \<not> renv_sendto env then Inr (rss, [send, Sphone_Error], - 1)
          else Inr (rss\<lparr>rss_SR_pkts := rss_SR_pkts rss + 1\<rparr>, [send], 0)))"

text \<open>The loss since the last report and its fraction are computed and not used. \<open>ia_jitter\<close> is in
  milliseconds, \<open>curr_pktLost\<close> and \<open>curr_pktSeq\<close> are converted to \<open>int\<close>.\<close>

definition rr_block :: "rtcp_env \<Rightarrow> rtp_session \<Rightarrow> rtcp_rcv_stats \<Rightarrow> int \<Rightarrow> int \<Rightarrow> rtcp_rr_t" where
  "rr_block env rtp rrs ia_jitter curr_pktSeq =
    (let Tdiff = timevalsub (renv_now env) (rrs_timestamp_SR rrs) in
     \<lparr>rr_ssrc = rtp_ssrc rtp, rr_lost = renv_junk env, rr_last_seq = word_of_int curr_pktSeq,
      rr_jitter = ms2rtpTimestamp ia_jitter, rr_lsr = ntp2lsr (rrs_timestamp_SR_ntp rrs), rr_dlsr = timeval2dlsr Tdiff\<rparr>)"

definition rtcp_send_RR :: "rtcp_env \<Rightarrow> rtp_session \<Rightarrow> rtcp_rcv_stats \<Rightarrow> int \<Rightarrow> int \<Rightarrow> int \<Rightarrow> rtcp_rcv_stats called" where
  "rtcp_send_RR env rtp rrs ia_jitter curr_pktLost curr_pktSeq =
    (if rtp_ssrc rtp = 0 then Inr (rrs, [], 0)
     else
      (let hdr = rtcp_set_hdr rtcp_common_zero RTCP_RR (rtp_ssrc rtp);
           blk = rr_block env rtp rrs ia_jitter curr_pktSeq
       in if \<not> renv_alloc env then Inr (rrs, [Sphone_Error], - 1)
          else bnd (write_into (unat (rc_length hdr) + 1) (encode_rtcp_header hdr @ encode_report_block blk)) (\<lambda>databuf.
            let send = Send_To (rtcp_s rtp) databuf (rtcp_dst_addr rtp) in
            if \<not> renv_sendto env then Inr (rrs, [send, Sphone_Error], - 1)
            else Inr (rrs\<lparr>rrs_prev_pktLost := word_of_int curr_pktLost, rrs_prev_pktSeq := word_of_int curr_pktSeq,
                          rrs_RR_pkts := rrs_RR_pkts rrs + 1\<rparr>, [send], 0))))"

text \<open>The buffer of a bye has the size of the expression \<open>length + 1\<close>, an \<open>int\<close>.\<close>

definition rtcp_send_bye :: "rtcp_env \<Rightarrow> rtp_session \<Rightarrow> unit called" where
  "rtcp_send_bye env rtp =
    (let hdr = rtcp_set_hdr rtcp_common_zero RTCP_BYE (rtp_ssrc rtp) in
     if \<not> renv_alloc env then Inr ((), [Sphone_Error], - 1)
     else bnd (write_into 4 (encode_rtcp_header hdr)) (\<lambda>databuf.
       let send = Send_To (rtcp_s rtp) databuf (rtcp_dst_addr rtp) in
       if \<not> renv_sendto env then Inr ((), [send, Sphone_Error], - 1)
       else Inr ((), [send], 0)))"

text \<open>Arming the timer of the next report, from the time of the last one.\<close>

definition arm_report :: "bool \<Rightarrow> timeval \<Rightarrow> string \<Rightarrow> rtp_session \<Rightarrow> rtp_session called" where
  "arm_report ok from_time name rtp =
    (let t = timeradd from_time (tv RTCP_REPORT_INTERVAL_S 0); rtp = rtp\<lparr>rtcp_timer := t\<rparr> in
     if ok then Inr (rtp, [Reg_Timeout t name], 0) else Inr (rtp, [], - 1))"

definition rtcp_send_send_dispatch :: "rtcp_env \<Rightarrow> send_session \<Rightarrow> send_session called" where
  "rtcp_send_send_dispatch env ss =
    bnd (deref (ss_rtp ss)) (\<lambda>rtp. bnd (deref (ss_cp_audio ss)) (\<lambda>cp. bnd (deref (ss_rtcp ss)) (\<lambda>rss.
    call_or (rtcp_send_SR env rtp rss (cp_samp_sec cp) (sst_spkt (ss_stats ss)) (sst_sbytes (ss_stats ss)))
      (\<lambda>rss. let ss = ss\<lparr>ss_rtcp := Some rss\<rparr> in
        call_or (arm_report (renv_reg env) (rtcp_timer rtp) ''RTCP send SR'' rtp)
          (\<lambda>rtp. Inr (ss\<lparr>ss_rtp := Some rtp\<rparr>, [], 0)) (\<lambda>rtp. ss\<lparr>ss_rtp := Some rtp\<rparr>))
      (\<lambda>rss. ss\<lparr>ss_rtcp := Some rss\<rparr>))))"

definition rtcp_rcv_send_dispatch :: "rtcp_env \<Rightarrow> rcv_session \<Rightarrow> rcv_session called" where
  "rtcp_rcv_send_dispatch env rs =
    bnd (deref (rs_rtp rs)) (\<lambda>rtp. bnd (deref (rs_rtcp rs)) (\<lambda>rrs.
    call_or (rtcp_send_RR env rtp rrs 0 (sint (rst_lost_pkts (rs_stats rs))) (uint (seq_cur rs)))
      (\<lambda>rrs. let rs = rs\<lparr>rs_rtcp := Some rrs\<rparr> in
        call_or (arm_report (renv_reg env) (rtcp_timer rtp) ''RTCP send RR'' rtp)
          (\<lambda>rtp. Inr (rs\<lparr>rs_rtp := Some rtp\<rparr>, [], 0)) (\<lambda>rtp. rs\<lparr>rs_rtp := Some rtp\<rparr>))
      (\<lambda>rrs. rs\<lparr>rs_rtcp := Some rrs\<rparr>)))"

definition rtcp_send_init :: "rtcp_env \<Rightarrow> bool \<Rightarrow> int \<Rightarrow> send_session \<Rightarrow> send_session called" where
  "rtcp_send_init env reg_fd s ss =
    bnd (deref (ss_rtp ss)) (\<lambda>rtp.
    call_or (arm_report (renv_reg env) (renv_now env) ''RTCP send SR'' rtp)
      (\<lambda>rtp. let ss = ss\<lparr>ss_rtp := Some rtp\<rparr> in
        if reg_fd then Inr (ss, [Reg_Fd s ''RTCP send receiver''], 0) else Inr (ss, [], - 1))
      (\<lambda>rtp. ss\<lparr>ss_rtp := Some rtp\<rparr>))"

definition rtcp_rcv_init :: "rtcp_env \<Rightarrow> bool \<Rightarrow> int \<Rightarrow> rcv_session \<Rightarrow> rcv_session called" where
  "rtcp_rcv_init env reg_fd s rs =
    bnd (deref (rs_rtp rs)) (\<lambda>rtp.
    call_or (arm_report (renv_reg env) (renv_now env) ''RTCP send RR'' rtp)
      (\<lambda>rtp. let rs = rs\<lparr>rs_rtp := Some rtp\<rparr> in
        if reg_fd then Inr (rs, [Reg_Fd s ''RTCP rcv receiver''], 0) else Inr (rs, [], - 1))
      (\<lambda>rtp. rs\<lparr>rs_rtp := Some rtp\<rparr>))"

section \<open>Receiving\<close>

text \<open>The fraction lost is a number below 1 that is converted to an integer; the cumulative loss is an
  arithmetic shift of the \<open>int32_t\<close>.\<close>

definition rtcp_receive_RR :: "timeval \<Rightarrow> bytes \<Rightarrow> rtcp_send_stats \<Rightarrow> (rtcp_send_stats \<times> int) res" where
  "rtcp_receive_RR T1 p rss =
    (let rss = rss\<lparr>rss_RR_pkts := rss_RR_pkts rss + 1\<rparr> in
     bnd (decode_report_block p) (\<lambda>(RR_block, p).
       Inr (rss\<lparr>rss_peer_fraction_lost := word_of_int (uint (rtcp_get_lost_frac (rr_lost RR_block)) div 256),
                rss_peer_jitter := rtpTimestamp2ms (rr_jitter RR_block),
                rss_RTT_delay := calculateRTT (rr_lsr RR_block) (rr_dlsr RR_block) T1,
                rss_peer_culm_lost := signed_drop_bit 24 (rr_lost RR_block),
                rss_peer_last_seq := rr_last_seq RR_block\<rparr>, 0)))"

definition rtcp_receive_SR :: "timeval \<Rightarrow> bytes \<Rightarrow> rtcp_rcv_stats \<Rightarrow> (rtcp_rcv_stats \<times> int) res" where
  "rtcp_receive_SR now p rrs =
    (let rrs = rrs\<lparr>rrs_timestamp_SR := now, rrs_SR_pkts := rrs_SR_pkts rrs + 1\<rparr> in
     bnd (decode_sender_info p) (\<lambda>(SR_block, p).
       Inr (rrs\<lparr>rrs_timestamp_SR_ntp := \<lparr>ntp_sec = ucast (si_ntp_sec SR_block AND 0xffff),
                                       ntp_frac = ucast (drop_bit 16 (si_ntp_frac SR_block))\<rparr>,
                rrs_packets_sent2us := si_psent SR_block, rrs_bytes_sent2us := si_osent SR_block\<rparr>, 0)))"

text \<open>The statistics come as a \<open>void *\<close>; the type expected says which they are. Using them as the
  other kind is an access outside the object.\<close>

datatype rtcp_stats = Send_Stats rtcp_send_stats | Rcv_Stats rtcp_rcv_stats

definition rtcp_switch :: "timeval \<Rightarrow> int \<Rightarrow> int \<Rightarrow> bytes \<Rightarrow> rtcp_stats \<Rightarrow> (rtcp_stats \<times> effect list \<times> int) res" where
  "rtcp_switch now type expected p stats =
    (if type = RTCP_SR then
       (if type \<noteq> expected then Inr (stats, [], 0)
        else case stats of Rcv_Stats rrs \<Rightarrow> bnd (rtcp_receive_SR now p rrs) (\<lambda>(rrs, r). Inr (Rcv_Stats rrs, [], r))
                         | Send_Stats _ \<Rightarrow> Inl Out_Of_Bounds)
     else if type = RTCP_RR then
       (if type \<noteq> expected then Inr (stats, [], 0)
        else case stats of Send_Stats rss \<Rightarrow> bnd (rtcp_receive_RR now p rss) (\<lambda>(rss, r). Inr (Send_Stats rss, [], r))
                         | Rcv_Stats _ \<Rightarrow> Inl Out_Of_Bounds)
     else if type = RTCP_BYE then Inr (stats, [Sphone_Warning], 0)
     else Inr (stats, [Sphone_Warning], 0))"

record rtcp_renv =
  rr_recv :: recv_result
  rr_mem :: "nat \<Rightarrow> u8"
  rr_alloc :: bool
  rr_now :: timeval

definition rtcp_receive :: "rtcp_renv \<Rightarrow> rtp_session \<Rightarrow> rtcp_stats \<Rightarrow> int \<Rightarrow> (rtp_session \<times> rtcp_stats) called" where
  "rtcp_receive env rtp stats expected =
    (if \<not> rr_alloc env then Inr ((rtp, stats), [Sphone_Error], - 1)
     else bnd (inet_input (rr_recv env) (fresh (rr_mem env) INBUF_LEN)) (\<lambda>((inbuf, _, from_addr), es, r).
       if r < 0 then Inr ((rtp, stats), es, - 1)
       else bnd (decode_rtcp_header inbuf) (\<lambda>(hdr, p).
         let type = uint (rtcp_get_t (rc_flags hdr));
             rtp' = (if rtp_ssrc rtp = 0
                     then rtp\<lparr>rtp_ssrc := rc_ssrc hdr, rtcp_dst_addr := (rtcp_dst_addr rtp)\<lparr>s_addr := s_addr from_addr\<rparr>\<rparr>
                     else rtp)
         in if rtp_ssrc rtp \<noteq> 0 \<and> rtp_ssrc rtp \<noteq> rc_ssrc hdr then Inr ((rtp, stats), es @ [Sphone_Warning], 0)
            else bnd (rtcp_switch (rr_now env) type expected p stats) (\<lambda>(stats, es', r). Inr ((rtp', stats), es @ es', r)))))"

definition rtcp_send_rcv_dispatch :: "rtcp_renv \<Rightarrow> int \<Rightarrow> send_session \<Rightarrow> send_session called" where
  "rtcp_send_rcv_dispatch env s ss =
    bnd (deref (ss_rtp ss)) (\<lambda>rtp.
      if s \<noteq> rtcp_s rtp then Inl Assert_Failed
      else bnd (deref (ss_rtcp ss)) (\<lambda>rss. bnd (rtcp_receive env rtp (Send_Stats rss) RTCP_RR) (\<lambda>((rtp, stats), es, r).
        case stats of Send_Stats rss \<Rightarrow> Inr (ss\<lparr>ss_rtp := Some rtp, ss_rtcp := Some rss\<rparr>, es, if r < 0 then - 1 else 0)
        | Rcv_Stats _ \<Rightarrow> Inl Out_Of_Bounds)))"

definition rtcp_rcv_rcv_dispatch :: "rtcp_renv \<Rightarrow> int \<Rightarrow> rcv_session \<Rightarrow> rcv_session called" where
  "rtcp_rcv_rcv_dispatch env s rs =
    bnd (deref (rs_rtp rs)) (\<lambda>rtp.
      if s \<noteq> rtcp_s rtp then Inl Assert_Failed
      else bnd (deref (rs_rtcp rs)) (\<lambda>rrs. bnd (rtcp_receive env rtp (Rcv_Stats rrs) RTCP_SR) (\<lambda>((rtp, stats), es, r).
        case stats of Rcv_Stats rrs \<Rightarrow> Inr (rs\<lparr>rs_rtp := Some rtp, rs_rtcp := Some rrs\<rparr>, es, if r < 0 then - 1 else 0)
        | Send_Stats _ \<Rightarrow> Inl Out_Of_Bounds)))"

section \<open>Lemmas\<close>

lemma report_lengths:
  "unat (rc_length (rtcp_set_hdr h RTCP_SR s)) = 27" "unat (rc_length (rtcp_set_hdr h RTCP_RR s)) = 31"
  by (simp_all add: rtcp_set_hdr_def Let_def)

lemma report_header:
  "rc_ssrc (rtcp_set_hdr h ty s) = s"
  "uint (rtcp_get_t (rc_flags (rtcp_set_hdr h RTCP_SR s))) = RTCP_SR"
  "uint (rtcp_get_t (rc_flags (rtcp_set_hdr h RTCP_RR s))) = RTCP_RR"
  by (simp_all add: rtcp_set_hdr_def Let_def rtcp_t.get_set)

text \<open>What the two reports look like on the wire.\<close>

lemma send_SR_ok:
  assumes "renv_alloc env" "renv_sendto env"
  shows "rtcp_send_SR env rtp rss f ps bs = Inr (rss\<lparr>rss_SR_pkts := rss_SR_pkts rss + 1\<rparr>,
    [Send_To (rtcp_s rtp) (encode_rtcp_header (rtcp_set_hdr rtcp_common_zero RTCP_SR (rtp_ssrc rtp)) @
       encode_sender_info (sr_block (renv_now env) f ps bs)) (rtcp_dst_addr rtp)], 0)"
  using assms by (simp add: rtcp_send_SR_def Let_def write_into_def report_lengths hdr.enc_length si.enc_length)

lemma send_RR_ok:
  assumes "renv_alloc env" "renv_sendto env" "rtp_ssrc rtp \<noteq> 0"
  shows "rtcp_send_RR env rtp rrs j l q = Inr (rrs\<lparr>rrs_prev_pktLost := word_of_int l, rrs_prev_pktSeq := word_of_int q,
      rrs_RR_pkts := rrs_RR_pkts rrs + 1\<rparr>,
    [Send_To (rtcp_s rtp) (encode_rtcp_header (rtcp_set_hdr rtcp_common_zero RTCP_RR (rtp_ssrc rtp)) @
       encode_report_block (rr_block env rtp rrs j q)) (rtcp_dst_addr rtp)], 0)"
  using assms by (simp add: rtcp_send_RR_def Let_def write_into_def report_lengths hdr.enc_length rr.enc_length)

lemma rtcp_input:
  assumes "length b \<le> INBUF_LEN - 8"
  shows "\<exists>rest. inet_input (Received (encode_rtcp_header h @ b) addr 16) (fresh mem INBUF_LEN)
    = Inr ((encode_rtcp_header h @ b @ rest, 8 + length b, addr), [], 0)"
proof -
  have "encode_rtcp_header h \<noteq> []" using hdr.enc_length [of h] by auto
  then show ?thesis using assms by (auto simp: inet_input_def Let_def hdr.enc_length)
qed

text \<open>A report from a peer that is, or becomes, the one locked on.\<close>

lemma rtcp_receive_report:
  assumes "rtp_ssrc rtp = 0 \<or> rtp_ssrc rtp = rc_ssrc h" "length b \<le> INBUF_LEN - 8" "rr_alloc env"
    and "rr_recv env = Received (encode_rtcp_header h @ b) addr 16"
    and "\<And>rest. rtcp_switch (rr_now env) (uint (rtcp_get_t (rc_flags h))) expected (b @ rest) stats = Inr (stats', [], 0)"
  shows "\<exists>rtp'. rtcp_receive env rtp stats expected = Inr ((rtp', stats'), [], 0) \<and>
    rtp_ssrc rtp' = rc_ssrc h \<and> rtcp_s rtp' = rtcp_s rtp \<and> rtcp_timer rtp' = rtcp_timer rtp"
proof -
  obtain rest where "inet_input (rr_recv env) (fresh (rr_mem env) INBUF_LEN)
      = Inr ((encode_rtcp_header h @ b @ rest, 8 + length b, addr), [], 0)"
    using rtcp_input [OF assms(2), of h addr "rr_mem env"] assms(4) by auto
  then show ?thesis using assms(1,3,5) by (auto simp: rtcp_receive_def Let_def hdr.dec_enc)
qed

lemma lost_frac_below_1: "uint (rtcp_get_lost_frac v) div 256 = 0"
proof -
  have "uint (drop_bit 24 w) < 256" for w :: u32
  proof -
    have "uint w < 256 * 2 ^ 24" using uint_lt2p [of w] by simp
    then have "uint w div 2 ^ 24 < 256" by (rule div_upper [rotated]) simp
    moreover have "drop_bit 24 (uint w) = uint w div 2 ^ 24" by (rule drop_bit_eq_div)
    moreover have "uint (drop_bit 24 w) = drop_bit 24 (uint w)"
      using uint_lt2p [of w] by (simp add: unsigned_drop_bit_eq take_bit_int_eq_self [of "uint w" 32])
    ultimately show ?thesis by simp
  qed
  then have "uint (rtcp_get_lost_frac v) < 256" unfolding rtcp_get_lost_frac_def .
  then show ?thesis by (simp add: div_pos_pos_trivial)
qed

text \<open>The times for which a sender's reports are registered, one dispatch after the other.\<close>

fun report_times :: "rtcp_env list \<Rightarrow> send_session \<Rightarrow> timeval list res" where
  "report_times [] ss = Inr []"
| "report_times (env # envs) ss =
    bnd (rtcp_send_send_dispatch env ss) (\<lambda>(ss, es, r).
      bnd (report_times envs ss) (\<lambda>ts. Inr ([t. Reg_Timeout t _ \<leftarrow> es] @ ts)))"

lemma dispatch_rearms:
  assumes "ss_rtp ss = Some rtp" "ss_rtcp ss = Some rss" "ss_cp_audio ss = Some cp"
    and "renv_alloc env" "renv_sendto env" "renv_reg env"
  shows "\<exists>ss' send. rtcp_send_send_dispatch env ss
      = Inr (ss', [send, Reg_Timeout (timeradd (rtcp_timer rtp) (tv 5 0)) ''RTCP send SR''], 0) \<and>
    ss_rtp ss' = Some (rtp\<lparr>rtcp_timer := timeradd (rtcp_timer rtp) (tv 5 0)\<rparr>) \<and> ss_cp_audio ss' = Some cp \<and>
    (\<exists>rss'. ss_rtcp ss' = Some rss') \<and> (\<exists>a d b. send = Send_To a d b)"
  using assms by (simp add: rtcp_send_send_dispatch_def send_SR_ok arm_report_def Let_def)

section \<open>Properties\<close>

text \<open>A bye is never sent: the buffer for it has 4 octets, whatever the session, and the header of 8
  octets is written into it.\<close>

lemma bye_overflows:
  "rtcp_send_bye env rtp = (if renv_alloc env then Inl Out_Of_Bounds else Inr ((), [Sphone_Error], - 1))"
  by (simp add: rtcp_send_bye_def write_into_def hdr.enc_length Let_def)

text \<open>The time stamp that the receiver reports back for a sender report sent at \<open>t\<close>: the middle 32 bits
  of the 64-bit time.\<close>

definition report_lsr :: "timeval \<Rightarrow> u32" where
  "report_lsr t = ntp2lsr \<lparr>ntp_sec = ucast (ntp64_sec (TV2NTP_64 t) AND 0xffff),
     ntp_frac = ucast (drop_bit 16 (ntp64_frac (TV2NTP_64 t)))\<rparr>"

definition report_env :: "timeval \<Rightarrow> u32 \<Rightarrow> rtcp_env" where
  "report_env t junk = \<lparr>renv_now = t, renv_alloc = True, renv_sendto = True, renv_reg = True, renv_junk = junk\<rparr>"

definition report_renv :: "timeval \<Rightarrow> (nat \<Rightarrow> u8) \<Rightarrow> bytes \<Rightarrow> sockaddr_in \<Rightarrow> rtcp_renv" where
  "report_renv t mem d addr = \<lparr>rr_recv = Received d addr 16, rr_mem = mem, rr_alloc = True, rr_now = t\<rparr>"

text \<open>C14. A round of reports: a sender's report at T0 that arrives at T1, and the receiver's report at T2
  that arrives at T3, are understood at the other end. The receiver then knows the octets and
  packets the sender counted, the sender knows the last sequence number received, and its delay
  is the round-trip formula applied to exactly these four times. Its loss figures come from an
  uninitialised word, and the fraction lost is always 0.\<close>

theorem report_exchange:
  assumes "ss_rtp ss = Some rtp" "ss_rtcp ss = Some rss" "ss_cp_audio ss = Some cp" "rtp_ssrc rtp \<noteq> 0"
    and "rs_rtp rs = Some rtp'" "rs_rtcp rs = Some rrs" "rtp_ssrc rtp' = 0 \<or> rtp_ssrc rtp' = rtp_ssrc rtp"
  shows "\<exists>ss1 d1 a1 t1 rs1 rs2 d2 a2 t2 ss2 rrs2 rss2.
    rtcp_send_send_dispatch (report_env T0 j0) ss = Inr (ss1, [Send_To (rtcp_s rtp) d1 a1, Reg_Timeout t1 ''RTCP send SR''], 0) \<and>
    rtcp_rcv_rcv_dispatch (report_renv T1 m1 d1 from1) (rtcp_s rtp') rs = Inr (rs1, [], 0) \<and>
    rtcp_rcv_send_dispatch (report_env T2 j2) rs1 = Inr (rs2, [Send_To (rtcp_s rtp') d2 a2, Reg_Timeout t2 ''RTCP send RR''], 0) \<and>
    rtcp_send_rcv_dispatch (report_renv T3 m3 d2 from3) (rtcp_s rtp) ss1 = Inr (ss2, [], 0) \<and>
    rs_rtcp rs2 = Some rrs2 \<and> ss_rtcp ss2 = Some rss2 \<and>
    rrs_packets_sent2us rrs2 = sst_spkt (ss_stats ss) \<and> rrs_bytes_sent2us rrs2 = sst_sbytes (ss_stats ss) \<and>
    rss_peer_last_seq rss2 = ucast (seq_cur rs) \<and> rss_peer_fraction_lost rss2 = 0 \<and>
    rss_peer_culm_lost rss2 = signed_drop_bit 24 j2 \<and>
    rss_RTT_delay rss2 = calculateRTT (report_lsr T0) (timeval2dlsr (timevalsub T2 T1)) T3"
proof -
  let ?h1 = "rtcp_set_hdr rtcp_common_zero RTCP_SR (rtp_ssrc rtp)" and ?h2 = "rtcp_set_hdr rtcp_common_zero RTCP_RR (rtp_ssrc rtp)"
  let ?b1 = "encode_sender_info (sr_block T0 (cp_samp_sec cp) (sst_spkt (ss_stats ss)) (sst_sbytes (ss_stats ss)))"
  obtain ss1 t1 where a: "rtcp_send_send_dispatch (report_env T0 j0) ss
      = Inr (ss1, [Send_To (rtcp_s rtp) (encode_rtcp_header ?h1 @ ?b1) (rtcp_dst_addr rtp), Reg_Timeout t1 ''RTCP send SR''], 0)"
    and ss1: "ss_rtp ss1 = Some (rtp\<lparr>rtcp_timer := t1\<rparr>)" "ss_rtcp ss1 = Some (rss\<lparr>rss_SR_pkts := rss_SR_pkts rss + 1\<rparr>)"
    using assms(1-3) by (simp add: rtcp_send_send_dispatch_def send_SR_ok report_env_def arm_report_def Let_def)
  let ?rrs1 = "rrs\<lparr>rrs_timestamp_SR := T1, rrs_SR_pkts := rrs_SR_pkts rrs + 1,
      rrs_timestamp_SR_ntp := \<lparr>ntp_sec = ucast (ntp64_sec (TV2NTP_64 T0) AND 0xffff),
        ntp_frac = ucast (drop_bit 16 (ntp64_frac (TV2NTP_64 T0)))\<rparr>,
      rrs_packets_sent2us := sst_spkt (ss_stats ss), rrs_bytes_sent2us := sst_sbytes (ss_stats ss)\<rparr>"
  let ?e1 = "report_renv T1 m1 (encode_rtcp_header ?h1 @ ?b1) from1"
  have sw: "rtcp_switch (rr_now ?e1) (uint (rtcp_get_t (rc_flags ?h1))) RTCP_SR (?b1 @ rest) (Rcv_Stats rrs) = Inr (Rcv_Stats ?rrs1, [], 0)" for rest
    by (simp add: rtcp_switch_def report_header rtcp_receive_SR_def si.dec_enc sr_block_def report_renv_def Let_def)
  obtain rtp1 where b1: "rtcp_receive ?e1 rtp' (Rcv_Stats rrs) RTCP_SR = Inr ((rtp1, Rcv_Stats ?rrs1), [], 0)"
      "rtp_ssrc rtp1 = rtp_ssrc rtp" "rtcp_s rtp1 = rtcp_s rtp'"
    using rtcp_receive_report [OF _ _ _ _ sw, of rtp' from1] assms(7)
    by (auto simp: report_header report_renv_def si.enc_length)
  define rs1 where "rs1 = rs\<lparr>rs_rtp := Some rtp1, rs_rtcp := Some ?rrs1\<rparr>"
  have b: "rtcp_rcv_rcv_dispatch ?e1 (rtcp_s rtp') rs = Inr (rs1, [], 0)"
    using assms(5,6) b1(1) by (simp add: rtcp_rcv_rcv_dispatch_def rs1_def)
  let ?b2 = "rr_block (report_env T2 j2) rtp1 ?rrs1 0 (uint (seq_cur rs))"
  obtain rs2 rrs2 t2 where c: "rtcp_rcv_send_dispatch (report_env T2 j2) rs1
      = Inr (rs2, [Send_To (rtcp_s rtp') (encode_rtcp_header ?h2 @ encode_report_block ?b2) (rtcp_dst_addr rtp1), Reg_Timeout t2 ''RTCP send RR''], 0)"
    and rs2: "rs_rtcp rs2 = Some rrs2" "rrs_packets_sent2us rrs2 = sst_spkt (ss_stats ss)" "rrs_bytes_sent2us rrs2 = sst_sbytes (ss_stats ss)"
    using assms(4) b1(2,3)
    by (simp add: rtcp_rcv_send_dispatch_def rs1_def send_RR_ok report_env_def arm_report_def Let_def)
  let ?e3 = "report_renv T3 m3 (encode_rtcp_header ?h2 @ encode_report_block ?b2) from3"
  let ?rss2 = "rss\<lparr>rss_SR_pkts := rss_SR_pkts rss + 1, rss_RR_pkts := rss_RR_pkts rss + 1,
      rss_peer_fraction_lost := word_of_int (uint (rtcp_get_lost_frac j2) div 256),
      rss_peer_jitter := rtpTimestamp2ms (ms2rtpTimestamp 0),
      rss_RTT_delay := calculateRTT (report_lsr T0) (timeval2dlsr (timevalsub T2 T1)) T3,
      rss_peer_culm_lost := signed_drop_bit 24 j2, rss_peer_last_seq := ucast (seq_cur rs)\<rparr>"
  have sw2: "rtcp_switch (rr_now ?e3) (uint (rtcp_get_t (rc_flags ?h2))) RTCP_RR (encode_report_block ?b2 @ rest)
      (Send_Stats (rss\<lparr>rss_SR_pkts := rss_SR_pkts rss + 1\<rparr>)) = Inr (Send_Stats ?rss2, [], 0)" for rest
    by (simp add: rtcp_switch_def report_header rtcp_receive_RR_def rr.dec_enc rr_block_def report_renv_def report_env_def
        report_lsr_def Let_def)
  obtain rtp2 where d1: "rtcp_receive ?e3 (rtp\<lparr>rtcp_timer := t1\<rparr>) (Send_Stats (rss\<lparr>rss_SR_pkts := rss_SR_pkts rss + 1\<rparr>)) RTCP_RR
      = Inr ((rtp2, Send_Stats ?rss2), [], 0)"
    using rtcp_receive_report [OF _ _ _ _ sw2, of "rtp\<lparr>rtcp_timer := t1\<rparr>" from3]
    by (auto simp: report_header report_renv_def rr.enc_length)
  have d: "rtcp_send_rcv_dispatch ?e3 (rtcp_s rtp) ss1 = Inr (ss1\<lparr>ss_rtp := Some rtp2, ss_rtcp := Some ?rss2\<rparr>, [], 0)"
    using ss1 d1 by (simp add: rtcp_send_rcv_dispatch_def)
  have f: "uint (rtcp_get_lost_frac j2) div 256 = 0" by (rule lost_frac_below_1)
  show ?thesis using a b c d rs2 f by (intro exI conjI) (assumption | simp)+
qed

theorem report_exchange_witness:
  "\<exists>ss1 d1 a1 t1 rs1. rtcp_send_send_dispatch (report_env (tv 100 0) 0)
      ((demo_send_session CODING_ALAW coding_l16_2alaw)\<lparr>ss_rtp := Some (rtp_session_new\<lparr>rtp_ssrc := 7, rtcp_s := 4\<rparr>),
         ss_rtcp := fst (rtcp_send_stats_new True)\<rparr>) = Inr (ss1, [Send_To 4 d1 a1, Reg_Timeout t1 ''RTCP send SR''], 0) \<and>
    rtcp_rcv_rcv_dispatch (report_renv (tv 100 5) (\<lambda>_. 0) d1 zero_addr) 0 demo_rcv_session = Inr (rs1, [], 0)"
proof -
  obtain rss where r: "fst (rtcp_send_stats_new True) = Some rss" by (simp add: rtcp_send_stats_new_def)
  obtain rtp' rrs where d: "rs_rtp demo_rcv_session = Some rtp'" "rs_rtcp demo_rcv_session = Some rrs" "rtp_ssrc rtp' = 0" "rtcp_s rtp' = 0"
    by (simp add: demo_rcv_session_def rtp_session_new_def)
  let ?ss = "(demo_send_session CODING_ALAW coding_l16_2alaw)\<lparr>ss_rtp := Some (rtp_session_new\<lparr>rtp_ssrc := 7, rtcp_s := 4\<rparr>),
      ss_rtcp := fst (rtcp_send_stats_new True)\<rparr>"
  have "ss_rtp ?ss = Some (rtp_session_new\<lparr>rtp_ssrc := 7, rtcp_s := 4\<rparr>)" "ss_rtcp ?ss = Some rss" "ss_cp_audio ?ss = Some demo_cpa"
    by (simp_all add: r demo_send_session_def)
  from report_exchange [OF this _ d(1,2), of "tv 100 0" 0 "tv 100 5" "\<lambda>_. 0" zero_addr "tv 101 0" 0 "tv 101 5" "\<lambda>_. 0" zero_addr]
  show ?thesis using d(3,4) by (auto simp: rtp_session_new_def)
qed

text \<open>C15. The reports of a sender recur for as long as the event loop runs them, every five seconds exactly:
  each dispatch registers the next one 5 s after the time its own was registered for, however late
  it runs, so delays never add up.\<close>

theorem reports_recur_without_drift:
  assumes "ss_rtp ss = Some rtp" "ss_rtcp ss = Some rss" "ss_cp_audio ss = Some cp"
    and "\<forall>env \<in> set envs. renv_alloc env \<and> renv_sendto env \<and> renv_reg env"
  shows "\<exists>ts. report_times envs ss = Inr ts \<and>
    map tv_us ts = map (\<lambda>i. tv_us (rtcp_timer rtp) + 5000000 * int (Suc i)) [0..<length envs]"
  using assms
proof (induction envs arbitrary: ss rtp rss)
  case (Cons env envs)
  obtain ss' send rss' where d: "rtcp_send_send_dispatch env ss
      = Inr (ss', [send, Reg_Timeout (timeradd (rtcp_timer rtp) (tv 5 0)) ''RTCP send SR''], 0)"
    and ss': "ss_rtp ss' = Some (rtp\<lparr>rtcp_timer := timeradd (rtcp_timer rtp) (tv 5 0)\<rparr>)" "ss_cp_audio ss' = Some cp" "ss_rtcp ss' = Some rss'"
    and send: "\<exists>a d b. send = Send_To a d b"
    using dispatch_rearms [OF Cons.prems(1-3), of env] Cons.prems(4) by auto
  obtain ts where ts: "report_times envs ss' = Inr ts"
    "map tv_us ts = map (\<lambda>i. tv_us (timeradd (rtcp_timer rtp) (tv 5 0)) + 5000000 * int (Suc i)) [0..<length envs]"
    using Cons.IH [OF ss'(1,3,2)] Cons.prems(4) by auto
  have five: "tv_us (tv 5 0) = 5000000" by (simp add: tv_us_def)
  have "map tv_us ts = map (\<lambda>i. tv_us (rtcp_timer rtp) + 5000000 * int (Suc i)) (map Suc [0..<length envs])"
    unfolding ts(2) by (simp add: five o_def)
  then show ?case using d ts(1) send five
    by (auto simp: upt_conv_Cons [of 0] simp flip: map_Suc_upt simp del: upt_Suc)
qed simp

theorem reports_recur_without_drift_witness:
  "\<exists>ts. report_times [report_env (tv 106 0) 0, report_env (tv 111 5) 0]
      ((demo_send_session CODING_ALAW coding_l16_2alaw)\<lparr>ss_rtp := Some (rtp_session_new\<lparr>rtcp_timer := tv 105 0\<rparr>),
         ss_rtcp := fst (rtcp_send_stats_new True)\<rparr>) = Inr ts \<and> map tv_us ts = [110000000, 115000000]"
proof -
  obtain rss where r: "fst (rtcp_send_stats_new True) = Some rss" by (simp add: rtcp_send_stats_new_def)
  show ?thesis
    using reports_recur_without_drift [of "(demo_send_session CODING_ALAW coding_l16_2alaw)\<lparr>ss_rtp := Some (rtp_session_new\<lparr>rtcp_timer := tv 105 0\<rparr>),
        ss_rtcp := fst (rtcp_send_stats_new True)\<rparr>" "rtp_session_new\<lparr>rtcp_timer := tv 105 0\<rparr>" rss demo_cpa
        "[report_env (tv 106 0) 0, report_env (tv 111 5) 0]"] r
    by (simp add: demo_send_session_def report_env_def tv_us_def upt_rec)
qed

end
