(* ===== verification/Errors.thy ===== *)
theory Errors
  imports Sphone_Base
begin

text \<open>
  The exit and error machinery of \<open>src/sphone_error.c\<close>. A module registers an exit function;
  \<open>sphone_error\<close> and the signal handler call all of them and count in \<open>sphone_exit\<close> how far
  the program has got with exiting.

  An exit function can itself report an error, which re-enters \<open>sphone_error\<close>. Which ones do is
  the parameter \<open>errs\<close>. The outcome of a call is the list of exit functions that ran, whether
  the process ended (\<open>exit(0)\<close>), and the new \<open>sphone_exit\<close>.
\<close>

record ('f, 'a) err_handler =
  eh_fn :: 'f
  eh_arg :: 'a
  eh_string :: string

record ('f, 'a) err_state =
  sphone_exit :: nat
  Err_handler :: "('f, 'a) err_handler list"

definition err_init :: "('f, 'a) err_state" where
  "err_init = \<lparr>sphone_exit = 0, Err_handler = []\<rparr>"

text \<open>The name is copied into 32 characters with its terminator. \<open>ok\<close> tells whether the
  allocation succeeds; when it does not, the code reports an error and returns -1.\<close>

definition exit_register ::
  "bool \<Rightarrow> 'f \<Rightarrow> 'a \<Rightarrow> string \<Rightarrow> ('f, 'a) err_state \<Rightarrow> (('f, 'a) err_state \<times> int) res" where
  "exit_register ok fn arg str st =
    (if \<not> ok then Inr (st, - 1)
     else if 32 \<le> length str then Inl Out_Of_Bounds
     else Inr (st\<lparr>Err_handler := \<lparr>eh_fn = fn, eh_arg = arg, eh_string = str\<rparr> # Err_handler st\<rparr>, 0))"

record 'h outcome =
  calls :: "'h list"
  ended :: bool
  exit_count :: nat

text \<open>\<open>exit_handler errs hs x r\<close> is the loop with the functions \<open>r\<close> still to call while
  \<open>sphone_exit\<close> is \<open>x\<close>; \<open>hs\<close> is the whole list, where a nested error starts again.\<close>

function exit_handler :: "('h \<Rightarrow> bool) \<Rightarrow> 'h list \<Rightarrow> nat \<Rightarrow> 'h list \<Rightarrow> 'h outcome" where
  "exit_handler errs hs x [] = \<lparr>calls = [], ended = False, exit_count = x\<rparr>"
| "exit_handler errs hs x (h # r) =
    (if \<not> errs h then
       (let k = exit_handler errs hs x r in k\<lparr>calls := h # calls k\<rparr>)
     else if x \<noteq> 0 then \<lparr>calls = [h], ended = True, exit_count = x\<rparr>
     else
       (let n = exit_handler errs hs 1 hs in
        if ended n then n\<lparr>calls := h # calls n\<rparr>
        else (let k = exit_handler errs hs 1 r in k\<lparr>calls := h # calls n @ calls k\<rparr>)))"
  by pat_completeness auto

termination
  by (relation "measures [\<lambda>(errs, hs, x, r). if x = 0 then 1 else 0, \<lambda>(errs, hs, x, r). length r]") auto

definition sphone_verror :: "(('f, 'a) err_handler \<Rightarrow> bool) \<Rightarrow> ('f, 'a) err_state
    \<Rightarrow> ('f, 'a) err_handler outcome" where
  "sphone_verror errs st =
    (if 1 < sphone_exit st then \<lparr>calls = [], ended = True, exit_count = sphone_exit st\<rparr>
     else if sphone_exit st \<noteq> 0 then \<lparr>calls = [], ended = True, exit_count = sphone_exit st\<rparr>
     else exit_handler errs (Err_handler st) (sphone_exit st + 1) (Err_handler st))"

definition sphone_error :: "(('f, 'a) err_handler \<Rightarrow> bool) \<Rightarrow> ('f, 'a) err_state
    \<Rightarrow> ('f, 'a) err_handler outcome" where
  "sphone_error errs st = sphone_verror errs st"

text \<open>The signal handler calls the exit functions before it counts, and then exits.\<close>

definition sphone_signal_exit :: "(('f, 'a) err_handler \<Rightarrow> bool) \<Rightarrow> ('f, 'a) err_state
    \<Rightarrow> ('f, 'a) err_handler outcome" where
  "sphone_signal_exit errs st =
    (if sphone_exit st \<noteq> 0 then \<lparr>calls = [], ended = True, exit_count = sphone_exit st\<rparr>
     else (let k = exit_handler errs (Err_handler st) (sphone_exit st) (Err_handler st) in
           if ended k then k else k\<lparr>exit_count := exit_count k + 1, ended := True\<rparr>))"

text \<open>Registering a sequence of exit functions, and what they come to.\<close>

fun register_all :: "('f \<times> 'a \<times> string) list \<Rightarrow> ('f, 'a) err_state \<Rightarrow> ('f, 'a) err_state res" where
  "register_all [] st = Inr st"
| "register_all ((fn, arg, s) # rs) st = bnd (exit_register True fn arg s st) (\<lambda>(st, _). register_all rs st)"

abbreviation handler_of :: "'f \<times> 'a \<times> string \<Rightarrow> ('f, 'a) err_handler" where
  "handler_of r \<equiv> \<lparr>eh_fn = fst r, eh_arg = fst (snd r), eh_string = snd (snd r)\<rparr>"

lemma register_all_ok:
  assumes "\<forall>r \<in> set rs. length (snd (snd r)) < 32"
  shows "register_all rs st = Inr (st\<lparr>Err_handler := rev (map handler_of rs) @ Err_handler st\<rparr>)"
  using assms by (induction rs arbitrary: st) (auto simp: exit_register_def)

lemma exit_handler_quiet:
  assumes "\<forall>h \<in> set r. \<not> errs h"
  shows "exit_handler errs hs x r = \<lparr>calls = r, ended = False, exit_count = x\<rparr>"
  using assms by (induction r) (simp_all add: Let_def)

lemma exit_handler_stops:
  assumes "\<forall>h \<in> set a. \<not> errs h" "errs f" "x \<noteq> 0"
  shows "exit_handler errs hs x (a @ f # b) = \<lparr>calls = a @ [f], ended = True, exit_count = x\<rparr>"
  using assms by (induction a) (simp_all add: Let_def)

lemma exit_handler_restarts:
  assumes "\<forall>h \<in> set a. \<not> errs h" "errs f" "\<forall>h \<in> set a'. \<not> errs h"
  shows "exit_handler errs (a' @ f # b) 0 (a @ f # b)
    = \<lparr>calls = a @ [f] @ a' @ [f], ended = True, exit_count = 1\<rparr>"
  using assms by (induction a) (simp_all add: Let_def exit_handler_stops)

section \<open>Properties\<close>

text \<open>C34. When no exit function fails, the first error runs every registered exit function exactly
  once, last registered first, and returns to its caller; a second error ends the process
  without running any of them again.\<close>

theorem error_runs_exit_functions:
  assumes "\<forall>r \<in> set rs. length (snd (snd r)) < 32" "\<forall>r \<in> set rs. \<not> errs (handler_of r)"
  shows "\<exists>st. register_all rs err_init = Inr st \<and>
    sphone_error errs st = \<lparr>calls = rev (map handler_of rs), ended = False, exit_count = 1\<rparr> \<and>
    sphone_error errs (st\<lparr>sphone_exit := 1\<rparr>) = \<lparr>calls = [], ended = True, exit_count = 1\<rparr>"
  using assms
  by (simp add: register_all_ok err_init_def sphone_error_def sphone_verror_def exit_handler_quiet)

theorem error_runs_exit_functions_witness:
  "\<exists>st. register_all [(''f'', True, ''a''), (''g'', False, ''b'')] err_init = Inr st \<and>
    calls (sphone_error (\<lambda>_. False) st) = [\<lparr>eh_fn = ''g'', eh_arg = False, eh_string = ''b''\<rparr>,
      \<lparr>eh_fn = ''f'', eh_arg = True, eh_string = ''a''\<rparr>]"
  using error_runs_exit_functions [of "[(''f'', True, ''a''), (''g'', False, ''b'')]" "\<lambda>_. False"] by auto

text \<open>An exit function that reports an error itself ends the process at once after an error,
  and the functions registered before it never run. After a signal, the counter is still zero
  when the exit functions run, so the same failure starts them again: those registered
  after the failing one run twice.\<close>

lemma failing_exit_function:
  assumes "sphone_exit st = 0" "Err_handler st = a @ f # b" "\<forall>h \<in> set a. \<not> errs h" "errs f"
  shows "sphone_error errs st = \<lparr>calls = a @ [f], ended = True, exit_count = 1\<rparr> \<and>
    sphone_signal_exit errs st = \<lparr>calls = a @ [f] @ a @ [f], ended = True, exit_count = 1\<rparr>"
  using assms exit_handler_restarts [of a errs f a b]
  by (simp add: sphone_error_def sphone_verror_def exit_handler_stops sphone_signal_exit_def Let_def)

lemma failing_exit_function_witness:
  "calls (sphone_signal_exit (\<lambda>h. eh_fn h = ''f'')
     \<lparr>sphone_exit = 0, Err_handler = [\<lparr>eh_fn = ''g'', eh_arg = (), eh_string = ''b''\<rparr>,
        \<lparr>eh_fn = ''f'', eh_arg = (), eh_string = ''a''\<rparr>]\<rparr>)
   = [\<lparr>eh_fn = ''g'', eh_arg = (), eh_string = ''b''\<rparr>, \<lparr>eh_fn = ''f'', eh_arg = (), eh_string = ''a''\<rparr>,
      \<lparr>eh_fn = ''g'', eh_arg = (), eh_string = ''b''\<rparr>, \<lparr>eh_fn = ''f'', eh_arg = (), eh_string = ''a''\<rparr>]"
  using failing_exit_function [of "\<lparr>sphone_exit = 0, Err_handler = [\<lparr>eh_fn = ''g'', eh_arg = (), eh_string = ''b''\<rparr>,
        \<lparr>eh_fn = ''f'', eh_arg = (), eh_string = ''a''\<rparr>]\<rparr>" "[\<lparr>eh_fn = ''g'', eh_arg = (), eh_string = ''b''\<rparr>]"
      "\<lparr>eh_fn = ''f'', eh_arg = (), eh_string = ''a''\<rparr>" "[]" "\<lambda>h. eh_fn h = ''f''"]
  by simp

end
