(* ===== verification/Sp_Proto.thy ===== *)
theory Sp_Proto
  imports Rtp_Session
begin

text \<open>
  The protocol between the measurement server and its clients: \<open>utils/sp.h\<close> and \<open>utils/sp.c\<close>.

  A message is the C struct as it lies in memory, 72 octets: the header of 12 octets and the
  union of 60, of which a registration uses the first 20 (with three octets of padding). Fields
  are kept as the object holds them, so a field in network order is still to be converted.
\<close>

section \<open>Messages\<close>

datatype sp_type = SP_TYPE_REGISTER | SP_TYPE_DEREGISTER | SP_TYPE_START_SEND | SP_TYPE_START_RCV
  | SP_TYPE_REPORT_SEND | SP_TYPE_REPORT_RCV | SP_TYPE_EXIT

primrec sp_nr :: "sp_type \<Rightarrow> u8" where
  "sp_nr SP_TYPE_REGISTER = 0"
| "sp_nr SP_TYPE_DEREGISTER = 1"
| "sp_nr SP_TYPE_START_SEND = 2"
| "sp_nr SP_TYPE_START_RCV = 3"
| "sp_nr SP_TYPE_REPORT_SEND = 4"
| "sp_nr SP_TYPE_REPORT_RCV = 5"
| "sp_nr SP_TYPE_EXIT = 6"

definition sptype_of :: "u8 \<Rightarrow> sp_type option" where
  "sptype_of n =
    (if n = 0 then Some SP_TYPE_REGISTER else if n = 1 then Some SP_TYPE_DEREGISTER
     else if n = 2 then Some SP_TYPE_START_SEND else if n = 3 then Some SP_TYPE_START_RCV
     else if n = 4 then Some SP_TYPE_REPORT_SEND else if n = 5 then Some SP_TYPE_REPORT_RCV
     else if n = 6 then Some SP_TYPE_EXIT else None)"

definition sptype2str :: "u8 \<Rightarrow> string" where
  "sptype2str n =
    (case sptype_of n of
       Some SP_TYPE_REGISTER \<Rightarrow> ''SP_TYPE_REGISTER'' | Some SP_TYPE_DEREGISTER \<Rightarrow> ''SP_TYPE_DEREGISTER''
     | Some SP_TYPE_START_SEND \<Rightarrow> ''SP_TYPE_START_SEND'' | Some SP_TYPE_START_RCV \<Rightarrow> ''SP_TYPE_START_RCV''
     | Some SP_TYPE_REPORT_SEND \<Rightarrow> ''SP_TYPE_REPORT_SEND'' | Some SP_TYPE_REPORT_RCV \<Rightarrow> ''SP_TYPE_REPORT_RCV''
     | Some SP_TYPE_EXIT \<Rightarrow> ''SP_TYPE_EXIT'' | None \<Rightarrow> ''<null>'')"

definition SP_MAGIC :: u8 where "SP_MAGIC = 0xa8"
definition SP_VERSION_NR :: u16 where "SP_VERSION_NR = 12"
definition SP_TIMEOUT_REG_NR :: int where "SP_TIMEOUT_REG_NR = 10"
definition SPC_SERVER_INTERVAL :: int where "SPC_SERVER_INTERVAL = 120"
definition SPC_INIT_INTERVAL :: int where "SPC_INIT_INTERVAL = 20"
abbreviation "SP_BUFLEN \<equiv> 64 :: nat"
abbreviation "SP_SIZE \<equiv> 72 :: nat"

record sp_proto =
  sp_magic :: u8
  sp_type :: u8
  sp_version :: u16
  sp_len :: u32
  sp_id :: u32
  sp_data :: bytes

text \<open>An address in memory is its family, port and address and eight unused octets.\<close>

definition sp_addr_encode :: "sockaddr_in \<Rightarrow> bytes" where
  "sp_addr_encode sin = [ucast (sin_family sin), 0] @ store16 (sin_port sin) @ store32 (s_addr sin) @ replicate 8 0"

definition sp_addr_decode :: "bytes \<Rightarrow> sockaddr_in" where
  "sp_addr_decode p = \<lparr>sin_family = ucast (p ! 0), sin_port = load16 (drop 2 p), s_addr = load32 (drop 4 p)\<rparr>"

record sdhdr_start =
  ss_testid :: u32
  ss_clientid_src :: u32
  ss_clientid_dst :: u32
  ss_addr_src_pub :: bytes
  ss_addr_dst_pub :: bytes
  ss_start_sec :: u32
  ss_start_usec :: u32
  ss_duration_sec :: u32
  ss_duration_usec :: u32

record sdhdr_register =
  sr_addr_pub :: bytes
  sr_busy :: u8

text \<open>The octets of the union, and the two ways to read them.\<close>

definition start_octets :: "sdhdr_start \<Rightarrow> bytes" where
  "start_octets h = store32 (ss_testid h) @ store32 (ss_clientid_src h) @ store32 (ss_clientid_dst h)
     @ ss_addr_src_pub h @ ss_addr_dst_pub h
     @ store32 (ss_start_sec h) @ store32 (ss_start_usec h)
     @ store32 (ss_duration_sec h) @ store32 (ss_duration_usec h)"

definition sp_starthdr :: "sp_proto \<Rightarrow> sdhdr_start" where
  "sp_starthdr sp = (let d = sp_data sp in
     \<lparr>ss_testid = load32 d, ss_clientid_src = load32 (drop 4 d), ss_clientid_dst = load32 (drop 8 d),
      ss_addr_src_pub = take 16 (drop 12 d), ss_addr_dst_pub = take 16 (drop 28 d),
      ss_start_sec = load32 (drop 44 d), ss_start_usec = load32 (drop 48 d),
      ss_duration_sec = load32 (drop 52 d), ss_duration_usec = load32 (drop 56 d)\<rparr>)"

definition reg_octets :: "sdhdr_register \<Rightarrow> bytes" where
  "reg_octets h = sr_addr_pub h @ [sr_busy h]"

definition sp_reghdr :: "sp_proto \<Rightarrow> sdhdr_register" where
  "sp_reghdr sp = \<lparr>sr_addr_pub = take 16 (sp_data sp), sr_busy = sp_data sp ! 16\<rparr>"

text \<open>The whole object and its octets; an object on the stack starts as whatever was there.\<close>

definition sp_octets :: "sp_proto \<Rightarrow> bytes" where
  "sp_octets sp = [sp_magic sp, sp_type sp] @ store16 (sp_version sp) @ store32 (sp_len sp)
     @ store32 (sp_id sp) @ sp_data sp"

definition sp_object :: "bytes \<Rightarrow> sp_proto" where
  "sp_object bs = \<lparr>sp_magic = bs ! 0, sp_type = bs ! 1, sp_version = load16 (drop 2 bs),
     sp_len = load32 (drop 4 bs), sp_id = load32 (drop 8 bs), sp_data = drop 12 bs\<rparr>"

text \<open>The conversion \<open>%u\<close> of \<open>sprintf\<close>.\<close>

fun dec_digits :: "nat \<Rightarrow> nat list" where
  "dec_digits n = (if n < 10 then [n] else dec_digits (n div 10) @ [n mod 10])"

declare dec_digits.simps [simp del]

definition print_nat :: "nat \<Rightarrow> bytes" where
  "print_nat n = map (\<lambda>d. 48 + of_nat d) (dec_digits n)"

text \<open>The five header assignments that every sender makes.\<close>

definition sp_fill :: "sp_type \<Rightarrow> u32 \<Rightarrow> u32 \<Rightarrow> sp_proto \<Rightarrow> sp_proto" where
  "sp_fill t len cid sp = sp\<lparr>sp_magic := SP_MAGIC, sp_type := sp_nr t, sp_version := htons SP_VERSION_NR,
     sp_len := htonl len, sp_id := htonl cid\<rparr>"

section \<open>Receiving\<close>

text \<open>
  What one \<open>recv\<close> on a connected socket does: octets arrive, the connection was reset or timed
  out, or another error. A script is what the successive calls find; octets beyond the length
  asked for stay for the next call. A call that finds no octets but an empty string learns that the peer has
  closed the connection; after the script nothing more arrives, and the socket, which blocks, keeps the caller waiting.
\<close>

datatype tcp_recv = Octets bytes | Conn_Reset | Recv_Error | Nothing_More

fun sock_recv :: "nat \<Rightarrow> tcp_recv list \<Rightarrow> tcp_recv \<times> tcp_recv list" where
  "sock_recv n [] = (Nothing_More, [])"
| "sock_recv n (Octets bs # r) = (Octets (take n bs), if n < length bs then Octets (drop n bs) # r else r)"
| "sock_recv n (x # r) = (x, r)"

text \<open>
  The loop with which both sides fill a message. After every call the cookie and the version are
  looked at, whether they have arrived or not. \<open>got\<close> is what has arrived and \<open>stack\<close> what the
  object held before.
\<close>

datatype msg_recv = Message sp_proto | Closed | Was_Reset | Failed | Bad_Magic | Bad_Version | Kept_Waiting

function recv_message :: "bytes \<Rightarrow> tcp_recv list \<Rightarrow> bytes \<Rightarrow> msg_recv \<times> tcp_recv list" where
  "recv_message stack script got =
    (if SP_SIZE \<le> length got then (Message (sp_object got), script)
     else (case sock_recv (SP_SIZE - length got) script of
         (Recv_Error, r) \<Rightarrow> (Failed, r)
       | (Conn_Reset, r) \<Rightarrow> (Was_Reset, r)
       | (Nothing_More, r) \<Rightarrow> (Kept_Waiting, r)
       | (Octets bs, r) \<Rightarrow>
           if bs = [] then (Closed, r)
           else (let got = got @ bs; sp = sp_object (got @ drop (length got) stack) in
                 if sp_magic sp \<noteq> SP_MAGIC then (Bad_Magic, r)
                 else if ntohs (sp_version sp) \<noteq> SP_VERSION_NR then (Bad_Version, r)
                 else recv_message stack r got)))"
  by auto
termination
  by (relation "measure (\<lambda>(_, _, got). SP_SIZE - length got)") (auto simp: neq_Nil_conv)

declare recv_message.simps [simp del]

section \<open>Lemmas\<close>

text \<open>A script in which the peer only sends, and neither closes the connection nor loses it.\<close>

definition only_data :: "tcp_recv list \<Rightarrow> bool" where
  "only_data script \<longleftrightarrow> (\<forall>x \<in> set (takeWhile (\<lambda>x. x \<noteq> Nothing_More) script). \<exists>bs. x = Octets bs \<and> bs \<noteq> [])"

lemma sock_recv_only_data:
  "sock_recv n script = (Nothing_More, r) \<Longrightarrow> only_data script"
  "sock_recv n script = (Octets bs, r) \<Longrightarrow> bs \<noteq> [] \<Longrightarrow> only_data r \<Longrightarrow> only_data script"
  by (cases "(n, script)" rule: sock_recv.cases; auto simp: only_data_def split: if_splits)+

lemma recv_message_only_data:
  "recv_message stack script got = (Kept_Waiting, r) \<Longrightarrow> only_data script"
  "recv_message stack script got = (Message sp, r) \<Longrightarrow> only_data r \<Longrightarrow> only_data script"
proof (induction stack script got rule: recv_message.induct)
  case (1 stack script got)
  { case 1
    then show ?case using "1.IH" sock_recv_only_data
      by (auto simp: recv_message.simps [of stack script got] Let_def split: if_splits tcp_recv.splits prod.splits)
  next
    case 2
    then show ?case using "1.IH" sock_recv_only_data
      by (auto simp: recv_message.simps [of stack script got] Let_def split: if_splits tcp_recv.splits prod.splits)
  }
qed

lemma sptype_of_nr [simp]: "sptype_of (sp_nr t) = Some t"
  by (cases t) (simp_all add: sptype_of_def)

lemma length_sp_addr_encode [simp]: "length (sp_addr_encode sin) = 16"
  by (simp add: sp_addr_encode_def)

lemma sp_addr_decode_encode:
  "sp_addr_decode (sp_addr_encode sin @ r) = sin\<lparr>sin_family := ucast (ucast (sin_family sin) :: u8)\<rparr>"
  by (simp add: sp_addr_decode_def sp_addr_encode_def bytes_simps)

lemma length_sp_octets [simp]: "length (sp_data sp) = 60 \<Longrightarrow> length (sp_octets sp) = SP_SIZE"
  by (simp add: sp_octets_def)

lemma sp_object_octets [simp]: "sp_object (sp_octets sp) = sp"
  by (simp add: sp_object_def sp_octets_def bytes_simps)

lemma start_octets_hdr:
  "length (ss_addr_src_pub h) = 16 \<Longrightarrow> length (ss_addr_dst_pub h) = 16
    \<Longrightarrow> sp_starthdr (sp\<lparr>sp_data := start_octets h\<rparr>) = h"
  by (simp add: sp_starthdr_def start_octets_def bytes_simps)

lemma length_start_octets [simp]:
  "length (ss_addr_src_pub h) = 16 \<Longrightarrow> length (ss_addr_dst_pub h) = 16 \<Longrightarrow> length (start_octets h) = 60"
  by (simp add: start_octets_def)

text \<open>An object that starts with a complete and correct header of four octets passes both tests.\<close>

lemma sp_object_prefix:
  assumes "4 \<le> length got"
  shows "sp_magic (sp_object (got @ r)) = sp_magic (sp_object got)"
    and "sp_version (sp_object (got @ r)) = sp_version (sp_object got)"
proof -
  obtain a b c d got' where g: "got = a # b # c # d # got'"
    using assms by (auto simp: numeral_eq_Suc Suc_le_length_iff)
  show "sp_magic (sp_object (got @ r)) = sp_magic (sp_object got)"
    "sp_version (sp_object (got @ r)) = sp_version (sp_object got)"
    by (simp_all add: g sp_object_def load16_def)
qed


lemma recv_message_full: "SP_SIZE \<le> length got \<Longrightarrow> recv_message stack script got = (Message (sp_object got), script)"
  by (simp add: recv_message.simps [of _ _ got])

text \<open>The digits of a number of 32 bits.\<close>

lemma length_dec_digits: "n < 10 ^ k \<Longrightarrow> 0 < k \<Longrightarrow> length (dec_digits n) \<le> k"
proof (induction k arbitrary: n)
  case (Suc k)
  show ?case
  proof (cases "n < 10")
    case False
    then have "n div 10 < 10 ^ k" "0 < k" using Suc.prems(1) by (cases k; auto)+
    then show ?thesis using Suc.IH [of "n div 10"] False by (simp add: dec_digits.simps [of n])
  qed (simp add: dec_digits.simps [of n])
qed simp

lemma length_print_u32: "length (print_nat (unat (w :: u32))) \<le> 10"
proof -
  have "unat w < 2 ^ LENGTH(32)" by (rule unsigned_less)
  then have "unat w < 10 ^ 10" by simp
  then show ?thesis by (simp add: print_nat_def length_dec_digits)
qed

definition sp_valid :: "sp_proto \<Rightarrow> bool" where
  "sp_valid sp \<longleftrightarrow> sp_magic sp = SP_MAGIC \<and> ntohs (sp_version sp) = SP_VERSION_NR \<and> length (sp_data sp) = 60"

lemma sp_fill_valid: "length (sp_data sp) = 60 \<Longrightarrow> sp_valid (sp_fill t len cid sp)"
  by (simp add: sp_valid_def sp_fill_def)

text \<open>A part of a message, in one segment, leaves the reader waiting for the rest.\<close>

lemma recv_part_waits:
  assumes "sp_valid sp" "4 \<le> k" "k < SP_SIZE"
  shows "recv_message stack [Octets (take k (sp_octets sp))] [] = (Kept_Waiting, [])"
proof -
  let ?m = "sp_octets sp"
  have len: "length ?m = SP_SIZE" using assms(1) by (simp add: sp_valid_def)
  have l: "4 \<le> length (take k ?m)" "take k ?m \<noteq> []" using assms(2,3) len by auto
  have "sp_object (take k ?m @ drop k ?m) = sp" by simp
  then have pre: "sp_magic (sp_object (take k ?m @ r)) = SP_MAGIC" "ntohs (sp_version (sp_object (take k ?m @ r))) = SP_VERSION_NR" for r
    using sp_object_prefix [OF l(1)] assms(1) unfolding sp_valid_def by metis+
  have "recv_message stack [] (take k ?m) = (Kept_Waiting, [])"
    using assms(3) len by (simp add: recv_message.simps [of _ _ "take k ?m"])
  then show ?thesis using pre l(2) assms(3) len by (simp add: recv_message.simps [of _ _ "[]"] Let_def)
qed

text \<open>Once four octets are there, the rest of a message may come in any segments.\<close>

lemma recv_message_rest:
  assumes "4 \<le> length got" "length got \<le> SP_SIZE" "got @ concat cs = sp_octets sp @ extra" "sp_valid sp"
    and "\<forall>c \<in> set cs. c \<noteq> []"
  shows "\<exists>cs'. concat cs' = extra \<and> (\<forall>c \<in> set cs'. c \<noteq> []) \<and>
    recv_message stack (map Octets cs) got = (Message sp, map Octets cs')"
  using assms
proof (induction cs arbitrary: got)
  case Nil
  then have "SP_SIZE + length extra = length got" "got = sp_octets sp @ extra"
    by (simp_all add: sp_valid_def)
  then show ?case using Nil.prems(2)
    by (intro exI [of _ "[]"]) (simp add: recv_message_full)
next
  case (Cons c cs)
  have len: "length (sp_octets sp) = SP_SIZE" using Cons.prems(4) by (simp add: sp_valid_def)
  show ?case
  proof (cases "SP_SIZE \<le> length got")
    case True
    then have "got = sp_octets sp" "concat (c # cs) = extra"
      using Cons.prems(2,3) len append_eq_append_conv [of got "sp_octets sp" "concat (c # cs)" extra] by auto
    then show ?thesis using len Cons.prems(5) by (intro exI [of _ "c # cs"]) (simp add: recv_message_full)
  next
    case False
    define n where "n = SP_SIZE - length got"
    have n: "0 < n" "length got + n = SP_SIZE" using False by (simp_all add: n_def)
    let ?got = "got @ take n c" and ?cs = "(if n < length c then drop n c # cs else cs)"
    have cat: "?got @ concat ?cs = sp_octets sp @ extra"
      using Cons.prems(3) by (auto simp flip: append_assoc) (metis append_assoc append_take_drop_id)
    have "take 4 (?got @ concat ?cs) = take 4 (sp_octets sp @ extra)" by (simp only: cat)
    then have "take 4 ?got = take 4 (sp_octets sp)" using Cons.prems(1) len by simp
    then have "?got = take 4 (sp_octets sp) @ drop 4 ?got" by (metis append_take_drop_id)
    moreover have "sp_octets sp = take 4 (sp_octets sp) @ drop 4 (sp_octets sp)" by simp
    moreover have "4 \<le> length (take 4 (sp_octets sp))" using len by simp
    ultimately have pre: "sp_magic (sp_object (?got @ r)) = sp_magic sp" "sp_version (sp_object (?got @ r)) = sp_version sp" for r
      by (metis sp_object_prefix append_assoc sp_object_octets)+
    have ne: "\<forall>c \<in> set ?cs. c \<noteq> []" using Cons.prems(5) by auto
    have "\<exists>cs'. concat cs' = extra \<and> (\<forall>c \<in> set cs'. c \<noteq> []) \<and>
        recv_message stack (map Octets ?cs) ?got = (Message sp, map Octets cs')"
    proof (cases "n < length c")
      case True
      then have "SP_SIZE \<le> length ?got" "length ?got = SP_SIZE" using n by auto
      then have "?got = sp_octets sp" "concat ?cs = extra"
        using cat len append_eq_append_conv [of ?got "sp_octets sp" "concat ?cs" extra] by auto
      then show ?thesis using len True ne by (intro exI [of _ ?cs]) (simp add: recv_message_full)
    next
      case False
      then show ?thesis using Cons.IH [of ?got] Cons.prems cat n by auto
    qed
    moreover have "sock_recv (SP_SIZE - length got) (map Octets (c # cs)) = (Octets (take n c), map Octets ?cs)"
      by (simp add: n_def)
    moreover have "take n c \<noteq> []" using n(1) Cons.prems(5) by auto
    ultimately show ?thesis
      using pre Cons.prems(4) False by (simp add: recv_message.simps [of _ _ got] sp_valid_def Let_def)
  qed
qed

lemma recv_message_segments:
  assumes "sp_valid sp" "concat cs = sp_octets sp @ extra" "\<forall>c \<in> set cs. c \<noteq> []" "4 \<le> length (hd cs)"
  shows "\<exists>cs'. concat cs' = extra \<and> (\<forall>c \<in> set cs'. c \<noteq> []) \<and>
    recv_message stack (map Octets cs) [] = (Message sp, map Octets cs')"
proof -
  have len: "length (sp_octets sp) = SP_SIZE" using assms(1) by (simp add: sp_valid_def)
  obtain c cr where cs: "cs = c # cr" using assms(2) len by (cases cs) auto
  have c: "c \<noteq> []" "concat cs = c @ concat cr" using assms(3) cs by auto
  let ?cr = "(if SP_SIZE < length c then drop SP_SIZE c # cr else cr)"
  have cat: "take SP_SIZE c @ concat ?cr = sp_octets sp @ extra" using assms(2) c(2)
    by (cases "SP_SIZE < length c") (simp_all flip: append_assoc)
  have recv: "sock_recv SP_SIZE (map Octets cs) = (Octets (take SP_SIZE c), map Octets ?cr)" by (simp add: cs)
  let ?got = "take SP_SIZE c"
  have l: "4 \<le> length ?got" using assms(4) cs by simp
  have "?got = take (length ?got) (sp_octets sp)"
    using arg_cong [OF cat, of "take (length ?got)"] len
    by (simp only: take_append take_all_iff length_take) (simp add: min_def split: if_splits)
  then have "sp_octets sp = ?got @ drop (length ?got) (sp_octets sp)"
    by (metis append_take_drop_id)
  then have pre: "sp_magic (sp_object (?got @ r)) = sp_magic sp" "sp_version (sp_object (?got @ r)) = sp_version sp" for r
    using sp_object_prefix [OF l] by (metis sp_object_octets)+
  have "\<exists>cs'. concat cs' = extra \<and> (\<forall>c \<in> set cs'. c \<noteq> []) \<and> recv_message stack (map Octets ?cr) ?got = (Message sp, map Octets cs')"
    using assms(1,3) cs l cat by (intro recv_message_rest) auto
  then show ?thesis using recv pre assms(1) c(1) by (simp add: recv_message.simps [of _ _ "[]"] sp_valid_def Let_def)
qed


section \<open>Properties\<close>

text \<open>C18. A message is read the same in whatever segments the connection delivers it, together with
  whatever follows it, as long as its first segment has at least four octets: the message comes out,
  and what follows it stays on the connection. With a first segment of two or three octets the
  version is tested before it has arrived: unless the memory behind the object happens to complete
  the right number, the message is dropped and its rest is taken for the start of another.\<close>

theorem segments_do_not_matter:
  assumes "sp_valid sp" "concat cs = sp_octets sp @ extra" "\<forall>c \<in> set cs. c \<noteq> []"
  shows "(4 \<le> length (hd cs) \<longrightarrow>
      (\<exists>cs'. concat cs' = extra \<and> recv_message stack (map Octets cs) [] = (Message sp, map Octets cs'))) \<and>
    (length (hd cs) \<in> {2, 3} \<and> ntohs (load16 (drop 2 (hd cs @ drop (length (hd cs)) stack))) \<noteq> SP_VERSION_NR \<longrightarrow>
      recv_message stack (map Octets cs) [] = (Bad_Version, map Octets (tl cs)))"
proof (intro conjI impI; (elim conjE)?)
  have len: "length (sp_octets sp) = SP_SIZE" using assms(1) by (simp add: sp_valid_def)
  obtain c cr where cs: "cs = c # cr" using assms(2) len by (cases cs) auto
  have c: "c \<noteq> []" using assms(3) cs by auto
  show "\<exists>cs'. concat cs' = extra \<and> recv_message stack (map Octets cs) [] = (Message sp, map Octets cs')"
    if "4 \<le> length (hd cs)"
    using recv_message_segments [OF assms that, of stack] by blast
  show "recv_message stack (map Octets cs) [] = (Bad_Version, map Octets (tl cs))"
    if h: "length (hd cs) \<in> {2, 3}" and v: "ntohs (load16 (drop 2 (hd cs @ drop (length (hd cs)) stack))) \<noteq> SP_VERSION_NR"
  proof -
    have l: "length c = 2 \<or> length c = 3" using h cs by simp
    then have "c ! 0 = sp_octets sp ! 0" using arg_cong [OF assms(2), of "\<lambda>x. x ! 0"] cs c len by (auto simp: nth_append)
    then have "(c @ r) ! 0 = SP_MAGIC" for r
      using assms(1) l by (auto simp: sp_octets_def sp_valid_def nth_append)
    then show ?thesis using v l cs c
      by (auto simp: recv_message.simps [of _ _ "[]"] sp_object_def Let_def)
  qed
qed

theorem segments_do_not_matter_witness:
  "\<exists>cs'. concat cs' = [] \<and> recv_message (replicate 72 0)
     (map Octets [take 30 (sp_octets (sp_fill SP_TYPE_EXIT 72 1 (sp_object (replicate 72 0)))),
                  drop 30 (sp_octets (sp_fill SP_TYPE_EXIT 72 1 (sp_object (replicate 72 0))))]) []
   = (Message (sp_fill SP_TYPE_EXIT 72 1 (sp_object (replicate 72 0))), map Octets cs')"
proof -
  let ?sp = "sp_fill SP_TYPE_EXIT 72 1 (sp_object (replicate 72 0))"
  have "length (sp_data (sp_object (replicate 72 0))) = 60" by (simp add: sp_object_def)
  then have v: "sp_valid ?sp" by (rule sp_fill_valid)
  then have l: "length (sp_octets ?sp) = 72" by (simp add: sp_valid_def)
  then have "sp_octets ?sp \<noteq> []" by force
  then show ?thesis
    using segments_do_not_matter [OF v, of "[take 30 (sp_octets ?sp), drop 30 (sp_octets ?sp)]" "[]" "replicate 72 0"] l
    by auto
qed

end
