(* ===== verification/Eventloop.thy ===== *)
theory Eventloop
  imports Sphone_Lib "HOL-Library.Multiset"
begin

text \<open>
  The event loop of \<open>src/sphone_eventloop.c\<close>: two linked lists, the timers in order of time
  and the file descriptors in reverse order of registration, the operations that register
  and deregister, and the loop itself.

  A callback is a C function pointer with its argument; here it is a value of type
  \<open>'f\<close> and one of type \<open>'a\<close>, and running it is the parameter \<open>call\<close>, which may change the
  two lists and the rest of the program (\<open>'w\<close>) and returns an \<open>int\<close>. Every list node carries
  the address of its allocation, \<open>e_id\<close>: the loop keeps such an address across a callback.
\<close>

section \<open>State\<close>

datatype event_type = EVENT_FD | EVENT_TIME

record ('f, 'a) event_data =
  e_id :: nat
  e_fn :: 'f
  e_type :: event_type
  e_fd :: int
  e_time :: timeval
  e_arg :: 'a
  e_string :: string

record ('f, 'a) loop_state =
  ee :: "('f, 'a) event_data list"
  ee_timers :: "('f, 'a) event_data list"
  next_id :: nat
  loop_exit :: nat

definition EVENT_STRLEN :: nat where "EVENT_STRLEN = 32"

text \<open>The timer list is walked to the first timer that is strictly later, and the new one put
  before it.\<close>

fun insert_timer :: "('f, 'a) event_data \<Rightarrow> ('f, 'a) event_data list \<Rightarrow> ('f, 'a) event_data list" where
  "insert_timer e [] = [e]"
| "insert_timer e (e1 # r) = (if e_time e < e_time e1 then e # e1 # r else e1 # insert_timer e r)"

definition eventloop_reg_timeout ::
  "bool \<Rightarrow> timeval \<Rightarrow> 'f \<Rightarrow> 'a \<Rightarrow> string \<Rightarrow> ('f, 'a) loop_state \<Rightarrow> ('f, 'a) loop_state \<times> int" where
  "eventloop_reg_timeout ok t fn arg str st =
    (if \<not> ok then (st, - 1)
     else (st\<lparr>ee_timers := insert_timer \<lparr>e_id = next_id st, e_fn = fn, e_type = EVENT_TIME, e_fd = 0,
               e_time = t, e_arg = arg, e_string = take EVENT_STRLEN str\<rparr> (ee_timers st),
             next_id := Suc (next_id st)\<rparr>, 0))"

definition eventloop_reg_fd ::
  "bool \<Rightarrow> int \<Rightarrow> 'f \<Rightarrow> 'a \<Rightarrow> string \<Rightarrow> ('f, 'a) loop_state \<Rightarrow> ('f, 'a) loop_state \<times> int" where
  "eventloop_reg_fd ok fd fn arg str st =
    (if \<not> ok then (st, - 1)
     else (st\<lparr>ee := \<lparr>e_id = next_id st, e_fn = fn, e_type = EVENT_FD, e_fd = fd,
               e_time = tv 0 0, e_arg = arg, e_string = take EVENT_STRLEN str\<rparr> # ee st,
             next_id := Suc (next_id st)\<rparr>, 0))"

fun unlink_first :: "('e \<Rightarrow> bool) \<Rightarrow> 'e list \<Rightarrow> 'e list" where
  "unlink_first P [] = []"
| "unlink_first P (x # xs) = (if P x then xs else x # unlink_first P xs)"

definition eventloop_unreg ::
  "int \<Rightarrow> 'f \<Rightarrow> 'a \<Rightarrow> ('f, 'a) loop_state \<Rightarrow> ('f, 'a) loop_state \<times> int" where
  "eventloop_unreg s fn arg st =
    (let tm = (\<lambda>e. e_fn e = fn \<and> e_arg e = arg);
         fm = (\<lambda>e. e_fn e = fn \<and> e_arg e = arg \<and> e_fd e = s);
         found = (\<exists>e \<in> set (ee_timers st). tm e) \<or> (\<exists>e \<in> set (ee st). fm e)
     in (st\<lparr>ee_timers := unlink_first tm (ee_timers st), ee := unlink_first fm (ee st)\<rparr>,
         if found then 0 else - 1))"

section \<open>The loop\<close>

type_synonym ('f, 'a, 'w) callback =
  "'f \<Rightarrow> int \<Rightarrow> 'a \<Rightarrow> ('f, 'a) loop_state \<times> 'w \<Rightarrow> (('f, 'a) loop_state \<times> 'w) \<times> int"

text \<open>A failing callback increments \<open>sphone_exit\<close>.\<close>

definition run_event :: "('f, 'a, 'w) callback \<Rightarrow> int \<Rightarrow> ('f, 'a) event_data
    \<Rightarrow> ('f, 'a) loop_state \<times> 'w \<Rightarrow> ('f, 'a) loop_state \<times> 'w" where
  "run_event call fd e s =
    (case call (e_fn e) fd (e_arg e) s of ((st, w), r) \<Rightarrow>
      (if r < 0 then (st\<lparr>loop_exit := loop_exit st + 1\<rparr>, w) else (st, w)))"

definition tail_of :: "nat \<Rightarrow> ('f, 'a) event_data list \<Rightarrow> ('f, 'a) event_data list" where
  "tail_of i es = dropWhile (\<lambda>e. e_id e \<noteq> i) es"

text \<open>
  The walk over the descriptors. The next node is read before the callback runs and
  dereferenced after it: if the callback deregistered that node its memory has been freed.
  The first argument bounds the number of nodes visited.
\<close>

fun fd_dispatch :: "nat \<Rightarrow> ('f, 'a, 'w) callback \<Rightarrow> (int \<Rightarrow> bool) \<Rightarrow> nat option
    \<Rightarrow> ('f, 'a) loop_state \<times> 'w \<Rightarrow> (('f, 'a) loop_state \<times> 'w) res option" where
  "fd_dispatch n call ready None s = Some (Inr s)"
| "fd_dispatch 0 call ready (Some i) s = None"
| "fd_dispatch (Suc n) call ready (Some i) s =
    (case tail_of i (ee (fst s)) of
       [] \<Rightarrow> Some (Inl Use_After_Free)
     | e # r \<Rightarrow>
        (let nx = (case r of [] \<Rightarrow> None | e' # _ \<Rightarrow> Some (e_id e'))
         in if e_type e = EVENT_FD \<and> ready (e_fd e) then
              (let s = run_event call (e_fd e) e s in
               if loop_exit (fst s) \<noteq> 0 then Some (Inr s) else fd_dispatch n call ready nx s)
            else fd_dispatch n call ready nx s))"

text \<open>What the system says in one round: the time, the result of \<open>select\<close>, the descriptors it
  left in the set, and whether a failure was an interrupted call.\<close>

record round_input =
  ri_now :: timeval
  ri_n :: int
  ri_ready :: "int \<Rightarrow> bool"
  ri_eintr :: bool

datatype verdict = Go_On | Break

text \<open>The first branch of \<open>n\<close>: an overdue timer, by a whole second or by less, is not waited for
  and the descriptors are not polled. The result 0 of \<open>select\<close> without timers cannot happen
  (it has no timeout then); the code would dereference the empty timer list.\<close>

definition select_result :: "round_input \<Rightarrow> ('f, 'a) loop_state \<Rightarrow> int" where
  "select_result ri st =
    (case ee_timers st of [] \<Rightarrow> ri_n ri
     | e # _ \<Rightarrow> if tv_sec (timersub (e_time e) (ri_now ri)) < 0 then 0 else ri_n ri)"

definition eventloop_round :: "nat \<Rightarrow> ('f, 'a, 'w) callback \<Rightarrow> round_input
    \<Rightarrow> ('f, 'a) loop_state \<times> 'w \<Rightarrow> ((('f, 'a) loop_state \<times> 'w) \<times> verdict) res option" where
  "eventloop_round fuel call ri s =
    (let n = select_result ri (fst s) in
     if n = - 1 then
       (if ri_eintr ri then Some (Inr (s, if loop_exit (fst s) \<noteq> 0 then Break else Go_On))
        else Some (Inr (((fst s)\<lparr>loop_exit := loop_exit (fst s) + 1\<rparr>, snd s), Break)))
     else if n = 0 then
       (case ee_timers (fst s) of
          [] \<Rightarrow> Some (Inl Null_Pointer)
        | e # r \<Rightarrow>
           (let s = run_event call 0 e ((fst s)\<lparr>ee_timers := r\<rparr>, snd s)
            in Some (Inr (s, if loop_exit (fst s) \<noteq> 0 then Break else Go_On))))
     else if n < 0 then Some (Inl Assert_Failed)
     else
       (case fd_dispatch fuel call (ri_ready ri) (case ee (fst s) of [] \<Rightarrow> None | e # _ \<Rightarrow> Some (e_id e)) s of
          None \<Rightarrow> None
        | Some (Inl f) \<Rightarrow> Some (Inl f)
        | Some (Inr s) \<Rightarrow> Some (Inr (s, if loop_exit (fst s) \<noteq> 0 then Break else Go_On))))"

text \<open>The loop over a sequence of rounds; the result tells whether the loop has returned.\<close>

fun eventloop_rounds :: "nat \<Rightarrow> ('f, 'a, 'w) callback \<Rightarrow> round_input list
    \<Rightarrow> ('f, 'a) loop_state \<times> 'w \<Rightarrow> ((('f, 'a) loop_state \<times> 'w) \<times> verdict) res option" where
  "eventloop_rounds fuel call [] s = Some (Inr (s, Go_On))"
| "eventloop_rounds fuel call (ri # ris) s =
    (case eventloop_round fuel call ri s of
       Some (Inr (s, Go_On)) \<Rightarrow> eventloop_rounds fuel call ris s
     | r \<Rightarrow> r)"

definition eventloop :: "nat \<Rightarrow> ('f, 'a, 'w) callback \<Rightarrow> round_input list
    \<Rightarrow> ('f, 'a) loop_state \<times> 'w \<Rightarrow> ((('f, 'a) loop_state \<times> 'w) \<times> verdict) res option" where
  "eventloop fuel call ris s =
    (if loop_exit (fst s) \<noteq> 0 then Some (Inr (s, Break)) else eventloop_rounds fuel call ris s)"

section \<open>The timer queue\<close>

text \<open>
  What the periodic senders and the session timeouts rely on: an insertion keeps the queue
  sorted, loses nothing, and puts an entry behind all entries with the same key.
\<close>

locale timed_queue =
  fixes ins :: "'e \<Rightarrow> 'e list \<Rightarrow> 'e list" and key :: "'e \<Rightarrow> 'k::linorder"
  assumes ins_mset: "mset (ins e q) = add_mset e (mset q)"
    and ins_sorted: "sorted (map key q) \<Longrightarrow> sorted (map key (ins e q))"
    and ins_behind: "sorted (map key q) \<Longrightarrow>
      filter (\<lambda>x. key x = k) (ins e q) = filter (\<lambda>x. key x = k) q @ (if key e = k then [e] else [])"
begin

definition ins_all :: "'e list \<Rightarrow> 'e list" where
  "ins_all es = fold ins es []"

lemma ins_all_snoc: "ins_all (es @ [e]) = ins e (ins_all es)"
  by (simp add: ins_all_def)

lemma ins_all_invariant:
  "mset (ins_all es) = mset es" "sorted (map key (ins_all es))"
  "filter (\<lambda>x. key x = k) (ins_all es) = filter (\<lambda>x. key x = k) es"
proof (induction es rule: rev_induct)
  case (snoc e es)
  { case 1 show ?case using snoc by (simp add: ins_all_snoc ins_mset)
  next case 2 show ?case using snoc by (simp add: ins_all_snoc ins_sorted)
  next case 3 show ?case using snoc by (simp add: ins_all_snoc ins_behind) }
qed (simp_all add: ins_all_def)

lemma ins_all_sort: "ins_all es = sort_key key es"
proof (rule properties_for_sort_key [symmetric])
  show "mset (ins_all es) = mset es" "sorted (map key (ins_all es))" by (rule ins_all_invariant)+
  show "\<And>k. k \<in> set (ins_all es) \<Longrightarrow>
      filter (\<lambda>x. key k = key x) (ins_all es) = filter (\<lambda>x. key k = key x) es"
    using ins_all_invariant(3) by (simp add: eq_commute)
qed

lemma first_is_earliest:
  assumes "ins_all es = e # r" "x \<in> set es"
  shows "key e \<le> key x"
proof -
  have "sorted (map key (e # r))" using ins_all_invariant(2) [of es] assms by simp
  moreover have "x \<in> set (e # r)"
    using mset_eq_setD [OF ins_all_invariant(1) [of es]] assms by simp
  ultimately show ?thesis by auto
qed

end

lemma insert_timer_mset: "mset (insert_timer e q) = add_mset e (mset q)"
  by (induction q) auto

lemma insert_timer_set [simp]: "set (insert_timer e q) = insert e (set q)"
  by (induction q) auto

lemma insert_timer_sorted: "sorted (map e_time q) \<Longrightarrow> sorted (map e_time (insert_timer e q))"
  by (induction q) (auto simp: not_less)

lemma insert_timer_behind:
  "sorted (map e_time q) \<Longrightarrow> filter (\<lambda>x. e_time x = k) (insert_timer e q)
    = filter (\<lambda>x. e_time x = k) q @ (if e_time e = k then [e] else [])"
proof (induction q)
  case (Cons a q)
  show ?case
  proof (cases "e_time e < e_time a")
    case True
    then have "\<forall>x \<in> set (a # q). e_time e < e_time x" using Cons.prems by auto
    then have "filter (\<lambda>x. e_time x = e_time e) (a # q) = []" by (auto simp: filter_empty_conv)
    then show ?thesis using True by auto
  qed (use Cons in auto)
qed simp

interpretation timers: timed_queue insert_timer e_time
  by unfold_locales (simp_all add: insert_timer_mset insert_timer_sorted insert_timer_behind)

section \<open>Deregistration and dispatch\<close>

lemma unlink_first_none: "\<forall>x \<in> set xs. \<not> P x \<Longrightarrow> unlink_first P xs = xs"
  by (induction xs) auto

lemma unlink_first_insert:
  "P e \<Longrightarrow> \<forall>x \<in> set q. \<not> P x \<Longrightarrow> unlink_first P (insert_timer e q) = q"
  by (induction q) (auto simp: unlink_first_none)

lemma unlink_first_subset: "set (unlink_first P xs) \<subseteq> set xs"
  by (induction xs) auto

lemma unlink_first_sorted: "sorted (map k xs) \<Longrightarrow> sorted (map k (unlink_first P xs))"
  using unlink_first_subset [of P] by (induction xs) fastforce+

lemma timers_stay_sorted [inv_intros]:
  assumes "sorted (map e_time (ee_timers st))"
  shows "sorted (map e_time (ee_timers (fst (eventloop_reg_timeout ok t fn arg str st))))"
    and "sorted (map e_time (ee_timers (fst (eventloop_reg_fd ok fd fn arg str st))))"
    and "sorted (map e_time (ee_timers (fst (eventloop_unreg fd fn arg st))))"
  using assms
  by (simp_all add: eventloop_reg_timeout_def eventloop_reg_fd_def eventloop_unreg_def Let_def
      insert_timer_sorted unlink_first_sorted)

lemma tail_of_append:
  "\<forall>e \<in> set a. e_id e \<noteq> i \<Longrightarrow> e_id x = i \<Longrightarrow> tail_of i (a @ x # b) = x # b"
  by (simp add: tail_of_def dropWhile_append2)

definition first_id :: "('f, 'a) event_data list \<Rightarrow> nat option" where
  "first_id es = (case es of [] \<Rightarrow> None | e # _ \<Rightarrow> Some (e_id e))"

text \<open>A callback that leaves the two lists alone.\<close>

definition keeps_lists :: "('f, 'a, 'w) callback \<Rightarrow> ('f \<Rightarrow> int \<Rightarrow> 'a \<Rightarrow> 'w \<Rightarrow> 'w) \<Rightarrow> bool" where
  "keeps_lists call act \<longleftrightarrow> (\<forall>f fd a st w. call f fd a (st, w) = ((st, act f fd a w), 0))"

lemma fd_dispatch_passive:
  assumes "keeps_lists call act" "loop_exit st = 0" "distinct (map e_id (ee st))" "ee st = a @ b" "length b \<le> n"
  shows "fd_dispatch n call ready (first_id b) (st, w)
    = Some (Inr (st, fold (\<lambda>e. act (e_fn e) (e_fd e) (e_arg e)) (filter (\<lambda>e. e_type e = EVENT_FD \<and> ready (e_fd e)) b) w))"
  using assms(4,5)
proof (induction b arbitrary: a n w)
  case Nil
  then show ?case by (cases n) (simp_all add: first_id_def)
next
  case (Cons x b)
  then obtain m where n: "n = Suc m" by (cases n) auto
  have "\<forall>e \<in> set a. e_id e \<noteq> e_id x" using assms(3) Cons.prems by (fastforce simp: image_iff)
  then have t: "tail_of (e_id x) (ee st) = x # b" using Cons.prems by (simp add: tail_of_append)
  have step: "run_event call (e_fd x) x (st, w) = (st, act (e_fn x) (e_fd x) (e_arg x) w)"
    using assms(1) by (simp add: run_event_def keeps_lists_def)
  have IH: "fd_dispatch m call ready (first_id b) (st, w')
      = Some (Inr (st, fold (\<lambda>e. act (e_fn e) (e_fd e) (e_arg e))
          (filter (\<lambda>e. e_type e = EVENT_FD \<and> ready (e_fd e)) b) w'))" for w'
    using Cons.IH [of "a @ [x]" m w'] Cons.prems n by simp
  show ?case
    using IH by (simp add: n first_id_def [of "x # b"] t step assms(2) Let_def first_id_def [of b, symmetric])
qed

lemma round_timer:
  assumes "ee_timers st = e # r" "ri_n ri = 0 \<or> e_time e < ri_now ri" "tv_norm (e_time e)" "tv_norm (ri_now ri)"
  shows "eventloop_round fuel call ri (st, w) =
    (let s = run_event call 0 e (st\<lparr>ee_timers := r\<rparr>, w)
     in Some (Inr (s, if loop_exit (fst s) \<noteq> 0 then Break else Go_On)))"
proof -
  have "tv_sec (timersub (e_time e) (ri_now ri)) < 0" if "e_time e < ri_now ri"
    using that assms(3,4) by (auto simp: timeval_less timersub_def tv_norm_def Let_def split: if_splits)
  then have "select_result ri st = 0" using assms(1,2) by (auto simp: select_result_def)
  then show ?thesis using assms(1) by (simp add: eventloop_round_def)
qed

lemma rounds_run_timers:
  assumes "keeps_lists call act" "loop_exit st = 0" "ee_timers st = es @ rest" "length ris = length es"
    and "\<forall>ri \<in> set ris. ri_n ri = 0 \<or> (\<forall>e \<in> set es. e_time e < ri_now ri)"
    and "\<forall>e \<in> set es. tv_norm (e_time e)" "\<forall>ri \<in> set ris. tv_norm (ri_now ri)"
  shows "eventloop_rounds fuel call ris (st, w)
    = Some (Inr ((st\<lparr>ee_timers := rest\<rparr>, fold (\<lambda>e. act (e_fn e) 0 (e_arg e)) es w), Go_On))"
  using assms(2-7)
proof (induction es arbitrary: ris st w)
  case Nil
  then show ?case by simp
next
  case (Cons e es)
  then obtain ri rs where ris: "ris = ri # rs" by (cases ris) auto
  have "run_event call 0 e (st\<lparr>ee_timers := es @ rest\<rparr>, w)
      = (st\<lparr>ee_timers := es @ rest\<rparr>, act (e_fn e) 0 (e_arg e) w)"
    using assms(1) by (simp add: run_event_def keeps_lists_def)
  then have "eventloop_round fuel call ri (st, w)
      = Some (Inr ((st\<lparr>ee_timers := es @ rest\<rparr>, act (e_fn e) 0 (e_arg e) w), Go_On))"
    using round_timer [of st e "es @ rest" ri fuel call w] Cons.prems ris by (auto simp: Let_def)
  then show ?case
    using Cons.IH [of "st\<lparr>ee_timers := es @ rest\<rparr>" rs "act (e_fn e) 0 (e_arg e) w"] Cons.prems ris by auto
qed

text \<open>Registering timers from a list.\<close>

definition reg_timers :: "(timeval \<times> 'f \<times> 'a \<times> string) list \<Rightarrow> ('f, 'a) loop_state \<Rightarrow> ('f, 'a) loop_state" where
  "reg_timers rs st = fold (\<lambda>(t, fn, arg, str) st. fst (eventloop_reg_timeout True t fn arg str st)) rs st"

definition loop_init :: "('f, 'a) loop_state" where
  "loop_init = \<lparr>ee = [], ee_timers = [], next_id = 0, loop_exit = 0\<rparr>"

definition timer_event :: "nat \<Rightarrow> timeval \<times> 'f \<times> 'a \<times> string \<Rightarrow> ('f, 'a) event_data" where
  "timer_event i r = (case r of (t, fn, arg, str) \<Rightarrow> \<lparr>e_id = i, e_fn = fn, e_type = EVENT_TIME, e_fd = 0,
     e_time = t, e_arg = arg, e_string = take EVENT_STRLEN str\<rparr>)"

lemma reg_timers_init:
  "ee_timers (reg_timers rs loop_init) = timers.ins_all (map2 timer_event [0..<length rs] rs) \<and>
   next_id (reg_timers rs loop_init) = length rs \<and> loop_exit (reg_timers rs loop_init) = 0"
proof (induction rs rule: rev_induct)
  case (snoc r rs)
  obtain t fn arg str where r: "r = (t, fn, arg, str)" by (cases r)
  show ?case using snoc
    by (simp add: reg_timers_def r timers.ins_all_snoc eventloop_reg_timeout_def timer_event_def)
qed (simp add: reg_timers_def loop_init_def timers.ins_all_def)

definition proj_event :: "('f, 'a) event_data \<Rightarrow> timeval \<times> 'f \<times> 'a" where
  "proj_event e = (e_time e, e_fn e, e_arg e)"

lemma map_sort_key: "map g (sort_key (f \<circ> g) xs) = sort_key f (map g xs)"
proof -
  have "map g (insort_key (f \<circ> g) x ys) = insort_key f (g x) (map g ys)" for x ys
    by (induction ys) auto
  then show ?thesis by (induction xs) simp_all
qed

lemma proj_timer_events:
  "length is = length rs \<Longrightarrow>
    map proj_event (map2 timer_event is rs) = map (\<lambda>(t, fn, arg, str). (t, fn, arg)) rs"
  by (induction "is" rs rule: list_induct2) (auto simp: timer_event_def proj_event_def)

lemma reg_timers_order:
  fixes rs :: "(timeval \<times> 'f \<times> 'a \<times> string) list"
  shows "map proj_event (ee_timers (reg_timers rs loop_init))
    = sort_key fst (map (\<lambda>(t, fn, arg, str). (t, fn, arg)) rs)"
proof -
  have e: "fst \<circ> (proj_event :: ('f, 'a) event_data \<Rightarrow> _) = e_time" by (auto simp: proj_event_def)
  have "map proj_event (ee_timers (reg_timers rs loop_init))
      = map proj_event (sort_key e_time (map2 timer_event [0..<length rs] rs))"
    by (simp add: reg_timers_init timers.ins_all_sort)
  also have "\<dots> = sort_key fst (map proj_event (map2 timer_event [0..<length rs] rs))"
    using map_sort_key [of "proj_event :: ('f, 'a) event_data \<Rightarrow> _" fst] unfolding e .
  finally show ?thesis by (subst (asm) proj_timer_events) simp_all
qed

section \<open>Properties\<close>

text \<open>C33. Timers are served in the order of their times, and timers with the same time in the order
  in which they were registered, whatever the order of registration was: when the loop times
  out once per timer, their callbacks run in the order of the stable sort.\<close>

theorem timers_served_in_order:
  assumes "length ris = length rs" "\<forall>ri \<in> set ris. ri_n ri = 0 \<and> tv_norm (ri_now ri)"
    and "\<forall>r \<in> set rs. tv_norm (fst r)"
    and "call = (\<lambda>f fd a (st, w). ((st, w @ [(f, a)]), 0))"
  shows "\<exists>st. eventloop fuel call ris (reg_timers rs loop_init, [])
      = Some (Inr ((st, map snd (sort_key fst (map (\<lambda>(t, fn, arg, str). (t, fn, arg)) rs))), Go_On))
    \<and> ee_timers st = []"
proof -
  define st where "st = reg_timers rs (loop_init :: ('a, 'b) loop_state)"
  define es where "es = ee_timers st"
  have es: "map proj_event es = sort_key fst (map (\<lambda>(t, fn, arg, str). (t, fn, arg)) rs)"
    using reg_timers_order [of rs] by (simp add: st_def es_def)
  have n: "length es = length rs" using arg_cong [OF es, of length] by simp
  have "fst ` set (map proj_event es) = fst ` set rs" unfolding es by (force split: prod.splits)
  then have norm: "\<forall>e \<in> set es. tv_norm (e_time e)" using assms(3) by (force simp: proj_event_def)
  have k: "keeps_lists call (\<lambda>f fd a w. w @ [(f, a)])" by (simp add: keeps_lists_def assms(4))
  have "fold (\<lambda>e w. w @ [(e_fn e, e_arg e)]) es v = v @ map snd (map proj_event es)" for v
    by (induction es arbitrary: v) (simp_all add: proj_event_def)
  moreover have "eventloop_rounds fuel call ris (st, []) = Some (Inr ((st\<lparr>ee_timers := []\<rparr>,
      fold (\<lambda>e w. w @ [(e_fn e, e_arg e)]) es []), Go_On))"
    using rounds_run_timers [OF k, of st es "[]" ris fuel "[]"] n norm assms
    by (simp add: st_def es_def reg_timers_init)
  ultimately show ?thesis unfolding es
    by (simp add: eventloop_def st_def [symmetric]) (simp add: st_def reg_timers_init)
qed

theorem timers_served_in_order_witness:
  "\<exists>st. eventloop 0 (\<lambda>f fd a (st, w). ((st, w @ [(f, a)]), 0))
      (replicate 3 \<lparr>ri_now = tv 0 0, ri_n = 0, ri_ready = (\<lambda>_. False), ri_eintr = False\<rparr>)
      (reg_timers [(tv 2 0, ''late'', (), ''''), (tv 1 5, ''first'', (), ''''), (tv 1 5, ''second'', (), '''')] loop_init, [])
    = Some (Inr ((st, [(''first'', ()), (''second'', ()), (''late'', ())]), Go_On)) \<and> ee_timers st = []"
proof -
  have "sort_key fst [(tv 2 0, ''late'', ()), (tv 1 5, ''first'', ()), (tv 1 5, ''second'', ())]
      = [(tv 1 5, ''first'', ()), (tv 1 5, ''second'', ()), (tv 2 0, ''late'', ())]"
    by (simp add: timeval_le)
  then show ?thesis
    using timers_served_in_order [of "replicate 3 \<lparr>ri_now = tv 0 0, ri_n = 0, ri_ready = (\<lambda>_. False), ri_eintr = False\<rparr>"
        "[(tv 2 0, ''late'', (), ''''), (tv 1 5, ''first'', (), ''''), (tv 1 5, ''second'', (), '''')]"
        "\<lambda>f fd a (st, w). ((st, w @ [(f, a)]), 0)" 0]
    by (simp add: tv_norm_def numeral_3_eq_3)
qed

text \<open>Deregistering undoes the registration of a timer or a descriptor and reports success;
  deregistering what was never registered changes nothing and reports -1.\<close>

lemma unreg_undoes_reg:
  assumes "\<forall>e \<in> set (ee_timers st) \<union> set (ee st). \<not> (e_fn e = fn \<and> e_arg e = arg)"
  shows "eventloop_unreg s fn arg (fst (eventloop_reg_timeout True t fn arg str st))
      = (st\<lparr>next_id := Suc (next_id st)\<rparr>, 0) \<and>
    eventloop_unreg s fn arg (fst (eventloop_reg_fd True s fn arg str st)) = (st\<lparr>next_id := Suc (next_id st)\<rparr>, 0) \<and>
    eventloop_unreg s fn arg st = (st, - 1)"
  using assms
  by (auto simp: eventloop_unreg_def eventloop_reg_timeout_def eventloop_reg_fd_def Let_def
      unlink_first_none unlink_first_insert)

lemma unreg_undoes_reg_witness:
  "snd (eventloop_unreg 3 ''f'' () (loop_init :: (string, unit) loop_state)) = - 1"
  using unreg_undoes_reg [of "loop_init :: (string, unit) loop_state" "''f''" "()" 3] by (simp add: loop_init_def)

text \<open>One round over the descriptors runs the callback of every ready one exactly once, last
  registered first, as long as the callbacks leave the lists alone; as many steps as there
  are registered descriptors are enough.\<close>

lemma ready_descriptors_all_served:
  assumes "keeps_lists call act" "loop_exit st = 0" "distinct (map e_id (ee st))" "0 < ri_n ri" "ee_timers st = []"
  shows "eventloop_round (length (ee st)) call ri (st, w)
    = Some (Inr ((st, fold (\<lambda>e. act (e_fn e) (e_fd e) (e_arg e))
        (filter (\<lambda>e. e_type e = EVENT_FD \<and> ri_ready ri (e_fd e)) (ee st)) w), Go_On))"
proof -
  have "(case ee st of [] \<Rightarrow> None | e # _ \<Rightarrow> Some (e_id e)) = first_id (ee st)"
    by (simp add: first_id_def split: list.split)
  then show ?thesis
    using fd_dispatch_passive [OF assms(1-3), of "[]" "ee st" "length (ee st)" "ri_ready ri" w] assms(2,4,5)
    by (simp add: eventloop_round_def select_result_def)
qed

lemma ready_descriptors_all_served_witness:
  "\<exists>s. eventloop_round 2 (\<lambda>f fd a (st, w). ((st, w @ [fd]), 0))
      \<lparr>ri_now = tv 0 0, ri_n = 1, ri_ready = (\<lambda>fd. fd = 7), ri_eintr = False\<rparr>
      (fst (eventloop_reg_fd True 8 ''g'' () '''' (fst (eventloop_reg_fd True 7 ''f'' () '''' loop_init))), [])
    = Some (Inr ((s, [7]), Go_On))"
  using ready_descriptors_all_served [of "\<lambda>f fd a (st, w). ((st, w @ [fd]), 0)" "\<lambda>f fd a w. w @ [fd]"
      "fst (eventloop_reg_fd True 8 ''g'' () '''' (fst (eventloop_reg_fd True 7 ''f'' () '''' loop_init)))"
      "\<lparr>ri_now = tv 0 0, ri_n = 1, ri_ready = (\<lambda>fd. fd = 7), ri_eintr = False\<rparr>" "[]"]
  by (simp add: keeps_lists_def eventloop_reg_fd_def loop_init_def numeral_2_eq_2)

text \<open>A callback that deregisters the descriptor registered just before its own makes the loop
  follow a freed list node, whichever descriptors are ready after it.\<close>

lemma unreg_of_next_is_use_after_free:
  assumes "ee st = e1 # e2 # r" "distinct (map e_id (ee st))" "e_type e1 = EVENT_FD" "ready (e_fd e1)"
    and "call (e_fn e1) (e_fd e1) (e_arg e1) (st, w) = ((st', w'), 0)" "loop_exit st' = 0"
    and "st' = fst (eventloop_unreg (e_fd e2) (e_fn e2) (e_arg e2) st)"
    and "\<not> (e_fn e1 = e_fn e2 \<and> e_arg e1 = e_arg e2 \<and> e_fd e1 = e_fd e2)"
  shows "fd_dispatch (Suc (Suc n)) call ready (Some (e_id e1)) (st, w) = Some (Inl Use_After_Free)"
proof -
  have "ee st' = e1 # r" using assms(1,7,8) by (auto simp: eventloop_unreg_def Let_def)
  moreover have "tail_of (e_id e2) (e1 # r) = []" using assms(1,2) by (auto simp: tail_of_def image_iff)
  moreover have "tail_of (e_id e1) (ee st) = e1 # e2 # r" using assms(1) by (simp add: tail_of_def)
  ultimately show ?thesis using assms(3-6) by (simp add: run_event_def Let_def)
qed

lemma unreg_of_next_is_use_after_free_witness:
  "\<exists>st. fd_dispatch 2 (\<lambda>f fd a (st, w). ((fst (eventloop_unreg 7 ''f'' () st), w), 0)) (\<lambda>fd. fd = 8)
      (first_id (ee st)) (st, ()) = Some (Inl Use_After_Free)"
proof
  let ?st = "fst (eventloop_reg_fd True 8 ''g'' () '''' (fst (eventloop_reg_fd True 7 ''f'' () '''' loop_init)))"
  have "fd_dispatch (Suc (Suc 0)) (\<lambda>f fd a (st, w). ((fst (eventloop_unreg 7 ''f'' () st), w), 0)) (\<lambda>fd. fd = 8)
      (Some (e_id (hd (ee ?st)))) (?st, ()) = Some (Inl Use_After_Free)"
    by (rule unreg_of_next_is_use_after_free [where r = "[]" and ?e2.0 = "hd (tl (ee ?st))"
          and st' = "fst (eventloop_unreg 7 ''f'' () ?st)"])
      (simp_all add: eventloop_reg_fd_def loop_init_def eventloop_unreg_def Let_def)
  then show "fd_dispatch 2 (\<lambda>f fd a (st, w). ((fst (eventloop_unreg 7 ''f'' () st), w), 0)) (\<lambda>fd. fd = 8)
      (first_id (ee ?st)) (?st, ()) = Some (Inl Use_After_Free)"
    by (simp add: first_id_def numeral_2_eq_2 eventloop_reg_fd_def loop_init_def)
qed

end
