(* ===== verification/Sps_Server.thy ===== *)
theory Sps_Server
  imports Sp_Proto Eventloop
begin

text \<open>
  The measurement server \<open>utils/sps.c\<close>: clients connect over TCP and register, the server
  starts calls between pairs of idle clients and stores the reports that come back.

  The client entries live in a store, a map from addresses to entries, and \<open>cf_list\<close> is the linked
  list as the list of its addresses; an address outside the map has been freed. The registrations
  with the event loop are those of the theory of the event loop, with the address of the entry as
  argument. What a handler does to the outside is appended to a trace.

  What the system does during one handler is a record: the clock, the random numbers and the two
  times drawn from the exponential distribution in floating point, the answers of the sockets, of
  the file system and of the allocator, and the contents of uninitialised stack memory.
\<close>

section \<open>State\<close>

datatype client_state = CS_INIT | CS_IDLE | CS_RCV | CS_SEND

record cf_entry =
  cf_addr :: sockaddr_in
  cf_addr_pub :: sockaddr_in
  cf_id :: u32
  cf_s :: int
  cf_state :: client_state
  cf_peer :: u32
  cf_timeout :: int

datatype sps_fn = Connect_Input | Udp_Input | Client_Input | Client_Startcalls | Client_Timeout
datatype sps_arg = Cf_List | Cfe nat

text \<open>A line of a report file is its label with the numbers or the address that \<open>sprintf\<close> prints.\<close>

datatype log_item = Log_Num string u32 | Log_Addr string u32 u16 | Log_Times u32 u32 | Log_Octets bytes

datatype sps_effect = Sent int bytes | Close_Fd int | Log_Open u32 int | Log_Write int log_item
  | Error_Call | Exit_Begun

record sps_state =
  sv_loop :: "(sps_fn, sps_arg) loop_state"
  server_socket :: int
  cf_list :: "nat list"
  cf_heap :: "nat \<rightharpoonup> cf_entry"
  cf_new :: nat
  test_id :: u32
  sv_out :: "sps_effect list"

record sps_env =
  ev_now :: timeval
  ev_random :: "nat list"
  ev_duration :: timeval
  ev_delta :: timeval
  ev_send :: "int \<Rightarrow> bool"
  ev_pipe :: "int \<Rightarrow> bool"
  ev_reg :: bool
  ev_alloc :: bool
  ev_recv :: "tcp_recv list"
  ev_stack :: bytes
  ev_accept :: "(int \<times> sockaddr_in \<times> nat) option"
  ev_udp :: "(bytes \<times> sockaddr_in) option"
  ev_logdir :: bytes
  ev_logprefix :: bytes
  ev_open :: int
  ev_write :: "nat \<Rightarrow> bool"

text \<open>A send that fails because the peer has closed the connection raises \<open>SIGPIPE\<close> first, which the server neither
  catches nor ignores: \<open>ev_pipe\<close> tells that a failing send is one of those.\<close>

definition send_failed :: "sps_env \<Rightarrow> int \<Rightarrow> 'a res \<Rightarrow> 'a res" where
  "send_failed ev fd m = (if ev_pipe ev fd then Inl Killed_By_Signal else m)"

definition emit :: "sps_effect \<Rightarrow> sps_state \<Rightarrow> sps_state" where
  "emit x s = s\<lparr>sv_out := sv_out s @ [x]\<rparr>"

definition cfe_at :: "sps_state \<Rightarrow> nat \<Rightarrow> cf_entry res" where
  "cfe_at s p = (case cf_heap s p of None \<Rightarrow> Inl Use_After_Free | Some cfe \<Rightarrow> Inr cfe)"

definition cfe_put :: "nat \<Rightarrow> cf_entry \<Rightarrow> sps_state \<Rightarrow> sps_state" where
  "cfe_put p cfe s = s\<lparr>cf_heap := (cf_heap s)(p \<mapsto> cfe)\<rparr>"

section \<open>The client list\<close>

fun cfe_find :: "(nat \<rightharpoonup> cf_entry) \<Rightarrow> (cf_entry \<Rightarrow> bool) \<Rightarrow> nat list \<Rightarrow> nat option res" where
  "cfe_find h P [] = Inr None"
| "cfe_find h P (p # ps) =
    (case h p of None \<Rightarrow> Inl Use_After_Free
     | Some cfe \<Rightarrow> if P cfe then Inr (Some p) else cfe_find h P ps)"

definition cfe_find_byaddr :: "sockaddr_in \<Rightarrow> sps_state \<Rightarrow> nat option res" where
  "cfe_find_byaddr addr s = cfe_find (cf_heap s) (\<lambda>cfe. sin_family (cf_addr cfe) = sin_family addr \<and>
     sin_port (cf_addr cfe) = sin_port addr \<and> s_addr (cf_addr cfe) = s_addr addr) (cf_list s)"

definition cfe_find_byid :: "u32 \<Rightarrow> sps_state \<Rightarrow> nat option res" where
  "cfe_find_byid i s = cfe_find (cf_heap s) (\<lambda>cfe. cf_id cfe = i) (cf_list s)"

definition cfe_add :: "bool \<Rightarrow> sockaddr_in \<Rightarrow> sps_state \<Rightarrow> sps_state \<times> nat option" where
  "cfe_add alloc addr s =
    (if \<not> alloc then (s, None)
     else (cfe_put (cf_new s) \<lparr>cf_addr = addr, cf_addr_pub = zero_addr, cf_id = 0, cf_s = 0, cf_state = CS_INIT,
             cf_peer = 0, cf_timeout = SP_TIMEOUT_REG_NR\<rparr> s\<lparr>cf_list := cf_new s # cf_list s, cf_new := Suc (cf_new s)\<rparr>,
           Some (cf_new s)))"

text \<open>The walk reads every entry on its way. The socket is closed here once more.\<close>

fun unlink_cfe :: "(nat \<rightharpoonup> cf_entry) \<Rightarrow> nat \<Rightarrow> nat list \<Rightarrow> nat list res" where
  "unlink_cfe h p [] = Inr []"
| "unlink_cfe h p (q # qs) =
    (case h q of None \<Rightarrow> Inl Use_After_Free
     | Some _ \<Rightarrow> if q = p then Inr qs else bnd (unlink_cfe h p qs) (\<lambda>r. Inr (q # r)))"

definition cfe_rm :: "nat \<Rightarrow> sps_state \<Rightarrow> sps_state res" where
  "cfe_rm p s =
    bnd (unlink_cfe (cf_heap s) p (cf_list s)) (\<lambda>qs.
      if p \<in> set (cf_list s) then
        bnd (cfe_at s p) (\<lambda>cfe.
          Inr ((if cf_s cfe \<noteq> 0 then emit (Close_Fd (cf_s cfe)) s else s)
            \<lparr>cf_list := qs, cf_heap := (cf_heap s)(p := None)\<rparr>))
      else Inr s)"

text \<open>\<open>if (eventloop_unreg(...) < 0) ...; close(cfe->cf_s); cfe_rm(&cf_list, cfe);\<close> is how six places
  give up a client.\<close>

definition unreg_client :: "nat \<Rightarrow> sps_state \<Rightarrow> (sps_state \<times> int) res" where
  "unreg_client p s =
    bnd (cfe_at s p) (\<lambda>cfe.
      Inr (case eventloop_unreg (cf_s cfe) Client_Input (Cfe p) (sv_loop s) of (l, r) \<Rightarrow> (s\<lparr>sv_loop := l\<rparr>, r)))"

definition drop_client :: "nat \<Rightarrow> sps_state \<Rightarrow> (sps_state \<times> int) res" where
  "drop_client p s =
    bnd (unreg_client p s) (\<lambda>(s, r).
      if r < 0 then Inr (emit Error_Call s, - 1)
      else bnd (cfe_at s p) (\<lambda>cfe.
        bnd (cfe_rm p (emit (Close_Fd (cf_s cfe)) s)) (\<lambda>s. Inr (s, 0))))"

text \<open>The signal handler that ends all clients; the union of its message is not initialised.\<close>

fun kill_walk :: "sps_env \<Rightarrow> nat list \<Rightarrow> sps_state \<Rightarrow> sps_state res" where
  "kill_walk ev [] s = Inr s"
| "kill_walk ev (p # ps) s =
    bnd (cfe_at s p) (\<lambda>cfe.
      if \<not> ev_send ev (cf_s cfe) then send_failed ev (cf_s cfe) (Inr s)
      else bnd (unreg_client p (emit (Sent (cf_s cfe)
                 (sp_octets (sp_fill SP_TYPE_EXIT 72 (cf_id cfe) (sp_object (ev_stack ev))))) s)) (\<lambda>(s, r).
        if r < 0 then Inr s else bnd (cfe_rm p s) (kill_walk ev ps)))"

definition kill_all_clients :: "sps_env \<Rightarrow> sps_state \<Rightarrow> sps_state res" where
  "kill_all_clients ev s = kill_walk ev (cf_list s) s"

section \<open>Starting calls\<close>

definition start_hdr :: "u32 \<Rightarrow> u32 \<Rightarrow> u32 \<Rightarrow> sockaddr_in \<Rightarrow> sockaddr_in \<Rightarrow> timeval \<Rightarrow> timeval \<Rightarrow> sdhdr_start" where
  "start_hdr tid src dst a b now duration =
    \<lparr>ss_testid = htonl tid, ss_clientid_src = htonl src, ss_clientid_dst = htonl dst,
     ss_addr_src_pub = sp_addr_encode a, ss_addr_dst_pub = sp_addr_encode b,
     ss_start_sec = htonl (word_of_int (tv_sec now)), ss_start_usec = htonl (word_of_int (tv_usec now)),
     ss_duration_sec = htonl (word_of_int (tv_sec duration)), ss_duration_usec = htonl (word_of_int (tv_usec duration))\<rparr>"

definition client_output :: "sps_env \<Rightarrow> nat \<Rightarrow> nat \<Rightarrow> sp_type \<Rightarrow> timeval \<Rightarrow> u32 \<Rightarrow> sps_state \<Rightarrow> (sps_state \<times> int) res" where
  "client_output ev p q type duration tid s =
    bnd (cfe_at s p) (\<lambda>cfe. bnd (cfe_at s q) (\<lambda>peer.
      bnd (case type of
             SP_TYPE_START_SEND \<Rightarrow>
               if s_addr (cf_addr_pub cfe) = 0 then Inl Assert_Failed
               else Inr (start_octets (start_hdr tid (cf_id cfe) (cf_id peer) (cf_addr_pub cfe) (cf_addr_pub peer) (ev_now ev) duration))
           | SP_TYPE_START_RCV \<Rightarrow>
               if s_addr (cf_addr_pub cfe) = 0 then Inl Assert_Failed
               else Inr (start_octets (start_hdr tid (cf_id cfe) (cf_id peer) (cf_addr_pub peer) (cf_addr_pub cfe) (ev_now ev) duration))
           | _ \<Rightarrow> Inr (sp_data (sp_object (ev_stack ev)))) (\<lambda>d.
        let m = sp_octets (sp_fill type 72 (cf_id cfe) ((sp_object (ev_stack ev))\<lparr>sp_data := d\<rparr>)) in
        if ev_send ev (cf_s cfe) then Inr (emit (Sent (cf_s cfe) m) s, 0)
        else send_failed ev (cf_s cfe) (Inr (emit (Close_Fd (cf_s cfe)) s, - 1)))))"

text \<open>\<open>while (index1 == (index2 = random()%nr));\<close> draws until it has another index. With the numbers
  given used up it would still be drawing.\<close>

fun draw_other :: "nat \<Rightarrow> nat \<Rightarrow> nat list \<Rightarrow> nat option" where
  "draw_other nr i [] = None"
| "draw_other nr i (r # rs) = (if r mod nr = i then draw_other nr i rs else Some (r mod nr))"

fun all_live :: "(nat \<rightharpoonup> cf_entry) \<Rightarrow> nat list \<Rightarrow> nat res" where
  "all_live h [] = Inr 0"
| "all_live h (p # ps) = (case h p of None \<Rightarrow> Inl Use_After_Free | Some _ \<Rightarrow> bnd (all_live h ps) (\<lambda>n. Inr (Suc n)))"

definition start_pair :: "sps_env \<Rightarrow> nat \<Rightarrow> nat \<Rightarrow> sps_state \<Rightarrow> (sps_state \<times> int) res" where
  "start_pair ev p q s =
    bnd (cfe_at s p) (\<lambda>cp. bnd (cfe_at s q) (\<lambda>cq.
      if cf_state cp = CS_IDLE \<and> cf_state cq = CS_IDLE then
        (let tid = test_id s; s = s\<lparr>test_id := tid + 1\<rparr> in
         bnd (client_output ev p q SP_TYPE_START_SEND (ev_duration ev) tid s) (\<lambda>(s, r).
           if r < 0 then Inr (s, - 1)
           else bnd (client_output ev q p SP_TYPE_START_RCV (ev_duration ev) tid s) (\<lambda>(s, r).
             if r < 0 then Inr (s, - 1)
             else Inr (cfe_put q (cq\<lparr>cf_state := CS_RCV, cf_peer := cf_id cp\<rparr>)
                   (cfe_put p (cp\<lparr>cf_state := CS_SEND, cf_peer := cf_id cq\<rparr>) s), 0))))
      else Inr (s, 0)))"

definition reg_timer :: "sps_env \<Rightarrow> timeval \<Rightarrow> sps_fn \<Rightarrow> string \<Rightarrow> sps_state \<Rightarrow> sps_state \<times> int" where
  "reg_timer ev t f str s =
    (case eventloop_reg_timeout (ev_reg ev) t f Cf_List str (sv_loop s) of (l, r) \<Rightarrow> (s\<lparr>sv_loop := l\<rparr>, r))"

definition pick_and_start :: "sps_env \<Rightarrow> nat \<Rightarrow> sps_state \<Rightarrow> (sps_state \<times> int) res" where
  "pick_and_start ev nr s =
    (if nr < 2 then Inr (s, 0)
     else case ev_random ev of
         [] \<Rightarrow> Inl Endless_Loop
       | r # rs \<Rightarrow>
           (case draw_other nr (r mod nr) rs of
              None \<Rightarrow> Inl Endless_Loop
            | Some j \<Rightarrow> start_pair ev (cf_list s ! (r mod nr)) (cf_list s ! j) s))"

definition client_startcalls :: "sps_env \<Rightarrow> sps_state \<Rightarrow> (sps_state \<times> int) res" where
  "client_startcalls ev s =
    bnd (all_live (cf_heap s) (cf_list s)) (\<lambda>nr.
    bnd (pick_and_start ev nr s) (\<lambda>(s, retval).
      (case reg_timer ev (timeradd (ev_now ev) (ev_delta ev)) Client_Startcalls ''client startcalls'' s of
         (s, r) \<Rightarrow> Inr (s, if r < 0 then - 1 else retval))))"

section \<open>Client timeouts\<close>

definition start_client_timeout :: "sps_env \<Rightarrow> sps_state \<Rightarrow> sps_state \<times> int" where
  "start_client_timeout ev s =
    (case reg_timer ev (timeradd (ev_now ev) (tv SPC_SERVER_INTERVAL 0)) Client_Timeout ''client timeouts'' s of
       (s, r) \<Rightarrow> (s, if r < 0 then - 1 else 0))"

fun timeout_walk :: "nat list \<Rightarrow> sps_state \<Rightarrow> (sps_state \<times> int) res" where
  "timeout_walk [] s = Inr (s, 0)"
| "timeout_walk (p # ps) s =
    bnd (cfe_at s p) (\<lambda>cfe.
      let t = cf_timeout cfe - 1; s = cfe_put p (cfe\<lparr>cf_timeout := t\<rparr>) s in
      if t = 0 then bnd (drop_client p s) (\<lambda>(s, r). if r < 0 then Inr (s, r) else timeout_walk ps s)
      else timeout_walk ps s)"

definition client_timeout :: "sps_env \<Rightarrow> sps_state \<Rightarrow> (sps_state \<times> int) res" where
  "client_timeout ev s =
    bnd (timeout_walk (cf_list s) s) (\<lambda>(s, r). if r < 0 then Inr (s, r) else Inr (start_client_timeout ev s))"

section \<open>Reports\<close>

definition log_header :: "sdhdr_start \<Rightarrow> log_item list" where
  "log_header h =
    [Log_Num ''testid'' (ntohl (ss_testid h)), Log_Num ''srcid'' (ntohl (ss_clientid_src h)),
     Log_Num ''dstid'' (ntohl (ss_clientid_dst h)),
     Log_Addr ''src'' (load32 (drop 4 (ss_addr_src_pub h))) (ntohs (load16 (drop 2 (ss_addr_src_pub h)))),
     Log_Addr ''dst'' (load32 (drop 4 (ss_addr_dst_pub h))) (ntohs (load16 (drop 2 (ss_addr_dst_pub h)))),
     Log_Times (ntohl (ss_start_sec h)) (ntohl (ss_duration_sec h) + 1)]"

fun write_log :: "(nat \<Rightarrow> bool) \<Rightarrow> int \<Rightarrow> nat \<Rightarrow> log_item list \<Rightarrow> sps_state \<Rightarrow> sps_state \<times> bool" where
  "write_log ok fd k [] s = (s, True)"
| "write_log ok fd k (x # xs) s =
    (if ok k then write_log ok fd (Suc k) xs (emit (Log_Write fd x) s) else (emit (Close_Fd fd) s, False))"

text \<open>The data of the report in pieces of at most 64 octets, until it is complete or the peer closes.\<close>

datatype copy_result = Copied | Copy_Reset | Copy_Failed | Copy_Waits

function copy_report :: "(nat \<Rightarrow> bool) \<Rightarrow> nat \<Rightarrow> nat \<Rightarrow> tcp_recv list \<Rightarrow> log_item list \<times> copy_result" where
  "copy_report ok k restlen script =
    (if restlen = 0 then ([], Copied)
     else (case sock_recv (min SP_BUFLEN restlen) script of
         (Conn_Reset, _) \<Rightarrow> ([], Copy_Reset)
       | (Recv_Error, _) \<Rightarrow> ([], Copy_Failed)
       | (Nothing_More, _) \<Rightarrow> ([], Copy_Waits)
       | (Octets bs, r) \<Rightarrow>
           if bs = [] then ([], Copied)
           else if \<not> ok k then ([], Copy_Failed)
           else (case copy_report ok (Suc k) (restlen - length bs) r of (ws, res) \<Rightarrow> (Log_Octets bs # ws, res))))"
  by auto
termination
  by (relation "measure (\<lambda>(_, _, restlen, _). restlen)") (auto simp: neq_Nil_conv)

declare copy_report.simps [simp del]

definition emit_all :: "sps_effect list \<Rightarrow> sps_state \<Rightarrow> sps_state" where
  "emit_all xs s = s\<lparr>sv_out := sv_out s @ xs\<rparr>"

text \<open>The name of the file, printed into 128 octets.\<close>

definition log_filename :: "sps_env \<Rightarrow> u32 \<Rightarrow> bytes" where
  "log_filename ev tid = ev_logdir ev @ [47] @ ev_logprefix ev @ [95] @ print_nat (unat tid)"

definition receive_send_report :: "sps_env \<Rightarrow> tcp_recv list \<Rightarrow> sp_proto \<Rightarrow> nat \<Rightarrow> sps_state \<Rightarrow> (sps_state \<times> int) res" where
  "receive_send_report ev script sp p s =
    bnd (cfe_at s p) (\<lambda>_.
      let h = sp_starthdr sp; restlen = sint (ntohl (sp_len sp) - 72); fd = ev_open ev in
      if restlen = 0 then Inr (s, 0)
      else if 128 \<le> length (log_filename ev (ntohl (ss_testid h))) then Inl Out_Of_Bounds
      else if fd < 0 then Inr (s, - 1)
      else
        (case write_log (ev_write ev) fd 0 (log_header h) (emit (Log_Open (ntohl (ss_testid h)) fd) s) of
           (s, False) \<Rightarrow> Inr (s, - 1)
         | (s, True) \<Rightarrow>
             (case copy_report (ev_write ev) 6 (nat restlen) script of (ws, res) \<Rightarrow>
               let s = emit_all (map (Log_Write fd) ws) s in
               (case res of
                  Copied \<Rightarrow> Inr (emit (Close_Fd fd) s, 0)
                | Copy_Failed \<Rightarrow> Inr (emit (Close_Fd fd) s, - 1)
                | Copy_Waits \<Rightarrow> Inl Blocks_Forever
                | Copy_Reset \<Rightarrow> bnd (drop_client p s) (\<lambda>(s, r).
                    if r < 0 then Inr (s, - 1) else Inr (emit (Close_Fd fd) s, 0))))))"

section \<open>Messages\<close>

text \<open>The server's own exit function: the server socket, and the first client, which is freed but
  stays in the list.\<close>

definition sps_exit :: "sps_state \<Rightarrow> sps_state res" where
  "sps_exit s =
    (let s = emit Exit_Begun s;
         s = (if server_socket s \<noteq> - 1 then
                (emit (Close_Fd (server_socket s)) s)
                  \<lparr>sv_loop := fst (eventloop_unreg (server_socket s) Connect_Input Cf_List (sv_loop s))\<rparr>
              else s) in
     case cf_list s of
       [] \<Rightarrow> Inr s
     | p # _ \<Rightarrow> bnd (cfe_at s p) (\<lambda>cfe.
         bnd (unreg_client p s) (\<lambda>(s, _).
           Inr ((emit (Close_Fd (cf_s cfe)) s)\<lparr>cf_heap := (cf_heap s)(p := None)\<rparr>))))"

definition client_idle :: "nat \<Rightarrow> sps_state \<Rightarrow> sps_state res" where
  "client_idle p s = bnd (cfe_at s p) (\<lambda>cfe. Inr (cfe_put p (cfe\<lparr>cf_state := CS_IDLE, cf_peer := 0\<rparr>) s))"

definition register_client :: "sp_proto \<Rightarrow> cf_entry \<Rightarrow> cf_entry" where
  "register_client sp cfe =
    (let h = sp_reghdr sp; cfe = cfe\<lparr>cf_timeout := SP_TIMEOUT_REG_NR, cf_id := ntohl (sp_id sp)\<rparr>;
         cfe = (if sr_busy h = 0 then cfe\<lparr>cf_peer := 0\<rparr> else cfe) in
     if load32 (drop 4 (sr_addr_pub h)) \<noteq> 0 then cfe\<lparr>cf_addr_pub := sp_addr_decode (sr_addr_pub h)\<rparr> else cfe)"

definition rcv_sp_proto :: "sps_env \<Rightarrow> tcp_recv list \<Rightarrow> nat \<Rightarrow> sp_proto \<Rightarrow> sps_state \<Rightarrow> (sps_state \<times> int) res" where
  "rcv_sp_proto ev script p sp s =
    bnd (cfe_at s p) (\<lambda>cfe.
      case sptype_of (sp_type sp) of
        Some SP_TYPE_REGISTER \<Rightarrow> Inr (cfe_put p (register_client sp cfe) s, 0)
      | Some SP_TYPE_DEREGISTER \<Rightarrow> drop_client p s
      | Some SP_TYPE_REPORT_SEND \<Rightarrow>
          bnd (receive_send_report ev script sp p s) (\<lambda>(s, r).
            if r < 0 then Inr (s, - 1) else bnd (client_idle p s) (\<lambda>s. Inr (s, 0)))
      | Some SP_TYPE_REPORT_RCV \<Rightarrow> bnd (client_idle p s) (\<lambda>s. Inr (s, 0))
      | Some SP_TYPE_EXIT \<Rightarrow> bnd (sps_exit s) (\<lambda>s. Inr (s, 0))
      | _ \<Rightarrow> Inr (s, 0))"

text \<open>The sanity check walks the list to the entry with this address and this socket.\<close>

fun cfe_check :: "(nat \<rightharpoonup> cf_entry) \<Rightarrow> nat \<Rightarrow> int \<Rightarrow> nat list \<Rightarrow> cf_entry res" where
  "cfe_check h p fd [] = Inl Assert_Failed"
| "cfe_check h p fd (q # qs) =
    (case h q of None \<Rightarrow> Inl Use_After_Free
     | Some cfe \<Rightarrow> if q = p \<and> cf_s cfe = fd then Inr cfe else cfe_check h p fd qs)"

definition client_input :: "sps_env \<Rightarrow> int \<Rightarrow> nat \<Rightarrow> sps_state \<Rightarrow> (sps_state \<times> int) res" where
  "client_input ev fd p s =
    bnd (cfe_check (cf_heap s) p fd (cf_list s)) (\<lambda>cfe.
      case recv_message (ev_stack ev) (ev_recv ev) [] of
        (Failed, _) \<Rightarrow> Inr (s, - 1)
      | (Was_Reset, _) \<Rightarrow> drop_client p s
      | (Closed, _) \<Rightarrow> drop_client p s
      | (Kept_Waiting, _) \<Rightarrow> Inl Blocks_Forever
      | (Bad_Magic, _) \<Rightarrow> Inr (s, 0)
      | (Bad_Version, _) \<Rightarrow> Inr (s, 0)
      | (Message sp, script) \<Rightarrow>
          if cf_id cfe \<noteq> 0 \<and> htonl (sp_id sp) \<noteq> cf_id cfe then Inr (s, 0)
          else bnd (rcv_sp_proto ev script p sp s) (\<lambda>(s, r). Inr (s, if r < 0 then - 1 else 0)))"

text \<open>Registering the socket of an entry.\<close>

definition reg_client :: "sps_env \<Rightarrow> nat \<Rightarrow> int \<Rightarrow> sps_state \<Rightarrow> (sps_state \<times> int) res" where
  "reg_client ev p s1 s =
    bnd (cfe_at s p) (\<lambda>cfe.
      let s = cfe_put p (cfe\<lparr>cf_s := s1\<rparr>) s in
      case eventloop_reg_fd (ev_reg ev) s1 Client_Input (Cfe p) ''sicsophone server input'' (sv_loop s) of
        (l, r) \<Rightarrow> Inr (s\<lparr>sv_loop := l\<rparr>, r))"

definition add_client :: "sps_env \<Rightarrow> sockaddr_in \<Rightarrow> int \<Rightarrow> sps_state \<Rightarrow> (sps_state \<times> int) res" where
  "add_client ev from_addr s1 s =
    (case cfe_add (ev_alloc ev) from_addr s of
       (s, None) \<Rightarrow> Inr (s, - 1)
     | (s, Some p) \<Rightarrow> bnd (reg_client ev p s1 s) (\<lambda>(s, r). Inr (s, if r < 0 then - 1 else 0)))"

text \<open>The \<open>return 0\<close> behind the registration of a known client is the body of its \<open>if\<close>: a successful
  registration goes on and adds the client again.\<close>

definition connect_input :: "sps_env \<Rightarrow> sps_state \<Rightarrow> (sps_state \<times> int) res" where
  "connect_input ev s =
    (case ev_accept ev of
       None \<Rightarrow> Inr (s, - 1)
     | Some (s1, from_addr, len) \<Rightarrow>
         if sin_family from_addr \<noteq> AF_INET \<or> len \<noteq> 16 then Inr (emit (Close_Fd s1) s, 0)
         else bnd (cfe_find_byaddr from_addr s) (\<lambda>known.
           case known of
             None \<Rightarrow> add_client ev from_addr s1 s
           | Some p \<Rightarrow>
               bnd (unreg_client p s) (\<lambda>(s, r).
                 if r < 0 then Inr (emit Error_Call s, - 1)
                 else bnd (cfe_at s p) (\<lambda>cfe.
                   bnd (reg_client ev p s1 (emit (Close_Fd (cf_s cfe)) s)) (\<lambda>(s, r).
                     if r < 0 then Inr (s, 0) else add_client ev from_addr s1 s)))))"

text \<open>A probe gives a client its public address, and brings it out of its first state.\<close>

definition probe_client :: "sockaddr_in \<Rightarrow> cf_entry \<Rightarrow> cf_entry" where
  "probe_client from_addr cfe = cfe\<lparr>cf_timeout := SP_TIMEOUT_REG_NR, cf_addr_pub := from_addr,
     cf_state := (if cf_state cfe = CS_INIT then CS_IDLE else cf_state cfe)\<rparr>"

definition udp_input :: "sps_env \<Rightarrow> sps_state \<Rightarrow> (sps_state \<times> int) res" where
  "udp_input ev s =
    (case ev_udp ev of
       None \<Rightarrow> Inr (s, - 1)
     | Some (d, from_addr) \<Rightarrow>
         let d = take SP_SIZE d; sp = sp_object (d @ drop (length d) (ev_stack ev)) in
         if sp_magic sp \<noteq> SP_MAGIC then Inr (s, 0)
         else if ntohs (sp_version sp) \<noteq> SP_VERSION_NR then Inr (s, 0)
         else if length d \<noteq> SP_SIZE then Inr (s, 0)
         else if sp_type sp = sp_nr SP_TYPE_EXIT then bnd (sps_exit s) (\<lambda>s. Inr (s, - 1))
         else if sp_type sp \<noteq> sp_nr SP_TYPE_REGISTER then Inr (s, - 1)
         else bnd (cfe_find_byid (ntohl (sp_id sp)) s) (\<lambda>known.
           case known of
             None \<Rightarrow> Inr (s, 0)
           | Some p \<Rightarrow> bnd (cfe_at s p) (\<lambda>cfe.
               if from_addr \<noteq> cf_addr_pub cfe then Inr (cfe_put p (probe_client from_addr cfe) s, 0)
               else Inr (s, 0))))"

section \<open>The program\<close>

text \<open>The event loop's call of a handler through its function pointer.\<close>

definition sps_call :: "sps_env \<Rightarrow> sps_fn \<Rightarrow> int \<Rightarrow> sps_arg \<Rightarrow> sps_state \<Rightarrow> (sps_state \<times> int) res" where
  "sps_call ev f fd a s =
    (case f of
       Connect_Input \<Rightarrow> connect_input ev s
     | Udp_Input \<Rightarrow> udp_input ev s
     | Client_Startcalls \<Rightarrow> client_startcalls ev s
     | Client_Timeout \<Rightarrow> client_timeout ev s
     | Client_Input \<Rightarrow> (case a of Cfe p \<Rightarrow> client_input ev fd p s | Cf_List \<Rightarrow> Inl Assert_Failed))"

definition sps_initial :: "u32 \<Rightarrow> sps_state" where
  "sps_initial tid = \<lparr>sv_loop = \<lparr>ee = [], ee_timers = [], next_id = 0, loop_exit = 0\<rparr>, server_socket = - 1,
     cf_list = [], cf_heap = (\<lambda>_. None), cf_new = 0, test_id = tid, sv_out = []\<rparr>"

definition reg_server :: "sps_env \<Rightarrow> int \<Rightarrow> sps_fn \<Rightarrow> string \<Rightarrow> sps_state \<Rightarrow> sps_state \<times> int" where
  "reg_server ev fd f str s =
    (case eventloop_reg_fd (ev_reg ev) fd f Cf_List str (sv_loop s) of (l, r) \<Rightarrow> (s\<lparr>sv_loop := l\<rparr>, r))"

text \<open>The part of \<open>main\<close> behind the command line, with the two sockets created and bound; the result is
  \<open>None\<close> when it exits. \<open>offset\<close> is the value of option \<open>-o\<close>.\<close>

definition sps_start :: "sps_env \<Rightarrow> u32 \<Rightarrow> int \<Rightarrow> int \<Rightarrow> sps_state option" where
  "sps_start ev offset sock udp =
    (case reg_server ev sock Connect_Input ''sicsophone connect server input''
        ((sps_initial offset)\<lparr>server_socket := sock\<rparr>) of (s, r) \<Rightarrow>
     if r < 0 then None else
     (case reg_server ev udp Udp_Input ''sicsophone udp server input'' s of (s, r) \<Rightarrow>
      if r < 0 then None else
      (case client_startcalls ev s of
         Inl _ \<Rightarrow> None
       | Inr (s, r) \<Rightarrow> if r < 0 then None else
         (case start_client_timeout ev s of (s, r) \<Rightarrow> if r < 0 then None else Some s))))"


section \<open>The registrations\<close>

definition ee_regs :: "('f, 'a) loop_state \<Rightarrow> ('f \<times> int \<times> 'a) multiset" where
  "ee_regs l = image_mset (\<lambda>e. (e_fn e, e_fd e, e_arg e)) (mset (ee l))"

definition timer_fns :: "('f, 'a) loop_state \<Rightarrow> 'f multiset" where
  "timer_fns l = image_mset e_fn (mset (ee_timers l))"

lemma unlink_first_image:
  "(\<And>x. x \<in> set xs \<Longrightarrow> P x \<longleftrightarrow> g x = k) \<Longrightarrow> image_mset g (mset (unlink_first P xs)) = image_mset g (mset xs) - {#k#}"
  by (induction xs) (auto simp: diff_single_trivial)

lemma unreg_regs:
  assumes "f \<notin># timer_fns l"
  shows "eventloop_unreg fd f a l = (l\<lparr>ee := unlink_first (\<lambda>e. e_fn e = f \<and> e_arg e = a \<and> e_fd e = fd) (ee l)\<rparr>,
      if (f, fd, a) \<in># ee_regs l then 0 else - 1)"
    and "ee_regs (l\<lparr>ee := unlink_first (\<lambda>e. e_fn e = f \<and> e_arg e = a \<and> e_fd e = fd) (ee l)\<rparr>) = ee_regs l - {#(f, fd, a)#}"
proof -
  have t: "\<forall>e \<in> set (ee_timers l). \<not> (e_fn e = f \<and> e_arg e = a)" using assms by (auto simp: timer_fns_def)
  then have u: "unlink_first (\<lambda>e. e_fn e = f \<and> e_arg e = a) (ee_timers l) = ee_timers l"
    by (rule unlink_first_none)
  have "(\<exists>e \<in> set (ee l). e_fn e = f \<and> e_arg e = a \<and> e_fd e = fd) \<longleftrightarrow> (f, fd, a) \<in># ee_regs l"
    by (auto simp: ee_regs_def)
  then show "eventloop_unreg fd f a l = (l\<lparr>ee := unlink_first (\<lambda>e. e_fn e = f \<and> e_arg e = a \<and> e_fd e = fd) (ee l)\<rparr>,
      if (f, fd, a) \<in># ee_regs l then 0 else - 1)"
    using t u by (auto simp: eventloop_unreg_def Let_def)
  show "ee_regs (l\<lparr>ee := unlink_first (\<lambda>e. e_fn e = f \<and> e_arg e = a \<and> e_fd e = fd) (ee l)\<rparr>) = ee_regs l - {#(f, fd, a)#}"
    unfolding ee_regs_def by (simp, rule unlink_first_image) auto
qed

lemma reg_fd_regs:
  "eventloop_reg_fd ok fd f a str l = (l', r) \<Longrightarrow> 0 \<le> r \<Longrightarrow>
     ee_regs l' = add_mset (f, fd, a) (ee_regs l) \<and> timer_fns l' = timer_fns l"
  by (auto simp: eventloop_reg_fd_def ee_regs_def timer_fns_def split: if_splits)

lemma reg_timer_regs:
  "reg_timer ev t f str s = (s', r) \<Longrightarrow> 0 \<le> r \<Longrightarrow>
     ee_regs (sv_loop s') = ee_regs (sv_loop s) \<and> timer_fns (sv_loop s') = add_mset f (timer_fns (sv_loop s)) \<and>
     s' = s\<lparr>sv_loop := sv_loop s'\<rparr>"
  by (auto simp: reg_timer_def eventloop_reg_timeout_def ee_regs_def timer_fns_def insert_timer_mset split: if_splits)

section \<open>The invariant of the server\<close>

text \<open>
  The list has no entry twice, the store holds exactly the entries of the list, and the event loop
  has, besides \<open>L\<close>, exactly one registration for each client, with its socket. \<open>T\<close> are the handlers
  for which a timer runs.
\<close>

definition client_reg :: "(nat \<rightharpoonup> cf_entry) \<Rightarrow> nat \<Rightarrow> sps_fn \<times> int \<times> sps_arg" where
  "client_reg h p = (Client_Input, cf_s (the (h p)), Cfe p)"

definition sps_links :: "sps_fn multiset \<Rightarrow> (sps_fn \<times> int \<times> sps_arg) multiset \<Rightarrow> sps_state \<Rightarrow> bool" where
  "sps_links T L s \<longleftrightarrow> distinct (cf_list s) \<and> dom (cf_heap s) = set (cf_list s) \<and>
     (\<forall>p \<in> set (cf_list s). p < cf_new s) \<and>
     timer_fns (sv_loop s) = T \<and> Client_Input \<notin># T \<and> Client_Input \<notin># image_mset fst L \<and>
     ee_regs (sv_loop s) = L + image_mset (client_reg (cf_heap s)) (mset (cf_list s))"

text \<open>A client that is still in the list has between 1 and 10 checks left to give a sign of life.\<close>

definition timeouts_ok :: "sps_state \<Rightarrow> bool" where
  "timeouts_ok s \<longleftrightarrow> (\<forall>p cfe. cf_heap s p = Some cfe \<longrightarrow> 0 < cf_timeout cfe \<and> cf_timeout cfe \<le> SP_TIMEOUT_REG_NR)"

definition sps_ok :: "sps_fn multiset \<Rightarrow> (sps_fn \<times> int \<times> sps_arg) multiset \<Rightarrow> sps_state \<Rightarrow> bool" where
  "sps_ok T L s \<longleftrightarrow> sps_links T L s \<and> timeouts_ok s"

lemma links_in_heap: "sps_links T L s \<Longrightarrow> p \<in> set (cf_list s) \<Longrightarrow> \<exists>cfe. cf_heap s p = Some cfe"
  by (auto simp: sps_links_def)

lemma links_emit [simp]: "sps_links T L (emit x s) = sps_links T L s" "timeouts_ok (emit x s) = timeouts_ok s"
  by (simp_all add: sps_links_def timeouts_ok_def emit_def client_reg_def)

lemma emit_fields [simp]:
  "cf_list (emit x s) = cf_list s" "cf_heap (emit x s) = cf_heap s" "sv_loop (emit x s) = sv_loop s"
  "cf_new (emit x s) = cf_new s" "test_id (emit x s) = test_id s" "server_socket (emit x s) = server_socket s"
  "sv_out (emit x s) = sv_out s @ [x]"
  by (simp_all add: emit_def)

lemma emit_all_fields [simp]:
  "cf_list (emit_all xs s) = cf_list s" "cf_heap (emit_all xs s) = cf_heap s" "sv_loop (emit_all xs s) = sv_loop s"
  "cf_new (emit_all xs s) = cf_new s" "sv_out (emit_all xs s) = sv_out s @ xs"
  by (simp_all add: emit_all_def)

lemma ok_emit_all [simp]: "sps_ok T L (emit_all xs s) = sps_ok T L s"
  by (simp add: sps_ok_def sps_links_def timeouts_ok_def client_reg_def)

lemma ok_emit [simp]: "sps_ok T L (emit x s) = sps_ok T L s"
  by (simp add: sps_ok_def)

lemma links_put:
  assumes "sps_links T L s" "cf_heap s p = Some cfe" "cf_s cfe' = cf_s cfe"
  shows "sps_links T L (cfe_put p cfe' s)"
proof -
  have "client_reg ((cf_heap s)(p \<mapsto> cfe')) = client_reg (cf_heap s)"
    using assms(2,3) by (auto simp: client_reg_def)
  then show ?thesis using assms(1,2) by (auto simp: sps_links_def cfe_put_def)
qed

lemma ok_put:
  assumes "sps_ok T L s" "cf_heap s p = Some cfe" "cf_s cfe' = cf_s cfe"
    "0 < cf_timeout cfe'" "cf_timeout cfe' \<le> SP_TIMEOUT_REG_NR"
  shows "sps_ok T L (cfe_put p cfe' s)"
  using links_put [OF _ assms(2,3), of T L] assms by (auto simp: sps_ok_def timeouts_ok_def cfe_put_def)

lemma ok_timeout: "sps_ok T L s \<Longrightarrow> cf_heap s p = Some cfe \<Longrightarrow> 0 < cf_timeout cfe \<and> cf_timeout cfe \<le> SP_TIMEOUT_REG_NR"
  by (auto simp: sps_ok_def timeouts_ok_def)

lemma unlink_cfe_eq:
  "p \<in> set ps \<Longrightarrow> set ps \<subseteq> dom h \<Longrightarrow> unlink_cfe h p ps = Inr (remove1 p ps)"
  by (induction ps) auto

text \<open>Giving up a client removes it everywhere and cannot fail.\<close>

lemma unreg_client_links:
  assumes "sps_links T L s" "p \<in> set (cf_list s)"
  obtains l where "unreg_client p s = Inr (s\<lparr>sv_loop := l\<rparr>, 0)" "timer_fns l = T"
    "ee_regs l = L + image_mset (client_reg (cf_heap s)) (mset (remove1 p (cf_list s)))"
proof -
  obtain cfe where cfe: "cf_heap s p = Some cfe" using links_in_heap [OF assms] by blast
  let ?l = "(sv_loop s)\<lparr>ee := unlink_first (\<lambda>e. e_fn e = Client_Input \<and> e_arg e = Cfe p \<and> e_fd e = cf_s cfe) (ee (sv_loop s))\<rparr>"
  have T: "Client_Input \<notin># timer_fns (sv_loop s)" using assms(1) by (simp add: sps_links_def)
  have reg: "client_reg (cf_heap s) p = (Client_Input, cf_s cfe, Cfe p)" by (simp add: client_reg_def cfe)
  have regs: "ee_regs (sv_loop s) = L + image_mset (client_reg (cf_heap s)) (mset (cf_list s))"
    using assms(1) by (simp add: sps_links_def)
  have mp: "mset (cf_list s) = add_mset p (mset (remove1 p (cf_list s)))" using assms(2) by simp
  have "ee_regs ?l = L + image_mset (client_reg (cf_heap s)) (mset (remove1 p (cf_list s)))"
    unfolding unreg_regs(2) [OF T] regs by (subst mp) (simp add: reg)
  moreover have "(Client_Input, cf_s cfe, Cfe p) \<in># ee_regs (sv_loop s)"
    using assms(2) reg [symmetric] by (simp add: regs)
  then have "unreg_client p s = Inr (s\<lparr>sv_loop := ?l\<rparr>, 0)"
    by (simp add: unreg_client_def cfe_at_def cfe unreg_regs(1) [OF T])
  moreover have "timer_fns ?l = T" using assms(1) by (simp add: sps_links_def timer_fns_def)
  ultimately show thesis using that by blast
qed

lemma links_removed:
  assumes "sps_links T L s" "timer_fns l = T"
    "ee_regs l = L + image_mset (client_reg (cf_heap s)) (mset (remove1 p (cf_list s)))"
  shows "sps_links T L (s\<lparr>sv_loop := l, cf_list := remove1 p (cf_list s), cf_heap := (cf_heap s)(p := None), sv_out := out\<rparr>)"
proof -
  have "image_mset (client_reg (cf_heap s)) (mset (remove1 p (cf_list s)))
      = image_mset (client_reg ((cf_heap s)(p := None))) (mset (remove1 p (cf_list s)))"
    using assms(1) by (intro image_mset_cong) (auto simp: client_reg_def sps_links_def simp del: mset_remove1)
  then show ?thesis using assms by (auto simp: sps_links_def client_reg_def dom_def)
qed

lemma cfe_rm_eq:
  assumes "p \<in> set (cf_list s)" "set (cf_list s) \<subseteq> dom (cf_heap s)"
  shows "\<exists>out. cfe_rm p s = Inr (s\<lparr>cf_list := remove1 p (cf_list s), cf_heap := (cf_heap s)(p := None), sv_out := out\<rparr>)"
proof -
  obtain cfe where cfe: "cf_heap s p = Some cfe" using assms by blast
  have "cfe_rm p s = Inr (s\<lparr>cf_list := remove1 p (cf_list s), cf_heap := (cf_heap s)(p := None),
      sv_out := sv_out s @ (if cf_s cfe \<noteq> 0 then [Close_Fd (cf_s cfe)] else [])\<rparr>)"
    using assms by (simp add: cfe_rm_def unlink_cfe_eq cfe_at_def cfe emit_def)
  then show ?thesis by blast
qed

lemma drop_client_links:
  assumes "sps_links T L s" "p \<in> set (cf_list s)"
  obtains s' where "drop_client p s = Inr (s', 0)" "sps_links T L s'" "cf_list s' = remove1 p (cf_list s)"
    "cf_heap s' = (cf_heap s)(p := None)"
proof -
  obtain l where l: "unreg_client p s = Inr (s\<lparr>sv_loop := l\<rparr>, 0)" "timer_fns l = T"
    "ee_regs l = L + image_mset (client_reg (cf_heap s)) (mset (remove1 p (cf_list s)))"
    using unreg_client_links [OF assms] by blast
  obtain cfe where cfe: "cf_heap s p = Some cfe" using links_in_heap [OF assms] by blast
  let ?s = "emit (Close_Fd (cf_s cfe)) (s\<lparr>sv_loop := l\<rparr>)"
  obtain out where out: "cfe_rm p ?s = Inr (?s\<lparr>cf_list := remove1 p (cf_list s), cf_heap := (cf_heap s)(p := None), sv_out := out\<rparr>)"
    using cfe_rm_eq [of p ?s] assms by (auto simp: sps_links_def)
  then have "drop_client p s = Inr (s\<lparr>sv_loop := l, cf_list := remove1 p (cf_list s), cf_heap := (cf_heap s)(p := None), sv_out := out\<rparr>, 0)"
    using cfe by (simp add: drop_client_def l(1) cfe_at_def emit_def)
  then show thesis using that links_removed [OF assms(1) l(2,3)] by simp
qed

lemma drop_client_ok:
  assumes "sps_ok T L s" "p \<in> set (cf_list s)"
  obtains s' where "drop_client p s = Inr (s', 0)" "sps_ok T L s'" "cf_list s' = remove1 p (cf_list s)"
    "cf_heap s' = (cf_heap s)(p := None)"
  using drop_client_links [of T L s p] assms by (metis fun_upd_apply option.distinct(1) sps_ok_def timeouts_ok_def)


section \<open>Every handler keeps the invariant\<close>

lemma ok_in_list: "sps_ok T L s \<Longrightarrow> p \<in> set (cf_list s) \<longleftrightarrow> p \<in> dom (cf_heap s)"
  by (auto simp: sps_ok_def sps_links_def)

lemma ok_distinct: "sps_ok T L s \<Longrightarrow> distinct (cf_list s)"
  by (simp add: sps_ok_def sps_links_def)

lemma ok_live: "sps_ok T L s \<Longrightarrow> p \<in> set (cf_list s) \<Longrightarrow> \<exists>cfe. cf_heap s p = Some cfe"
  by (auto simp: ok_in_list)

lemma cfe_at_Some [simp]: "cf_heap s p = Some cfe \<Longrightarrow> cfe_at s p = Inr cfe"
  by (simp add: cfe_at_def)

lemma cfe_at_Inr: "cfe_at s p = Inr cfe \<longleftrightarrow> cf_heap s p = Some cfe"
  by (simp add: cfe_at_def split: option.splits)

lemma cfe_at_Inl: "cfe_at s p = Inl f \<longleftrightarrow> cf_heap s p = None \<and> f = Use_After_Free"
  by (auto simp: cfe_at_def split: option.splits)

lemma cfe_put_fields [simp]:
  "cf_list (cfe_put p cfe s) = cf_list s" "cf_heap (cfe_put p cfe s) = (cf_heap s)(p \<mapsto> cfe)"
  "sv_loop (cfe_put p cfe s) = sv_loop s" "cf_new (cfe_put p cfe s) = cf_new s"
  "sv_out (cfe_put p cfe s) = sv_out s" "test_id (cfe_put p cfe s) = test_id s"
  by (simp_all add: cfe_put_def)

lemma timeout_walk_ok:
  assumes "sps_ok T L s" "distinct ps" "set ps \<subseteq> set (cf_list s)"
  shows "\<exists>s'. timeout_walk ps s = Inr (s', 0) \<and> sps_ok T L s'"
  using assms
proof (induction ps arbitrary: s)
  case (Cons p ps)
  obtain cfe where cfe: "cf_heap s p = Some cfe" using ok_live Cons.prems by fastforce
  note t = ok_timeout [OF Cons.prems(1) cfe]
  let ?cfe = "cfe\<lparr>cf_timeout := cf_timeout cfe - 1\<rparr>"
  let ?s = "cfe_put p ?cfe s"
  have links: "sps_links T L ?s" using links_put [of T L s p cfe ?cfe] Cons.prems(1) cfe by (simp add: sps_ok_def)
  show ?case
  proof (cases "cf_timeout cfe = 1")
    case True
    obtain s' where s': "drop_client p ?s = Inr (s', 0)" "sps_links T L s'" "cf_list s' = remove1 p (cf_list s)"
      "cf_heap s' = (cf_heap s)(p := None)"
      using drop_client_links [OF links, of p] Cons.prems(3) by auto
    have "sps_ok T L s'" using s'(2,4) Cons.prems(1) by (auto simp: sps_ok_def timeouts_ok_def)
    moreover have "set ps \<subseteq> set (cf_list s')"
      using Cons.prems(2,3) ok_distinct [OF Cons.prems(1)] s'(3) by (auto simp: set_remove1_eq)
    ultimately show ?thesis using Cons.IH [of s'] Cons.prems(2) s'(1) cfe True by (auto simp: Let_def)
  next
    case False
    then have "sps_ok T L ?s" using Cons.prems(1) cfe t by (intro ok_put) auto
    then show ?thesis using Cons.IH [of ?s] Cons.prems cfe False by (simp add: Let_def)
  qed
qed simp

text \<open>A client whose connection is gone, unknown to the server, to which a send raises \<open>SIGPIPE\<close>.\<close>

definition broken_pipe :: "sps_env \<Rightarrow> sps_state \<Rightarrow> bool" where
  "broken_pipe ev s \<longleftrightarrow> (\<exists>p cfe. cf_heap s p = Some cfe \<and> \<not> ev_send ev (cf_s cfe) \<and> ev_pipe ev (cf_s cfe))"

lemma kill_walk_ok:
  assumes "sps_ok T L s" "distinct ps" "set ps \<subseteq> set (cf_list s)"
  shows "(\<exists>s'. kill_walk ev ps s = Inr s' \<and> sps_ok T L s') \<or> kill_walk ev ps s = Inl Killed_By_Signal \<and> broken_pipe ev s"
  using assms
proof (induction ps arbitrary: s)
  case (Cons p ps)
  obtain cfe where cfe: "cf_heap s p = Some cfe" using ok_live Cons.prems by fastforce
  show ?case
  proof (cases "ev_send ev (cf_s cfe)")
    case True
    let ?s = "emit (Sent (cf_s cfe) (sp_octets (sp_fill SP_TYPE_EXIT 72 (cf_id cfe) (sp_object (ev_stack ev))))) s"
    have p: "p \<in> set (cf_list ?s)" and links: "sps_links T L ?s" using Cons.prems by (auto simp: sps_ok_def)
    obtain l where l: "unreg_client p ?s = Inr (?s\<lparr>sv_loop := l\<rparr>, 0)" "timer_fns l = T"
      "ee_regs l = L + image_mset (client_reg (cf_heap ?s)) (mset (remove1 p (cf_list ?s)))"
      using unreg_client_links [OF links p] by blast
    obtain out where out: "cfe_rm p (?s\<lparr>sv_loop := l\<rparr>) = Inr (?s\<lparr>sv_loop := l, cf_list := remove1 p (cf_list s),
        cf_heap := (cf_heap s)(p := None), sv_out := out\<rparr>)" (is "_ = Inr ?s'")
      using cfe_rm_eq [of p "?s\<lparr>sv_loop := l\<rparr>"] p links by (auto simp: sps_links_def)
    have "sps_ok T L ?s'"
      using links_removed [OF links l(2,3), of out] Cons.prems(1) by (simp add: sps_ok_def timeouts_ok_def)
    moreover have "set ps \<subseteq> set (cf_list ?s')" using Cons.prems(2,3) ok_distinct [OF Cons.prems(1)] by (auto simp: set_remove1_eq)
    moreover have "broken_pipe ev s" if "broken_pipe ev ?s'" using that by (auto simp: broken_pipe_def split: if_splits)
    ultimately show ?thesis using Cons.IH [of ?s'] Cons.prems(2) cfe True l(1) out by auto
  next
    case False
    then show ?thesis using Cons.prems(1) cfe by (auto simp: send_failed_def broken_pipe_def)
  qed
qed simp

lemma all_live_ok: "set ps \<subseteq> dom h \<Longrightarrow> all_live h ps = Inr (length ps)"
  by (induction ps) auto

lemma draw_other_range: "draw_other nr i rs = Some j \<Longrightarrow> 0 < nr \<Longrightarrow> j < nr \<and> j \<noteq> i"
  by (induction rs) (auto split: if_splits)


lemma client_output_cases:
  assumes "client_output ev p q type d tid s = Inr (s', v)"
  shows "\<exists>x. s' = emit x s"
  using assms by (auto simp: client_output_def bnd_eq_Inr Let_def send_failed_def split: if_splits sp_type.splits)

lemma start_pair_ok:
  assumes "sps_ok T L s" "start_pair ev p q s = Inr (s', v)"
  shows "sps_ok T L s'"
proof -
  have tid: "sps_ok T L (s\<lparr>test_id := n\<rparr>)" for n
    using assms(1) by (simp add: sps_ok_def sps_links_def timeouts_ok_def)
  obtain cp cq where h: "cf_heap s p = Some cp" "cf_heap s q = Some cq"
    using assms(2) by (auto simp: start_pair_def bnd_eq_Inr cfe_at_Inr)
  note t = ok_timeout [OF assms(1) h(1)] ok_timeout [OF assms(1) h(2)]
  have put: "sps_ok T L (cfe_put q (cq\<lparr>cf_state := b, cf_peer := j\<rparr>) (cfe_put p (cp\<lparr>cf_state := a, cf_peer := i\<rparr>) u))"
    if "sps_ok T L u" "cf_heap u = cf_heap s" for u a b i j
    using that h t by (intro ok_put [of T L _ q "if p = q then cp\<lparr>cf_state := a, cf_peer := i\<rparr> else cq"] ok_put [of T L _ p cp]) auto
  show ?thesis
    using assms h tid put by (auto simp: start_pair_def bnd_eq_Inr Let_def dest!: client_output_cases split: if_splits)
qed

lemma sps_ok_loop:
  assumes "sps_ok T L s" "ee_regs l = ee_regs (sv_loop s)" "timer_fns l = add_mset f T" "f \<noteq> Client_Input"
  shows "sps_ok (add_mset f T) L (s\<lparr>sv_loop := l\<rparr>)"
  using assms by (auto simp: sps_ok_def sps_links_def timeouts_ok_def)

lemma reg_timer_ok:
  assumes "sps_ok T L s" "reg_timer ev t f str s = (s', r)" "\<not> r < 0" "f \<noteq> Client_Input"
  shows "sps_ok (add_mset f T) L s'"
proof -
  have "timer_fns (sv_loop s) = T" using assms(1) by (simp add: sps_ok_def sps_links_def)
  then show ?thesis using reg_timer_regs [OF assms(2)] assms(3) sps_ok_loop [OF assms(1) _ _ assms(4), of "sv_loop s'"] by auto
qed

lemma pick_and_start_ok: "sps_ok T L s \<Longrightarrow> pick_and_start ev nr s = Inr (s', v) \<Longrightarrow> sps_ok T L s'"
  by (auto simp: pick_and_start_def dest: start_pair_ok split: if_splits list.splits option.splits)

lemma client_startcalls_ok:
  assumes "sps_ok T L s" "client_startcalls ev s = Inr (s', v)" "0 \<le> v"
  shows "sps_ok (add_mset Client_Startcalls T) L s'"
proof -
  obtain nr u w r where "pick_and_start ev nr s = Inr (u, w)" and r: "\<not> r < 0"
      "reg_timer ev (timeradd (ev_now ev) (ev_delta ev)) Client_Startcalls ''client startcalls'' u = (s', r)"
    using assms(2,3) unfolding client_startcalls_def
    by (auto elim!: bnd_InrE split: prod.splits if_splits)
  then show ?thesis using reg_timer_ok [OF pick_and_start_ok [OF assms(1)] r(2,1)] by simp
qed

lemma client_timeout_ok:
  assumes "sps_ok T L s" "client_timeout ev s = Inr (s', v)" "0 \<le> v"
  shows "sps_ok (add_mset Client_Timeout T) L s'"
proof -
  obtain u where u: "timeout_walk (cf_list s) s = Inr (u, 0)" "sps_ok T L u"
    using timeout_walk_ok [OF assms(1) ok_distinct [OF assms(1)]] by auto
  then show ?thesis using assms(2,3)
    by (auto simp: client_timeout_def start_client_timeout_def intro: reg_timer_ok split: prod.splits if_splits)
qed


lemma write_log_emit: "\<exists>xs v. write_log ok fd k items s = (emit_all xs s, v)"
proof (induction items arbitrary: k s)
  case Nil
  show ?case by (auto simp: emit_all_def intro: exI [of _ "[]"])
next
  case (Cons x items)
  have e: "emit_all xs (emit y s) = emit_all (y # xs) s" for xs y by (simp add: emit_all_def emit_def)
  show ?case
  proof (cases "ok k")
    case True
    obtain xs v where "write_log ok fd (Suc k) items (emit (Log_Write fd x) s) = (emit_all xs (emit (Log_Write fd x) s), v)"
      using Cons.IH by blast
    then show ?thesis using True by (auto simp: e)
  next
    case False
    then show ?thesis by (auto simp: emit_all_def emit_def)
  qed
qed


lemma copy_report_reset: "copy_report ok k n script = (ws, Copy_Reset) \<Longrightarrow> Conn_Reset \<in> set script"
proof (induction ok k n script arbitrary: ws rule: copy_report.induct)
  case (1 ok k n script)
  have "Conn_Reset \<in> set r' \<Longrightarrow> Conn_Reset \<in> set script" "x = Conn_Reset \<Longrightarrow> Conn_Reset \<in> set script"
    if "sock_recv n script = (x, r')" for n x r'
    using that by (cases "(n, script)" rule: sock_recv.cases; auto split: if_splits)+
  then show ?case using 1
    by (auto simp: copy_report.simps [of ok k n script] split: if_splits tcp_recv.splits prod.splits)
qed

lemma copy_report_only_data: "copy_report ok k n script = (ws, Copy_Waits) \<Longrightarrow> only_data script"
proof (induction ok k n script arbitrary: ws rule: copy_report.induct)
  case (1 ok k n script)
  then show ?case using sock_recv_only_data
    by (auto simp: copy_report.simps [of ok k n script] split: if_splits tcp_recv.splits prod.splits)
qed

text \<open>The two names that option \<open>-l\<close> and \<open>-p\<close> set are short enough for the name of a report file.\<close>

definition short_names :: "sps_env \<Rightarrow> bool" where
  "short_names ev \<longleftrightarrow> length (ev_logdir ev) + length (ev_logprefix ev) \<le> 115"

lemma log_filename_fits: "short_names ev \<Longrightarrow> length (log_filename ev n) < 128"
  using length_print_u32 [of n] by (simp add: short_names_def log_filename_def)

text \<open>The report handler faults in two ways only: it waits for the rest of a report, or its file name is too long. A
  client that resets the connection while its report is read has been freed when it returns.\<close>

lemma receive_send_report_ok:
  assumes "sps_ok T L s" "p \<in> set (cf_list s)"
  shows "(\<exists>s' v. receive_send_report ev script sp p s = Inr (s', v) \<and> sps_ok T L s' \<and>
      (p \<in> set (cf_list s') \<or> Conn_Reset \<in> set script)) \<or>
    receive_send_report ev script sp p s = Inl Blocks_Forever \<and> only_data script \<or>
    receive_send_report ev script sp p s = Inl Out_Of_Bounds \<and> \<not> short_names ev"
proof -
  obtain cfe where cfe: "cf_heap s p = Some cfe" using ok_live [OF assms] by blast
  let ?n = "ntohl (ss_testid (sp_starthdr sp))"
  let ?s = "emit (Log_Open ?n (ev_open ev)) s"
  show ?thesis
  proof (cases "128 \<le> length (log_filename ev ?n)")
    case True
    then have "\<not> short_names ev" using log_filename_fits [of ev ?n] by auto
    then show ?thesis using True assms cfe
      by (cases "sint (ntohl (sp_len sp) - 72) = 0") (simp_all add: receive_send_report_def Let_def)
  next
    case False
    obtain xs ok where w: "write_log (ev_write ev) (ev_open ev) 0 (log_header (sp_starthdr sp)) ?s = (emit_all xs ?s, ok)"
      using write_log_emit by blast
    obtain ws res where c: "copy_report (ev_write ev) 6 (nat (sint (ntohl (sp_len sp) - 72))) script = (ws, res)"
      by fastforce
    let ?s' = "emit_all (map (Log_Write (ev_open ev)) ws) (emit_all xs ?s)"
    obtain s' where s': "drop_client p ?s' = Inr (s', 0)" "sps_ok T L s'"
      using drop_client_ok [of T L ?s' p] assms by auto
    show ?thesis
      using assms cfe w c s' False copy_report_reset [of "ev_write ev" 6 "nat (sint (ntohl (sp_len sp) - 72))" script ws]
        copy_report_only_data [of "ev_write ev" 6 "nat (sint (ntohl (sp_len sp) - 72))" script ws]
      by (cases ok; cases res) (auto simp: receive_send_report_def Let_def)
  qed
qed


lemma client_idle_ok: "sps_ok T L s \<Longrightarrow> client_idle p s = Inr s' \<Longrightarrow> sps_ok T L s'"
  by (auto simp: client_idle_def bnd_eq_Inr cfe_at_Inr dest: ok_timeout intro!: ok_put)

lemma register_client_fields [simp]:
  "cf_s (register_client sp cfe) = cf_s cfe" "cf_timeout (register_client sp cfe) = SP_TIMEOUT_REG_NR"
  "cf_id (register_client sp cfe) = ntohl (sp_id sp)" "cf_addr (register_client sp cfe) = cf_addr cfe"
  "cf_state (register_client sp cfe) = cf_state cfe"
  by (simp_all add: register_client_def Let_def)

lemma register_client_ok: "sps_ok T L s \<Longrightarrow> cf_heap s p = Some cfe \<Longrightarrow> sps_ok T L (cfe_put p (register_client sp cfe) s)"
  by (rule ok_put) (simp_all add: SP_TIMEOUT_REG_NR_def)

lemma unreg_client_out: "unreg_client p s = Inr (s', r) \<Longrightarrow> sv_out s' = sv_out s"
  by (auto simp: unreg_client_def elim!: bnd_InrE split: prod.splits)

lemma sps_exit_marks: "sps_exit s = Inr s' \<Longrightarrow> Exit_Begun \<in> set (sv_out s')"
  by (auto simp: sps_exit_def Let_def dest!: unreg_client_out elim!: bnd_InrE split: list.splits if_splits)

lemma rcv_sp_proto_ok:
  assumes "sps_ok T L s" "p \<in> set (cf_list s)" "rcv_sp_proto ev script p sp s = Inr (s', v)" "Exit_Begun \<notin> set (sv_out s')"
  shows "sps_ok T L s'"
proof -
  obtain cfe where cfe: "cf_heap s p = Some cfe" using ok_live [OF assms(1,2)] by blast
  obtain d where d: "drop_client p s = Inr (d, 0)" "sps_ok T L d" using drop_client_ok [OF assms(1,2)] by blast
  have r: "sps_ok T L r" if "receive_send_report ev script sp p s = Inr (r, w)" for r w
    using receive_send_report_ok [OF assms(1,2), of ev script sp] that by auto
  show ?thesis
    using assms(1,3,4) cfe d r
    by (auto simp: rcv_sp_proto_def bnd_eq_Inr dest: sps_exit_marks
        intro: client_idle_ok register_client_ok split: option.splits sp_type.splits if_splits)
qed

lemma cfe_check_eq:
  "set ps \<subseteq> dom h \<Longrightarrow> distinct ps \<Longrightarrow> cfe_check h p fd ps =
    (if p \<in> set ps \<and> cf_s (the (h p)) = fd then Inr (the (h p)) else Inl Assert_Failed)"
  by (induction ps) auto

lemma client_input_ok:
  assumes "sps_ok T L s" "client_input ev fd p s = Inr (s', v)" "Exit_Begun \<notin> set (sv_out s')"
  shows "sps_ok T L s'"
proof -
  have sub: "set (cf_list s) \<subseteq> dom (cf_heap s)" using assms(1) by (auto simp: ok_in_list)
  then have p: "p \<in> set (cf_list s)"
    using assms(2) ok_distinct [OF assms(1)] by (auto simp: client_input_def cfe_check_eq split: if_splits)
  obtain d where d: "drop_client p s = Inr (d, 0)" "sps_ok T L d" using drop_client_ok [OF assms(1) p] by blast
  show ?thesis
    using assms d rcv_sp_proto_ok [OF assms(1) p] unfolding client_input_def
    by (auto elim!: bnd_InrE split: msg_recv.splits prod.splits if_splits)
qed

text \<open>The state between the deregistration of a client's old socket, or its creation, and the
  registration of its new socket.\<close>

definition unregistered :: "nat \<Rightarrow> sps_fn multiset \<Rightarrow> (sps_fn \<times> int \<times> sps_arg) multiset \<Rightarrow> sps_state \<Rightarrow> bool" where
  "unregistered p T L s \<longleftrightarrow> distinct (cf_list s) \<and> dom (cf_heap s) = set (cf_list s) \<and>
     (\<forall>p \<in> set (cf_list s). p < cf_new s) \<and> p \<in> set (cf_list s) \<and> timeouts_ok s \<and>
     timer_fns (sv_loop s) = T \<and> Client_Input \<notin># T \<and> Client_Input \<notin># image_mset fst L \<and>
     ee_regs (sv_loop s) = L + image_mset (client_reg (cf_heap s)) (mset (remove1 p (cf_list s)))"

lemma reg_client_ok:
  assumes "unregistered p T L s" "reg_client ev p s1 s = Inr (s', r)" "\<not> r < 0"
  shows "sps_ok T L s'"
proof -
  obtain cfe l where cfe: "cf_heap s p = Some cfe" and
    l: "eventloop_reg_fd (ev_reg ev) s1 Client_Input (Cfe p) ''sicsophone server input'' (sv_loop s) = (l, r)"
    and s': "s' = (cfe_put p (cfe\<lparr>cf_s := s1\<rparr>) s)\<lparr>sv_loop := l\<rparr>"
    using assms(2) unfolding reg_client_def
    by (elim bnd_InrE) (auto simp: cfe_at_Inr Let_def split: prod.splits)
  have regs: "ee_regs l = add_mset (Client_Input, s1, Cfe p) (ee_regs (sv_loop s))" "timer_fns l = timer_fns (sv_loop s)"
    using reg_fd_regs [OF l] assms(3) by auto
  let ?h = "(cf_heap s)(p \<mapsto> cfe\<lparr>cf_s := s1\<rparr>)"
  have "image_mset (client_reg (cf_heap s)) (mset (remove1 p (cf_list s)))
      = image_mset (client_reg ?h) (mset (remove1 p (cf_list s)))"
    using assms(1) by (intro image_mset_cong) (auto simp: client_reg_def unregistered_def simp del: mset_remove1)
  then have "ee_regs l = add_mset (client_reg ?h p) (L + image_mset (client_reg ?h) (mset (remove1 p (cf_list s))))"
    using assms(1) regs(1) by (simp add: unregistered_def client_reg_def)
  also have "... = L + image_mset (client_reg ?h) (add_mset p (mset (remove1 p (cf_list s))))" by simp
  also have "add_mset p (mset (remove1 p (cf_list s))) = mset (cf_list s)"
    using assms(1) by (simp add: unregistered_def)
  finally have "ee_regs l = L + image_mset (client_reg ?h) (mset (cf_list s))" .
  then show ?thesis
    using assms(1) regs(2) cfe by (auto simp: sps_ok_def sps_links_def timeouts_ok_def s' unregistered_def)
qed

lemma add_client_ok:
  assumes "sps_ok T L s" "add_client ev a s1 s = Inr (s', v)" "0 \<le> v"
  shows "sps_ok T L s'"
proof -
  let ?cfe = "\<lparr>cf_addr = a, cf_addr_pub = zero_addr, cf_id = 0, cf_s = 0, cf_state = CS_INIT,
     cf_peer = 0, cf_timeout = SP_TIMEOUT_REG_NR\<rparr>"
  let ?s = "cfe_put (cf_new s) ?cfe s\<lparr>cf_list := cf_new s # cf_list s, cf_new := Suc (cf_new s)\<rparr>"
  obtain r where r: "reg_client ev (cf_new s) s1 ?s = Inr (s', r)" "\<not> r < 0"
    using assms(2,3) by (auto simp: add_client_def cfe_add_def bnd_eq_Inr split: if_splits)
  have new: "cf_new s \<notin> set (cf_list s)" using assms(1) by (auto simp: sps_ok_def sps_links_def)
  then have "image_mset (client_reg ((cf_heap s)(cf_new s \<mapsto> ?cfe))) (mset (cf_list s))
      = image_mset (client_reg (cf_heap s)) (mset (cf_list s))"
    by (intro image_mset_cong) (auto simp: client_reg_def)
  then have "unregistered (cf_new s) T L ?s"
    using assms(1) new by (auto simp: unregistered_def sps_ok_def sps_links_def timeouts_ok_def SP_TIMEOUT_REG_NR_def)
  then show ?thesis using reg_client_ok r by blast
qed

lemma cfe_find_eq:
  "cfe_find h P ps = Inr (Some p) \<Longrightarrow> p \<in> set ps \<and> (\<exists>cfe. h p = Some cfe \<and> P cfe)"
  by (induction ps) (auto split: option.splits if_splits)

lemma unreg_unregistered:
  assumes "sps_ok T L s" "p \<in> set (cf_list s)" "unreg_client p s = Inr (s', r)"
  shows "r = 0 \<and> unregistered p T L (emit x s')"
proof -
  have links: "sps_links T L s" using assms(1) by (simp add: sps_ok_def)
  obtain l where "unreg_client p s = Inr (s\<lparr>sv_loop := l\<rparr>, 0)" "timer_fns l = T"
    "ee_regs l = L + image_mset (client_reg (cf_heap s)) (mset (remove1 p (cf_list s)))"
    using unreg_client_links [OF links assms(2)] by blast
  then show ?thesis using assms by (auto simp: unregistered_def sps_ok_def sps_links_def timeouts_ok_def)
qed

lemma connect_input_ok:
  assumes "sps_ok T L s" "connect_input ev s = Inr (s', v)" "0 \<le> v" "ev_reg ev"
  shows "sps_ok T L s'"
proof -
  have reg: "0 \<le> r" if "reg_client ev p s1 u = Inr (u', r)" for p s1 u u' r
    using that assms(4) by (auto simp: reg_client_def eventloop_reg_fd_def bnd_eq_Inr Let_def)
  have known: "sps_ok T L u" if "cfe_find_byaddr a s = Inr (Some p)" "unreg_client p s = Inr (t, r)"
    "reg_client ev p s1 (emit x t) = Inr (u, r')" for a p t r s1 x u r'
  proof -
    have "p \<in> set (cf_list s)" using that(1) by (auto simp: cfe_find_byaddr_def dest: cfe_find_eq)
    then show ?thesis using unreg_unregistered [OF assms(1) _ that(2)] reg_client_ok [OF _ that(3)] reg [OF that(3)]
      by (meson not_less)
  qed
  show ?thesis
    using assms(1-3) known unfolding connect_input_def
    by (auto elim!: bnd_InrE dest: reg split: option.splits if_splits) (blast intro: add_client_ok)+
qed

lemma probe_client_ok: "sps_ok T L s \<Longrightarrow> cf_heap s p = Some cfe \<Longrightarrow> sps_ok T L (cfe_put p (probe_client a cfe) s)"
  by (rule ok_put) (simp_all add: probe_client_def SP_TIMEOUT_REG_NR_def)

lemma udp_input_ok:
  assumes "sps_ok T L s" "udp_input ev s = Inr (s', v)" "0 \<le> v"
  shows "sps_ok T L s'"
  using assms unfolding udp_input_def Let_def
  by (auto elim!: bnd_InrE simp: cfe_at_Inr split: option.splits if_splits prod.splits) (blast intro: probe_client_ok)+

section \<open>Reachable states\<close>

text \<open>The state in which the handler of the first timer runs.\<close>

definition timer_popped :: "(sps_fn, sps_arg) event_data list \<Rightarrow> sps_state \<Rightarrow> sps_state" where
  "timer_popped r s = s\<lparr>sv_loop := (sv_loop s)\<lparr>ee_timers := r\<rparr>\<rparr>"

text \<open>
  The states of the server between two handlers, as long as its exit function has not been called:
  the first timer or a registered descriptor is dispatched, or the signal arrives that ends all
  clients. A handler that returns a negative value ends the loop. The event loop has memory for its
  registrations (\<open>ev_reg\<close>).
\<close>

inductive sps_reach :: "int \<Rightarrow> int \<Rightarrow> sps_state \<Rightarrow> bool" for sock :: int and udp :: int where
  reach_start: "sps_start ev offset sock udp = Some s \<Longrightarrow> sps_reach sock udp s"
| reach_timer: "sps_reach sock udp s \<Longrightarrow> ee_timers (sv_loop s) = e # r \<Longrightarrow> ev_reg ev
    \<Longrightarrow> sps_call ev (e_fn e) 0 (e_arg e) (timer_popped r s) = Inr (s', v) \<Longrightarrow> 0 \<le> v
    \<Longrightarrow> Exit_Begun \<notin> set (sv_out s') \<Longrightarrow> sps_reach sock udp s'"
| reach_fd: "sps_reach sock udp s \<Longrightarrow> e \<in> set (ee (sv_loop s)) \<Longrightarrow> ev_reg ev
    \<Longrightarrow> sps_call ev (e_fn e) (e_fd e) (e_arg e) s = Inr (s', v) \<Longrightarrow> 0 \<le> v
    \<Longrightarrow> Exit_Begun \<notin> set (sv_out s') \<Longrightarrow> sps_reach sock udp s'"
| reach_kill: "sps_reach sock udp s \<Longrightarrow> kill_all_clients ev s = Inr s' \<Longrightarrow> sps_reach sock udp s'"

abbreviation sps_timers :: "sps_fn multiset" where
  "sps_timers \<equiv> {#Client_Startcalls, Client_Timeout#}"

abbreviation sps_sockets :: "int \<Rightarrow> int \<Rightarrow> (sps_fn \<times> int \<times> sps_arg) multiset" where
  "sps_sockets sock udp \<equiv> {#(Connect_Input, sock, Cf_List), (Udp_Input, udp, Cf_List)#}"

lemma sps_start_ok:
  assumes "sps_start ev offset sock udp = Some s"
  shows "sps_ok sps_timers (sps_sockets sock udp) s"
proof -
  let ?i = "(sps_initial offset)\<lparr>server_socket := sock\<rparr>"
  obtain a b c d rc rd where
    a: "reg_server ev sock Connect_Input ''sicsophone connect server input'' ?i = (a, 0)"
    and b: "reg_server ev udp Udp_Input ''sicsophone udp server input'' a = (b, 0)"
    and c: "client_startcalls ev b = Inr (c, rc)" "0 \<le> rc"
    and d: "start_client_timeout ev c = (d, rd)" "\<not> rd < 0" "s = d"
    using assms
    by (auto simp: sps_start_def reg_server_def eventloop_reg_fd_def split: prod.splits sum.splits if_splits)
  have "sps_ok {#} (sps_sockets sock udp) b"
    using a b by (auto simp: reg_server_def eventloop_reg_fd_def sps_initial_def sps_ok_def sps_links_def timeouts_ok_def
        ee_regs_def timer_fns_def split: if_splits)
  then have "sps_ok {#Client_Startcalls#} (sps_sockets sock udp) c" using client_startcalls_ok [OF _ c] by simp
  then have "sps_ok {#Client_Timeout, Client_Startcalls#} (sps_sockets sock udp) d"
    using d(1,2) by (auto simp: start_client_timeout_def intro: reg_timer_ok split: prod.splits if_splits)
  then show ?thesis using d(3) by (simp add: add_mset_commute)
qed

lemma sps_call_fd_ok:
  assumes "sps_ok sps_timers (sps_sockets sock udp) s" "e \<in> set (ee (sv_loop s))" "ev_reg ev"
    and "sps_call ev (e_fn e) (e_fd e) (e_arg e) s = Inr (s', v)" "0 \<le> v" "Exit_Begun \<notin> set (sv_out s')"
  shows "sps_ok sps_timers (sps_sockets sock udp) s'"
proof -
  have "(e_fn e, e_fd e, e_arg e) \<in># ee_regs (sv_loop s)" using assms(2) by (auto simp: ee_regs_def)
  then have "(e_fn e, e_fd e, e_arg e) \<in> set_mset (sps_sockets sock udp) \<or> e_fn e = Client_Input"
    using assms(1) by (auto simp: sps_ok_def sps_links_def client_reg_def)
  then show ?thesis using assms
    by (auto simp: sps_call_def intro: connect_input_ok udp_input_ok client_input_ok split: sps_arg.splits)
qed

lemma timer_popped_ok:
  assumes "sps_ok sps_timers L s" "ee_timers (sv_loop s) = e # r"
  shows "e_fn e = Client_Startcalls \<or> e_fn e = Client_Timeout"
    and "add_mset (e_fn e) (image_mset e_fn (mset r)) = sps_timers"
    and "sps_ok (image_mset e_fn (mset r)) L (timer_popped r s)"
proof -
  show T: "add_mset (e_fn e) (image_mset e_fn (mset r)) = sps_timers"
    using assms by (simp add: sps_ok_def sps_links_def timer_fns_def)
  then have "e_fn e \<in># sps_timers" by (metis union_single_eq_member)
  then show "e_fn e = Client_Startcalls \<or> e_fn e = Client_Timeout" by simp
  have "Client_Input \<notin># image_mset e_fn (mset r)"
    using T assms(1) by (metis insert_iff set_mset_add_mset_insert sps_links_def sps_ok_def)
  then show "sps_ok (image_mset e_fn (mset r)) L (timer_popped r s)"
    using assms(1) by (auto simp: sps_ok_def sps_links_def timeouts_ok_def timer_fns_def ee_regs_def timer_popped_def)
qed

lemma sps_call_timer_ok:
  assumes "sps_ok sps_timers L s" "ee_timers (sv_loop s) = e # r"
    and "sps_call ev (e_fn e) fd (e_arg e) (timer_popped r s) = Inr (s', v)" "0 \<le> v"
  shows "sps_ok sps_timers L s'"
proof -
  note pop = timer_popped_ok [OF assms(1,2)]
  have "sps_ok (add_mset (e_fn e) (image_mset e_fn (mset r))) L s'"
    using pop(1,3) assms(3,4) by (auto simp: sps_call_def intro: client_startcalls_ok client_timeout_ok)
  then show ?thesis by (simp only: pop(2))
qed

lemma sps_reach_ok: "sps_reach sock udp s \<Longrightarrow> sps_ok sps_timers (sps_sockets sock udp) s"
proof (induction rule: sps_reach.induct)
  case (reach_start ev offset s)
  then show ?case by (rule sps_start_ok)
next
  case (reach_timer s e r ev s' v)
  then show ?case using sps_call_timer_ok by blast
next
  case (reach_fd s e ev s' v)
  then show ?case using sps_call_fd_ok by blast
next
  case (reach_kill s ev s')
  then show ?case using kill_walk_ok [OF reach_kill.IH ok_distinct [OF reach_kill.IH], of ev]
    by (auto simp: kill_all_clients_def)
qed


section \<open>What can stop the server\<close>



lemma unreg_client_form: "cf_heap t q = Some c \<Longrightarrow> \<exists>l r. unreg_client q t = Inr (t\<lparr>sv_loop := l\<rparr>, r)"
  by (auto simp: unreg_client_def split: prod.splits)

lemma sps_exit_head:
  assumes "cf_list s = q # qs" "cf_heap s q = Some cq"
  shows "\<exists>s'. sps_exit s = Inr s' \<and> cf_list s' = q # qs \<and> cf_heap s' q = None"
proof -
  define t where "t = (if server_socket (emit Exit_Begun s) \<noteq> - 1 then
      (emit (Close_Fd (server_socket (emit Exit_Begun s))) (emit Exit_Begun s))
        \<lparr>sv_loop := fst (eventloop_unreg (server_socket (emit Exit_Begun s)) Connect_Input Cf_List (sv_loop (emit Exit_Begun s)))\<rparr>
      else emit Exit_Begun s)"
  have t: "cf_list t = q # qs" "cf_heap t q = Some cq" using assms by (simp_all add: t_def)
  obtain l r where "unreg_client q t = Inr (t\<lparr>sv_loop := l\<rparr>, r)" using unreg_client_form [OF t(2)] by blast
  then show ?thesis using t unfolding sps_exit_def Let_def t_def [symmetric] by simp
qed
















section \<open>Properties\<close>

text \<open>What the system does in the examples: nothing fails and nothing arrives.\<close>

definition sample_env :: sps_env where
  "sample_env = \<lparr>ev_now = tv 0 0, ev_random = [], ev_duration = tv 60 0, ev_delta = tv 5 0, ev_send = (\<lambda>_. True), ev_pipe = (\<lambda>_. False),
     ev_reg = True, ev_alloc = True, ev_recv = [], ev_stack = replicate 72 0, ev_accept = None, ev_udp = None,
     ev_logdir = [108, 111, 103], ev_logprefix = [108, 111, 103], ev_open = 9, ev_write = (\<lambda>_. True)\<rparr>"

lemma sample_start: "\<exists>s. sps_start sample_env 0 3 4 = Some s \<and> cf_list s = [] \<and> cf_heap s = (\<lambda>_. None) \<and> sv_out s = [] \<and>
    (\<exists>e \<in> set (ee (sv_loop s)). e_fn e = Connect_Input)"
  by (simp add: sps_start_def reg_server_def eventloop_reg_fd_def client_startcalls_def pick_and_start_def
      reg_timer_def eventloop_reg_timeout_def start_client_timeout_def sample_env_def sps_initial_def)

text \<open>C7. The invariant of the server: whatever clients connect, send, reconnect or vanish, as long as
  nobody sends the message that ends the server, the list has no entry twice, every entry of the
  list is allocated and no other is, every client has exactly one registration with the event loop,
  for its own socket, and no client that has gone has one, the two server sockets stay registered,
  the two timers stay set, and every client has 1 to 10 checks left before it is given up.\<close>

theorem server_invariant:
  assumes "sps_reach sock udp s"
  shows "sps_ok sps_timers (sps_sockets sock udp) s"
  using assms by (rule sps_reach_ok)

theorem server_invariant_witness:
  "\<exists>s. sps_start sample_env 0 3 4 = Some s \<and> sps_ok sps_timers (sps_sockets 3 4) s"
proof -
  obtain s where s: "sps_start sample_env 0 3 4 = Some s" using sample_start by blast
  then show ?thesis using server_invariant [OF reach_start [OF s]] by blast
qed





text \<open>The message of a successful \<open>client_output\<close>.\<close>

definition start_message :: "sps_env \<Rightarrow> sp_type \<Rightarrow> u32 \<Rightarrow> sdhdr_start \<Rightarrow> bytes" where
  "start_message ev type cid h = sp_octets (sp_fill type 72 cid ((sp_object (ev_stack ev))\<lparr>sp_data := start_octets h\<rparr>))"

lemma client_output_start:
  assumes "cf_heap s p = Some cp" "cf_heap s q = Some cq" "s_addr (cf_addr_pub cp) \<noteq> 0" "ev_send ev (cf_s cp)"
  shows "client_output ev p q SP_TYPE_START_SEND d tid s = Inr (emit (Sent (cf_s cp) (start_message ev SP_TYPE_START_SEND (cf_id cp)
      (start_hdr tid (cf_id cp) (cf_id cq) (cf_addr_pub cp) (cf_addr_pub cq) (ev_now ev) d))) s, 0)"
    and "client_output ev p q SP_TYPE_START_RCV d tid s = Inr (emit (Sent (cf_s cp) (start_message ev SP_TYPE_START_RCV (cf_id cp)
      (start_hdr tid (cf_id cp) (cf_id cq) (cf_addr_pub cq) (cf_addr_pub cp) (ev_now ev) d))) s, 0)"
  using assms by (simp_all add: client_output_def start_message_def Let_def)

lemma start_hdr_lengths [simp]:
  "length (ss_addr_src_pub (start_hdr tid i j a b t d)) = 16" "length (ss_addr_dst_pub (start_hdr tid i j a b t d)) = 16"
  by (simp_all add: start_hdr_def)

lemma start_message_object:
  "sp_object (start_message ev type cid h) = sp_fill type 72 cid ((sp_object (ev_stack ev))\<lparr>sp_data := start_octets h\<rparr>)"
  by (simp add: start_message_def)

lemma start_message_hdr:
  "length (ss_addr_src_pub h) = 16 \<Longrightarrow> length (ss_addr_dst_pub h) = 16
    \<Longrightarrow> sp_starthdr (sp_object (start_message ev type cid h)) = h"
  using start_octets_hdr [of h "sp_object (ev_stack ev)"]
  by (simp add: start_message_object sp_starthdr_def sp_fill_def)

text \<open>The two messages of a call as the server sends them, and what the server remembers.\<close>

lemma startcalls_messages:
  assumes "sps_ok T L s" "ev_random ev = r # rs" "draw_other (length (cf_list s)) (r mod length (cf_list s)) rs = Some j"
    and "2 \<le> length (cf_list s)" "p = cf_list s ! (r mod length (cf_list s))" "q = cf_list s ! j"
    and "cf_heap s p = Some cp" "cf_heap s q = Some cq" "cf_state cp = CS_IDLE" "cf_state cq = CS_IDLE"
    and "s_addr (cf_addr_pub cp) \<noteq> 0" "s_addr (cf_addr_pub cq) \<noteq> 0"
    and "ev_send ev (cf_s cp)" "ev_send ev (cf_s cq)" "ev_reg ev"
  shows "p \<noteq> q \<and> (\<exists>l. client_startcalls ev s = Inr
    ((cfe_put q (cq\<lparr>cf_state := CS_RCV, cf_peer := cf_id cp\<rparr>) (cfe_put p (cp\<lparr>cf_state := CS_SEND, cf_peer := cf_id cq\<rparr>)
       (emit_all [Sent (cf_s cp) (start_message ev SP_TYPE_START_SEND (cf_id cp)
                   (start_hdr (test_id s) (cf_id cp) (cf_id cq) (cf_addr_pub cp) (cf_addr_pub cq) (ev_now ev) (ev_duration ev))),
                  Sent (cf_s cq) (start_message ev SP_TYPE_START_RCV (cf_id cq)
                   (start_hdr (test_id s) (cf_id cq) (cf_id cp) (cf_addr_pub cp) (cf_addr_pub cq) (ev_now ev) (ev_duration ev)))]
         (s\<lparr>test_id := test_id s + 1\<rparr>))))\<lparr>sv_loop := l\<rparr>, 0))"
proof -
  let ?n = "length (cf_list s)"
  have n: "0 < ?n" using assms(4) by linarith
  have j: "j < ?n" "j \<noteq> r mod ?n" using draw_other_range [OF assms(3) n] by simp_all
  have pq: "p \<noteq> q"
    using j n ok_distinct [OF assms(1)] assms(5,6) by (simp add: nth_eq_iff_index_eq)
  let ?h1 = "start_hdr (test_id s) (cf_id cp) (cf_id cq) (cf_addr_pub cp) (cf_addr_pub cq) (ev_now ev) (ev_duration ev)"
  let ?h2 = "start_hdr (test_id s) (cf_id cq) (cf_id cp) (cf_addr_pub cp) (cf_addr_pub cq) (ev_now ev) (ev_duration ev)"
  let ?m1 = "start_message ev SP_TYPE_START_SEND (cf_id cp) ?h1" and ?m2 = "start_message ev SP_TYPE_START_RCV (cf_id cq) ?h2"
  let ?s1 = "emit (Sent (cf_s cp) ?m1) (s\<lparr>test_id := test_id s + 1\<rparr>)"
  let ?s2 = "emit (Sent (cf_s cq) ?m2) ?s1"
  let ?s3 = "cfe_put q (cq\<lparr>cf_state := CS_RCV, cf_peer := cf_id cp\<rparr>) (cfe_put p (cp\<lparr>cf_state := CS_SEND, cf_peer := cf_id cq\<rparr>) ?s2)"
  have "start_pair ev p q s = Inr (?s3, 0)"
    using assms(7-14) client_output_start(1) [of "s\<lparr>test_id := test_id s + 1\<rparr>" p cp q cq ev]
      client_output_start(2) [of ?s1 q cq p cp ev]
    by (simp add: start_pair_def Let_def)
  then have "pick_and_start ev ?n s = Inr (?s3, 0)"
    using assms(2-6) by (simp add: pick_and_start_def)
  moreover have "all_live (cf_heap s) (cf_list s) = Inr ?n"
    using assms(1) by (intro all_live_ok) (auto simp: ok_in_list)
  ultimately obtain l where s': "client_startcalls ev s = Inr (?s3\<lparr>sv_loop := l\<rparr>, 0)"
    using assms(15) by (auto simp: client_startcalls_def reg_timer_def eventloop_reg_timeout_def)
  have "?s2 = emit_all [Sent (cf_s cp) ?m1, Sent (cf_s cq) ?m2] (s\<lparr>test_id := test_id s + 1\<rparr>)"
    by (simp add: emit_def emit_all_def)
  then show ?thesis using pq s' by metis
qed

text \<open>C8. A call is started between two different clients: when the two that were drawn are idle and have
  addresses, the one is told to send and the other to receive, both busy with each other, nobody
  else is touched, and the two messages agree on everything, the number of the test, both
  addresses, the start and the duration, except that each names its own client as the source.\<close>

theorem startcalls_pairs:
  assumes "sps_ok T L s" "ev_random ev = r # rs" "draw_other (length (cf_list s)) (r mod length (cf_list s)) rs = Some j"
    and "2 \<le> length (cf_list s)" "p = cf_list s ! (r mod length (cf_list s))" "q = cf_list s ! j"
    and "cf_heap s p = Some cp" "cf_heap s q = Some cq" "cf_state cp = CS_IDLE" "cf_state cq = CS_IDLE"
    and "s_addr (cf_addr_pub cp) \<noteq> 0" "s_addr (cf_addr_pub cq) \<noteq> 0"
    and "ev_send ev (cf_s cp)" "ev_send ev (cf_s cq)" "ev_reg ev"
  shows "p \<noteq> q \<and> (\<exists>s' m1 m2. client_startcalls ev s = Inr (s', 0) \<and>
    sv_out s' = sv_out s @ [Sent (cf_s cp) m1, Sent (cf_s cq) m2] \<and>
    cf_list s' = cf_list s \<and> test_id s' = test_id s + 1 \<and>
    cf_heap s' = (cf_heap s)(p \<mapsto> cp\<lparr>cf_state := CS_SEND, cf_peer := cf_id cq\<rparr>, q \<mapsto> cq\<lparr>cf_state := CS_RCV, cf_peer := cf_id cp\<rparr>) \<and>
    sp_type (sp_object m1) = sp_nr SP_TYPE_START_SEND \<and> sp_type (sp_object m2) = sp_nr SP_TYPE_START_RCV \<and>
    sp_valid (sp_object m1) \<and> sp_valid (sp_object m2) \<and>
    (let a = sp_starthdr (sp_object m1) in
      ntohl (ss_testid a) = test_id s \<and>
      ss_addr_src_pub a = sp_addr_encode (cf_addr_pub cp) \<and> ss_addr_dst_pub a = sp_addr_encode (cf_addr_pub cq) \<and>
      sp_starthdr (sp_object m2) = a\<lparr>ss_clientid_src := ss_clientid_dst a, ss_clientid_dst := ss_clientid_src a\<rparr>))"
proof -
  let ?h1 = "start_hdr (test_id s) (cf_id cp) (cf_id cq) (cf_addr_pub cp) (cf_addr_pub cq) (ev_now ev) (ev_duration ev)"
  let ?h2 = "start_hdr (test_id s) (cf_id cq) (cf_id cp) (cf_addr_pub cp) (cf_addr_pub cq) (ev_now ev) (ev_duration ev)"
  let ?m1 = "start_message ev SP_TYPE_START_SEND (cf_id cp) ?h1" and ?m2 = "start_message ev SP_TYPE_START_RCV (cf_id cq) ?h2"
  let ?s2 = "emit_all [Sent (cf_s cp) ?m1, Sent (cf_s cq) ?m2] (s\<lparr>test_id := test_id s + 1\<rparr>)"
  let ?s3 = "cfe_put q (cq\<lparr>cf_state := CS_RCV, cf_peer := cf_id cp\<rparr>) (cfe_put p (cp\<lparr>cf_state := CS_SEND, cf_peer := cf_id cq\<rparr>) ?s2)"
  obtain l where pq: "p \<noteq> q" and s': "client_startcalls ev s = Inr (?s3\<lparr>sv_loop := l\<rparr>, 0)"
    using startcalls_messages [OF assms] by blast
  have h: "sp_starthdr (sp_object ?m1) = ?h1" "sp_starthdr (sp_object ?m2) = ?h2"
    by (simp_all add: start_message_hdr)
  have v: "sp_valid (sp_object ?m1)" "sp_valid (sp_object ?m2)"
    by (simp_all add: start_message_object sp_fill_valid)
  have t: "sp_type (sp_object ?m1) = sp_nr SP_TYPE_START_SEND" "sp_type (sp_object ?m2) = sp_nr SP_TYPE_START_RCV"
    by (simp_all only: start_message_object sp_fill_def) simp_all
  have swap: "?h2 = ?h1\<lparr>ss_clientid_src := ss_clientid_dst ?h1, ss_clientid_dst := ss_clientid_src ?h1\<rparr>"
    "ntohl (ss_testid ?h1) = test_id s" "ss_addr_src_pub ?h1 = sp_addr_encode (cf_addr_pub cp)"
    "ss_addr_dst_pub ?h1 = sp_addr_encode (cf_addr_pub cq)"
    by (simp_all add: start_hdr_def)
  show ?thesis
    by (rule conjI [OF pq], rule exI [of _ "?s3\<lparr>sv_loop := l\<rparr>"], rule exI [of _ ?m1], rule exI [of _ ?m2])
      (simp only: Let_def s' h v t swap(2-4), intro conjI; (rule swap(1) | simp add: emit_all_def))
qed

definition sample_client :: "nat \<Rightarrow> u32 \<Rightarrow> cf_entry" where
  "sample_client i a = \<lparr>cf_addr = zero_addr\<lparr>sin_family := AF_INET, sin_port := of_nat i, s_addr := a\<rparr>,
     cf_addr_pub = zero_addr\<lparr>sin_family := AF_INET, sin_port := of_nat i, s_addr := a\<rparr>, cf_id = of_nat i,
     cf_s = int i + 5, cf_state = CS_IDLE, cf_peer = 0, cf_timeout = 10\<rparr>"

definition sample_reg :: "nat \<Rightarrow> (sps_fn, sps_arg) event_data" where
  "sample_reg i = \<lparr>e_id = i, e_fn = Client_Input, e_type = EVENT_FD, e_fd = int i + 5, e_time = tv 0 0, e_arg = Cfe i, e_string = []\<rparr>"

definition sample_state :: sps_state where
  "sample_state = (sps_initial 0)\<lparr>cf_list := [2, 1], cf_heap := [1 \<mapsto> sample_client 1 10, 2 \<mapsto> sample_client 2 20], cf_new := 3,
     sv_loop := \<lparr>ee = [sample_reg 2, sample_reg 1], ee_timers = [], next_id = 3, loop_exit = 0\<rparr>\<rparr>"

lemma sample_state_ok: "sps_ok {#} {#} sample_state"
  by (auto simp: sps_ok_def sps_links_def timeouts_ok_def sample_state_def sample_client_def sample_reg_def
      client_reg_def ee_regs_def timer_fns_def SP_TIMEOUT_REG_NR_def)

theorem startcalls_pairs_witness:
  "\<exists>s' m1 m2. client_startcalls (sample_env\<lparr>ev_random := [0, 2, 1]\<rparr>) sample_state = Inr (s', 0) \<and>
    sv_out s' = [Sent 7 m1, Sent 6 m2]"
proof -
  have h: "cf_heap sample_state 2 = Some (sample_client 2 20)" "cf_heap sample_state 1 = Some (sample_client 1 10)"
    "cf_list sample_state = [2, 1]" "sv_out sample_state = []"
    by (simp_all add: sample_state_def sps_initial_def)
  let ?ev = "sample_env\<lparr>ev_random := [0, 2, 1]\<rparr>" and ?l = "cf_list sample_state"
  have "ev_random ?ev = 0 # [2, 1]" "draw_other (length ?l) (0 mod length ?l) [2, 1] = Some 1" "2 \<le> length ?l"
    "2 = ?l ! (0 mod length ?l)" "1 = ?l ! 1" "cf_state (sample_client 2 20) = CS_IDLE" "cf_state (sample_client 1 10) = CS_IDLE"
    "s_addr (cf_addr_pub (sample_client 2 20)) \<noteq> 0" "s_addr (cf_addr_pub (sample_client 1 10)) \<noteq> 0"
    "ev_send ?ev (cf_s (sample_client 2 20))" "ev_send ?ev (cf_s (sample_client 1 10))" "ev_reg ?ev"
    by (simp_all add: sample_env_def h(3) sample_client_def numeral_2_eq_2 [symmetric])
  note w = startcalls_pairs [OF sample_state_ok this(1-5) h(1,2) this(6-12)]
  obtain s' m1 m2 where "client_startcalls ?ev sample_state = Inr (s', 0)"
    "sv_out s' = sv_out sample_state @ [Sent (cf_s (sample_client 2 20)) m1, Sent (cf_s (sample_client 1 10)) m2]"
    using w by (elim conjE exE)
  then show ?thesis by (auto simp: h sample_client_def)
qed


lemma cfe_find_byaddr_same:
  assumes "cfe_find_byaddr a s = Inr (Some p)"
  shows "p \<in> set (cf_list s) \<and> (\<exists>cfe. cf_heap s p = Some cfe \<and> cf_addr cfe = a)"
  using assms cfe_find_eq [of "cf_heap s" _ "cf_list s" p] by (fastforce simp: cfe_find_byaddr_def)

text \<open>A client that connects again from an address the server knows becomes two clients: the old entry
  gets the new socket, and then a second entry is made for the same address, with the same socket.
  Both are registered for it, and the handler that runs second waits for octets that the first has
  taken.\<close>

lemma reconnect_duplicates:
  assumes "sps_ok T L s" "ev_accept ev = Some (s1, a, 16)" "sin_family a = AF_INET"
    and "cfe_find_byaddr a s = Inr (Some p)" "ev_reg ev" "ev_alloc ev"
  shows "\<exists>s' q cp cq. connect_input ev s = Inr (s', 0) \<and> q \<notin> set (cf_list s) \<and> cf_list s' = q # cf_list s \<and>
    cf_heap s' p = Some cp \<and> cf_heap s' q = Some cq \<and> cf_addr cp = a \<and> cf_addr cq = a \<and>
    {#(Client_Input, s1, Cfe p), (Client_Input, s1, Cfe q)#} \<subseteq># ee_regs (sv_loop s')"
proof -
  obtain cfe where p: "p \<in> set (cf_list s)" "cf_heap s p = Some cfe" "cf_addr cfe = a"
    using cfe_find_byaddr_same [OF assms(4)] by blast
  obtain l where l: "unreg_client p s = Inr (s\<lparr>sv_loop := l\<rparr>, 0)"
    using unreg_client_links [of T L s p] assms(1) p(1) by (auto simp: sps_ok_def)
  have new: "cf_new s \<notin> set (cf_list s)" using assms(1) by (auto simp: sps_ok_def sps_links_def)
  then have np: "p \<noteq> cf_new s" using p(1) by blast
  obtain s' cp cq where s': "connect_input ev s = Inr (s', 0)" "cf_list s' = cf_new s # cf_list s"
    "cf_heap s' p = Some cp" "cf_heap s' (cf_new s) = Some cq" "cf_addr cp = a" "cf_addr cq = a" "cf_s cp = s1" "cf_s cq = s1"
    using assms(2-6) l p(2,3) np
    by (auto simp: connect_input_def reg_client_def add_client_def cfe_add_def eventloop_reg_fd_def Let_def cfe_put_def emit_def cfe_at_def)
  have "sps_ok T L s'" using connect_input_ok [OF assms(1) s'(1)] assms(5) by simp
  then have "ee_regs (sv_loop s') = L + image_mset (client_reg (cf_heap s')) (mset (cf_list s'))"
    by (simp add: sps_ok_def sps_links_def)
  also have "mset (cf_list s') = add_mset (cf_new s) (add_mset p (mset (remove1 p (cf_list s))))"
    using p(1) s'(2) by simp
  finally have "{#(Client_Input, s1, Cfe p), (Client_Input, s1, Cfe (cf_new s))#} \<subseteq># ee_regs (sv_loop s')"
    using s'(3,4,7,8) by (simp add: client_reg_def subset_mset.add_increasing)
  then show ?thesis using s' new by blast
qed

lemma reconnect_duplicates_witness:
  "\<exists>s'. connect_input (sample_env\<lparr>ev_accept := Some (9, cf_addr (sample_client 1 10), 16)\<rparr>) sample_state = Inr (s', 0) \<and>
    length (cf_list s') = 3"
proof -
  let ?ev = "sample_env\<lparr>ev_accept := Some (9, cf_addr (sample_client 1 10), 16)\<rparr>"
  have f: "cfe_find_byaddr (cf_addr (sample_client 1 10)) sample_state = Inr (Some 1)"
    by (simp add: cfe_find_byaddr_def sample_state_def sample_client_def)
  obtain s' q where "connect_input ?ev sample_state = Inr (s', 0)" "cf_list s' = q # cf_list sample_state"
    using reconnect_duplicates [OF sample_state_ok, of ?ev 9 "cf_addr (sample_client 1 10)" 1] f
    by (auto simp: sample_env_def sample_client_def)
  then show ?thesis by (auto simp: sample_state_def)
qed

text \<open>The message that ends the server does not end it when it comes from a client: the handler
  reports success, the event loop goes on, the first client of the list has been freed but is still
  in the list, and the next call that is arranged or the next check of the clients touches it.\<close>

lemma exit_message_leaves_dangling:
  assumes "sps_ok T L s" "p \<in> set (cf_list s)" "cf_heap s p = Some cfe"
    and "recv_message (ev_stack ev) (ev_recv ev) [] = (Message sp, script)"
    and "sp_type sp = sp_nr SP_TYPE_EXIT" "cf_id cfe = 0 \<or> ntohl (sp_id sp) = cf_id cfe"
  shows "\<exists>s'. client_input ev (cf_s cfe) p s = Inr (s', 0) \<and>
    (\<forall>ev'. client_startcalls ev' s' = Inl Use_After_Free \<and> client_timeout ev' s' = Inl Use_After_Free)"
proof -
  have sub: "set (cf_list s) \<subseteq> dom (cf_heap s)" using assms(1) by (auto simp: ok_in_list)
  then have check: "cfe_check (cf_heap s) p (cf_s cfe) (cf_list s) = Inr cfe"
    using assms(2,3) ok_distinct [OF assms(1)] by (simp add: cfe_check_eq)
  obtain q qs where q: "cf_list s = q # qs" using assms(2) by (cases "cf_list s") auto
  then obtain cq where "cf_heap s q = Some cq" using ok_live [OF assms(1), of q] by auto
  then obtain s' where s': "sps_exit s = Inr s'" "cf_list s' = q # qs" "cf_heap s' q = None"
    using sps_exit_head [OF q] by blast
  then have "client_input ev (cf_s cfe) p s = Inr (s', 0)"
    using check assms(3-6) by (auto simp: client_input_def rcv_sp_proto_def sptype_of_def)
  moreover have "client_startcalls ev' s' = Inl Use_After_Free \<and> client_timeout ev' s' = Inl Use_After_Free" for ev'
    using s'(2,3) by (simp add: client_startcalls_def client_timeout_def cfe_at_def)
  ultimately show ?thesis by blast
qed

lemma exit_message_leaves_dangling_witness:
  "\<exists>s'. client_input (sample_env\<lparr>ev_recv := [Octets (sp_octets (sp_fill SP_TYPE_EXIT 72 1 (sp_object (replicate 72 0))))]\<rparr>) 6 1 sample_state
      = Inr (s', 0) \<and> client_timeout sample_env s' = Inl Use_After_Free"
proof -
  let ?sp = "sp_fill SP_TYPE_EXIT 72 1 (sp_object (replicate 72 0))"
  let ?ev = "sample_env\<lparr>ev_recv := [Octets (sp_octets ?sp)]\<rparr>"
  have "length (sp_data (sp_object (replicate 72 0))) = 60" by (simp add: sp_object_def)
  then have v: "sp_valid ?sp" by (rule sp_fill_valid)
  then have l: "length (sp_octets ?sp) = 72" by (simp add: sp_valid_def)
  then have "sp_octets ?sp \<noteq> []" by force
  moreover have "ev_stack ?ev = replicate 72 0" by (simp add: sample_env_def)
  ultimately have m: "recv_message (ev_stack ?ev) (ev_recv ?ev) [] = (Message ?sp, [])"
    using v l by (simp add: recv_message.simps [of _ _ "[]"] recv_message_full Let_def sp_valid_def)
  have h: "cf_heap sample_state 1 = Some (sample_client 1 10)" "1 \<in> set (cf_list sample_state)"
    by (simp_all add: sample_state_def)
  have "sp_type ?sp = sp_nr SP_TYPE_EXIT" "cf_id (sample_client 1 10) = 0 \<or> ntohl (sp_id ?sp) = cf_id (sample_client 1 10)"
    by (simp_all add: sp_fill_def sample_client_def)
  note w = exit_message_leaves_dangling [OF sample_state_ok h(2,1) m this]
  have "cf_s (sample_client 1 10) = 6" by (simp add: sample_client_def)
  then show ?thesis using w by metis
qed

end
