(* ===== verification/Spc_Client.thy ===== *)
theory Spc_Client
  imports Sps_Server Rtp Coding "HOL-Library.Char_ord"
begin

text \<open>
  The measurement client: \<open>utils/spc.c\<close>, \<open>utils/spc_send.c\<close> and \<open>utils/spc_rcv.c\<close>. A client looks for
  the server, registers, and is told to send a stream of empty RTP packets to another client, which
  sends them back, or to be the one that sends them back. The sender notes every echo in a log file
  and sends the file to the server.

  The fields of \<open>struct spc_info\<close> have the prefix \<open>spc\<close> here and those of the two session structs
  \<open>tx\<close> and \<open>rx\<close>, because the messages have fields with the same names. The session that \<open>sp_data\<close>
  points to lives in a store; the timers of a session have its address as argument, and an address
  outside the store has been freed. The log file is private to the client and holds what was printed
  to it. A handler reads the clock several times: \<open>ec_now k\<close> is the \<open>k\<close>-th reading, and \<open>ec_send k\<close>
  tells whether its \<open>k\<close>-th send succeeds. A successful send on the connection takes everything.
\<close>

section \<open>State\<close>

datatype spc_state = SS_INIT | SS_SERVER | SS_DATA_RCV | SS_DATA_SEND | SS_DATA_SEND_CLOSING

definition state2str :: "spc_state \<Rightarrow> string" where
  "state2str st = (case st of SS_INIT \<Rightarrow> ''INIT'' | SS_SERVER \<Rightarrow> ''SERVER'' | SS_DATA_RCV \<Rightarrow> ''DATA_RCV''
     | SS_DATA_SEND \<Rightarrow> ''DATA_SEND'' | SS_DATA_SEND_CLOSING \<Rightarrow> ''DATA_SEND_CLOSING'')"

record sp_send_session =
  tx_testid :: u32
  tx_duration :: timeval
  tx_dstaddr :: sockaddr_in
  tx_t0 :: timeval
  tx_hdr :: sdhdr_start
  tx_payload :: u8
  tx_ssrc :: u32
  tx_seq :: u32
  tx_rcvd :: u32
  tx_coding :: coding_params
  tx_log :: bytes
  tx_logf :: bool

record sp_rcv_session =
  rx_testid :: u32
  rx_duration :: timeval
  rx_start :: timeval
  rx_srcaddr :: sockaddr_in
  rx_hdr :: sdhdr_start

datatype spc_session = Sender sp_send_session | Receiver sp_rcv_session

datatype spc_fn = Server_Input | Udp_Socket_Input | Sps_Wrapper | Send_Data_Wrapper | Rcv_Timeout
datatype spc_arg = Spc | Sess nat

datatype spc_effect = Tcp_Sent int bytes | Udp_Sent int bytes sockaddr_in | Closed_Fd int | Error_Raised | Log_Unlinked

record spc_info =
  spc_loop :: "(spc_fn, spc_arg) loop_state"
  spc_s :: int
  spc_ds :: int
  spc_id :: u32
  spc_addr :: sockaddr_in
  spc_mydaddr :: sockaddr_in
  spc_phase :: spc_state
  spc_coding :: coding_params
  spc_data :: "nat option"
  spc_heap :: "nat \<rightharpoonup> spc_session"
  spc_new :: nat
  spc_exited :: bool
  spc_out :: "spc_effect list"

datatype connect_result = Connected | Refused | Connect_Failed

record spc_env =
  ec_now :: "nat \<Rightarrow> timeval"
  ec_socket :: int
  ec_connect :: connect_result
  ec_send :: "nat \<Rightarrow> bool"
  ec_reg :: bool
  ec_alloc :: bool
  ec_recv :: "tcp_recv list"
  ec_stack :: bytes
  ec_udp :: recv_result
  ec_buf :: bytes
  ec_log :: bool
  ec_stat :: bool
  ec_open :: bool
  ec_read :: "nat \<Rightarrow> bool"
  ec_pid :: int

definition outp :: "spc_effect \<Rightarrow> spc_info \<Rightarrow> spc_info" where
  "outp x s = s\<lparr>spc_out := spc_out s @ [x]\<rparr>"

definition sess_at :: "spc_info \<Rightarrow> nat \<Rightarrow> spc_session res" where
  "sess_at s p = (case spc_heap s p of None \<Rightarrow> Inl Use_After_Free | Some x \<Rightarrow> Inr x)"

text \<open>The type of the argument of a timer is the type of the session that registered it.\<close>

definition sender_at :: "spc_info \<Rightarrow> nat \<Rightarrow> sp_send_session res" where
  "sender_at s p = bnd (sess_at s p) (\<lambda>x. case x of Sender ss \<Rightarrow> Inr ss | Receiver _ \<Rightarrow> Inl Out_Of_Bounds)"

definition receiver_at :: "spc_info \<Rightarrow> nat \<Rightarrow> sp_rcv_session res" where
  "receiver_at s p = bnd (sess_at s p) (\<lambda>x. case x of Receiver rs \<Rightarrow> Inr rs | Sender _ \<Rightarrow> Inl Out_Of_Bounds)"

definition put_sess :: "nat \<Rightarrow> spc_session \<Rightarrow> spc_info \<Rightarrow> spc_info" where
  "put_sess p x s = s\<lparr>spc_heap := (spc_heap s)(p \<mapsto> x)\<rparr>"

definition free_sess :: "nat \<Rightarrow> spc_info \<Rightarrow> spc_info" where
  "free_sess p s = s\<lparr>spc_heap := (spc_heap s)(p := None), spc_data := None\<rparr>"

text \<open>\<open>main\<close> registers \<open>spc_exit\<close> as an exit function, so that \<open>sphone_error\<close> calls it, and it calls
  \<open>exit(0)\<close>: every error ends the process where it is reported. \<open>spc_exited\<close> marks that; what a handler would
  still do is not done.\<close>

definition spc_exit :: "spc_info \<Rightarrow> spc_info" where
  "spc_exit s =
    (if spc_s s \<noteq> - 1 then
       (let l = fst (eventloop_unreg (spc_s s) Server_Input Spc (spc_loop s));
            l = fst (eventloop_unreg (spc_ds s) Udp_Socket_Input Spc l)
        in outp (Closed_Fd (spc_s s)) (s\<lparr>spc_loop := l\<rparr>))
     else s)\<lparr>spc_exited := True\<rparr>"

definition spc_error :: "spc_info \<Rightarrow> spc_info" where
  "spc_error s = spc_exit (outp Error_Raised s)"

definition reg_fd :: "spc_env \<Rightarrow> int \<Rightarrow> spc_fn \<Rightarrow> string \<Rightarrow> spc_info \<Rightarrow> spc_info \<times> int" where
  "reg_fd ev fd f str s = (case eventloop_reg_fd (ec_reg ev) fd f Spc str (spc_loop s) of (l, r) \<Rightarrow>
     (if r < 0 then spc_error s else s\<lparr>spc_loop := l\<rparr>, r))"

definition reg_timeout :: "spc_env \<Rightarrow> timeval \<Rightarrow> spc_fn \<Rightarrow> spc_arg \<Rightarrow> string \<Rightarrow> spc_info \<Rightarrow> spc_info \<times> int" where
  "reg_timeout ev t f a str s = (case eventloop_reg_timeout (ec_reg ev) t f a str (spc_loop s) of (l, r) \<Rightarrow>
     (if r < 0 then spc_error s else s\<lparr>spc_loop := l\<rparr>, r))"

section \<open>The server\<close>

definition register_message :: "spc_state \<Rightarrow> u32 \<Rightarrow> bytes" where
  "register_message st cid = sp_octets (sp_fill SP_TYPE_REGISTER 72 cid ((sp_object (replicate 72 0))
     \<lparr>sp_data := reg_octets \<lparr>sr_addr_pub = replicate 16 0,
        sr_busy = (if st = SS_SERVER \<or> st = SS_INIT then 0 else 1)\<rparr> @ replicate 43 0\<rparr>))"

text \<open>\<open>ok\<close> is whether this send succeeds.\<close>

definition send_register :: "bool \<Rightarrow> int \<Rightarrow> sockaddr_in \<Rightarrow> spc_info \<Rightarrow> spc_info \<times> int" where
  "send_register ok fd addr s =
    (if ok then (outp (Udp_Sent fd (register_message (spc_phase s) (spc_id s)) addr) s, 0) else (s, - 1))"

definition connect_server :: "spc_env \<Rightarrow> spc_info \<Rightarrow> spc_info \<times> int" where
  "connect_server ev s =
    (let s = s\<lparr>spc_s := ec_socket ev\<rparr> in
     if ec_socket ev < 0 then (s, - 1)
     else (case ec_connect ev of
         Connected \<Rightarrow> (s, 1)
       | Refused \<Rightarrow> ((outp (Closed_Fd (spc_s s)) s)\<lparr>spc_s := - 1\<rparr>, 0)
       | Connect_Failed \<Rightarrow> ((outp (Closed_Fd (spc_s s)) s)\<lparr>spc_s := - 1\<rparr>, - 1)))"

definition sps_connect :: "spc_env \<Rightarrow> spc_info \<Rightarrow> (spc_info \<times> int) res" where
  "sps_connect ev s =
    (if spc_phase s = SS_INIT then
       (case connect_server ev s of (s, r) \<Rightarrow>
         if r < 0 then Inr (s, - 1)
         else if r = 0 then Inr (s, 0)
         else (let s = s\<lparr>spc_phase := SS_SERVER\<rparr> in
               if spc_s s = - 1 then Inl Assert_Failed
               else (case reg_fd ev (spc_s s) Server_Input ''sicsophone client input'' s of (s, r) \<Rightarrow>
                 Inr (s, if r < 0 then - 1 else 0))))
     else Inr (s, 0))"

definition sps_wrapper :: "spc_env \<Rightarrow> spc_info \<Rightarrow> (spc_info \<times> int) res" where
  "sps_wrapper ev s =
    bnd (sps_connect ev s) (\<lambda>(s, r).
      if r < 0 then Inr (s, - 1)
      else
        (case (if spc_phase s \<noteq> SS_INIT then
                 (case send_register (ec_send ev 0) (spc_s s) (spc_addr s) s of (s, r) \<Rightarrow>
                   if r < 0 then (s, - 1) else send_register (ec_send ev 1) (spc_ds s) (spc_addr s) s)
               else (s, 0)) of (s, r) \<Rightarrow>
         if r < 0 then Inr (s, - 1)
         else
           (let delta = tv (if spc_phase s \<noteq> SS_INIT then SPC_SERVER_INTERVAL else SPC_INIT_INTERVAL) 0 in
            case reg_timeout ev (timeradd (ec_now ev 0) delta) Sps_Wrapper Spc ''sicsophone client sps_wrapper'' s of
              (s, r) \<Rightarrow> Inr (s, if r < 0 then - 1 else 0))))"

definition spc_state2init :: "spc_info \<Rightarrow> (spc_info \<times> int) res" where
  "spc_state2init s =
    (case eventloop_unreg (spc_s s) Server_Input Spc (spc_loop s) of (l, r) \<Rightarrow>
      let s = s\<lparr>spc_loop := l\<rparr> in
      if r < 0 then Inr (spc_error s, - 1)
      else
        (let s = (outp (Closed_Fd (spc_s s)) s)\<lparr>spc_s := - 1\<rparr> in
         bnd (case spc_data s of
                None \<Rightarrow> Inr s
              | Some p \<Rightarrow> if spc_heap s p = None then Inl Double_Free else Inr (free_sess p s)) (\<lambda>s.
           Inr (s\<lparr>spc_phase := SS_INIT\<rparr>, 0))))"

section \<open>Printing the log\<close>

text \<open>The conversions \<open>%d\<close>, \<open>%ld\<close> and \<open>%06ld\<close>; that of \<open>%u\<close> is \<open>print_nat\<close>.\<close>

definition print_int :: "int \<Rightarrow> bytes" where
  "print_int i = (if i < 0 then 45 # print_nat (nat (- i)) else print_nat (nat i))"

definition print_06 :: "int \<Rightarrow> bytes" where
  "print_06 i = (let w = (if i < 0 then 5 else 6); d = print_nat (nat \<bar>i\<bar>)
     in (if i < 0 then [45] else []) @ replicate (w - length d) 48 @ d)"

definition log_line :: "int \<Rightarrow> timeval \<Rightarrow> timeval \<Rightarrow> bytes" where
  "log_line sq d t = print_int sq @ [32] @ print_int (tv_sec d) @ [46] @ print_06 (tv_usec d) @ [32]
     @ print_int (tv_sec t) @ [46] @ print_06 (tv_usec t) @ [10]"

section \<open>Sending\<close>

text \<open>\<open>npackets\<close>: how many packets should have been sent by now.\<close>

definition npackets :: "timeval \<Rightarrow> sp_send_session \<Rightarrow> int res" where
  "npackets t ss =
    (let d = timersub t (tx_t0 ss) in
     if tv_sec d < 0 then Inr 0
     else if cp_size_ms (tx_coding ss) = 0 then Inl Div_By_Zero
     else Inr (sint (word_of_int (tv_sec d * 1000 + tv_usec d sdiv 1000) div cp_size_ms (tx_coding ss) :: u32)))"

text \<open>One packet: the header, and octets that are zero. \<open>hdr\<close> is a static variable, all its fields are
  set.\<close>

definition data_packet :: "timeval \<Rightarrow> sp_send_session \<Rightarrow> bytes" where
  "data_packet now ss =
    (let hdr = rtp_set_hdr now \<lparr>rh_flags = 0, rh_seq = 0, rh_ts = \<lparr>ntp_sec = 0, ntp_frac = 0\<rparr>, rh_ssrc = 0\<rparr> None (tx_ssrc ss);
         hdr = hdr\<lparr>rh_flags := rtp_set_pt (rh_flags hdr) (ucast (tx_payload ss)), rh_seq := ucast (tx_seq ss)\<rparr>
     in marshal_rtp_hdr hdr @ replicate (unat (cp_size_bytes (tx_coding ss))) 0)"

lemma unat_inc: "(x :: u32) < y \<Longrightarrow> unat (x + 1) = Suc (unat x)"
proof -
  assume "x < y"
  moreover have "unat y < 2 ^ LENGTH(32)" by (rule unsigned_less)
  ultimately show ?thesis by (simp add: word_less_nat_alt unat_word_ariths)
qed

text \<open>The loop; \<open>k\<close> numbers the sends and the readings of the clock.\<close>

function send_data :: "spc_env \<Rightarrow> nat \<Rightarrow> int \<Rightarrow> u32 \<Rightarrow> sp_send_session \<Rightarrow> spc_effect list \<Rightarrow> sp_send_session \<times> spc_effect list \<times> int" where
  "send_data ev k fd pkts ss es =
    (if tx_seq ss < pkts then
       (let d = data_packet (ec_now ev (2 + k)) ss; ss = ss\<lparr>tx_seq := tx_seq ss + 1\<rparr> in
        if \<not> ec_send ev k then (ss, es, - 1)
        else send_data ev (Suc k) fd pkts ss (es @ [Udp_Sent fd d (tx_dstaddr ss)]))
     else (ss, es, 0))"
  by auto
termination
  by (relation "measure (\<lambda>(ev, k, fd, pkts, ss, es). unat pkts - unat (tx_seq ss))")
    (auto simp: word_less_nat_alt unat_inc)

declare send_data.simps [simp del]

text \<open>The buffer has 1500 octets.\<close>

definition send_due :: "spc_env \<Rightarrow> nat \<Rightarrow> spc_info \<Rightarrow> sp_send_session \<Rightarrow> (sp_send_session \<times> spc_effect list \<times> int) res" where
  "send_due ev k s ss =
    bnd (npackets (ec_now ev (Suc k)) ss) (\<lambda>pkts.
      if 0 < pkts then
        (if 1500 < unat (cp_size_bytes (tx_coding ss) + 12) then Inl Out_Of_Bounds
         else Inr (send_data ev k (spc_ds s) (word_of_int pkts) ss []))
      else Inr (ss, [], 0))"

text \<open>The report: the header and then the file in pieces of at most 64 octets; \<open>k\<close> numbers the reads and
  the sends behind the first. The last read finds the end of the file.\<close>

fun report_pieces :: "spc_env \<Rightarrow> int \<Rightarrow> nat \<Rightarrow> bytes \<Rightarrow> spc_effect list \<times> int" where
  "report_pieces ev fd k [] = (if ec_read ev k then ([], 0) else ([], - 1))"
| "report_pieces ev fd k (b # bs) =
    (if \<not> ec_read ev k then ([], - 1)
     else if \<not> ec_send ev (Suc k) then ([], - 1)
     else (case report_pieces ev fd (Suc k) (drop SP_BUFLEN (b # bs)) of
       (es, r) \<Rightarrow> (Tcp_Sent fd (take SP_BUFLEN (b # bs)) # es, r)))"

definition report_message :: "sp_type \<Rightarrow> u32 \<Rightarrow> u32 \<Rightarrow> sdhdr_start \<Rightarrow> bytes" where
  "report_message t len cid h = sp_octets (sp_fill t len cid ((sp_object (replicate 72 0))\<lparr>sp_data := start_octets h\<rparr>))"

definition send_send_report :: "spc_env \<Rightarrow> sdhdr_start \<Rightarrow> bytes \<Rightarrow> spc_info \<Rightarrow> spc_info \<times> int" where
  "send_send_report ev h logfile s =
    (if \<not> ec_stat ev then (s, - 1)
     else if \<not> ec_open ev then (s, - 1)
     else if \<not> ec_send ev 0 then (s, - 1)
     else (case report_pieces ev (spc_s s) 0 logfile of (es, r) \<Rightarrow>
       (s\<lparr>spc_out := spc_out s @ Tcp_Sent (spc_s s)
            (report_message SP_TYPE_REPORT_SEND (72 + of_nat (length logfile)) (spc_id s) h) # es\<rparr>, r)))"

definition send_rcv_report :: "spc_env \<Rightarrow> sdhdr_start \<Rightarrow> spc_info \<Rightarrow> spc_info \<times> int" where
  "send_rcv_report ev h s =
    (if ec_send ev 0 then (outp (Tcp_Sent (spc_s s) (report_message SP_TYPE_REPORT_RCV 72 (spc_id s) h)) s, 0)
     else (s, - 1))"

text \<open>The second run after the end of the sending: the log is closed and sent.\<close>

definition close_sender :: "spc_env \<Rightarrow> nat \<Rightarrow> sp_send_session \<Rightarrow> spc_info \<Rightarrow> (spc_info \<times> int) res" where
  "close_sender ev p ss s =
    (if \<not> tx_logf ss then Inl Null_Pointer
     else let s = put_sess p (Sender (ss\<lparr>tx_logf := False\<rparr>)) s in
       (case send_send_report ev (tx_hdr ss) (tx_log ss) s of (s, r) \<Rightarrow>
         if r < 0 then Inr (s, - 1)
         else Inr ((free_sess p (outp Log_Unlinked s))\<lparr>spc_phase := SS_SERVER\<rparr>, 0)))"

definition stop_sending :: "timeval \<Rightarrow> sp_send_session \<Rightarrow> bool res" where
  "stop_sending dt ss =
    (if tx_duration ss < dt then Inr True
     else if tx_rcvd ss = 0 \<and> 3 < tv_sec dt then
       (if cp_size_ms (tx_coding ss) = 0 then Inl Div_By_Zero
        else Inr (3 * (1000 div cp_size_ms (tx_coding ss)) < tx_seq ss))
     else Inr False)"

definition send_data_wrapper :: "spc_env \<Rightarrow> nat \<Rightarrow> nat \<Rightarrow> spc_info \<Rightarrow> (spc_info \<times> int) res" where
  "send_data_wrapper ev k p s =
    bnd (sender_at s p) (\<lambda>ss.
      if spc_phase s \<noteq> SS_DATA_SEND \<and> spc_phase s \<noteq> SS_DATA_SEND_CLOSING then Inr (s, 0)
      else if spc_phase s = SS_DATA_SEND_CLOSING then close_sender ev p ss s
      else bnd (stop_sending (timersub (ec_now ev k) (tx_t0 ss)) ss) (\<lambda>stop.
        if stop then
          (case reg_timeout ev (timeradd (ec_now ev k) (tv 1 0)) Send_Data_Wrapper (Sess p) ''sicsophone data sender''
             (s\<lparr>spc_phase := SS_DATA_SEND_CLOSING\<rparr>) of (s, r) \<Rightarrow> Inr (s, if r < 0 then - 1 else 0))
        else bnd (send_due ev k s ss) (\<lambda>(ss, es, r).
          let s = (put_sess p (Sender ss) s)\<lparr>spc_out := spc_out s @ es\<rparr> in
          if r < 0 then Inr (s, - 1)
          else (let ms = cp_size_ms (tx_coding ss);
                    dt = tv (uint (ms div 1000)) (uint ((ms mod 1000) * 1000))
                in case reg_timeout ev (timeradd (ec_now ev (2 + k + length es)) dt) Send_Data_Wrapper (Sess p)
                     ''sicsophone data sender'' s of (s, r) \<Rightarrow> Inr (s, if r < 0 then - 1 else 0)))))"

definition start_sender :: "spc_env \<Rightarrow> sp_proto \<Rightarrow> spc_info \<Rightarrow> (spc_info \<times> int) res" where
  "start_sender ev sp s =
    (if spc_phase s \<noteq> SS_SERVER then Inl Assert_Failed
     else if \<not> ec_alloc ev then Inr (s, - 1)
     else
       (let h = sp_starthdr sp; p = spc_new s; t0 = ec_now ev 1;
            ss = \<lparr>tx_testid = ntohl (ss_testid h),
              tx_duration = tv (sint (ntohl (ss_duration_sec h))) (sint (ntohl (ss_duration_usec h))),
              tx_dstaddr = sp_addr_decode (ss_addr_dst_pub h), tx_t0 = tv (tv_sec t0 + 1) (tv_usec t0),
              tx_hdr = h, tx_payload = ucast RTP_PT_DYNAMIC, tx_ssrc = random_ssrc (ec_stack ev) (ec_now ev 0) (ec_pid ev) 0,
              tx_seq = 0, tx_rcvd = 0, tx_coding = spc_coding s, tx_log = [], tx_logf = ec_log ev\<rparr>;
            s = (put_sess p (Sender ss) s)\<lparr>spc_data := Some p, spc_new := Suc p\<rparr>
        in if \<not> ec_log ev then Inr (s, - 1)
           else bnd (send_data_wrapper ev 2 p (s\<lparr>spc_phase := SS_DATA_SEND\<rparr>)) (\<lambda>(s, r).
             Inr (s, if r < 0 then - 1 else 0))))"

section \<open>Echoes\<close>

text \<open>A datagram in the static buffer. An error of \<open>inet_input\<close>, for a datagram of no octets or from an address of
  another length, ends the process; a failing \<open>recvfrom\<close> is ignored.\<close>

definition data_input :: "spc_env \<Rightarrow> spc_info \<Rightarrow> (spc_info \<times> (bytes \<times> nat \<times> sockaddr_in) option) res" where
  "data_input ev s =
    bnd (inet_input (ec_udp ev) (ec_buf ev)) (\<lambda>(b, es, r).
      Inr (if Sphone_Error \<in> set es then spc_error s else s, if r < 0 then None else Some b))"

definition send_data_input :: "spc_env \<Rightarrow> nat option \<Rightarrow> spc_info \<Rightarrow> (spc_info \<times> int) res" where
  "send_data_input ev data s =
    (if spc_phase s \<noteq> SS_DATA_SEND \<and> spc_phase s \<noteq> SS_DATA_SEND_CLOSING then Inl Assert_Failed
     else bnd (data_input ev s) (\<lambda>(s, inp).
       case inp of
         None \<Rightarrow> Inr (s, 0)
       | Some (buf, _, _) \<Rightarrow>
           bnd (unmarshal_rtp_hdr buf) (\<lambda>(hdr, _).
             if rtp_check_hdr hdr < 0 then Inr (s, 0)
             else bnd (deref data) (\<lambda>p. bnd (sender_at s p) (\<lambda>ss.
               let ss = ss\<lparr>tx_rcvd := tx_rcvd ss + 1\<rparr>; t = NTP2TV (ec_now ev 1) (rh_ts hdr);
                   offset = uint (tx_seq ss mod 0x10000) - uint (rh_seq hdr);
                   offset = (if offset < 0 then offset + 0x10000 else offset) in
               if \<not> tx_logf ss then Inl Null_Pointer
               else Inr (put_sess p (Sender (ss\<lparr>tx_log := tx_log ss @
                 log_line (sint (tx_seq ss - word_of_int offset)) (timersub (ec_now ev 0) t) t\<rparr>)) s, 0))))))"

definition rcv_data_input :: "spc_env \<Rightarrow> spc_info \<Rightarrow> (spc_info \<times> int) res" where
  "rcv_data_input ev s =
    (if spc_phase s \<noteq> SS_DATA_RCV then Inl Assert_Failed
     else bnd (data_input ev s) (\<lambda>(s, inp).
       case inp of
         None \<Rightarrow> Inr (s, 0)
       | Some (buf, len, from_addr) \<Rightarrow>
           bnd (unmarshal_rtp_hdr buf) (\<lambda>(hdr, _).
             if rtp_check_hdr hdr < 0 then Inr (s, 0)
             else if ec_send ev 0 then Inr (outp (Udp_Sent (spc_ds s) (take len buf) from_addr) s, 0)
             else Inr (s, - 1))))"

definition udp_socket_input :: "spc_env \<Rightarrow> int \<Rightarrow> spc_info \<Rightarrow> (spc_info \<times> int) res" where
  "udp_socket_input ev fd s =
    (if fd \<noteq> spc_ds s then Inl Assert_Failed
     else (case spc_phase s of
         SS_DATA_RCV \<Rightarrow> rcv_data_input ev s
       | SS_DATA_SEND \<Rightarrow> send_data_input ev (spc_data s) s
       | SS_DATA_SEND_CLOSING \<Rightarrow> send_data_input ev (spc_data s) s
       | _ \<Rightarrow> bnd (data_input ev s) (\<lambda>(s, _). Inr (s, 0))))"

section \<open>Receiving\<close>

definition rcv_timeout :: "spc_env \<Rightarrow> nat \<Rightarrow> spc_info \<Rightarrow> (spc_info \<times> int) res" where
  "rcv_timeout ev p s =
    bnd (receiver_at s p) (\<lambda>rs.
      if spc_phase s \<noteq> SS_DATA_RCV then Inr (s, 0)
      else (case send_rcv_report ev (rx_hdr rs) s of (s, r) \<Rightarrow>
        Inr ((free_sess p s)\<lparr>spc_phase := SS_SERVER\<rparr>, r)))"

definition start_receiver :: "spc_env \<Rightarrow> sp_proto \<Rightarrow> spc_info \<Rightarrow> (spc_info \<times> int) res" where
  "start_receiver ev sp s =
    (if spc_phase s \<noteq> SS_SERVER then Inl Assert_Failed
     else if \<not> ec_alloc ev then Inr (s, - 1)
     else
       (let h = sp_starthdr sp; p = spc_new s;
            d = tv (sint (ntohl (ss_duration_sec h)) + 5) (sint (ntohl (ss_duration_usec h)));
            rs = \<lparr>rx_testid = ntohl (ss_testid h), rx_duration = tv (tv_sec d + 5) (tv_usec d),
              rx_start = ec_now ev 0, rx_srcaddr = sp_addr_decode (ss_addr_src_pub h), rx_hdr = h\<rparr>;
            s = (put_sess p (Receiver rs) s)\<lparr>spc_data := Some p, spc_new := Suc p, spc_phase := SS_DATA_RCV\<rparr>
        in case reg_timeout ev (timeradd (ec_now ev 0) d) Rcv_Timeout (Sess p) ''sicsophone data receiver timeout'' s of
             (s, r) \<Rightarrow> Inr (s, if r < 0 then - 1 else 0)))"

section \<open>Messages from the server\<close>

text \<open>One \<open>recv\<close>: a message is expected to arrive in one piece.\<close>

definition server_input :: "spc_env \<Rightarrow> int \<Rightarrow> spc_info \<Rightarrow> (spc_info \<times> int) res" where
  "server_input ev fd s =
    (if fd \<noteq> spc_s s then Inl Assert_Failed
     else (case sock_recv SP_SIZE (ec_recv ev) of
         (Octets bs, _) \<Rightarrow>
           if bs = [] then bnd (spc_state2init s) (\<lambda>(s, _). Inr (s, 0))
           else
             (let sp = sp_object (bs @ drop (length bs) (ec_stack ev)) in
              if sp_magic sp \<noteq> SP_MAGIC then Inr (s, 0)
              else if ntohs (sp_version sp) \<noteq> SP_VERSION_NR then Inr (s, 0)
              else if htonl (sp_id sp) \<noteq> spc_id s then Inr (s, 0)
              else (case sptype_of (sp_type sp) of
                  Some SP_TYPE_START_SEND \<Rightarrow>
                    if spc_phase s \<noteq> SS_SERVER then Inr (s, 0)
                    else bnd (start_sender ev sp s) (\<lambda>(s, r). Inr (s, if r < 0 then - 1 else 0))
                | Some SP_TYPE_START_RCV \<Rightarrow>
                    if spc_phase s \<noteq> SS_SERVER then Inr (s, 0)
                    else bnd (start_receiver ev sp s) (\<lambda>(s, r). Inr (s, if r < 0 then - 1 else 0))
                | Some SP_TYPE_EXIT \<Rightarrow> Inr (spc_exit s, 0)
                | _ \<Rightarrow> Inr (s, 0)))
       | (Nothing_More, _) \<Rightarrow> Inl Blocks_Forever
       | _ \<Rightarrow> Inr (s, 0)))"

section \<open>The program\<close>

definition spc_call :: "spc_env \<Rightarrow> spc_fn \<Rightarrow> int \<Rightarrow> spc_arg \<Rightarrow> spc_info \<Rightarrow> (spc_info \<times> int) res" where
  "spc_call ev f fd a s =
    (case (f, a) of
       (Server_Input, Spc) \<Rightarrow> server_input ev fd s
     | (Udp_Socket_Input, Spc) \<Rightarrow> udp_socket_input ev fd s
     | (Sps_Wrapper, Spc) \<Rightarrow> sps_wrapper ev s
     | (Send_Data_Wrapper, Sess p) \<Rightarrow> send_data_wrapper ev 0 p s
     | (Rcv_Timeout, Sess p) \<Rightarrow> rcv_timeout ev p s
     | _ \<Rightarrow> Inl Out_Of_Bounds)"

text \<open>The state that \<open>main\<close> sets up before it opens the UDP socket, with the default coding, and that
  socket's registration; \<open>rnd\<close> is the random number.\<close>

definition spc_initial :: "nat \<Rightarrow> sockaddr_in \<Rightarrow> spc_info" where
  "spc_initial rnd server = \<lparr>spc_loop = \<lparr>ee = [], ee_timers = [], next_id = 0, loop_exit = 0\<rparr>, spc_s = 0, spc_ds = 0,
     spc_id = of_nat (rnd mod 100000), spc_addr = server, spc_mydaddr = zero_addr, spc_phase = SS_INIT,
     spc_coding = \<lparr>cp_type = CODING_LINEAR16, cp_samp_sec = 8000, cp_precision = 8, cp_size_ms = 20,
       cp_size_bytes = ms2bytes 8000 8 1 20, cp_channels = 1\<rparr>,
     spc_data = None, spc_heap = (\<lambda>_. None), spc_new = 0, spc_exited = False, spc_out = []\<rparr>"

definition udp_socket_init :: "spc_env \<Rightarrow> int \<Rightarrow> bool \<Rightarrow> u16 \<Rightarrow> spc_info \<Rightarrow> spc_info \<times> int" where
  "udp_socket_init ev sock bound port s =
    (let s = s\<lparr>spc_ds := sock\<rparr> in
     if sock < 0 then (s, - 1)
     else let s = s\<lparr>spc_mydaddr := \<lparr>sin_family = AF_INET, sin_port = htons port, s_addr = INADDR_ANY\<rparr>\<rparr> in
       if \<not> bound then ((outp (Closed_Fd sock) s)\<lparr>spc_ds := 0\<rparr>, - 1)
       else (case reg_fd ev sock Udp_Socket_Input ''sicsophone data receiver'' s of (s, r) \<Rightarrow>
         (s, if r < 0 then - 1 else 0)))"

definition spc_start :: "spc_env \<Rightarrow> nat \<Rightarrow> sockaddr_in \<Rightarrow> int \<Rightarrow> bool \<Rightarrow> spc_info option" where
  "spc_start ev rnd server sock bound =
    (case udp_socket_init ev sock bound 0 (spc_initial rnd server) of (s, r) \<Rightarrow>
     if r < 0 then None
     else (case sps_wrapper ev s of
         Inl _ \<Rightarrow> None
       | Inr (s, r) \<Rightarrow> if r < 0 then None else Some s))"


section \<open>Reachable states\<close>

definition client_popped :: "(spc_fn, spc_arg) event_data list \<Rightarrow> spc_info \<Rightarrow> spc_info" where
  "client_popped r s = s\<lparr>spc_loop := (spc_loop s)\<lparr>ee_timers := r\<rparr>\<rparr>"

text \<open>As for the server: handlers of the first timer and of any descriptor, as long as they return a value
  that is not negative and the process has not exited. The static buffers have 1500 octets.\<close>

inductive spc_reach :: "spc_info \<Rightarrow> bool" where
  client_start: "spc_start ev rnd server sock bound = Some s \<Longrightarrow> spc_reach s"
| client_timer: "spc_reach s \<Longrightarrow> \<not> spc_exited s \<Longrightarrow> ee_timers (spc_loop s) = e # r
    \<Longrightarrow> spc_call ev (e_fn e) 0 (e_arg e) (client_popped r s) = Inr (s', v) \<Longrightarrow> 0 \<le> v \<Longrightarrow> \<not> spc_exited s' \<Longrightarrow> spc_reach s'"
| client_fd: "spc_reach s \<Longrightarrow> \<not> spc_exited s \<Longrightarrow> e \<in> set (ee (spc_loop s)) \<Longrightarrow> length (ec_buf ev) = 1500
    \<Longrightarrow> spc_call ev (e_fn e) (e_fd e) (e_arg e) s = Inr (s', v) \<Longrightarrow> 0 \<le> v \<Longrightarrow> \<not> spc_exited s' \<Longrightarrow> spc_reach s'"

section \<open>The invariant of the client\<close>

definition timer_regs :: "('f, 'a) loop_state \<Rightarrow> ('f \<times> 'a) multiset" where
  "timer_regs l = image_mset (\<lambda>e. (e_fn e, e_arg e)) (mset (ee_timers l))"

text \<open>The state of the machine decides what \<open>sp_data\<close> points to.\<close>

definition session_ok :: "spc_info \<Rightarrow> bool" where
  "session_ok s \<longleftrightarrow>
    (case spc_phase s of
       SS_INIT \<Rightarrow> spc_data s = None \<and> spc_heap s = (\<lambda>_. None)
     | SS_SERVER \<Rightarrow> spc_data s = None \<and> spc_heap s = (\<lambda>_. None)
     | SS_DATA_RCV \<Rightarrow> (\<exists>p rs. spc_data s = Some p \<and> p < spc_new s \<and> spc_heap s = [p \<mapsto> Receiver rs])
     | _ \<Rightarrow> (\<exists>p ss. spc_data s = Some p \<and> p < spc_new s \<and> spc_heap s = [p \<mapsto> Sender ss] \<and> tx_logf ss \<and>
              tx_coding ss = spc_coding s))"

text \<open>The timer of the session.\<close>

definition session_timer :: "spc_info \<Rightarrow> (spc_fn \<times> spc_arg) multiset" where
  "session_timer s =
    (case spc_data s of
       None \<Rightarrow> {#}
     | Some p \<Rightarrow> {#((if spc_phase s = SS_DATA_RCV then Rcv_Timeout else Send_Data_Wrapper), Sess p)#})"

definition client_regs :: "spc_info \<Rightarrow> (spc_fn \<times> int \<times> spc_arg) multiset" where
  "client_regs s = {#(Udp_Socket_Input, spc_ds s, Spc)#} +
     (if spc_phase s = SS_INIT then {#} else {#(Server_Input, spc_s s, Spc)#})"

definition spc_base :: "spc_info \<Rightarrow> bool" where
  "spc_base s \<longleftrightarrow> session_ok s \<and> ee_regs (spc_loop s) = client_regs s \<and>
     Server_Input \<notin># timer_fns (spc_loop s) \<and> cp_size_ms (spc_coding s) = 20 \<and> cp_size_bytes (spc_coding s) = 160"

text \<open>A timer of a session that has been freed.\<close>

definition stale :: "spc_info \<Rightarrow> spc_fn \<times> spc_arg \<Rightarrow> bool" where
  "stale s x \<longleftrightarrow> fst x \<in> {Send_Data_Wrapper, Rcv_Timeout} \<and> (\<exists>q. snd x = Sess q \<and> q < spc_new s \<and> spc_heap s q = None)"

definition spc_inv :: "spc_info \<Rightarrow> bool" where
  "spc_inv s \<longleftrightarrow> spc_base s \<and>
     (\<exists>St. timer_regs (spc_loop s) = {#(Sps_Wrapper, Spc)#} + session_timer s + St \<and> (\<forall>x \<in># St. stale s x))"

text \<open>What was freed stays freed.\<close>

definition keeps_freed :: "spc_info \<Rightarrow> spc_info \<Rightarrow> bool" where
  "keeps_freed s s' \<longleftrightarrow> spc_new s \<le> spc_new s' \<and> (\<forall>q < spc_new s. spc_heap s q = None \<longrightarrow> spc_heap s' q = None)"

lemma stale_kept: "keeps_freed s s' \<Longrightarrow> stale s x \<Longrightarrow> stale s' x"
  by (auto simp: keeps_freed_def stale_def)

lemma timer_fns_regs: "timer_fns l = image_mset fst (timer_regs l)"
  by (simp add: timer_fns_def timer_regs_def multiset.map_comp comp_def)

lemma reg_timeout_regs:
  assumes "reg_timeout ev t f a str s = (s', r)" "\<not> r < 0"
  obtains l where "s' = s\<lparr>spc_loop := l\<rparr>" "ee_regs l = ee_regs (spc_loop s)"
    "timer_regs l = add_mset (f, a) (timer_regs (spc_loop s))"
  using assms that
  by (auto simp: reg_timeout_def eventloop_reg_timeout_def ee_regs_def timer_regs_def insert_timer_mset split: if_splits)

lemma reg_fd_regs_client:
  assumes "reg_fd ev fd f str s = (s', r)" "\<not> r < 0"
  obtains l where "s' = s\<lparr>spc_loop := l\<rparr>" "ee_regs l = add_mset (f, fd, Spc) (ee_regs (spc_loop s))"
    "timer_regs l = timer_regs (spc_loop s)"
  using assms that by (auto simp: reg_fd_def eventloop_reg_fd_def ee_regs_def timer_regs_def split: if_splits)

text \<open>Everything but the loop and the trace.\<close>

definition same_client :: "spc_info \<Rightarrow> spc_info \<Rightarrow> bool" where
  "same_client s s' \<longleftrightarrow> spc_phase s' = spc_phase s \<and> spc_data s' = spc_data s \<and> spc_heap s' = spc_heap s \<and>
     spc_new s' = spc_new s \<and> spc_coding s' = spc_coding s \<and> spc_ds s' = spc_ds s \<and>
     (spc_phase s = SS_INIT \<or> spc_s s' = spc_s s)"

lemma same_client_base:
  assumes "same_client s s'" "spc_base s" "ee_regs (spc_loop s') = ee_regs (spc_loop s)"
    "Server_Input \<notin># timer_fns (spc_loop s')"
  shows "spc_base s'" "session_timer s' = session_timer s" "keeps_freed s s'"
  using assms by (auto simp: same_client_def spc_base_def session_ok_def client_regs_def session_timer_def keeps_freed_def
      split: spc_state.splits if_splits)

lemma base_timers: "spc_base s \<Longrightarrow> Server_Input \<notin># timer_fns (spc_loop s)"
  by (simp add: spc_base_def)

text \<open>A successful timer registration adds a timer and keeps the rest.\<close>

lemma reg_timeout_base:
  assumes "reg_timeout ev t f a str s = (s', r)" "\<not> r < 0" "spc_base s" "f \<noteq> Server_Input"
  shows "spc_base s'" "session_timer s' = session_timer s" "keeps_freed s s'" "spc_phase s' = spc_phase s"
    "timer_regs (spc_loop s') = add_mset (f, a) (timer_regs (spc_loop s))"
proof -
  obtain l where l: "s' = s\<lparr>spc_loop := l\<rparr>" "ee_regs l = ee_regs (spc_loop s)"
    "timer_regs l = add_mset (f, a) (timer_regs (spc_loop s))"
    using reg_timeout_regs [OF assms(1,2)] by blast
  then have c: "same_client s s'" "Server_Input \<notin># timer_fns (spc_loop s')"
    using assms(3,4) by (auto simp: same_client_def timer_fns_regs spc_base_def)
  show "spc_base s'" "session_timer s' = session_timer s" "keeps_freed s s'"
    using same_client_base [OF c(1) assms(3) _ c(2)] l by auto
  show "spc_phase s' = spc_phase s" "timer_regs (spc_loop s') = add_mset (f, a) (timer_regs (spc_loop s))"
    using l by auto
qed

lemma keeps_freed_trans: "keeps_freed s t \<Longrightarrow> keeps_freed t u \<Longrightarrow> keeps_freed s u"
  unfolding keeps_freed_def by (meson order.strict_trans2 order.trans)


section \<open>Every handler of the client keeps the invariant\<close>

lemma outp_fields [simp]:
  "spc_loop (outp x s) = spc_loop s" "spc_phase (outp x s) = spc_phase s" "spc_data (outp x s) = spc_data s"
  "spc_heap (outp x s) = spc_heap s" "spc_new (outp x s) = spc_new s" "spc_coding (outp x s) = spc_coding s"
  "spc_ds (outp x s) = spc_ds s" "spc_s (outp x s) = spc_s s" "spc_id (outp x s) = spc_id s"
  "spc_exited (outp x s) = spc_exited s" "spc_addr (outp x s) = spc_addr s" "spc_out (outp x s) = spc_out s @ [x]"
  by (simp_all add: outp_def)

text \<open>A part of a handler that leaves the timers alone.\<close>

definition quiet :: "spc_info \<Rightarrow> spc_info \<Rightarrow> bool" where
  "quiet s s' \<longleftrightarrow> spc_base s' \<and> session_timer s' = session_timer s \<and> keeps_freed s s' \<and>
     timer_regs (spc_loop s') = timer_regs (spc_loop s)"

lemma quiet_refl [simp]: "spc_base s \<Longrightarrow> quiet s s"
  by (simp add: quiet_def keeps_freed_def)

lemma quiet_trans: "quiet s t \<Longrightarrow> quiet t u \<Longrightarrow> quiet s u"
  unfolding quiet_def by (metis keeps_freed_trans)

lemma quiet_same:
  "same_client s s' \<Longrightarrow> spc_base s \<Longrightarrow> spc_loop s' = spc_loop s \<Longrightarrow> quiet s s'"
  unfolding quiet_def using same_client_base [of s s'] base_timers by metis

lemma send_register_same: "send_register ok fd a s = (s', r) \<Longrightarrow> same_client s s' \<and> spc_loop s' = spc_loop s"
  by (auto simp: send_register_def same_client_def split: if_splits)

lemma sps_connect_ok:
  assumes "spc_base s" "sps_connect ev s = Inr (s', r)" "\<not> r < 0"
  shows "quiet s s'"
proof (cases "spc_phase s = SS_INIT")
  case True
  then have e: "spc_data s = None" "spc_heap s = (\<lambda>_. None)" "ee_regs (spc_loop s) = {#(Udp_Socket_Input, spc_ds s, Spc)#}"
    using assms(1) by (auto simp: spc_base_def session_ok_def client_regs_def)
  have sock: "\<not> ec_socket ev < 0" using assms True by (auto simp: sps_connect_def connect_server_def)
  show ?thesis
  proof (cases "ec_connect ev")
    case Connected
    let ?s = "s\<lparr>spc_s := ec_socket ev, spc_phase := SS_SERVER\<rparr>"
    obtain r' where "reg_fd ev (ec_socket ev) Server_Input ''sicsophone client input'' ?s = (s', r')" "\<not> r' < 0"
      using assms(2,3) True sock Connected
      by (auto simp: sps_connect_def connect_server_def Let_def split: if_splits prod.splits)
    then obtain l where l: "s' = ?s\<lparr>spc_loop := l\<rparr>" "ee_regs l = add_mset (Server_Input, ec_socket ev, Spc) (ee_regs (spc_loop s))"
      "timer_regs l = timer_regs (spc_loop s)"
      by (rule reg_fd_regs_client) simp
    then show ?thesis using e assms(1)
      by (auto simp: quiet_def spc_base_def session_ok_def client_regs_def session_timer_def keeps_freed_def timer_fns_regs)
  next
    case Refused
    then show ?thesis using assms(2) True sock
      by (auto simp: sps_connect_def connect_server_def Let_def same_client_def intro!: quiet_same assms(1))
  next
    case Connect_Failed
    then show ?thesis using assms(2,3) True sock by (auto simp: sps_connect_def connect_server_def Let_def)
  qed
qed (use assms in \<open>auto simp: sps_connect_def\<close>)

lemma sps_wrapper_ok:
  assumes "spc_base s" "sps_wrapper ev s = Inr (s', v)" "0 \<le> v"
  obtains t where "quiet s t" "spc_base s'" "session_timer s' = session_timer t" "keeps_freed t s'"
    "timer_regs (spc_loop s') = add_mset (Sps_Wrapper, Spc) (timer_regs (spc_loop t))"
proof -
  obtain t1 r1 where t1: "sps_connect ev s = Inr (t1, r1)" "\<not> r1 < 0"
    using assms(2,3) by (auto simp: sps_wrapper_def elim!: bnd_InrE split: if_splits)
  define t2r where "t2r = (if spc_phase t1 \<noteq> SS_INIT then
      (case send_register (ec_send ev 0) (spc_s t1) (spc_addr t1) t1 of (s, r) \<Rightarrow>
        if r < 0 then (s, - 1) else send_register (ec_send ev 1) (spc_ds s) (spc_addr s) s) else (t1, 0))"
  obtain t2 r2 where t2: "t2r = (t2, r2)" by (cases t2r)
  have "quiet t1 t2"
  proof -
    have "spc_base t1" using sps_connect_ok [OF assms(1) t1] by (simp add: quiet_def)
    then show ?thesis using t2 unfolding t2r_def
      by (auto split: if_splits prod.splits dest!: send_register_same intro: quiet_same)
        (metis quiet_def quiet_same quiet_trans)
  qed
  then have q: "quiet s t2" using sps_connect_ok [OF assms(1) t1] quiet_trans by blast
  obtain d r3 where r3: "reg_timeout ev d Sps_Wrapper Spc ''sicsophone client sps_wrapper'' t2 = (s', r3)" "\<not> r3 < 0"
    using assms(2,3) t1 t2 unfolding sps_wrapper_def t2r_def [symmetric]
    by (auto simp: Let_def t2r_def [symmetric] split: if_splits prod.splits)
  have "spc_base t2" using q by (simp add: quiet_def)
  note reg = reg_timeout_base [OF r3 this]
  show thesis using that [OF q reg(1-3)] reg(5) by simp
qed


lemma send_data_keeps:
  "send_data ev k fd pkts ss es = (ss', es', r) \<Longrightarrow> tx_logf ss' = tx_logf ss \<and> tx_coding ss' = tx_coding ss \<and>
     tx_rcvd ss' = tx_rcvd ss \<and> tx_log ss' = tx_log ss"
proof (induction ev k fd pkts ss es arbitrary: ss' es' r rule: send_data.induct)
  case (1 ev k fd pkts ss es)
  then show ?case by (auto simp: send_data.simps [of ev k fd pkts ss es] Let_def split: if_splits)
qed

lemma send_due_keeps:
  assumes "send_due ev k s ss = Inr (ss', es, r)"
  shows "tx_logf ss' = tx_logf ss \<and> tx_coding ss' = tx_coding ss"
  using assms by (auto simp: send_due_def elim!: bnd_InrE dest: send_data_keeps split: if_splits)

text \<open>The state of a sender, with its session.\<close>

lemma base_sender:
  assumes "spc_base s" "spc_phase s = SS_DATA_SEND \<or> spc_phase s = SS_DATA_SEND_CLOSING" "spc_data s = Some p"
  obtains ss where "spc_heap s = [p \<mapsto> Sender ss]" "tx_logf ss" "tx_coding ss = spc_coding s" "p < spc_new s"
    "sender_at s p = Inr ss"
  using assms by (auto simp: spc_base_def session_ok_def sender_at_def sess_at_def)


text \<open>What a handler of a session leaves: its own timer, when the session goes on.\<close>

definition session_step :: "spc_info \<Rightarrow> spc_info \<Rightarrow> bool" where
  "session_step s s' \<longleftrightarrow> spc_base s' \<and> keeps_freed s s' \<and>
     timer_regs (spc_loop s') = session_timer s' + timer_regs (spc_loop s)"

lemma send_send_report_same: "send_send_report ev h d s = (s', r) \<Longrightarrow> same_client s s' \<and> spc_loop s' = spc_loop s"
  by (auto simp: send_send_report_def same_client_def split: if_splits prod.splits)

lemma close_sender_ok:
  assumes "spc_base s" "spc_phase s = SS_DATA_SEND_CLOSING" "spc_data s = Some p" "spc_heap s = [p \<mapsto> Sender ss]" "tx_logf ss"
  shows "\<exists>s' v. close_sender ev p ss s = Inr (s', v) \<and> (0 \<le> v \<longrightarrow> session_step s s' \<and> spc_phase s' = SS_SERVER)"
proof -
  let ?s = "put_sess p (Sender (ss\<lparr>tx_logf := False\<rparr>)) s"
  obtain t r where t: "send_send_report ev (tx_hdr ss) (tx_log ss) ?s = (t, r)" by fastforce
  note same = send_send_report_same [OF t]
  then have "session_step s ((free_sess p (outp Log_Unlinked t))\<lparr>spc_phase := SS_SERVER\<rparr>)"
    using assms(1,2,4)
    by (auto simp: session_step_def spc_base_def session_ok_def client_regs_def keeps_freed_def session_timer_def
        free_sess_def put_sess_def same_client_def)
  then show ?thesis using t assms(5) by (auto simp: close_sender_def Let_def)
qed

lemma timer_step:
  assumes "spc_base t" "keeps_freed s t" "timer_regs (spc_loop t) = timer_regs (spc_loop s)"
    "reg_timeout ev d f (Sess p) str t = (s', r)" "\<not> r < 0" "session_timer t = {#(f, Sess p)#}" "f \<noteq> Server_Input"
  shows "session_step s s'"
  using reg_timeout_base [OF assms(4,5,1,7)] assms(2,3,6) keeps_freed_trans unfolding session_step_def by simp

lemma npackets_live: "cp_size_ms (tx_coding ss) \<noteq> 0 \<Longrightarrow> \<exists>n. npackets t ss = Inr n"
  by (simp add: npackets_def Let_def)

lemma send_due_live:
  assumes "cp_size_ms (tx_coding ss) = 20" "cp_size_bytes (tx_coding ss) = 160"
  shows "\<exists>ss' es r. send_due ev k s ss = Inr (ss', es, r)"
proof -
  obtain n where "npackets (ec_now ev (Suc k)) ss = Inr n" using npackets_live [of ss] assms(1) by auto
  then show ?thesis using assms(2) by (cases "send_data ev k (spc_ds s) (word_of_int n) ss []") (simp add: send_due_def)
qed

lemma put_sender_base:
  assumes "spc_base s" "spc_phase s = SS_DATA_SEND \<or> spc_phase s = SS_DATA_SEND_CLOSING" "spc_data s = Some p"
    "spc_heap s = [p \<mapsto> Sender ss]" "tx_logf ss'" "tx_coding ss' = spc_coding s"
  shows "quiet s ((put_sess p (Sender ss') s)\<lparr>spc_out := out\<rparr>)"
  using assms by (auto simp: quiet_def spc_base_def session_ok_def put_sess_def session_timer_def client_regs_def keeps_freed_def)

lemma send_data_wrapper_ok:
  assumes "spc_base s" "spc_phase s = SS_DATA_SEND \<or> spc_phase s = SS_DATA_SEND_CLOSING" "spc_data s = Some p"
  shows "\<exists>s' v. send_data_wrapper ev k p s = Inr (s', v) \<and> (0 \<le> v \<longrightarrow> session_step s s')"
proof -
  obtain ss where ss: "spc_heap s = [p \<mapsto> Sender ss]" "tx_logf ss" "tx_coding ss = spc_coding s" "sender_at s p = Inr ss"
    using base_sender [OF assms] by blast
  have size: "cp_size_ms (tx_coding ss) = 20" "cp_size_bytes (tx_coding ss) = 160"
    using assms(1) ss(3) by (simp_all add: spc_base_def)
  show ?thesis
  proof (cases "spc_phase s = SS_DATA_SEND_CLOSING")
    case True
    then show ?thesis using close_sender_ok [OF assms(1) True assms(3) ss(1,2), of ev] ss(4)
      by (auto simp: send_data_wrapper_def)
  next
    case False
    then have send: "spc_phase s = SS_DATA_SEND" using assms(2) by blast
    have "\<exists>stop. stop_sending d ss = Inr stop" for d
      by (auto simp: stop_sending_def size(1))
    then obtain stop where stop: "stop_sending (timersub (ec_now ev k) (tx_t0 ss)) ss = Inr stop" by blast
    show ?thesis
    proof (cases stop)
      case True
      let ?t = "s\<lparr>spc_phase := SS_DATA_SEND_CLOSING\<rparr>"
      have "spc_base ?t" "session_timer ?t = {#(Send_Data_Wrapper, Sess p)#}" "keeps_freed s ?t"
        using assms(1,3) send by (auto simp: spc_base_def session_ok_def session_timer_def client_regs_def keeps_freed_def)
      then show ?thesis using timer_step [of ?t s] send stop True ss(4)
        by (auto simp: send_data_wrapper_def split: prod.splits)
    next
      case False
      obtain ss' es r where due: "send_due ev k s ss = Inr (ss', es, r)" using send_due_live [OF size] by blast
      let ?t = "(put_sess p (Sender ss') s)\<lparr>spc_out := spc_out s @ es\<rparr>"
      have "quiet s ?t"
        using put_sender_base [OF assms ss(1), of ss' "spc_out s @ es"] send_due_keeps [OF due] ss(2,3) by simp
      then have "spc_base ?t" "session_timer ?t = {#(Send_Data_Wrapper, Sess p)#}" "keeps_freed s ?t"
        "timer_regs (spc_loop ?t) = timer_regs (spc_loop s)"
        using send assms(3) by (auto simp: quiet_def session_timer_def)
      then show ?thesis using timer_step [of ?t s] send stop False ss(4) due
        by (auto simp: send_data_wrapper_def Let_def split: prod.splits)
    qed
  qed
qed

lemma rcv_timeout_ok:
  assumes "spc_base s" "spc_phase s = SS_DATA_RCV" "spc_data s = Some p"
  shows "\<exists>s' v. rcv_timeout ev p s = Inr (s', v) \<and> session_step s s'"
proof -
  obtain rs where rs: "spc_heap s = [p \<mapsto> Receiver rs]" "receiver_at s p = Inr rs"
    using assms by (auto simp: spc_base_def session_ok_def receiver_at_def sess_at_def)
  obtain t r where t: "send_rcv_report ev (rx_hdr rs) s = (t, r)" by fastforce
  then have "same_client s t" "spc_loop t = spc_loop s"
    by (auto simp: send_rcv_report_def same_client_def split: if_splits)
  then have "session_step s ((free_sess p t)\<lparr>spc_phase := SS_SERVER\<rparr>)"
    using assms rs(1)
    by (auto simp: session_step_def spc_base_def session_ok_def client_regs_def keeps_freed_def session_timer_def
        free_sess_def same_client_def)
  then show ?thesis using t rs(2) assms(2) by (simp add: rcv_timeout_def)
qed

lemma start_sender_ok:
  assumes "spc_base s" "spc_phase s = SS_SERVER"
  shows "\<exists>s' v. start_sender ev sp s = Inr (s', v) \<and> (0 \<le> v \<longrightarrow> session_step s s')"
proof (cases "ec_alloc ev \<and> ec_log ev")
  case True
  have e: "spc_data s = None" "spc_heap s = (\<lambda>_. None)" using assms by (auto simp: spc_base_def session_ok_def)
  define h where "h = sp_starthdr sp"
  define ss where "ss = \<lparr>tx_testid = ntohl (ss_testid h),
      tx_duration = tv (sint (ntohl (ss_duration_sec h))) (sint (ntohl (ss_duration_usec h))),
      tx_dstaddr = sp_addr_decode (ss_addr_dst_pub h), tx_t0 = tv (tv_sec (ec_now ev 1) + 1) (tv_usec (ec_now ev 1)),
      tx_hdr = h, tx_payload = ucast RTP_PT_DYNAMIC, tx_ssrc = random_ssrc (ec_stack ev) (ec_now ev 0) (ec_pid ev) 0,
      tx_seq = 0, tx_rcvd = 0, tx_coding = spc_coding s, tx_log = [], tx_logf = ec_log ev\<rparr>"
  define t where "t = (put_sess (spc_new s) (Sender ss) s)
      \<lparr>spc_data := Some (spc_new s), spc_new := Suc (spc_new s), spc_phase := SS_DATA_SEND\<rparr>"
  have t: "spc_base t" "spc_phase t = SS_DATA_SEND" "spc_data t = Some (spc_new s)" "keeps_freed s t" "spc_loop t = spc_loop s"
    using assms e True
    by (auto simp: t_def ss_def spc_base_def session_ok_def put_sess_def client_regs_def keeps_freed_def)
  obtain s' v where s': "send_data_wrapper ev 2 (spc_new s) t = Inr (s', v)" "0 \<le> v \<longrightarrow> session_step t s'"
    using send_data_wrapper_ok [OF t(1) _ t(3)] t(2) by blast
  have "start_sender ev sp s = Inr (s', if v < 0 then - 1 else 0)"
    using assms(2) True s'(1) by (simp add: start_sender_def Let_def t_def ss_def h_def)
  then show ?thesis using s'(2) t(4,5) keeps_freed_trans unfolding session_step_def by auto
qed (use assms in \<open>auto simp: start_sender_def Let_def\<close>)

lemma start_receiver_ok:
  assumes "spc_base s" "spc_phase s = SS_SERVER"
  shows "\<exists>s' v. start_receiver ev sp s = Inr (s', v) \<and> (0 \<le> v \<longrightarrow> session_step s s')"
proof (cases "ec_alloc ev")
  case True
  have e: "spc_data s = None" "spc_heap s = (\<lambda>_. None)" using assms by (auto simp: spc_base_def session_ok_def)
  have "session_step s s'"
    if "reg_timeout ev d Rcv_Timeout (Sess (spc_new s)) str ((put_sess (spc_new s) (Receiver rs) s)
        \<lparr>spc_data := Some (spc_new s), spc_new := Suc (spc_new s), spc_phase := SS_DATA_RCV\<rparr>) = (s', r)" "\<not> r < 0" for d str rs s' r
  proof (rule timer_step [OF _ _ _ that])
    show "spc_base ((put_sess (spc_new s) (Receiver rs) s)\<lparr>spc_data := Some (spc_new s), spc_new := Suc (spc_new s), spc_phase := SS_DATA_RCV\<rparr>)"
      "keeps_freed s ((put_sess (spc_new s) (Receiver rs) s)\<lparr>spc_data := Some (spc_new s), spc_new := Suc (spc_new s), spc_phase := SS_DATA_RCV\<rparr>)"
      using assms e by (auto simp: spc_base_def session_ok_def put_sess_def client_regs_def keeps_freed_def)
  qed (simp_all add: put_sess_def session_timer_def)
  then show ?thesis using assms(2) True by (auto simp: start_receiver_def Let_def split: prod.splits)
qed (use assms in \<open>auto simp: start_receiver_def\<close>)


lemma state2init_ok:
  assumes "spc_base s" "spc_phase s \<noteq> SS_INIT"
  obtains s' where "spc_state2init s = Inr (s', 0)" "spc_base s'" "spc_phase s' = SS_INIT" "spc_data s' = None"
    "spc_heap s' = (\<lambda>_. None)" "keeps_freed s s'" "timer_regs (spc_loop s') = timer_regs (spc_loop s)" "spc_new s' = spc_new s"
    "ee_timers (spc_loop s') = ee_timers (spc_loop s)" "spc_s s' = - 1" "spc_exited s' = spc_exited s"
proof -
  let ?l = "(spc_loop s)\<lparr>ee := unlink_first (\<lambda>e. e_fn e = Server_Input \<and> e_arg e = Spc \<and> e_fd e = spc_s s) (ee (spc_loop s))\<rparr>"
  have T: "Server_Input \<notin># timer_fns (spc_loop s)" using assms(1) by (simp add: spc_base_def)
  have regs: "ee_regs (spc_loop s) = {#(Udp_Socket_Input, spc_ds s, Spc), (Server_Input, spc_s s, Spc)#}"
    using assms by (auto simp: spc_base_def client_regs_def)
  have un: "eventloop_unreg (spc_s s) Server_Input Spc (spc_loop s) = (?l, 0)"
    "ee_regs ?l = {#(Udp_Socket_Input, spc_ds s, Spc)#}"
    using unreg_regs [OF T] regs by simp_all
  let ?s = "(outp (Closed_Fd (spc_s s)) (s\<lparr>spc_loop := ?l\<rparr>))\<lparr>spc_s := - 1\<rparr>"
  let ?s' = "(case spc_data s of None \<Rightarrow> ?s | Some p \<Rightarrow> free_sess p ?s)\<lparr>spc_phase := SS_INIT\<rparr>"
  have "spc_state2init s = Inr (?s', 0)"
    using assms(1) un(1)
    by (auto simp: spc_state2init_def Let_def spc_base_def session_ok_def split: spc_state.splits)
  moreover have "spc_data ?s' = None" "spc_heap ?s' = (\<lambda>_. None)" "spc_loop ?s' = ?l" "spc_new ?s' = spc_new s"
    using assms(1) by (auto simp: free_sess_def spc_base_def session_ok_def split: spc_state.splits)
  moreover have "spc_coding ?s' = spc_coding s" "spc_ds ?s' = spc_ds s" "spc_s ?s' = - 1" "spc_exited ?s' = spc_exited s"
    by (auto simp: free_sess_def split: option.splits)
  ultimately show thesis using assms(1) un(2)
    by (intro that [of ?s']) (simp_all add: spc_base_def session_ok_def client_regs_def keeps_freed_def timer_fns_def timer_regs_def)
qed

text \<open>The datagrams that \<open>inet_input\<close> takes for an error.\<close>

definition bad_datagram :: "spc_env \<Rightarrow> bool" where
  "bad_datagram ev \<longleftrightarrow> (case ec_udp ev of Recv_Failed \<Rightarrow> False | Received d a n \<Rightarrow> d = [] \<or> n \<noteq> 16)"

lemma spc_error_exits [simp]: "spc_exited (spc_error s)"
  by (simp add: spc_error_def spc_exit_def)

lemma data_input_cases:
  assumes "12 \<le> length (ec_buf ev)"
  obtains (gone) "bad_datagram ev" "data_input ev s = Inr (spc_error s, None)"
    | (ignored) "\<not> bad_datagram ev" "data_input ev s = Inr (s, None)"
    | (packet) buf n a h r where "\<not> bad_datagram ev" "data_input ev s = Inr (s, Some (buf, n, a))" "unmarshal_rtp_hdr buf = Inr (h, r)"
proof (cases "ec_udp ev")
  case Recv_Failed
  then show ?thesis using ignored by (simp add: data_input_def inet_input_def bad_datagram_def)
next
  case (Received d a n)
  let ?d = "take (length (ec_buf ev)) d"
  have ne: "?d = [] \<longleftrightarrow> d = []" using assms by auto
  have "12 \<le> length (?d @ drop (length ?d) (ec_buf ev))" using assms by simp
  then obtain h r where h: "unmarshal_rtp_hdr (?d @ drop (length ?d) (ec_buf ev)) = Inr (h, r)"
    using rtp.dec_total by blast
  show ?thesis
  proof (cases "bad_datagram ev")
    case True
    then show ?thesis using gone Received ne by (auto simp: data_input_def inet_input_def Let_def bad_datagram_def)
  next
    case False
    then have "data_input ev s = Inr (s, Some (?d @ drop (length ?d) (ec_buf ev), length ?d, a))"
      using Received ne by (auto simp: data_input_def inet_input_def Let_def bad_datagram_def)
    then show ?thesis using packet False h by blast
  qed
qed

lemma send_data_input_quiet:
  assumes "spc_base s" "spc_phase s = SS_DATA_SEND \<or> spc_phase s = SS_DATA_SEND_CLOSING"
    and "data_input ev s = Inr (s, Some (buf, n, a))" "unmarshal_rtp_hdr buf = Inr (h, r)"
  shows "\<exists>s' v. send_data_input ev (spc_data s) s = Inr (s', v) \<and> quiet s s' \<and> spc_exited s' = spc_exited s"
proof -
  obtain p where p: "spc_data s = Some p" using assms(1,2) by (auto simp: spc_base_def session_ok_def)
  obtain ss where ss: "spc_heap s = [p \<mapsto> Sender ss]" "tx_logf ss" "tx_coding ss = spc_coding s" "sender_at s p = Inr ss"
    using base_sender [OF assms(1,2) p] by blast
  have "quiet s (put_sess p (Sender ss') s)" if "tx_logf ss'" "tx_coding ss' = spc_coding s" for ss'
    using put_sender_base [OF assms(1,2) p ss(1) that, of "spc_out s"] by (simp add: put_sess_def)
  then show ?thesis using assms p ss by (auto simp: send_data_input_def Let_def put_sess_def)
qed

lemma udp_socket_input_ok:
  assumes "spc_base s" "fd = spc_ds s" "12 \<le> length (ec_buf ev)"
  shows "\<exists>s' v. udp_socket_input ev fd s = Inr (s', v) \<and>
    (if bad_datagram ev then spc_exited s' \<and> v = 0 else quiet s s' \<and> spc_exited s' = spc_exited s)"
  using assms(3)
proof (cases rule: data_input_cases [where s = s])
  case gone
  then show ?thesis using assms(2)
    by (cases "spc_phase s") (auto simp: udp_socket_input_def rcv_data_input_def send_data_input_def)
next
  case ignored
  then show ?thesis using assms(1,2)
    by (cases "spc_phase s") (auto simp: udp_socket_input_def rcv_data_input_def send_data_input_def)
next
  case (packet buf n a h r)
  have out: "quiet s (outp x s)" for x using quiet_same [of s "outp x s"] assms(1) by (auto simp: same_client_def)
  show ?thesis
    using assms(1,2) packet out send_data_input_quiet [OF assms(1) _ packet(2,3)]
    by (cases "spc_phase s") (auto simp: udp_socket_input_def rcv_data_input_def)
qed

text \<open>The event loop calls the handler when there is something to receive.\<close>

definition readable :: "tcp_recv list \<Rightarrow> bool" where
  "readable script \<longleftrightarrow> script \<noteq> [] \<and> hd script \<noteq> Nothing_More"

lemma readable_recv: "readable script \<Longrightarrow> sock_recv n script = (x, r) \<Longrightarrow> x \<noteq> Nothing_More"
  by (cases "(n, script)" rule: sock_recv.cases) (auto simp: readable_def)

text \<open>A message of the server: nothing changes, the call begins, or the connection is gone.\<close>

lemma server_input_cases:
  assumes "spc_base s" "fd = spc_s s" "spc_phase s \<noteq> SS_INIT" "readable (ec_recv ev)"
  shows "\<exists>s' v. server_input ev fd s = Inr (s', v) \<and>
    (0 \<le> v \<longrightarrow> s' = s \<or> spc_phase s = SS_SERVER \<and> session_step s s' \<or> spc_exited s' \<or> spc_state2init s = Inr (s', 0))"
proof -
  obtain i where i: "spc_state2init s = Inr (i, 0)" using state2init_ok [OF assms(1,3)] by blast
  obtain r rest where r: "sock_recv SP_SIZE (ec_recv ev) = (r, rest)" by fastforce
  show ?thesis
  proof (cases r)
    case (Octets bs)
    let ?sp = "sp_object (bs @ drop (length bs) (ec_stack ev))"
    have "spc_phase s = SS_SERVER \<Longrightarrow> \<exists>s' v. start_sender ev ?sp s = Inr (s', v) \<and> (0 \<le> v \<longrightarrow> session_step s s')"
      "spc_phase s = SS_SERVER \<Longrightarrow> \<exists>s' v. start_receiver ev ?sp s = Inr (s', v) \<and> (0 \<le> v \<longrightarrow> session_step s s')"
      using start_sender_ok start_receiver_ok assms(1) by blast+
    then show ?thesis
      using r Octets i assms(2)
      by (auto simp: server_input_def Let_def spc_exit_def split: option.splits sp_type.splits)
  qed (use r assms(2) readable_recv [OF assms(4) r] in \<open>simp_all add: server_input_def\<close>)
qed


lemma inv_quiet: "spc_inv s \<Longrightarrow> quiet s s' \<Longrightarrow> spc_inv s'"
  unfolding spc_inv_def quiet_def using stale_kept by metis

text \<open>A session that begins or goes on, from a state with the timers \<open>T\<close> besides the stale ones.\<close>

lemma inv_session_step:
  assumes "session_step s s'" "timer_regs (spc_loop s) = {#(Sps_Wrapper, Spc)#} + St" "\<forall>x \<in># St. stale s x"
  shows "spc_inv s'"
  unfolding spc_inv_def
proof (intro conjI exI [of _ St] ballI)
  show "spc_base s'" "timer_regs (spc_loop s') = {#(Sps_Wrapper, Spc)#} + session_timer s' + St"
    using assms(1,2) by (simp_all add: session_step_def)
  show "stale s' x" if "x \<in># St" for x
    using assms(1,3) that stale_kept [of s s' x] by (simp add: session_step_def)
qed

lemma popped_base:
  assumes "spc_base s" "ee_timers (spc_loop s) = e # r"
  shows "spc_base (client_popped r s)" "session_timer (client_popped r s) = session_timer s"
    "add_mset (e_fn e, e_arg e) (timer_regs (spc_loop (client_popped r s))) = timer_regs (spc_loop s)"
    "stale (client_popped r s) x = stale s x"
  using assms by (auto simp: client_popped_def spc_base_def session_ok_def client_regs_def session_timer_def
      timer_regs_def timer_fns_def ee_regs_def stale_def split: spc_state.splits)

text \<open>Which timer it is that was first.\<close>

lemma popped_cases:
  assumes "spc_inv s" "ee_timers (spc_loop s) = e # r"
  obtains (wrapper) St where "(e_fn e, e_arg e) = (Sps_Wrapper, Spc)"
      "timer_regs (spc_loop (client_popped r s)) = session_timer s + St" "\<forall>x \<in># St. stale s x"
    | (own) St p f where "spc_data s = Some p" "(e_fn e, e_arg e) = (f, Sess p)" "session_timer s = {#(f, Sess p)#}"
      "timer_regs (spc_loop (client_popped r s)) = {#(Sps_Wrapper, Spc)#} + St" "\<forall>x \<in># St. stale s x"
    | (stale) "stale s (e_fn e, e_arg e)"
proof -
  let ?x = "(e_fn e, e_arg e)" and ?T = "timer_regs (spc_loop (client_popped r s))"
  obtain St where base: "spc_base s" and St: "timer_regs (spc_loop s) = {#(Sps_Wrapper, Spc)#} + session_timer s + St"
    "\<forall>x \<in># St. stale s x"
    using assms(1) by (auto simp: spc_inv_def)
  have T: "add_mset ?x ?T = {#(Sps_Wrapper, Spc)#} + session_timer s + St"
    using popped_base(3) [OF base assms(2)] St(1) by simp
  have own_cases: "session_timer s = {#} \<or> (\<exists>p f. spc_data s = Some p \<and> session_timer s = {#(f, Sess p)#})"
    by (cases "spc_data s") (auto simp: session_timer_def)
  have "?x \<in># {#(Sps_Wrapper, Spc)#} + session_timer s + St" using T by (metis union_single_eq_member)
  then consider "?x = (Sps_Wrapper, Spc)" | "?x \<in># session_timer s" | "?x \<in># St" by auto
  then show thesis
  proof cases
    case 1
    then have "?T = session_timer s + St" using T by simp
    then show ?thesis using wrapper 1 St(2) by blast
  next
    case 2
    then obtain p f where pf: "spc_data s = Some p" "session_timer s = {#(f, Sess p)#}" "?x = (f, Sess p)"
      using own_cases by auto
    then have "?T = {#(Sps_Wrapper, Spc)#} + St" using T by simp
    then show ?thesis using own pf St(2) by blast
  next
    case 3
    then show ?thesis using stale St(2) by blast
  qed
qed

lemma stale_call:
  assumes "stale s (e_fn e, e_arg e)"
  shows "spc_call ev (e_fn e) 0 (e_arg e) (client_popped r s) = Inl Use_After_Free"
  using assms by (auto simp: stale_def spc_call_def send_data_wrapper_def rcv_timeout_def sender_at_def receiver_at_def
      sess_at_def client_popped_def)

text \<open>The session's own timer runs the handler of its state.\<close>

lemma own_timer_step:
  assumes "spc_base s" "spc_data s = Some p" "session_timer s = {#(f, Sess p)#}"
  shows "\<exists>s' v. spc_call ev f fd (Sess p) s = Inr (s', v) \<and> (0 \<le> v \<longrightarrow> session_step s s')"
proof (cases "spc_phase s = SS_DATA_RCV")
  case True
  then show ?thesis using rcv_timeout_ok [OF assms(1) True assms(2), of ev] assms(2,3)
    by (auto simp: session_timer_def spc_call_def)
next
  case False
  then have "spc_phase s = SS_DATA_SEND \<or> spc_phase s = SS_DATA_SEND_CLOSING"
    using assms(1,2) by (cases "spc_phase s") (auto simp: spc_base_def session_ok_def)
  then show ?thesis using send_data_wrapper_ok [OF assms(1) _ assms(2), of ev 0] assms(2,3) False
    by (auto simp: session_timer_def spc_call_def)
qed

lemma fd_cases:
  assumes "spc_base s" "e \<in> set (ee (spc_loop s))"
  obtains "(e_fn e, e_fd e, e_arg e) = (Udp_Socket_Input, spc_ds s, Spc)"
    | "(e_fn e, e_fd e, e_arg e) = (Server_Input, spc_s s, Spc)" "spc_phase s \<noteq> SS_INIT"
proof -
  have "(e_fn e, e_fd e, e_arg e) \<in># ee_regs (spc_loop s)" using assms(2) by (auto simp: ee_regs_def)
  then show thesis using that assms(1) by (auto simp: spc_base_def client_regs_def split: if_splits)
qed

lemma server_input_inv:
  assumes "spc_inv s" "fd = spc_s s" "spc_phase s \<noteq> SS_INIT" "server_input ev fd s = Inr (s', v)" "0 \<le> v" "\<not> spc_exited s'"
  shows "spc_inv s'"
proof -
  obtain St where base: "spc_base s" and St: "timer_regs (spc_loop s) = {#(Sps_Wrapper, Spc)#} + session_timer s + St"
    "\<forall>x \<in># St. stale s x"
    using assms(1) by (auto simp: spc_inv_def)
  have readable: "readable (ec_recv ev)"
  proof (rule ccontr)
    assume "\<not> readable (ec_recv ev)"
    then have "fst (sock_recv SP_SIZE (ec_recv ev)) = Nothing_More" by (cases "ec_recv ev") (auto simp: readable_def)
    then show False using assms(2,4) by (auto simp: server_input_def split: prod.splits tcp_recv.splits)
  qed
  consider "s' = s" | "spc_phase s = SS_SERVER" "session_step s s'" | "spc_state2init s = Inr (s', 0)"
    using server_input_cases [OF base assms(2,3) readable] assms(4-6) by auto
  then show ?thesis
  proof cases
    case 1
    then show ?thesis using assms(1) by simp
  next
    case 2
    then have "session_timer s = {#}" using base by (auto simp: session_timer_def spc_base_def session_ok_def)
    then show ?thesis using inv_session_step [OF 2(2) _ St(2)] St(1) by simp
  next
    case 3
    have i: "spc_base s'" "spc_data s' = None" "spc_heap s' = (\<lambda>_. None)" "keeps_freed s s'"
      "timer_regs (spc_loop s') = timer_regs (spc_loop s)" "spc_new s' = spc_new s"
      using state2init_ok [OF base assms(3)] 3 by auto
    have "stale s' x" if x: "x \<in># session_timer s" for x
    proof -
      obtain p where p: "spc_data s = Some p" using x by (auto simp: session_timer_def split: option.splits)
      then have "p < spc_new s" using base by (auto simp: spc_base_def session_ok_def split: spc_state.splits)
      then show ?thesis using x p i(3,6) by (auto simp: session_timer_def stale_def)
    qed
    moreover have "stale s' x" if "x \<in># St" for x using stale_kept [OF i(4)] St(2) that by blast
    ultimately show ?thesis unfolding spc_inv_def using i(1,2,5) St(1)
      by (intro conjI exI [of _ "session_timer s + St"]) (auto simp: session_timer_def [of s'])
  qed
qed

lemma spc_call_fd_inv:
  assumes "spc_inv s" "e \<in> set (ee (spc_loop s))" "spc_call ev (e_fn e) (e_fd e) (e_arg e) s = Inr (s', v)" "0 \<le> v"
    "\<not> spc_exited s'" "12 \<le> length (ec_buf ev)"
  shows "spc_inv s'"
proof -
  have base: "spc_base s" using assms(1) by (simp add: spc_inv_def)
  then show ?thesis using assms(2)
  proof (cases rule: fd_cases)
    case 1
    then show ?thesis
      using assms(3,5) udp_socket_input_ok [OF base refl assms(6)] inv_quiet [OF assms(1)]
      by (auto simp: spc_call_def split: if_splits)
  next
    case 2
    then show ?thesis
      using assms(3-5) server_input_inv [OF assms(1) refl] by (auto simp: spc_call_def)
  qed
qed

lemma spc_call_timer_inv:
  assumes "spc_inv s" "ee_timers (spc_loop s) = e # r"
    "spc_call ev (e_fn e) 0 (e_arg e) (client_popped r s) = Inr (s', v)" "0 \<le> v"
  shows "spc_inv s'"
proof -
  have base: "spc_base s" using assms(1) by (simp add: spc_inv_def)
  note pop = popped_base [OF base assms(2)]
  show ?thesis using assms(1,2)
  proof (cases rule: popped_cases)
    case (wrapper St)
    then have "sps_wrapper ev (client_popped r s) = Inr (s', v)" using assms(3) by (simp add: spc_call_def)
    from sps_wrapper_ok [OF pop(1) this assms(4)] obtain t where t: "quiet (client_popped r s) t" "spc_base s'"
      "session_timer s' = session_timer t" "keeps_freed t s'"
      "timer_regs (spc_loop s') = add_mset (Sps_Wrapper, Spc) (timer_regs (spc_loop t))" .
    then have "timer_regs (spc_loop s') = {#(Sps_Wrapper, Spc)#} + session_timer s' + St"
      using wrapper(2) pop(2) by (simp add: quiet_def)
    moreover have "stale s' x" if "x \<in># St" for x
      using that wrapper(3) pop(4) t(1,4) stale_kept keeps_freed_trans by (metis quiet_def)
    ultimately show ?thesis using t(2) unfolding spc_inv_def by blast
  next
    case (own St p f)
    have "spc_data (client_popped r s) = Some p" using own(1) by (simp add: client_popped_def)
    then have "session_step (client_popped r s) s'"
      using own_timer_step [OF pop(1), of p f ev 0] own(2,3) pop(2) assms(3,4) by auto
    then show ?thesis using inv_session_step [of "client_popped r s" s' St] own(4,5) pop(4) by blast
  next
    case stale
    then show ?thesis using stale_call [OF stale, of ev r] assms(3) by simp
  qed
qed


lemma spc_start_inv:
  assumes "spc_start ev rnd server sock bound = Some s"
  shows "spc_inv s"
proof -
  obtain u v where u: "udp_socket_init ev sock bound 0 (spc_initial rnd server) = (u, 0)"
    and v: "sps_wrapper ev u = Inr (s, v)" "0 \<le> v"
    using assms by (auto simp: spc_start_def udp_socket_init_def Let_def split: prod.splits sum.splits if_splits)
  let ?i = "(spc_initial rnd server)\<lparr>spc_ds := sock, spc_mydaddr := \<lparr>sin_family = AF_INET, sin_port = htons 0, s_addr = INADDR_ANY\<rparr>\<rparr>"
  obtain r where "reg_fd ev sock Udp_Socket_Input ''sicsophone data receiver'' ?i = (u, r)" "\<not> r < 0"
    using u by (auto simp: udp_socket_init_def Let_def split: if_splits prod.splits)
  then obtain l where l: "u = ?i\<lparr>spc_loop := l\<rparr>" "ee_regs l = add_mset (Udp_Socket_Input, sock, Spc) (ee_regs (spc_loop ?i))"
    "timer_regs l = timer_regs (spc_loop ?i)"
    by (rule reg_fd_regs_client)
  have "spc_base u" "session_timer u = {#}" "timer_regs (spc_loop u) = {#}"
    using l by (auto simp: spc_base_def session_ok_def client_regs_def session_timer_def spc_initial_def ee_regs_def
        timer_regs_def timer_fns_regs ms2bytes_def)
  note u' = this
  obtain t where t: "quiet u t" "spc_base s" "session_timer s = session_timer t" "keeps_freed t s"
    "timer_regs (spc_loop s) = add_mset (Sps_Wrapper, Spc) (timer_regs (spc_loop t))"
    using sps_wrapper_ok [OF u'(1) v] by blast
  then show ?thesis using u'(2,3) unfolding spc_inv_def
    by (intro conjI exI [of _ "{#}"]) (auto simp: quiet_def)
qed

lemma spc_reach_inv: "spc_reach s \<Longrightarrow> spc_inv s"
proof (induction rule: spc_reach.induct)
  case (client_start ev rnd server sock bound s)
  then show ?case by (rule spc_start_inv)
next
  case (client_timer s e r ev s' v)
  then show ?case using spc_call_timer_inv by blast
next
  case (client_fd s e ev s' v)
  then show ?case using spc_call_fd_inv [of s e ev s' v] by simp
qed




section \<open>Properties\<close>

definition sample_spc_env :: spc_env where
  "sample_spc_env = \<lparr>ec_now = (\<lambda>_. tv 0 0), ec_socket = 5, ec_connect = Connected, ec_send = (\<lambda>_. True), ec_reg = True,
     ec_alloc = True, ec_recv = [Recv_Error], ec_stack = replicate 72 0, ec_udp = Recv_Failed, ec_buf = replicate 1500 0,
     ec_log = True, ec_stat = True, ec_open = True, ec_read = (\<lambda>_. True), ec_pid = 1\<rparr>"

lemma sample_spc_start: "\<exists>s. spc_start sample_spc_env 7 zero_addr 4 True = Some s"
  by (simp add: spc_start_def udp_socket_init_def Let_def reg_fd_def reg_timeout_def eventloop_reg_fd_def
      eventloop_reg_timeout_def sps_wrapper_def sps_connect_def connect_server_def send_register_def
      sample_spc_env_def spc_initial_def)

text \<open>C9. The invariant of the client: the state of the machine decides what it owns. Looking for a server or
  connected it has no session; in a call it has exactly one, of the right kind, with the log of a
  sender open; it listens to the server exactly when it has one; and besides the timer that renews
  the registration and the one of the session there are only timers of sessions that were freed.\<close>

theorem client_invariant:
  assumes "spc_reach s"
  shows "spc_inv s"
  using assms by (rule spc_reach_inv)

theorem client_invariant_witness:
  "\<exists>s. spc_start sample_spc_env 7 zero_addr 4 True = Some s \<and> spc_inv s"
proof -
  obtain s where "spc_start sample_spc_env 7 zero_addr 4 True = Some s" using sample_spc_start by blast
  then show ?thesis using client_invariant [OF spc_reach.client_start] by blast
qed




section \<open>The stream\<close>

text \<open>The packets that one run sends, from number \<open>n\<close> on, with the times of their sending.\<close>

definition sent_packets :: "(nat \<Rightarrow> timeval) \<Rightarrow> int \<Rightarrow> sp_send_session \<Rightarrow> nat \<Rightarrow> nat \<Rightarrow> spc_effect list" where
  "sent_packets now fd ss k n = map (\<lambda>i. Udp_Sent fd (data_packet (now (2 + k + i)) (ss\<lparr>tx_seq := tx_seq ss + of_nat i\<rparr>)) (tx_dstaddr ss)) [0..<n]"

lemma sent_packets_Suc:
  "sent_packets now fd ss k (Suc n) =
    Udp_Sent fd (data_packet (now (2 + k)) ss) (tx_dstaddr ss) # sent_packets now fd (ss\<lparr>tx_seq := tx_seq ss + 1\<rparr>) (Suc k) n"
  by (simp add: sent_packets_def upt_rec [of 0] map_Suc_upt [symmetric] comp_def add.assoc del: upt_Suc)

lemma send_data_all:
  assumes "\<forall>i. ec_send ev i" "unat pkts = unat (tx_seq ss) + n"
  shows "send_data ev k fd pkts ss es = (ss\<lparr>tx_seq := pkts\<rparr>, es @ sent_packets (ec_now ev) fd ss k n, 0)"
  using assms(2)
proof (induction n arbitrary: k ss es)
  case 0
  then have "pkts = tx_seq ss" by (simp add: word_unat_eq_iff)
  then show ?case by (subst send_data.simps) (simp add: sent_packets_def)
next
  case (Suc n)
  then have less: "tx_seq ss < pkts" by (simp add: word_less_nat_alt)
  then show ?case
    using Suc.IH [of "ss\<lparr>tx_seq := tx_seq ss + 1\<rparr>"] Suc.prems assms(1) unat_inc [OF less]
    by (simp add: send_data.simps [of ev k fd pkts ss es] Let_def sent_packets_Suc)
qed


lemma data_packet_header:
  "\<exists>h. unmarshal_rtp_hdr (data_packet t ss) = Inr (h, replicate (unat (cp_size_bytes (tx_coding ss))) 0) \<and>
     rh_seq h = ucast (tx_seq ss) \<and> rh_ssrc h = tx_ssrc ss \<and> rh_ts h = TV2NTP t \<and> rtp_check_hdr h = 0"
  by (simp add: data_packet_def Let_def rtp.dec_enc rtp_set_hdr_def rtp_check_hdr_def v_pt.get_other v.get_set take_bit_eq_mod)

lemma npackets_due:
  assumes "cp_size_ms (tx_coding ss) = 20" "tv_norm t" "tv_norm (tx_t0 ss)"
    and "0 \<le> tv_us t - tv_us (tx_t0 ss)" "tv_us t - tv_us (tx_t0 ss) < 2 ^ 31 * 1000"
  shows "npackets t ss = Inr ((tv_us t - tv_us (tx_t0 ss)) div 20000)"
proof -
  let ?d = "timersub t (tx_t0 ss)"
  define us where "us = tv_us t - tv_us (tx_t0 ss)"
  have d: "tv_us ?d = us" "0 \<le> tv_usec ?d" "tv_usec ?d < 1000000"
    using assms(2,3) by (auto simp: tv_defs us_def)
  then have eq: "tv_sec ?d * 1000000 + tv_usec ?d = us" by (simp add: tv_us_def)
  then have sec: "0 \<le> tv_sec ?d" using assms(4) d(3) us_def by linarith
  have ms: "tv_sec ?d * 1000 + tv_usec ?d sdiv 1000 = us div 1000"
  proof -
    have "us div 1000 = (tv_usec ?d + (tv_sec ?d * 1000) * 1000) div 1000" using eq by (simp add: algebra_simps)
    then show ?thesis using d(2) by (simp add: sdiv_nonneg)
  qed
  have "us div 1000 < 2 ^ 31" using assms(5) by (intro div_upper) (auto simp: us_def)
  moreover have "0 \<le> us div 1000" using assms(4) by (simp add: us_def)
  ultimately have w: "sint (word_of_int (us div 1000) div 20 :: u32) = us div 1000 div 20"
  proof -
    assume a: "us div 1000 < 2 ^ 31" "0 \<le> us div 1000"
    then have u: "uint (word_of_int (us div 1000) :: u32) = us div 1000"
      by (simp add: uint_word_of_int)
    then have "uint (word_of_int (us div 1000) div 20 :: u32) = us div 1000 div 20" by (simp add: uint_div_distrib)
    moreover have "us div 1000 div 20 < 2 ^ 31" using a by (intro div_upper) auto
    ultimately have "word_of_int (us div 1000) div 20 = (word_of_int (us div 1000 div 20) :: u32)"
      by (metis word_of_int_uint)
    then show ?thesis using a \<open>us div 1000 div 20 < 2 ^ 31\<close>
      by (simp only:) (rule sint_of_int31, use a in \<open>auto simp: \<close>)
  qed
  have "us div 1000 div 20 = us div 20000" by (simp add: zdiv_zmult2_eq [symmetric])
  then show ?thesis using sec ms w assms(1) by (simp add: npackets_def Let_def us_def)
qed


text \<open>C11. The stream keeps the pace of the clock: when the sender runs, it sends exactly the packets that are
  due by the clock and have not been sent, in order, as many at once as it takes to catch up after a
  late run, and none when it is ahead; its counter is then the number of packets due. Each packet
  carries its number modulo 65536, the time of its sending and 160 octets of zero.\<close>

theorem sender_keeps_pace:
  assumes "spc_base s" "spc_phase s = SS_DATA_SEND" "spc_data s = Some p" "spc_heap s p = Some (Sender ss)"
    and "stop_sending (timersub (ec_now ev 0) (tx_t0 ss)) ss = Inr False" "\<forall>i. ec_send ev i" "ec_reg ev"
    and "tv_norm (ec_now ev 1)" "tv_norm (tx_t0 ss)" "us = tv_us (ec_now ev 1) - tv_us (tx_t0 ss)" "0 \<le> us" "us < 2 ^ 31 * 1000"
    and "n = nat (us div 20000) - unat (tx_seq ss)"
  shows "(\<exists>s'. send_data_wrapper ev 0 p s = Inr (s', 0) \<and>
      spc_heap s' p = Some (Sender (ss\<lparr>tx_seq := tx_seq ss + of_nat n\<rparr>)) \<and>
      unat (tx_seq ss + of_nat n) = max (unat (tx_seq ss)) (nat (us div 20000)) \<and>
      spc_out s' = spc_out s @ sent_packets (ec_now ev) (spc_ds s) ss 0 n) \<and>
    (\<exists>h. unmarshal_rtp_hdr (data_packet t ss) = Inr (h, replicate 160 0) \<and>
      rh_seq h = ucast (tx_seq ss) \<and> rh_ssrc h = tx_ssrc ss \<and> rh_ts h = TV2NTP t \<and> rtp_check_hdr h = 0)"
proof
  have ss: "sender_at s p = Inr ss" "tx_coding ss = spc_coding s"
    using assms(1-4) by (auto simp: sender_at_def sess_at_def spc_base_def session_ok_def)
  have size: "cp_size_ms (tx_coding ss) = 20" "cp_size_bytes (tx_coding ss) = 160"
    using assms(1) ss(2) by (simp_all add: spc_base_def)
  show "\<exists>h. unmarshal_rtp_hdr (data_packet t ss) = Inr (h, replicate 160 0) \<and>
      rh_seq h = ucast (tx_seq ss) \<and> rh_ssrc h = tx_ssrc ss \<and> rh_ts h = TV2NTP t \<and> rtp_check_hdr h = 0"
    using data_packet_header [of t ss] size(2) by simp
  have due: "npackets (ec_now ev 1) ss = Inr (us div 20000)"
    using npackets_due [OF size(1) assms(8,9)] assms(10-12) by simp
  have bound: "0 \<le> us div 20000" "us div 20000 < 2 ^ 31" using assms(11,12) by (auto intro: div_upper)
  then have u: "unat (word_of_int (us div 20000) :: u32) = nat (us div 20000)"
    unfolding unat_eq_nat_uint by (simp add: uint_word_of_int)
  have "unat (tx_seq ss) < 2 ^ LENGTH(32)" by (rule unsigned_less)
  then have len: "unat (tx_seq ss + of_nat n) = max (unat (tx_seq ss)) (nat (us div 20000))"
    using bound assms(13) by (auto simp: unat_word_ariths unat_of_nat max_def)
  have sd: "send_due ev 0 s ss = Inr (ss\<lparr>tx_seq := tx_seq ss + of_nat n\<rparr>, sent_packets (ec_now ev) (spc_ds s) ss 0 n, 0)"
  proof (cases "n = 0")
    case True
    then have "\<not> tx_seq ss < word_of_int (us div 20000)" using assms(13) u by (simp add: word_less_nat_alt)
    then have "send_data ev 0 (spc_ds s) (word_of_int (us div 20000)) ss [] = (ss, [], 0)"
      by (subst send_data.simps) simp
    then show ?thesis using True due size(2) by (simp add: send_due_def sent_packets_def)
  next
    case False
    then have n: "unat (word_of_int (us div 20000) :: u32) = unat (tx_seq ss) + n" using assms(13) u by simp
    then have "word_of_int (us div 20000) = tx_seq ss + of_nat n"
      by (metis of_nat_add of_nat_unat ucast_id)
    moreover have "0 < us div 20000" using False assms(13) bound by auto
    ultimately show ?thesis using send_data_all [OF assms(6) n, of 0 "spc_ds s" "[]"] due size(2)
      by (simp add: send_due_def)
  qed
  show "\<exists>s'. send_data_wrapper ev 0 p s = Inr (s', 0) \<and>
      spc_heap s' p = Some (Sender (ss\<lparr>tx_seq := tx_seq ss + of_nat n\<rparr>)) \<and>
      unat (tx_seq ss + of_nat n) = max (unat (tx_seq ss)) (nat (us div 20000)) \<and>
      spc_out s' = spc_out s @ sent_packets (ec_now ev) (spc_ds s) ss 0 n"
    using ss(1) assms(2,5,7) sd len
    by (auto simp: send_data_wrapper_def Let_def reg_timeout_def eventloop_reg_timeout_def put_sess_def)
qed








definition sample_tx :: sp_send_session where
  "sample_tx = \<lparr>tx_testid = 1, tx_duration = tv 60 0, tx_dstaddr = zero_addr, tx_t0 = tv 0 0,
     tx_hdr = start_hdr 1 1 2 zero_addr zero_addr (tv 0 0) (tv 60 0), tx_payload = 101, tx_ssrc = 9, tx_seq = 0, tx_rcvd = 0,
     tx_coding = spc_coding (spc_initial 1 zero_addr), tx_log = [], tx_logf = True\<rparr>"

definition sample_event :: "spc_fn \<Rightarrow> int \<Rightarrow> (spc_fn, spc_arg) event_data" where
  "sample_event f fd = \<lparr>e_id = nat fd, e_fn = f, e_type = EVENT_FD, e_fd = fd, e_time = tv 0 0, e_arg = Spc, e_string = []\<rparr>"

definition sample_call :: spc_info where
  "sample_call = (spc_initial 1 zero_addr)\<lparr>spc_phase := SS_DATA_SEND, spc_data := Some 0, spc_heap := [0 \<mapsto> Sender sample_tx],
     spc_new := 1, spc_s := 5, spc_ds := 4, spc_loop := \<lparr>ee = [sample_event Server_Input 5, sample_event Udp_Socket_Input 4],
       ee_timers = [], next_id = 9, loop_exit = 0\<rparr>\<rparr>"

lemma sample_call_base: "spc_base sample_call"
proof -
  have "session_ok sample_call"
    by (simp add: session_ok_def sample_call_def, intro exI [of _ sample_tx]) (simp add: sample_tx_def spc_initial_def)
  then show ?thesis
    by (simp add: spc_base_def sample_call_def client_regs_def ee_regs_def timer_fns_def sample_event_def spc_initial_def ms2bytes_def)
qed

lemma sample_call_fields:
  "spc_phase sample_call = SS_DATA_SEND" "spc_data sample_call = Some 0" "spc_heap sample_call 0 = Some (Sender sample_tx)"
  "spc_out sample_call = []" "spc_ds sample_call = 4"
  by (simp_all add: sample_call_def spc_initial_def)

theorem sender_keeps_pace_witness:
  "\<exists>s'. send_data_wrapper (sample_spc_env\<lparr>ec_now := (\<lambda>_. tv 0 100000)\<rparr>) 0 0 sample_call = Inr (s', 0) \<and> length (spc_out s') = 5"
proof -
  let ?ev = "sample_spc_env\<lparr>ec_now := (\<lambda>_. tv 0 100000)\<rparr>"
  have stop: "stop_sending (timersub (ec_now ?ev 0) (tx_t0 sample_tx)) sample_tx = Inr False"
    by (simp add: stop_sending_def sample_tx_def tv_defs timeval_less)
  have us: "100000 = tv_us (ec_now ?ev 1) - tv_us (tx_t0 sample_tx)" "tv_norm (ec_now ?ev 1)" "tv_norm (tx_t0 sample_tx)"
    by (simp_all add: sample_tx_def tv_us_def tv_norm_def)
  have n: "5 = nat ((100000 :: int) div 20000) - unat (tx_seq sample_tx)" by (simp add: sample_tx_def)
  have "\<forall>i. ec_send ?ev i" "ec_reg ?ev" by (simp_all add: sample_spc_env_def)
  from sender_keeps_pace [OF sample_call_base sample_call_fields(1-3) stop this us(2,3,1) _ _ n]
  obtain s' where "send_data_wrapper ?ev 0 0 sample_call = Inr (s', 0)"
    "spc_out s' = spc_out sample_call @ sent_packets (ec_now ?ev) (spc_ds sample_call) sample_tx 0 5"
    by auto
  then show ?thesis by (simp add: sample_call_fields sent_packets_def)
qed



end
