(* ===== verification/Measurement.thy ===== *)
theory Measurement
  imports Spc_Client
begin

text \<open>
  A measurement as a whole: what the client of \<open>utils/spc.c\<close> sends is given to the handlers of the
  server in \<open>utils/sps.c\<close>, and the other way round. Nothing new is modelled here. The connection
  delivers the octets in any segments, of which the first has at least four octets where the server
  reads; the client reads a message with one \<open>recv\<close>, so it has to arrive in one piece.
\<close>

section \<open>Registration\<close>

lemma register_object:
  "sp_valid (sp_object (register_message st cid))"
  "sp_type (sp_object (register_message st cid)) = 0"
  "sp_id (sp_object (register_message st cid)) = htonl cid"
  "sp_octets (sp_object (register_message st cid)) = register_message st cid"
  "length (register_message st cid) = SP_SIZE"
  by (simp_all add: register_message_def sp_fill_def sp_valid_def reg_octets_def)

lemma register_hdr:
  "sp_reghdr (sp_object (register_message st cid)) =
    \<lparr>sr_addr_pub = replicate 16 0, sr_busy = (if st = SS_SERVER \<or> st = SS_INIT then 0 else 1)\<rparr>"
  by (simp add: register_message_def sp_fill_def sp_reghdr_def reg_octets_def nth_append)

definition registered :: "spc_state \<Rightarrow> u32 \<Rightarrow> cf_entry \<Rightarrow> cf_entry" where
  "registered st cid cfe = cfe\<lparr>cf_timeout := SP_TIMEOUT_REG_NR, cf_id := cid,
     cf_peer := (if st = SS_SERVER \<or> st = SS_INIT then 0 else cf_peer cfe)\<rparr>"

lemma register_client_message:
  "register_client (sp_object (register_message st cid)) cfe = registered st cid cfe"
  by (simp add: register_client_def register_hdr register_object registered_def Let_def load32_def)

lemma sp_object_append:
  "12 \<le> length bs \<Longrightarrow> sp_object (bs @ r) = (sp_object bs)\<lparr>sp_data := sp_data (sp_object bs) @ r\<rparr>"
  by (auto simp: sp_object_def load16_def load32_def numeral_eq_Suc Suc_le_length_iff)

lemma cfe_find_only:
  assumes "p \<in> set ps" "\<forall>q \<in> set ps. h q \<noteq> None" "h p = Some cfe" "P cfe"
    and "\<forall>q \<in> set ps. q \<noteq> p \<longrightarrow> \<not> P (the (h q))"
  shows "cfe_find h P ps = Inr (Some p)"
  using assms by (induction ps) (auto split: option.splits)

lemma client_input_register:
  assumes "sps_ok T L sv" "p \<in> set (cf_list sv)" "cf_heap sv p = Some cfe" "cf_id cfe = 0 \<or> cf_id cfe = cid"
    and "ev_recv ev = map Octets cs" "concat cs = register_message st cid" "\<forall>c \<in> set cs. c \<noteq> []" "4 \<le> length (hd cs)"
  shows "client_input ev (cf_s cfe) p sv = Inr (cfe_put p (registered st cid cfe) sv, 0)"
proof -
  have "set (cf_list sv) \<subseteq> dom (cf_heap sv)" using assms(1) by (auto simp: ok_in_list)
  then have check: "cfe_check (cf_heap sv) p (cf_s cfe) (cf_list sv) = Inr cfe"
    using assms(2,3) ok_distinct [OF assms(1)] by (simp add: cfe_check_eq)
  have "concat cs = sp_octets (sp_object (register_message st cid)) @ []" using assms(6) by (simp add: register_object)
  from recv_message_segments [OF register_object(1) this assms(7,8)] obtain cs' where
    "recv_message (ev_stack ev) (ev_recv ev) [] = (Message (sp_object (register_message st cid)), map Octets cs')"
    unfolding assms(5) by blast
  then show ?thesis using check assms(3,4)
    by (auto simp: client_input_def rcv_sp_proto_def register_object sptype_of_def register_client_message)
qed

lemma udp_input_register:
  assumes "sps_ok T L sv" "p \<in> set (cf_list sv)" "cf_heap sv p = Some cfe" "cf_id cfe = cid"
    and "\<forall>q \<in> set (cf_list sv). q \<noteq> p \<longrightarrow> cf_id (the (cf_heap sv q)) \<noteq> cid"
    and "ev_udp ev = Some (register_message st cid, a)" "a \<noteq> cf_addr_pub cfe"
  shows "udp_input ev sv = Inr (cfe_put p (probe_client a cfe) sv, 0)"
proof -
  have "\<forall>q \<in> set (cf_list sv). cf_heap sv q \<noteq> None" using assms(1) ok_live by blast
  then have "cfe_find_byid cid sv = Inr (Some p)"
    unfolding cfe_find_byid_def using assms(2-5) by (intro cfe_find_only) auto
  then show ?thesis using assms(3,6,7)
    by (simp add: udp_input_def sp_object_append register_object(2-) register_object(1) [unfolded sp_valid_def] Let_def)
qed

text \<open>The messages with which a client registers, when its timer runs.\<close>

lemma sps_wrapper_sends:
  assumes "sps_wrapper ev c = Inr (c', 0)" "spc_phase c' \<noteq> SS_INIT"
  shows "spc_id c' = spc_id c \<and> spc_out c' = spc_out c @
    [Udp_Sent (spc_s c') (register_message (spc_phase c') (spc_id c)) (spc_addr c),
     Udp_Sent (spc_ds c') (register_message (spc_phase c') (spc_id c)) (spc_addr c)]"
  using assms
  by (auto simp: sps_wrapper_def sps_connect_def connect_server_def Let_def reg_fd_def reg_timeout_def send_register_def outp_def
      elim!: bnd_InrE split: if_splits connect_result.splits prod.splits)

text \<open>C10. A registration arrives: when the timer of a connected client runs, the client sends one message
  over the connection and the same as a datagram. Given to the handlers of the server, the first in
  any segments with at least four octets in the first, they give the client's entry, and no other,
  the identity of the client, the address the datagram came from and a new lease, and bring it out
  of its first state.\<close>

theorem registration_reaches_server:
  assumes "sps_wrapper ev c = Inr (c', 0)" "spc_phase c' \<noteq> SS_INIT"
    and "sps_ok T L sv" "p \<in> set (cf_list sv)" "cf_heap sv p = Some cfe" "cf_id cfe = 0 \<or> cf_id cfe = spc_id c"
    and "\<forall>q \<in> set (cf_list sv). q \<noteq> p \<longrightarrow> cf_id (the (cf_heap sv q)) \<noteq> spc_id c" "a \<noteq> cf_addr_pub cfe"
  shows "\<exists>m cfe'. spc_out c' = spc_out c @ [Udp_Sent (spc_s c') m (spc_addr c), Udp_Sent (spc_ds c') m (spc_addr c)] \<and>
    cf_id cfe' = spc_id c \<and> cf_addr_pub cfe' = a \<and> cf_timeout cfe' = SP_TIMEOUT_REG_NR \<and>
    cf_state cfe' = (if cf_state cfe = CS_INIT then CS_IDLE else cf_state cfe) \<and>
    (\<forall>cs evt evu. concat cs = m \<and> (\<forall>c \<in> set cs. c \<noteq> []) \<and> 4 \<le> length (hd cs) \<and>
        ev_recv evt = map Octets cs \<and> ev_udp evu = Some (m, a) \<longrightarrow>
      (\<exists>sv1 sv2. client_input evt (cf_s cfe) p sv = Inr (sv1, 0) \<and> udp_input evu sv1 = Inr (sv2, 0) \<and>
        cf_list sv2 = cf_list sv \<and> cf_heap sv2 = (cf_heap sv)(p \<mapsto> cfe')))"
proof -
  let ?m = "register_message (spc_phase c') (spc_id c)"
  let ?cfe = "registered (spc_phase c') (spc_id c) cfe"
  let ?sv = "cfe_put p ?cfe sv"
  have ok: "sps_ok T L ?sv"
    using register_client_ok [OF assms(3,5), of "sp_object ?m"] by (simp add: register_client_message)
  have p: "p \<in> set (cf_list ?sv)" "cf_heap ?sv p = Some ?cfe" "cf_id ?cfe = spc_id c"
    "\<forall>q \<in> set (cf_list ?sv). q \<noteq> p \<longrightarrow> cf_id (the (cf_heap ?sv q)) \<noteq> spc_id c" "a \<noteq> cf_addr_pub ?cfe"
    using assms(4,7,8) by (simp_all add: registered_def)
  let ?fin = "cfe_put p (probe_client a ?cfe) ?sv"
  have "client_input evt (cf_s cfe) p sv = Inr (?sv, 0) \<and> udp_input evu ?sv = Inr (?fin, 0)"
    if "concat cs = ?m" "\<forall>c \<in> set cs. c \<noteq> []" "4 \<le> length (hd cs)" "ev_recv evt = map Octets cs" "ev_udp evu = Some (?m, a)" for cs evt evu
    using client_input_register [OF assms(3-6) that(4,1-3)] udp_input_register [OF ok p(1-4) that(5) p(5)] by simp
  moreover have "cf_heap ?fin = (cf_heap sv)(p \<mapsto> probe_client a ?cfe)" "cf_list ?fin = cf_list sv"
    by (simp_all add: cfe_put_def)
  ultimately show ?thesis using sps_wrapper_sends [OF assms(1,2)]
    by (intro exI [of _ ?m] exI [of _ "probe_client a ?cfe"]) (auto simp: probe_client_def registered_def)
qed

lemma sample_wrapper:
  "\<exists>c'. sps_wrapper sample_spc_env (spc_initial 1 zero_addr) = Inr (c', 0) \<and> spc_phase c' \<noteq> SS_INIT"
  by (simp add: sps_wrapper_def sps_connect_def connect_server_def send_register_def Let_def reg_fd_def reg_timeout_def
      eventloop_reg_fd_def eventloop_reg_timeout_def sample_spc_env_def spc_initial_def outp_def)

lemma sample_server_client:
  "cf_heap sample_state 1 = Some (sample_client 1 10)" "1 \<in> set (cf_list sample_state)" "cf_id (sample_client 1 10) = 1"
  "cf_s (sample_client 1 10) = 6" "\<forall>q \<in> set (cf_list sample_state). q \<noteq> 1 \<longrightarrow> cf_id (the (cf_heap sample_state q)) \<noteq> 1"
  by (simp_all add: sample_state_def sample_client_def)

theorem registration_reaches_server_witness:
  "\<exists>c' m sv1. sps_wrapper sample_spc_env (spc_initial 1 zero_addr) = Inr (c', 0) \<and> m \<in> set (spc_out c') \<and>
    client_input (sample_env\<lparr>ev_recv := [Octets (register_message (spc_phase c') 1)]\<rparr>) 6 1 sample_state = Inr (sv1, 0)"
proof -
  obtain c' where c': "sps_wrapper sample_spc_env (spc_initial 1 zero_addr) = Inr (c', 0)" "spc_phase c' \<noteq> SS_INIT"
    using sample_wrapper by blast
  have i: "spc_id (spc_initial 1 zero_addr) = 1" by (simp add: spc_initial_def)
  have a: "zero_addr \<noteq> cf_addr_pub (sample_client 1 10)" by (simp add: sample_client_def zero_addr_def)
  let ?m = "register_message (spc_phase c') 1"
  let ?ev = "sample_env\<lparr>ev_recv := [Octets ?m]\<rparr>" and ?evu = "sample_env\<lparr>ev_udp := Some (?m, zero_addr)\<rparr>"
  have id: "cf_id (sample_client 1 10) = spc_id (spc_initial 1 zero_addr)"
    "\<forall>q \<in> set (cf_list sample_state). q \<noteq> 1 \<longrightarrow> cf_id (the (cf_heap sample_state q)) \<noteq> spc_id (spc_initial 1 zero_addr)"
    using sample_server_client(3,5) i by simp_all
  obtain m cfe' where m: "spc_out c' = spc_out (spc_initial 1 zero_addr) @
      [Udp_Sent (spc_s c') m (spc_addr (spc_initial 1 zero_addr)), Udp_Sent (spc_ds c') m (spc_addr (spc_initial 1 zero_addr))]"
    and all: "\<forall>cs evt evu. concat cs = m \<and> (\<forall>c \<in> set cs. c \<noteq> []) \<and> 4 \<le> length (hd cs) \<and>
        ev_recv evt = map Octets cs \<and> ev_udp evu = Some (m, zero_addr) \<longrightarrow>
      (\<exists>sv1 sv2. client_input evt (cf_s (sample_client 1 10)) 1 sample_state = Inr (sv1, 0) \<and> udp_input evu sv1 = Inr (sv2, 0) \<and>
        cf_list sv2 = cf_list sample_state \<and> cf_heap sv2 = (cf_heap sample_state)(1 \<mapsto> cfe'))"
    using registration_reaches_server [OF c' sample_state_ok sample_server_client(2,1) disjI2 [OF id(1)] id(2) a]
    by (elim exE conjE)
  have "m = ?m" using sps_wrapper_sends [OF c'] m i by simp
  moreover have "length ?m = 72" by (rule register_object)
  ultimately obtain sv1 where "client_input ?ev 6 1 sample_state = Inr (sv1, 0)"
    using all [rule_format, of "[?m]" ?ev ?evu] sample_server_client(4) by force
  then show ?thesis using c' m by auto
qed

section \<open>Reports\<close>

lemma report_pieces_all:
  assumes "\<forall>i. ec_read ev i" "\<forall>i. ec_send ev i"
  shows "\<exists>ps. report_pieces ev fd k d = (map (Tcp_Sent fd) ps, 0) \<and> concat ps = d"
proof (induction d arbitrary: k rule: length_induct)
  case (1 d)
  show ?case
  proof (cases d)
    case Nil
    then show ?thesis using assms by (intro exI [of _ "[]"]) simp
  next
    case (Cons b bs)
    then have "length (drop SP_BUFLEN d) < length d" by simp
    then obtain ps where "report_pieces ev fd (Suc k) (drop SP_BUFLEN d) = (map (Tcp_Sent fd) ps, 0)" "concat ps = drop SP_BUFLEN d"
      using 1 by blast
    then show ?thesis using assms Cons
      by (intro exI [of _ "take SP_BUFLEN d # ps"]) (simp flip: append_Cons add: append_take_drop_id [of SP_BUFLEN "b # bs", simplified])
  qed
qed

lemma copy_report_all:
  assumes "\<forall>i. ok i" "\<forall>c \<in> set cs. c \<noteq> []"
  shows "\<exists>ws. copy_report ok k (length (concat cs)) (map Octets cs) = (map Log_Octets ws, Copied) \<and> concat ws = concat cs"
  using assms(2)
proof (induction "length (concat cs)" arbitrary: cs k rule: less_induct)
  case less
  show ?case
  proof (cases cs)
    case Nil
    then show ?thesis by (intro exI [of _ "[]"]) (simp add: copy_report.simps)
  next
    case (Cons c cr)
    define n where "n = min SP_BUFLEN (length (concat cs))"
    have n: "0 < n" "n \<le> length (concat cs)" "\<exists>xs \<in> set cs. xs \<noteq> []" using Cons less.prems by (auto simp: n_def)
    let ?cs = "(if n < length c then drop n c # cr else cr)"
    have cat: "take n c @ concat ?cs = concat cs" using Cons by (simp flip: append_assoc)
    have pos: "take n c \<noteq> []" using n(1) Cons less.prems by auto
    have len: "length (concat ?cs) = length (concat cs) - length (take n c)"
      using arg_cong [OF cat, of length] by simp
    moreover have "length (concat ?cs) < length (concat cs)" using arg_cong [OF cat, of length] pos
      by (metis length_append length_greater_0_conv less_add_same_cancel2)
    moreover have "\<forall>c \<in> set ?cs. c \<noteq> []" using less.prems Cons by auto
    ultimately obtain ws where ws: "copy_report ok (Suc k) (length (concat ?cs)) (map Octets ?cs) = (map Log_Octets ws, Copied)"
      "concat ws = concat ?cs"
      using less.hyps [of ?cs "Suc k"] by blast
    have "sock_recv n (map Octets cs) = (Octets (take n c), map Octets ?cs)" using Cons by simp
    then have "copy_report ok k (length (concat cs)) (map Octets cs) = (map Log_Octets (take n c # ws), Copied)"
      using ws(1) len assms(1) pos n by (simp add: copy_report.simps [of ok k] n_def [symmetric])
    then show ?thesis using ws(2) cat by (intro exI [of _ "take n c # ws"]) simp
  qed
qed

lemma write_log_all: "\<forall>i. ok i \<Longrightarrow> write_log ok fd k items s = (emit_all (map (Log_Write fd) items) s, True)"
  by (induction items arbitrary: k s) (simp_all add: emit_def emit_all_def)

lemma report_object:
  assumes "length (ss_addr_src_pub h) = 16" "length (ss_addr_dst_pub h) = 16"
  shows "sp_valid (sp_object (report_message t n cid h))" "sp_octets (sp_object (report_message t n cid h)) = report_message t n cid h"
    "sp_starthdr (sp_object (report_message t n cid h)) = h" "sp_type (sp_object (report_message t n cid h)) = sp_nr t"
    "sp_id (sp_object (report_message t n cid h)) = htonl cid" "sp_len (sp_object (report_message t n cid h)) = htonl n"
  using assms start_octets_hdr [OF assms, of "sp_fill t n cid (sp_object (replicate 72 0))"]
  by (simp_all add: report_message_def sp_fill_def sp_valid_def sp_starthdr_def)

lemma of_nat_restlen: "n < 2 ^ 31 \<Longrightarrow> sint (of_nat n :: u32) = int n"
  using sint_of_int31 [of "int n"] by simp

text \<open>What the server writes for a report.\<close>

definition report_log :: "sps_env \<Rightarrow> sdhdr_start \<Rightarrow> bytes list \<Rightarrow> sps_effect list" where
  "report_log ev h ws = Log_Open (ntohl (ss_testid h)) (ev_open ev)
     # map (Log_Write (ev_open ev)) (log_header h @ map Log_Octets ws) @ [Close_Fd (ev_open ev)]"

lemma receive_report_all:
  assumes "cf_heap sv p = Some cfe" "\<forall>i. ev_write ev i" "0 \<le> ev_open ev" "\<forall>c \<in> set cs. c \<noteq> []" "concat cs \<noteq> []" "short_names ev"
    and "length (concat cs) < 2 ^ 31" "ntohl (sp_len sp) = 72 + of_nat (length (concat cs))"
  shows "\<exists>ws. concat ws = concat cs \<and>
    receive_send_report ev (map Octets cs) sp p sv = Inr (emit_all (report_log ev (sp_starthdr sp) ws) sv, 0)"
proof -
  obtain ws where "copy_report (ev_write ev) 6 (length (concat cs)) (map Octets cs) = (map Log_Octets ws, Copied)" "concat ws = concat cs"
    using copy_report_all [OF assms(2,4)] by blast
  moreover have "sint (ntohl (sp_len sp) - 72) = int (length (concat cs))"
    using assms(7,8) of_nat_restlen by simp
  moreover have "length (concat cs) \<noteq> 0" using assms(5) by simp
  moreover have "\<not> 128 \<le> length (log_filename ev (ntohl (ss_testid (sp_starthdr sp))))"
    using log_filename_fits [OF assms(6), of "ntohl (ss_testid (sp_starthdr sp))"] by linarith
  ultimately show ?thesis using assms(1-3)
    by (intro exI [of _ ws])
      (simp add: receive_send_report_def Let_def write_log_all report_log_def emit_def emit_all_def del: length_concat concat_eq_Nil_conv)
qed

text \<open>C3. The log of a call arrives: the sender that closes a call sends a header and its log in pieces and
  goes back to being connected. However the connection cuts the octets, if the first segment has four
  of them, the server, whose names for files are short enough, writes exactly that log to a file that is created anew, behind the description of the call from the message
  that started it, and has the client idle again. An empty log makes no file.\<close>

theorem report_reaches_log:
  assumes "spc_phase c = SS_DATA_SEND_CLOSING" "sender_at c q = Inr ss" "tx_logf ss"
    and "ec_stat evc" "ec_open evc" "\<forall>i. ec_read evc i" "\<forall>i. ec_send evc i" "length (tx_log ss) < 2 ^ 31"
    and "length (ss_addr_src_pub (tx_hdr ss)) = 16" "length (ss_addr_dst_pub (tx_hdr ss)) = 16"
    and "sps_ok T L sv" "p \<in> set (cf_list sv)" "cf_heap sv p = Some cfe" "cf_id cfe = spc_id c"
  shows "\<exists>c' ms. send_data_wrapper evc k q c = Inr (c', 0) \<and> spc_phase c' = SS_SERVER \<and> spc_data c' = None \<and>
    spc_out c' = spc_out c @ map (Tcp_Sent (spc_s c)) ms @ [Log_Unlinked] \<and>
    concat ms = report_message SP_TYPE_REPORT_SEND (72 + of_nat (length (tx_log ss))) (spc_id c) (tx_hdr ss) @ tx_log ss \<and>
    (\<forall>cs ev. concat cs = concat ms \<and> (\<forall>c \<in> set cs. c \<noteq> []) \<and> 4 \<le> length (hd cs) \<and>
        ev_recv ev = map Octets cs \<and> (\<forall>i. ev_write ev i) \<and> 0 \<le> ev_open ev \<and> short_names ev \<longrightarrow>
      (\<exists>sv' ws. client_input ev (cf_s cfe) p sv = Inr (sv', 0) \<and> concat ws = tx_log ss \<and>
        sv_out sv' = sv_out sv @ (if tx_log ss = [] then [] else report_log ev (tx_hdr ss) ws) \<and>
        cf_list sv' = cf_list sv \<and> cf_heap sv' = (cf_heap sv)(p \<mapsto> cfe\<lparr>cf_state := CS_IDLE, cf_peer := 0\<rparr>)))"
proof -
  let ?n = "72 + of_nat (length (tx_log ss)) :: u32"
  let ?m = "report_message SP_TYPE_REPORT_SEND ?n (spc_id c) (tx_hdr ss)"
  note obj = report_object [OF assms(9,10), of SP_TYPE_REPORT_SEND ?n "spc_id c"]
  obtain ps where ps: "report_pieces evc (spc_s c) 0 (tx_log ss) = (map (Tcp_Sent (spc_s c)) ps, 0)" "concat ps = tx_log ss"
    using report_pieces_all [OF assms(6,7)] by blast
  obtain c' where c': "send_data_wrapper evc k q c = Inr (c', 0)" "spc_phase c' = SS_SERVER" "spc_data c' = None"
    "spc_out c' = spc_out c @ map (Tcp_Sent (spc_s c)) (?m # ps) @ [Log_Unlinked]"
    using assms(1-5,7) ps(1)
    by (simp add: send_data_wrapper_def close_sender_def send_send_report_def put_sess_def free_sess_def outp_def)
  have "\<exists>sv' ws. client_input ev (cf_s cfe) p sv = Inr (sv', 0) \<and> concat ws = tx_log ss \<and>
        sv_out sv' = sv_out sv @ (if tx_log ss = [] then [] else report_log ev (tx_hdr ss) ws) \<and>
        cf_list sv' = cf_list sv \<and> cf_heap sv' = (cf_heap sv)(p \<mapsto> cfe\<lparr>cf_state := CS_IDLE, cf_peer := 0\<rparr>)"
    if cs: "concat cs = concat (?m # ps)" "\<forall>c \<in> set cs. c \<noteq> []" "4 \<le> length (hd cs)"
      and ev: "ev_recv ev = map Octets cs" "\<forall>i. ev_write ev i" "0 \<le> ev_open ev" "short_names ev" for cs ev
  proof -
    have cat: "concat cs = sp_octets (sp_object ?m) @ tx_log ss" using cs(1) ps(2) by (simp add: obj(2))
    obtain cs' where r: "concat cs' = tx_log ss" "\<forall>c \<in> set cs'. c \<noteq> []"
      "recv_message (ev_stack ev) (ev_recv ev) [] = (Message (sp_object ?m), map Octets cs')"
      using recv_message_segments [OF obj(1) cat cs(2,3)] unfolding ev(1) by blast
    have "set (cf_list sv) \<subseteq> dom (cf_heap sv)" using assms(11) by (auto simp: ok_in_list)
    then have check: "cfe_check (cf_heap sv) p (cf_s cfe) (cf_list sv) = Inr cfe"
      using assms(12,13) ok_distinct [OF assms(11)] by (simp add: cfe_check_eq)
    have rep: "\<exists>ws. concat ws = tx_log ss \<and> receive_send_report ev (map Octets cs') (sp_object ?m) p sv =
        Inr (emit_all (if tx_log ss = [] then [] else report_log ev (tx_hdr ss) ws) sv, 0)"
    proof (cases "tx_log ss = []")
      case True
      then show ?thesis using assms(13) obj(6)
        by (intro exI [of _ "[]"]) (simp add: receive_send_report_def emit_all_def)
    next
      case False
      then show ?thesis
        using receive_report_all [OF assms(13) ev(2,3) r(2) _ ev(4), of "sp_object ?m"] r(1) assms(8) obj(3,6) by simp
    qed
    then obtain ws where ws: "concat ws = tx_log ss" "receive_send_report ev (map Octets cs') (sp_object ?m) p sv =
        Inr (emit_all (if tx_log ss = [] then [] else report_log ev (tx_hdr ss) ws) sv, 0)"
      by blast
    define es where "es = (if tx_log ss = [] then [] else report_log ev (tx_hdr ss) ws)"
    define m where "m = ?m"
    have "client_input ev (cf_s cfe) p sv = Inr (cfe_put p (cfe\<lparr>cf_state := CS_IDLE, cf_peer := 0\<rparr>) (emit_all es sv), 0)"
      using check r(3) ws(2) assms(13,14) obj(4,5) unfolding es_def [symmetric] m_def [symmetric]
      by (simp add: client_input_def rcv_sp_proto_def client_idle_def sptype_of_def)
    then show ?thesis using ws(1)
      by (intro exI [of _ "cfe_put p (cfe\<lparr>cf_state := CS_IDLE, cf_peer := 0\<rparr>) (emit_all es sv)"] exI [of _ ws])
        (simp add: es_def)
  qed
  moreover have "concat (?m # ps) = ?m @ tx_log ss" using ps(2) by simp
  ultimately show ?thesis using c' by (intro exI [of _ c'] exI [of _ "?m # ps"]) blast
qed

definition sample_closing :: spc_info where
  "sample_closing = sample_call\<lparr>spc_phase := SS_DATA_SEND_CLOSING, spc_heap := [0 \<mapsto> Sender (sample_tx\<lparr>tx_log := replicate 70 46\<rparr>)]\<rparr>"

theorem report_reaches_log_witness:
  "\<exists>c' ms. send_data_wrapper sample_spc_env 0 0 sample_closing = Inr (c', 0) \<and>
    (\<exists>sv'. client_input (sample_env\<lparr>ev_recv := [Octets (concat ms)]\<rparr>) 6 1 sample_state = Inr (sv', 0)) \<and> 100 < length (concat ms)"
proof -
  let ?ss = "sample_tx\<lparr>tx_log := replicate 70 46\<rparr>"
  have c: "spc_phase sample_closing = SS_DATA_SEND_CLOSING" "sender_at sample_closing 0 = Inr ?ss" "tx_logf ?ss"
    "length (tx_log ?ss) < 2 ^ 31" "length (ss_addr_src_pub (tx_hdr ?ss)) = 16" "length (ss_addr_dst_pub (tx_hdr ?ss)) = 16"
    by (simp_all add: sample_closing_def sender_at_def sess_at_def sample_tx_def)
  have e: "ec_stat sample_spc_env" "ec_open sample_spc_env" "\<forall>i. ec_read sample_spc_env i" "\<forall>i. ec_send sample_spc_env i"
    by (simp_all add: sample_spc_env_def)
  have id: "cf_id (sample_client 1 10) = spc_id sample_closing"
    by (simp add: sample_closing_def sample_call_def spc_initial_def sample_client_def)
  note w = report_reaches_log [OF c(1-3) e c(4-6) sample_state_ok sample_server_client(2,1) id]
  obtain c' ms where c': "send_data_wrapper sample_spc_env 0 0 sample_closing = Inr (c', 0)"
    and ms: "concat ms = report_message SP_TYPE_REPORT_SEND (72 + of_nat (length (tx_log ?ss))) (spc_id sample_closing) (tx_hdr ?ss) @ tx_log ?ss"
    and all: "\<forall>cs ev. concat cs = concat ms \<and> (\<forall>c \<in> set cs. c \<noteq> []) \<and> 4 \<le> length (hd cs) \<and>
        ev_recv ev = map Octets cs \<and> (\<forall>i. ev_write ev i) \<and> 0 \<le> ev_open ev \<and> short_names ev \<longrightarrow>
      (\<exists>sv' ws. client_input ev (cf_s (sample_client 1 10)) 1 sample_state = Inr (sv', 0) \<and> concat ws = tx_log ?ss \<and>
        sv_out sv' = sv_out sample_state @ (if tx_log ?ss = [] then [] else report_log ev (tx_hdr ?ss) ws) \<and>
        cf_list sv' = cf_list sample_state \<and>
        cf_heap sv' = (cf_heap sample_state)(1 \<mapsto> sample_client 1 10\<lparr>cf_state := CS_IDLE, cf_peer := 0\<rparr>))"
    using w [of 0] by (elim exE conjE)
  have "length (concat ms) = 142"
    unfolding ms by (simp add: report_message_def sp_fill_def sample_tx_def)
  moreover from this have "concat ms \<noteq> []" by (metis list.size(3) zero_neq_numeral)
  moreover have "(\<forall>i. ev_write (sample_env\<lparr>ev_recv := [Octets (concat ms)]\<rparr>) i) \<and> 0 \<le> ev_open (sample_env\<lparr>ev_recv := [Octets (concat ms)]\<rparr>) \<and>
      short_names (sample_env\<lparr>ev_recv := [Octets (concat ms)]\<rparr>)"
    by (simp add: sample_env_def short_names_def)
  ultimately obtain sv' where "client_input (sample_env\<lparr>ev_recv := [Octets (concat ms)]\<rparr>) (cf_s (sample_client 1 10)) 1 sample_state = Inr (sv', 0)"
    using all [rule_format, of "[concat ms]" "sample_env\<lparr>ev_recv := [Octets (concat ms)]\<rparr>"]
    by (simp del: length_concat concat_eq_Nil_conv) blast
  then show ?thesis using c' \<open>length (concat ms) = 142\<close> unfolding sample_server_client(4)
    by (intro exI [of _ c'] exI [of _ ms]) (simp del: length_concat)
qed

section \<open>Calls\<close>

lemma start_octets_app:
  "length (ss_addr_src_pub h) = 16 \<Longrightarrow> length (ss_addr_dst_pub h) = 16
    \<Longrightarrow> sp_starthdr (sp\<lparr>sp_data := start_octets h @ r\<rparr>) = h"
  by (simp add: sp_starthdr_def start_octets_def bytes_simps)

text \<open>A start message as the client finds it in its object.\<close>

lemma start_message_received:
  assumes "length (ss_addr_src_pub h) = 16" "length (ss_addr_dst_pub h) = 16"
  shows "length (start_message ev t cid h) = SP_SIZE"
    "sp_starthdr (sp_object (start_message ev t cid h @ r)) = h"
    "sp_magic (sp_object (start_message ev t cid h @ r)) = SP_MAGIC"
    "ntohs (sp_version (sp_object (start_message ev t cid h @ r))) = SP_VERSION_NR"
    "htonl (sp_id (sp_object (start_message ev t cid h @ r))) = cid"
    "sptype_of (sp_type (sp_object (start_message ev t cid h @ r))) = Some t"
proof -
  show len: "length (start_message ev t cid h) = SP_SIZE"
    using assms by (simp add: start_message_def sp_fill_def)
  show "sp_starthdr (sp_object (start_message ev t cid h @ r)) = h"
    using start_octets_app [OF assms, of r "sp_fill t 72 cid (sp_object (ev_stack ev))"]
    by (simp add: sp_object_append len start_message_object sp_fill_def sp_starthdr_def)
qed (simp_all add: sp_object_append start_message_object sp_fill_def start_message_def assms)

lemma server_input_message:
  assumes "ec_recv ev = [Octets m]" "length m = SP_SIZE" "sp = sp_object (m @ drop SP_SIZE (ec_stack ev))"
    and "sp_magic sp = SP_MAGIC" "ntohs (sp_version sp) = SP_VERSION_NR" "htonl (sp_id sp) = spc_id c" "spc_phase c = SS_SERVER"
  shows "sptype_of (sp_type sp) = Some SP_TYPE_START_SEND \<Longrightarrow> server_input ev (spc_s c) c =
      bnd (start_sender ev sp c) (\<lambda>(s, r). Inr (s, if r < 0 then - 1 else 0))"
    and "sptype_of (sp_type sp) = Some SP_TYPE_START_RCV \<Longrightarrow> server_input ev (spc_s c) c =
      bnd (start_receiver ev sp c) (\<lambda>(s, r). Inr (s, if r < 0 then - 1 else 0))"
proof -
  have "m \<noteq> []" using assms(2) by force
  moreover have "sock_recv SP_SIZE (ec_recv ev) = (Octets m, [])" using assms(1,2) by simp
  ultimately show "sptype_of (sp_type sp) = Some SP_TYPE_START_SEND \<Longrightarrow> server_input ev (spc_s c) c =
      bnd (start_sender ev sp c) (\<lambda>(s, r). Inr (s, if r < 0 then - 1 else 0))"
    "sptype_of (sp_type sp) = Some SP_TYPE_START_RCV \<Longrightarrow> server_input ev (spc_s c) c =
      bnd (start_receiver ev sp c) (\<lambda>(s, r). Inr (s, if r < 0 then - 1 else 0))"
    using assms(2,4-7) unfolding assms(3) by (simp_all add: server_input_def Let_def)
qed

lemma send_data_wrapper_early:
  assumes "sender_at c p = Inr ss" "spc_phase c = SS_DATA_SEND" "tv_sec (timersub (ec_now ev k) (tx_t0 ss)) < 0"
    "tv_sec (timersub (ec_now ev (Suc k)) (tx_t0 ss)) < 0" "0 \<le> tv_sec (tx_duration ss)" "ec_reg ev"
  shows "\<exists>l. send_data_wrapper ev k p c = Inr ((put_sess p (Sender ss) c)\<lparr>spc_loop := l\<rparr>, 0)"
  using assms
  by (auto simp: send_data_wrapper_def stop_sending_def timeval_less send_due_def npackets_def Let_def reg_timeout_def
      eventloop_reg_timeout_def put_sess_def)

lemma timersub_negative: "tv_norm a \<Longrightarrow> tv_norm b \<Longrightarrow> a < b \<Longrightarrow> tv_sec (timersub a b) < 0"
  by (auto simp: timersub_def Let_def timeval_less tv_norm_def split: if_splits)

text \<open>A sender that runs before its time sends nothing and stays as it is, but for its next timer, whatever timers
  run meanwhile.\<close>

definition waits :: "spc_info \<Rightarrow> nat \<Rightarrow> timeval \<Rightarrow> bool" where
  "waits c p t0 \<longleftrightarrow> (\<forall>e l. ec_reg e \<and> (\<forall>k. tv_norm (ec_now e k) \<and> ec_now e k < t0) \<longrightarrow>
     (\<exists>l'. send_data_wrapper e 0 p (c\<lparr>spc_loop := l\<rparr>) = Inr (c\<lparr>spc_loop := l'\<rparr>, 0)))"

lemma sender_waits:
  assumes "spc_heap c p = Some (Sender ss)" "spc_phase c = SS_DATA_SEND" "0 \<le> tv_sec (tx_duration ss)" "tv_norm (tx_t0 ss)"
  shows "waits c p (tx_t0 ss)"
  unfolding waits_def
proof (intro allI impI)
  fix e :: spc_env and l assume e: "ec_reg e \<and> (\<forall>k. tv_norm (ec_now e k) \<and> ec_now e k < tx_t0 ss)"
  let ?c = "c\<lparr>spc_loop := l\<rparr>"
  have at: "sender_at ?c p = Inr ss" "spc_phase ?c = SS_DATA_SEND" using assms(1,2) by (simp_all add: sender_at_def sess_at_def)
  have early: "tv_sec (timersub (ec_now e k) (tx_t0 ss)) < 0" for k using e assms(4) timersub_negative by blast
  obtain l' where "send_data_wrapper e 0 p ?c = Inr ((put_sess p (Sender ss) ?c)\<lparr>spc_loop := l'\<rparr>, 0)"
    using send_data_wrapper_early [OF at early early assms(3)] e by blast
  moreover have "(put_sess p (Sender ss) ?c)\<lparr>spc_loop := l'\<rparr> = c\<lparr>spc_loop := l'\<rparr>"
    using fun_upd_idem [of "spc_heap c" p "Some (Sender ss)"] assms(1) by (simp add: put_sess_def)
  ultimately show "\<exists>l'. send_data_wrapper e 0 p ?c = Inr (c\<lparr>spc_loop := l'\<rparr>, 0)" by auto
qed

lemma tv_eta: "tv (tv_sec d) (tv_usec d) = (d :: timeval)"
  by simp

lemma word_of_tv: "0 \<le> i \<Longrightarrow> i < 2 ^ 31 \<Longrightarrow> sint (word_of_int i :: u32) = i"
  by (rule sint_of_int31) auto

lemma start_hdr_decoded:
  assumes "tv_norm d" "0 \<le> tv_sec d" "tv_sec d < 2 ^ 31" "sin_family a = AF_INET" "sin_family b = AF_INET"
    and "h = start_hdr tid src dst a b now d"
  shows "ntohl (ss_testid h) = tid" "sp_addr_decode (ss_addr_src_pub h) = a" "sp_addr_decode (ss_addr_dst_pub h) = b"
    "sint (ntohl (ss_duration_sec h)) = tv_sec d" "sint (ntohl (ss_duration_usec h)) = tv_usec d"
    "length (ss_addr_src_pub h) = 16" "length (ss_addr_dst_pub h) = 16"
  using assms sp_addr_decode_encode [of a "[]"] sp_addr_decode_encode [of b "[]"]
  by (simp_all add: start_hdr_def word_of_tv tv_norm_def AF_INET_def)

lemma sender_starts:
  assumes "spc_phase c = SS_SERVER" "spc_id c = cid" "ec_recv e = [Octets (start_message ev SP_TYPE_START_SEND cid h)]"
    and "h = start_hdr tid src dst a b now d" "tv_norm d" "0 \<le> tv_sec d" "tv_sec d < 2 ^ 31" "sin_family a = AF_INET" "sin_family b = AF_INET"
    and "ec_alloc e" "ec_log e" "ec_reg e" "t = ec_now e 1" "\<forall>k. tv_norm (ec_now e k) \<and> ec_now e k < tv (tv_sec t + 1) (tv_usec t)"
  shows "\<exists>c' ss. server_input e (spc_s c) c = Inr (c', 0) \<and> spc_phase c' = SS_DATA_SEND \<and>
    spc_data c' = Some (spc_new c) \<and> spc_heap c' (spc_new c) = Some (Sender ss) \<and>
    tx_testid ss = tid \<and> tx_dstaddr ss = b \<and> tx_duration ss = d \<and> tx_seq ss = 0 \<and> spc_out c' = spc_out c \<and>
    tx_t0 ss = tv (tv_sec t + 1) (tv_usec t)"
proof -
  note h = start_hdr_decoded [OF assms(5-9,4)]
  let ?m = "start_message ev SP_TYPE_START_SEND cid h"
  define sp where "sp = sp_object (?m @ drop SP_SIZE (ec_stack e))"
  note m = start_message_received [OF h(6,7), of ev SP_TYPE_START_SEND cid, folded sp_def]
  define ss where "ss = \<lparr>tx_testid = tid, tx_duration = d, tx_dstaddr = b, tx_t0 = tv (tv_sec t + 1) (tv_usec t),
              tx_hdr = h, tx_payload = ucast RTP_PT_DYNAMIC, tx_ssrc = random_ssrc (ec_stack e) (ec_now e 0) (ec_pid e) 0,
              tx_seq = 0, tx_rcvd = 0, tx_coding = spc_coding c, tx_log = [], tx_logf = True\<rparr>"
  define s1 where "s1 = (put_sess (spc_new c) (Sender ss) c)\<lparr>spc_data := Some (spc_new c), spc_new := Suc (spc_new c), spc_phase := SS_DATA_SEND\<rparr>"
  have sp: "sp_starthdr sp = h" using m(2) unfolding sp_def .
  have start: "start_sender e sp c = bnd (send_data_wrapper e 2 (spc_new c) s1) (\<lambda>(s, r). Inr (s, if r < 0 then - 1 else 0))"
    using assms(1,10,11,13) h(1,3,4,5) by (simp add: start_sender_def Let_def sp s1_def ss_def tv_eta)
  have early: "tv_sec (timersub (ec_now e k) (tx_t0 ss)) < 0" for k
    using assms(13,14) by (intro timersub_negative) (simp_all add: ss_def tv_norm_def)
  have at: "sender_at s1 (spc_new c) = Inr ss" "spc_phase s1 = SS_DATA_SEND" "0 \<le> tv_sec (tx_duration ss)"
    using assms(6) by (simp_all add: s1_def put_sess_def sender_at_def sess_at_def ss_def)
  obtain l where "send_data_wrapper e 2 (spc_new c) s1 = Inr ((put_sess (spc_new c) (Sender ss) s1)\<lparr>spc_loop := l\<rparr>, 0)"
    using send_data_wrapper_early [OF at(1,2) early early at(3) assms(12)] by blast
  moreover have "server_input e (spc_s c) c = bnd (start_sender e sp c) (\<lambda>(s, r). Inr (s, if r < 0 then - 1 else 0))"
    using server_input_message(1) [OF assms(3) m(1) sp_def] m(3-6) assms(1,2) unfolding sp_def by simp
  ultimately show ?thesis using start by (simp add: put_sess_def s1_def) (simp add: ss_def)
qed

lemma receiver_starts:
  assumes "spc_phase c = SS_SERVER" "spc_id c = cid" "ec_recv e = [Octets (start_message ev SP_TYPE_START_RCV cid h)]"
    and "h = start_hdr tid src dst a b now d" "tv_norm d" "0 \<le> tv_sec d" "tv_sec d < 2 ^ 31" "sin_family a = AF_INET" "sin_family b = AF_INET"
    and "ec_alloc e" "ec_reg e"
  shows "\<exists>c' rs x. server_input e (spc_s c) c = Inr (c', 0) \<and> spc_phase c' = SS_DATA_RCV \<and>
    spc_data c' = Some (spc_new c) \<and> spc_heap c' (spc_new c) = Some (Receiver rs) \<and>
    rx_testid rs = tid \<and> rx_srcaddr rs = a \<and> x \<in> set (ee_timers (spc_loop c')) \<and> e_fn x = Rcv_Timeout \<and>
    e_arg x = Sess (spc_new c) \<and> e_time x = timeradd (ec_now e 0) (tv (tv_sec d + 5) (tv_usec d)) \<and> spc_out c' = spc_out c"
proof -
  note h = start_hdr_decoded [OF assms(5-9,4)]
  let ?m = "start_message ev SP_TYPE_START_RCV cid h"
  define sp where "sp = sp_object (?m @ drop SP_SIZE (ec_stack e))"
  note m = start_message_received [OF h(6,7), of ev SP_TYPE_START_RCV cid]
  have sp: "sp_starthdr sp = h" using m(2) unfolding sp_def .
  have "server_input e (spc_s c) c = bnd (start_receiver e sp c) (\<lambda>(s, r). Inr (s, if r < 0 then - 1 else 0))"
    using server_input_message(2) [OF assms(3) m(1) sp_def] m(3-6) assms(1,2) unfolding sp_def by simp
  moreover define rs where "rs = \<lparr>rx_testid = tid, rx_duration = tv (10 + tv_sec d) (tv_usec d), rx_start = ec_now e 0,
    rx_srcaddr = a, rx_hdr = h\<rparr>"
  define x where "x = \<lparr>e_id = next_id (spc_loop c), e_fn = Rcv_Timeout, e_type = EVENT_TIME, e_fd = 0,
    e_time = timeradd (ec_now e 0) (tv (tv_sec d + 5) (tv_usec d)), e_arg = Sess (spc_new c),
    e_string = take EVENT_STRLEN ''sicsophone data receiver timeout''\<rparr>"
  obtain l where "start_receiver e sp c = Inr ((put_sess (spc_new c) (Receiver rs) c)
      \<lparr>spc_data := Some (spc_new c), spc_new := Suc (spc_new c), spc_phase := SS_DATA_RCV,
       spc_loop := l\<rparr>, 0)" "x \<in> set (ee_timers l)"
    using assms(1,10,11) h(1,2,4,5)
    by (intro that [of "(spc_loop c)\<lparr>ee_timers := insert_timer x (ee_timers (spc_loop c)), next_id := Suc (next_id (spc_loop c))\<rparr>"])
      (simp_all add: start_receiver_def Let_def sp reg_timeout_def eventloop_reg_timeout_def put_sess_def rs_def x_def)
  ultimately show ?thesis
    by (intro exI [of _ "(put_sess (spc_new c) (Receiver rs) c)
      \<lparr>spc_data := Some (spc_new c), spc_new := Suc (spc_new c), spc_phase := SS_DATA_RCV, spc_loop := l\<rparr>"]
      exI [of _ rs] exI [of _ x]) (simp add: put_sess_def, simp add: x_def rs_def)
qed

text \<open>C6. A call starts at both ends: the two messages with which the server starts a call, given to the two
  clients it has chosen, bring one into the sending state, with the number of the call, the duration
  and the public address of the other, and with a start that is exactly one second away by the client's clock, read when the session is made, if the handler takes less than that: a run of the sender at any time before
  that sends nothing and leaves the session as it is, however often it runs; and the other into the receiving state, with the same number, the address of the sender, and a timer that
  ends it five seconds after the duration.\<close>

theorem call_starts_at_both_ends:
  assumes "sps_ok T L s" "ev_random ev = r # rs" "draw_other (length (cf_list s)) (r mod length (cf_list s)) rs = Some j"
    and "2 \<le> length (cf_list s)" "p = cf_list s ! (r mod length (cf_list s))" "q = cf_list s ! j"
    and "cf_heap s p = Some cp" "cf_heap s q = Some cq" "cf_state cp = CS_IDLE" "cf_state cq = CS_IDLE"
    and "s_addr (cf_addr_pub cp) \<noteq> 0" "s_addr (cf_addr_pub cq) \<noteq> 0"
    and "ev_send ev (cf_s cp)" "ev_send ev (cf_s cq)" "ev_reg ev"
    and "tv_norm (ev_duration ev)" "0 \<le> tv_sec (ev_duration ev)" "tv_sec (ev_duration ev) < 2 ^ 31"
    and "sin_family (cf_addr_pub cp) = AF_INET" "sin_family (cf_addr_pub cq) = AF_INET"
    and "spc_phase c1 = SS_SERVER" "spc_id c1 = cf_id cp" "ec_alloc e1" "ec_log e1" "ec_reg e1" "t = ec_now e1 1"
    and "\<forall>k. tv_norm (ec_now e1 k) \<and> ec_now e1 k < tv (tv_sec t + 1) (tv_usec t)"
    and "spc_phase c2 = SS_SERVER" "spc_id c2 = cf_id cq" "ec_alloc e2" "ec_reg e2"
  shows "\<exists>s' m1 m2. client_startcalls ev s = Inr (s', 0) \<and> sv_out s' = sv_out s @ [Sent (cf_s cp) m1, Sent (cf_s cq) m2] \<and>
    (ec_recv e1 = [Octets m1] \<longrightarrow> (\<exists>c1' ss. server_input e1 (spc_s c1) c1 = Inr (c1', 0) \<and> spc_phase c1' = SS_DATA_SEND \<and>
      spc_data c1' = Some (spc_new c1) \<and> spc_heap c1' (spc_new c1) = Some (Sender ss) \<and>
      tx_testid ss = test_id s \<and> tx_dstaddr ss = cf_addr_pub cq \<and> tx_duration ss = ev_duration ev \<and> tx_seq ss = 0 \<and>
      spc_out c1' = spc_out c1 \<and> tx_t0 ss = tv (tv_sec t + 1) (tv_usec t) \<and> waits c1' (spc_new c1) (tx_t0 ss))) \<and>
    (ec_recv e2 = [Octets m2] \<longrightarrow> (\<exists>c2' rs x. server_input e2 (spc_s c2) c2 = Inr (c2', 0) \<and> spc_phase c2' = SS_DATA_RCV \<and>
      spc_data c2' = Some (spc_new c2) \<and> spc_heap c2' (spc_new c2) = Some (Receiver rs) \<and>
      rx_testid rs = test_id s \<and> rx_srcaddr rs = cf_addr_pub cp \<and> x \<in> set (ee_timers (spc_loop c2')) \<and> e_fn x = Rcv_Timeout \<and>
      e_arg x = Sess (spc_new c2) \<and>
      e_time x = timeradd (ec_now e2 0) (tv (tv_sec (ev_duration ev) + 5) (tv_usec (ev_duration ev))) \<and> spc_out c2' = spc_out c2))"
proof -
  let ?h1 = "start_hdr (test_id s) (cf_id cp) (cf_id cq) (cf_addr_pub cp) (cf_addr_pub cq) (ev_now ev) (ev_duration ev)"
  let ?h2 = "start_hdr (test_id s) (cf_id cq) (cf_id cp) (cf_addr_pub cp) (cf_addr_pub cq) (ev_now ev) (ev_duration ev)"
  let ?m1 = "start_message ev SP_TYPE_START_SEND (cf_id cp) ?h1" and ?m2 = "start_message ev SP_TYPE_START_RCV (cf_id cq) ?h2"
  obtain s' where "client_startcalls ev s = Inr (s', 0)" "sv_out s' = sv_out s @ [Sent (cf_s cp) ?m1, Sent (cf_s cq) ?m2]"
    using startcalls_messages [OF assms(1-15)] by (auto simp: emit_all_def cfe_put_def)
  moreover have "\<exists>c1' ss. server_input e1 (spc_s c1) c1 = Inr (c1', 0) \<and> spc_phase c1' = SS_DATA_SEND \<and>
      spc_data c1' = Some (spc_new c1) \<and> spc_heap c1' (spc_new c1) = Some (Sender ss) \<and>
      tx_testid ss = test_id s \<and> tx_dstaddr ss = cf_addr_pub cq \<and> tx_duration ss = ev_duration ev \<and> tx_seq ss = 0 \<and>
      spc_out c1' = spc_out c1 \<and> tx_t0 ss = tv (tv_sec t + 1) (tv_usec t) \<and> waits c1' (spc_new c1) (tx_t0 ss)"
    if m: "ec_recv e1 = [Octets ?m1]"
  proof -
    obtain c1' ss where c: "server_input e1 (spc_s c1) c1 = Inr (c1', 0)" "spc_phase c1' = SS_DATA_SEND"
      "spc_data c1' = Some (spc_new c1)" "spc_heap c1' (spc_new c1) = Some (Sender ss)"
      "tx_testid ss = test_id s" "tx_dstaddr ss = cf_addr_pub cq" "tx_duration ss = ev_duration ev" "tx_seq ss = 0"
      "spc_out c1' = spc_out c1" "tx_t0 ss = tv (tv_sec t + 1) (tv_usec t)"
      using sender_starts [OF assms(21,22) m refl assms(16-20,23-27)] by blast
    have "waits c1' (spc_new c1) (tx_t0 ss)"
      using sender_waits [OF c(4,2)] c(7,10) assms(17,26,27) by (simp add: tv_norm_def)
    then show ?thesis using c by blast
  qed
  ultimately show ?thesis
    using receiver_starts [OF assms(28,29) _ refl assms(16-20,30,31)]
    by (intro exI [of _ s'] exI [of _ ?m1] exI [of _ ?m2]) simp
qed

theorem call_starts_at_both_ends_witness:
  "\<exists>m1 m2 c1 c2. server_input (sample_spc_env\<lparr>ec_recv := [Octets m1]\<rparr>) 0 ((spc_initial 2 zero_addr)\<lparr>spc_phase := SS_SERVER\<rparr>) = Inr (c1, 0) \<and>
    server_input (sample_spc_env\<lparr>ec_recv := [Octets m2]\<rparr>) 0 ((spc_initial 1 zero_addr)\<lparr>spc_phase := SS_SERVER\<rparr>) = Inr (c2, 0) \<and>
    spc_phase c1 = SS_DATA_SEND \<and> spc_phase c2 = SS_DATA_RCV"
proof -
  let ?ev = "sample_env\<lparr>ev_random := [0, 2, 1]\<rparr>" and ?l = "cf_list sample_state"
  let ?cp = "sample_client 2 20" and ?cq = "sample_client 1 10"
  have l: "cf_list sample_state = [2, 1]" by (simp add: sample_state_def)
  have h: "cf_heap sample_state 2 = Some ?cp" "cf_heap sample_state 1 = Some ?cq" by (simp_all add: sample_state_def)
  have pick: "ev_random ?ev = 0 # [2, 1]" "draw_other (length ?l) (0 mod length ?l) [2, 1] = Some 1" "2 \<le> length ?l"
    "2 = ?l ! (0 mod length ?l)" "1 = ?l ! 1"
    by (simp_all add: l numeral_2_eq_2 [symmetric])
  have cl: "cf_state ?cp = CS_IDLE" "cf_state ?cq = CS_IDLE" "s_addr (cf_addr_pub ?cp) \<noteq> 0" "s_addr (cf_addr_pub ?cq) \<noteq> 0"
    "ev_send ?ev (cf_s ?cp)" "ev_send ?ev (cf_s ?cq)" "ev_reg ?ev" "tv_norm (ev_duration ?ev)" "0 \<le> tv_sec (ev_duration ?ev)"
    "tv_sec (ev_duration ?ev) < 2 ^ 31" "sin_family (cf_addr_pub ?cp) = AF_INET" "sin_family (cf_addr_pub ?cq) = AF_INET"
    by (simp_all add: sample_env_def sample_client_def tv_norm_def)
  let ?c1 = "(spc_initial 2 zero_addr)\<lparr>spc_phase := SS_SERVER\<rparr>" and ?c2 = "(spc_initial 1 zero_addr)\<lparr>spc_phase := SS_SERVER\<rparr>"
  define m1 where "m1 = start_message ?ev SP_TYPE_START_SEND (cf_id ?cp) (start_hdr (test_id sample_state) (cf_id ?cp) (cf_id ?cq)
    (cf_addr_pub ?cp) (cf_addr_pub ?cq) (ev_now ?ev) (ev_duration ?ev))"
  define m2 where "m2 = start_message ?ev SP_TYPE_START_RCV (cf_id ?cq) (start_hdr (test_id sample_state) (cf_id ?cq) (cf_id ?cp)
    (cf_addr_pub ?cp) (cf_addr_pub ?cq) (ev_now ?ev) (ev_duration ?ev))"
  let ?e1 = "sample_spc_env\<lparr>ec_recv := [Octets m1]\<rparr>" and ?e2 = "sample_spc_env\<lparr>ec_recv := [Octets m2]\<rparr>"
  have c: "spc_phase ?c1 = SS_SERVER" "spc_id ?c1 = cf_id ?cp" "ec_alloc ?e1" "ec_log ?e1" "ec_reg ?e1" "tv 0 0 = ec_now ?e1 1"
    "\<forall>k. tv_norm (ec_now ?e1 k) \<and> ec_now ?e1 k < tv (tv_sec (tv 0 0) + 1) (tv_usec (tv 0 0))" "spc_phase ?c2 = SS_SERVER" "spc_id ?c2 = cf_id ?cq" "ec_alloc ?e2" "ec_reg ?e2"
    by (simp_all add: sample_spc_env_def spc_initial_def sample_client_def tv_norm_def timeval_less)
  obtain s' where s': "client_startcalls ?ev sample_state = Inr (s', 0)"
    "sv_out s' = sv_out sample_state @ [Sent (cf_s ?cp) m1, Sent (cf_s ?cq) m2]"
    using startcalls_messages [OF sample_state_ok pick h cl(1-7)] unfolding m1_def m2_def by (auto simp: emit_all_def cfe_put_def)
  note w = call_starts_at_both_ends [OF sample_state_ok pick h cl c]
  from w show ?thesis
  proof (elim exE conjE)
    fix t n1 n2
    assume t: "client_startcalls ?ev sample_state = Inr (t, 0)" "sv_out t = sv_out sample_state @ [Sent (cf_s ?cp) n1, Sent (cf_s ?cq) n2]"
    have n: "n1 = m1" "n2 = m2" using t s' by simp_all
    have fd: "spc_s ?c1 = 0" "spc_s ?c2 = 0" by (simp_all add: spc_initial_def)
    assume "ec_recv ?e1 = [Octets n1] \<longrightarrow> (\<exists>c1' ss. server_input ?e1 (spc_s ?c1) ?c1 = Inr (c1', 0) \<and> spc_phase c1' = SS_DATA_SEND \<and>
      spc_data c1' = Some (spc_new ?c1) \<and> spc_heap c1' (spc_new ?c1) = Some (Sender ss) \<and>
      tx_testid ss = test_id sample_state \<and> tx_dstaddr ss = cf_addr_pub ?cq \<and> tx_duration ss = ev_duration ?ev \<and> tx_seq ss = 0 \<and>
      spc_out c1' = spc_out ?c1 \<and> tx_t0 ss = tv (tv_sec (tv 0 0) + 1) (tv_usec (tv 0 0)) \<and> waits c1' (spc_new ?c1) (tx_t0 ss))"
      and "ec_recv ?e2 = [Octets n2] \<longrightarrow> (\<exists>c2' rs x. server_input ?e2 (spc_s ?c2) ?c2 = Inr (c2', 0) \<and> spc_phase c2' = SS_DATA_RCV \<and>
      spc_data c2' = Some (spc_new ?c2) \<and> spc_heap c2' (spc_new ?c2) = Some (Receiver rs) \<and>
      rx_testid rs = test_id sample_state \<and> rx_srcaddr rs = cf_addr_pub ?cp \<and> x \<in> set (ee_timers (spc_loop c2')) \<and> e_fn x = Rcv_Timeout \<and>
      e_arg x = Sess (spc_new ?c2) \<and>
      e_time x = timeradd (ec_now ?e2 0) (tv (tv_sec (ev_duration ?ev) + 5) (tv_usec (ev_duration ?ev))) \<and> spc_out c2' = spc_out ?c2)"
    then show ?thesis unfolding n fd by auto
  qed
qed

end
