(* ===== verification/Sip.thy ===== *)
theory Sip
  imports Rtp_Session
begin

text \<open>
  The SIP messages of \<open>sip/\<close>: the phone of \<open>apps/sip_phone.c\<close> builds an INVITE from a client, a
  dialog and a transaction and looks at what comes back. The objects hang in a tree, a client with
  at most one dialog, that with at most one transaction, that with its messages, each with its
  headers; every object is a block of the allocator, which is modelled as the set of live blocks.
  The back pointers are set and never read.

  A \<open>char\<close> array is its octets, and what is read as a string ends at the first zero; reading on where
  there is none is \<open>Out_Of_Bounds\<close>. The two files that pack and parse a single header,
  \<open>sip_msghdr_pack.c\<close> and \<open>sip_msghdr_parse.c\<close>, are named in the makefile and are not in the
  repository: both functions are parameters.
\<close>

section \<open>Strings\<close>

abbreviation octets :: "string \<Rightarrow> bytes" where
  "octets s \<equiv> map of_char s"

definition cstr :: "bytes \<Rightarrow> bytes res" where
  "cstr a = (if 0 \<in> set a then Inr (takeWhile (\<lambda>b. b \<noteq> 0) a) else Inl Out_Of_Bounds)"

text \<open>\<open>strncpy\<close> reads at most \<open>n\<close> octets of the source, and fills up with zeros.\<close>

definition strncpy :: "nat \<Rightarrow> bytes \<Rightarrow> bytes res" where
  "strncpy n a =
    (if n \<le> length (takeWhile (\<lambda>b. b \<noteq> 0) a) then Inr (take n a)
     else bnd (cstr a) (\<lambda>s. Inr (s @ replicate (n - length s) 0)))"

text \<open>\<open>strsep\<close>: the token before the first delimiter, and what is behind it, if there was one.\<close>

definition strsep :: "u8 list \<Rightarrow> bytes \<Rightarrow> bytes \<times> bytes option" where
  "strsep ds s = (takeWhile (\<lambda>b. b \<notin> set ds) s,
     case dropWhile (\<lambda>b. b \<notin> set ds) s of [] \<Rightarrow> None | _ # r \<Rightarrow> Some r)"

lemma strsep_shorter: "strsep ds s = (tok, Some r) \<Longrightarrow> length r < length s"
  using length_dropWhile_le [of "\<lambda>b. b \<notin> set ds" s] by (auto simp: strsep_def split: list.splits)

text \<open>\<open>sprintf\<close> with \<open>%lx\<close>.\<close>

fun hex_digits :: "nat \<Rightarrow> nat list" where
  "hex_digits n = (if n < 16 then [n] else hex_digits (n div 16) @ [n mod 16])"

declare hex_digits.simps [simp del]

definition print_hex :: "nat \<Rightarrow> bytes" where
  "print_hex n = map (\<lambda>d. if d < 10 then 48 + of_nat d else 87 + of_nat d) (hex_digits n)"

definition sprintf :: "nat \<Rightarrow> bytes \<Rightarrow> bytes res" where
  "sprintf n s = (if n \<le> length s then Inl Out_Of_Bounds else Inr (s @ replicate (n - length s) 0))"

section \<open>Constants and types\<close>

definition SIP_VERSION :: bytes where "SIP_VERSION = octets ''SIP/2.0''"
definition SIP_PORT :: u16 where "SIP_PORT = 5060"
abbreviation "SIP_FLEN \<equiv> 64 :: nat"
abbreviation "URI_LEN \<equiv> 64 :: nat"
abbreviation "DISP_LEN \<equiv> 32 :: nat"
abbreviation "TAG_LEN \<equiv> 32 :: nat"
abbreviation "BRANCH_LEN \<equiv> 64 :: nat"
abbreviation "SIP_MSG_LEN \<equiv> 1400 :: nat"
definition BRANCH_MAGIC :: bytes where "BRANCH_MAGIC = octets ''z9hG4bK''"
definition SIP_CSEQ_START :: u32 where "SIP_CSEQ_START = 101"

datatype sip_msg_type = SM_UNKNOWN | SM_INVITE | SM_ACK | SM_OPTIONS | SM_BYE | SM_CANCEL | SM_REGISTER | SM_RESPONSE

datatype msghdr_type =
    MH_Accept | MH_Accept_Encoding | MH_Accept_Language | MH_Alert_Info | MH_Allow |
    MH_Authentication_Info | MH_Authorization | MH_Call_ID | MH_Call_Info | MH_Contact |
    MH_Content_Disposition | MH_Content_Encoding | MH_Content_Language | MH_Content_Length |
    MH_Content_Type | MH_CSeq | MH_Date | MH_Error_Info | MH_Expires | MH_From | MH_In_Reply_To |
    MH_Max_Forwards | MH_MIME_Version | MH_Min_Expires | MH_Organization | MH_Priority |
    MH_Proxy_Authenticate | MH_Proxy_Authorization | MH_Proxy_Require | MH_Record_Route |
    MH_Reply_To | MH_Require | MH_Retry_After | MH_Route | MH_Server | MH_Subject | MH_Supported |
    MH_Timestamp | MH_To | MH_Unsupported | MH_User_Agent | MH_Via | MH_Warning |
    MH_WWW_Authenticate

text \<open>The values of the enumeration are the positions in this list.\<close>

definition msghdr_types :: "msghdr_type list" where
  "msghdr_types =
   [MH_Accept, MH_Accept_Encoding, MH_Accept_Language, MH_Alert_Info, MH_Allow,
    MH_Authentication_Info, MH_Authorization, MH_Call_ID, MH_Call_Info, MH_Contact,
    MH_Content_Disposition, MH_Content_Encoding, MH_Content_Language, MH_Content_Length,
    MH_Content_Type, MH_CSeq, MH_Date, MH_Error_Info, MH_Expires, MH_From, MH_In_Reply_To,
    MH_Max_Forwards, MH_MIME_Version, MH_Min_Expires, MH_Organization, MH_Priority,
    MH_Proxy_Authenticate, MH_Proxy_Authorization, MH_Proxy_Require, MH_Record_Route, MH_Reply_To,
    MH_Require, MH_Retry_After, MH_Route, MH_Server, MH_Subject, MH_Supported, MH_Timestamp, MH_To,
    MH_Unsupported, MH_User_Agent, MH_Via, MH_Warning, MH_WWW_Authenticate]"

definition msghdrs :: "string list" where
  "msghdrs =
   [''Accept'', ''Accept-Encoding'', ''Accept-Language'', ''Alert-Info'', ''Allow'',
    ''Authentication-Info'', ''Authorization'', ''Call-ID'', ''Call-Info'', ''Contact'',
    ''Content-Disposition'', ''Content-Encoding'', ''Content-Language'', ''Content-Length'',
    ''Content-Type'', ''CSeq'', ''Date'', ''Error-Info'', ''Expires'', ''From'', ''In-Reply-To'',
    ''Max-Forwards'', ''MIME-Version'', ''Min-Expires'', ''Organization'', ''Priority'',
    ''Proxy-Authenticate'', ''Proxy-Authorization'', ''Proxy-Require'', ''Record-Route'',
    ''Reply-To'', ''Require'', ''Retry-After'', ''Route'', ''Server'', ''Subject'', ''Supported'',
    ''Timestamp'', ''To'', ''Unsupported'', ''User-Agent'', ''Via'', ''Warning'',
    ''WWW-Authenticate'']"


primrec sm_nr :: "sip_msg_type \<Rightarrow> nat" where
  "sm_nr SM_UNKNOWN = 0"
| "sm_nr SM_INVITE = 1"
| "sm_nr SM_ACK = 2"
| "sm_nr SM_OPTIONS = 3"
| "sm_nr SM_BYE = 4"
| "sm_nr SM_CANCEL = 5"
| "sm_nr SM_REGISTER = 6"
| "sm_nr SM_RESPONSE = 7"

text \<open>The member of the union that a header has, with the fields of its struct.\<close>

datatype sip_msghdr1 = No_Data | Hdr_Via sockaddr_in bytes | Hdr_To bytes | Hdr_From bytes bytes bytes
  | Hdr_Call_ID bytes u32 | Hdr_CSeq u32 bytes | Hdr_Contact bytes sockaddr_in | Hdr_Content_Length nat

record sip_msghdr =
  smh_at :: nat
  smh_type :: msghdr_type
  smh_msghdr :: sip_msghdr1

record sip_msg =
  sm_at :: nat
  sm_msg :: bytes
  sm_type :: sip_msg_type
  smi_uri :: bytes
  sm_body :: "(nat \<times> bytes) option"
  sm_msghdrs :: "sip_msghdr list"

record sip_transaction =
  st_at :: nat
  st_msg :: "sip_msg list"
  st_branch :: bytes

datatype sip_dialog_state = SD_INIT

record sip_dialog =
  sd_at :: nat
  sd_transaction :: "sip_transaction option"
  sd_state :: sip_dialog_state
  sd_peer_disp :: bytes
  sd_peer_uri :: bytes
  sd_tag :: bytes
  sd_peer_tag :: bytes
  sd_call_id :: bytes
  sd_cseq :: "u32 list"

record sip_client =
  sc_at :: nat
  sc_dialog :: "sip_dialog option"
  sc_s :: int
  sc_disp :: bytes
  sc_uri :: bytes
  sc_addr :: sockaddr_in
  sc_server_addr :: sockaddr_in

text \<open>The allocator: an address is never used twice, which makes a second \<open>free\<close> visible.\<close>

record blocks =
  live :: "nat set"
  next_block :: nat

definition malloc :: "bool \<Rightarrow> blocks \<Rightarrow> (nat \<times> blocks) option" where
  "malloc ok h = (if ok then Some (next_block h, h\<lparr>live := insert (next_block h) (live h), next_block := Suc (next_block h)\<rparr>) else None)"

definition free_block :: "nat \<Rightarrow> blocks \<Rightarrow> blocks res" where
  "free_block a h = (if a \<in> live h then Inr (h\<lparr>live := live h - {a}\<rparr>) else Inl Double_Free)"

section \<open>Creation\<close>

definition sip_client_create :: "bool \<Rightarrow> u32 \<Rightarrow> u16 \<Rightarrow> u32 \<Rightarrow> u16 \<Rightarrow> bytes \<Rightarrow> bytes \<Rightarrow> blocks \<Rightarrow> (sip_client \<times> blocks) option res" where
  "sip_client_create ok addr port server_addr server_port disp uri h =
    (case malloc ok h of
       None \<Rightarrow> Inr None
     | Some (a, h) \<Rightarrow>
         bnd (strncpy DISP_LEN disp) (\<lambda>disp. bnd (strncpy URI_LEN uri) (\<lambda>uri.
           Inr (Some (\<lparr>sc_at = a, sc_dialog = None, sc_s = 0, sc_disp = disp, sc_uri = uri,
             sc_addr = \<lparr>sin_family = AF_INET, sin_port = htons port, s_addr = addr\<rparr>,
             sc_server_addr = \<lparr>sin_family = AF_INET, sin_port = htons server_port, s_addr = server_addr\<rparr>\<rparr>, h)))))"

text \<open>\<open>r1\<close> and \<open>r2\<close> are the random numbers for the call and for the tag.\<close>

definition sip_dialog_create :: "bool \<Rightarrow> nat \<Rightarrow> nat \<Rightarrow> sip_client \<Rightarrow> bytes \<Rightarrow> blocks \<Rightarrow> (sip_client \<times> blocks) option res" where
  "sip_dialog_create ok r1 r2 sc uri h =
    (case malloc ok h of
       None \<Rightarrow> Inr None
     | Some (a, h) \<Rightarrow>
         bnd (sprintf TAG_LEN (print_hex r1)) (\<lambda>call_id. bnd (strncpy URI_LEN uri) (\<lambda>uri.
           bnd (sprintf TAG_LEN (print_hex r2)) (\<lambda>tag.
             if sc_dialog sc \<noteq> None then Inl Assert_Failed
             else Inr (Some (sc\<lparr>sc_dialog := Some \<lparr>sd_at = a, sd_transaction = None, sd_state = SD_INIT,
               sd_peer_disp = replicate DISP_LEN 0, sd_peer_uri = uri, sd_tag = tag, sd_peer_tag = replicate TAG_LEN 0,
               sd_call_id = call_id, sd_cseq = replicate (sm_nr SM_RESPONSE) SIP_CSEQ_START\<rparr>\<rparr>, h))))))"

definition sip_transaction_create :: "bool \<Rightarrow> nat \<Rightarrow> sip_dialog \<Rightarrow> blocks \<Rightarrow> (sip_dialog \<times> blocks) option res" where
  "sip_transaction_create ok r sd h =
    (case malloc ok h of
       None \<Rightarrow> Inr None
     | Some (a, h) \<Rightarrow>
         bnd (sprintf BRANCH_LEN (BRANCH_MAGIC @ print_hex r)) (\<lambda>branch.
           if sd_transaction sd \<noteq> None then Inl Assert_Failed
           else Inr (Some (sd\<lparr>sd_transaction := Some \<lparr>st_at = a, st_msg = [], st_branch = branch\<rparr>\<rparr>, h))))"

definition sip_msg_new :: "bool \<Rightarrow> blocks \<Rightarrow> (sip_msg \<times> blocks) option" where
  "sip_msg_new ok h =
    (case malloc ok h of
       None \<Rightarrow> None
     | Some (a, h) \<Rightarrow> Some (\<lparr>sm_at = a, sm_msg = replicate SIP_MSG_LEN 0, sm_type = SM_UNKNOWN,
         smi_uri = replicate URI_LEN 0, sm_body = None, sm_msghdrs = []\<rparr>, h))"

definition sip_msg_create :: "bool \<Rightarrow> sip_transaction \<Rightarrow> sip_msg_type \<Rightarrow> blocks \<Rightarrow> (sip_transaction \<times> blocks) option" where
  "sip_msg_create ok st type h =
    (case sip_msg_new ok h of
       None \<Rightarrow> None
     | Some (sm, h) \<Rightarrow> Some (st\<lparr>st_msg := sm\<lparr>sm_type := type\<rparr> # st_msg st\<rparr>, h))"

section \<open>Headers\<close>

text \<open>The loop runs to \<open>sizeof(msghdrs)\<close>, the number of octets of the table of 32-bit pointers.\<close>

function msghdr_search :: "string \<Rightarrow> nat \<Rightarrow> msghdr_type option res" where
  "msghdr_search str i =
    (if 4 * length msghdrs \<le> i then Inr None
     else if length msghdrs \<le> i then Inl Out_Of_Bounds
     else if str = msghdrs ! i then Inr (Some (msghdr_types ! i))
     else msghdr_search str (Suc i))"
  by auto
termination
  by (relation "measure (\<lambda>(str, i). 4 * length msghdrs - i)") auto

declare msghdr_search.simps [simp del]

definition msghdr2enum :: "string \<Rightarrow> msghdr_type option res" where
  "msghdr2enum str = msghdr_search str 0"

definition msghdr_add :: "bool \<Rightarrow> msghdr_type \<Rightarrow> sip_msg \<Rightarrow> blocks \<Rightarrow> (sip_msg \<times> blocks) option" where
  "msghdr_add ok type sm h =
    (case malloc ok h of
       None \<Rightarrow> None
     | Some (a, h) \<Rightarrow> Some (sm\<lparr>sm_msghdrs := sm_msghdrs sm @ [\<lparr>smh_at = a, smh_type = type, smh_msghdr = No_Data\<rparr>]\<rparr>, h))"

text \<open>Filling in the header that was added last.\<close>

definition fill_hdr :: "sip_msghdr1 \<Rightarrow> sip_msg \<Rightarrow> sip_msg" where
  "fill_hdr d sm = sm\<lparr>sm_msghdrs := butlast (sm_msghdrs sm) @ [(last (sm_msghdrs sm))\<lparr>smh_msghdr := d\<rparr>]\<rparr>"

section \<open>The INVITE\<close>

text \<open>Each block of statements adds a header and fills it in; \<open>k\<close> numbers the allocations.\<close>

fun add_hdrs :: "(nat \<Rightarrow> bool) \<Rightarrow> nat \<Rightarrow> (msghdr_type \<times> sip_msghdr1 res) list \<Rightarrow> sip_msg \<Rightarrow> blocks \<Rightarrow> (sip_msg \<times> blocks \<times> int) res" where
  "add_hdrs oks k [] sm h = Inr (sm, h, 0)"
| "add_hdrs oks k ((t, d) # ds) sm h =
    (case msghdr_add (oks k) t sm h of
       None \<Rightarrow> Inr (sm, h, - 1)
     | Some (sm, h) \<Rightarrow> bnd d (\<lambda>d. add_hdrs oks (Suc k) ds (fill_hdr d sm) h))"

definition request_hdrs :: "sip_transaction \<Rightarrow> sip_dialog \<Rightarrow> sip_client \<Rightarrow> (msghdr_type \<times> sip_msghdr1 res) list" where
  "request_hdrs st sd sc =
    [(MH_Via, bnd (strncpy BRANCH_LEN (st_branch st)) (\<lambda>b. Inr (Hdr_Via (sc_addr sc) b))),
     (MH_Max_Forwards, Inr No_Data),
     (MH_To, bnd (strncpy URI_LEN (sd_peer_uri sd)) (\<lambda>u. Inr (Hdr_To u))),
     (MH_From, bnd (strncpy DISP_LEN (sc_disp sc)) (\<lambda>d. bnd (strncpy URI_LEN (sc_uri sc)) (\<lambda>u.
        bnd (strncpy TAG_LEN (sd_tag sd)) (\<lambda>t. Inr (Hdr_From d u t))))),
     (MH_Call_ID, bnd (strncpy TAG_LEN (sd_call_id sd)) (\<lambda>c. Inr (Hdr_Call_ID c (s_addr (sc_addr sc))))),
     (MH_CSeq, bnd (strncpy SIP_FLEN (octets ''INVITE'' @ [0])) (\<lambda>t. Inr (Hdr_CSeq (sd_cseq sd ! sm_nr SM_INVITE) t)))]"

definition content_hdrs :: "sip_client \<Rightarrow> sip_msg \<Rightarrow> (msghdr_type \<times> sip_msghdr1 res) list" where
  "content_hdrs sc sm =
    [(MH_Contact, bnd (strncpy DISP_LEN (sc_disp sc)) (\<lambda>d. Inr (Hdr_Contact d (sc_addr sc)))),
     (MH_Content_Type, Inr No_Data),
     (MH_Content_Length, Inr (Hdr_Content_Length (case sm_body sm of Some (_, b) \<Rightarrow> length b | None \<Rightarrow> 0))),
     (MH_Accept, Inr No_Data)]"

definition sip_msg_invite_construct :: "(nat \<Rightarrow> bool) \<Rightarrow> sip_msg \<Rightarrow> sip_transaction \<Rightarrow> sip_dialog \<Rightarrow> sip_client \<Rightarrow> blocks
    \<Rightarrow> (sip_msg \<times> sip_dialog \<times> blocks \<times> int) res" where
  "sip_msg_invite_construct oks sm st sd sc h =
    bnd (strncpy URI_LEN (sd_peer_uri sd)) (\<lambda>uri.
    bnd (add_hdrs oks 0 (request_hdrs st sd sc) (sm\<lparr>smi_uri := uri\<rparr>) h) (\<lambda>(sm, h, r).
      if r < 0 then Inr (sm, sd, h, - 1)
      else
        (let sd = sd\<lparr>sd_cseq := (sd_cseq sd)[sm_nr SM_INVITE := sd_cseq sd ! sm_nr SM_INVITE + 1]\<rparr> in
         bnd (add_hdrs oks 6 (content_hdrs sc sm) sm h) (\<lambda>(sm, h, r). Inr (sm, sd, h, r)))))"

section \<open>Packing\<close>

text \<open>Writing text with \<open>snprintf\<close> at a position of the message, \<open>n\<close> octets at most; and the length
  of the string that starts there.\<close>

definition snprintf :: "nat \<Rightarrow> nat \<Rightarrow> bytes \<Rightarrow> bytes \<Rightarrow> bytes res" where
  "snprintf line n t buf =
    (let t = take (n - 1) t in
     if n = 0 then Inr buf
     else if length buf < line + length t + 1 then Inl Out_Of_Bounds
     else Inr (take line buf @ t @ [0] @ drop (line + length t + 1) buf))"

definition strlen_at :: "nat \<Rightarrow> bytes \<Rightarrow> nat res" where
  "strlen_at line buf = bnd (cstr (drop line buf)) (\<lambda>s. Inr (length s))"

text \<open>The state of the packing: the octets, the position and the length that is left.\<close>

type_synonym packing = "bytes \<times> nat \<times> u32"

definition sip_msg_invite_pack :: "bytes \<Rightarrow> packing \<Rightarrow> packing res" where
  "sip_msg_invite_pack uri = (\<lambda>(buf, line, len).
    bnd (cstr uri) (\<lambda>u.
    bnd (snprintf line (unat len) (octets ''INVITE '' @ u @ octets '' '' @ SIP_VERSION @ [10]) buf) (\<lambda>buf.
    bnd (strlen_at line buf) (\<lambda>n. Inr (buf, line + n, len - of_nat n)))))"

definition sip_msg_hdrline_pack :: "sip_msg \<Rightarrow> packing \<Rightarrow> packing res" where
  "sip_msg_hdrline_pack sm pk = (if sm_type sm = SM_INVITE then sip_msg_invite_pack (smi_uri sm) pk else Inr pk)"

text \<open>\<open>msghdr_pack\<close> is a parameter.\<close>

fun pack_hdrs :: "(sip_msghdr \<Rightarrow> packing \<Rightarrow> packing res) \<Rightarrow> sip_msghdr list \<Rightarrow> packing \<Rightarrow> packing res" where
  "pack_hdrs msghdr_pack [] pk = Inr pk"
| "pack_hdrs msghdr_pack (smh # r) pk = bnd (msghdr_pack smh pk) (pack_hdrs msghdr_pack r)"

text \<open>\<open>strncat\<close> takes at most \<open>len\<close> octets of the body and writes a zero behind them.\<close>

definition pack_body :: "bytes option \<Rightarrow> packing \<Rightarrow> packing res" where
  "pack_body body = (\<lambda>(buf, line, len).
    case body of
      None \<Rightarrow> Inr (buf, line, len)
    | Some b \<Rightarrow>
        bnd (strlen_at line buf) (\<lambda>n.
          let t = take (unat len) b in
          if length buf < line + n + length t + 1 then Inl Out_Of_Bounds
          else Inr (take (line + n) buf @ t @ [0] @ drop (line + n + length t + 1) buf, line + length b, len - of_nat (length b))))"

definition sip_msg_pack :: "(sip_msghdr \<Rightarrow> packing \<Rightarrow> packing res) \<Rightarrow> sip_msg \<Rightarrow> sip_msg res" where
  "sip_msg_pack msghdr_pack sm =
    bnd (sip_msg_hdrline_pack sm (sm_msg sm, 0, of_nat SIP_MSG_LEN)) (\<lambda>pk.
    bnd (pack_hdrs msghdr_pack (sm_msghdrs sm) pk) (\<lambda>pk.
    bnd (pack_body (map_option snd (sm_body sm)) pk) (\<lambda>(buf, line, len).
    bnd (strlen_at 0 buf) (\<lambda>n.
      if of_nat SIP_MSG_LEN - len \<noteq> of_nat n \<or> n \<noteq> line then Inl Assert_Failed else Inr (sm\<lparr>sm_msg := buf\<rparr>)))))"

section \<open>Parsing\<close>

definition sip_parse_response :: "sip_msg \<Rightarrow> bytes option \<Rightarrow> (sip_msg \<times> int) res" where
  "sip_parse_response sm line = Inr (sm, 0)"

definition sip_msg_invite_parse :: "sip_msg \<Rightarrow> bytes option \<Rightarrow> (sip_msg \<times> int) res" where
  "sip_msg_invite_parse sm line =
    (let sm = sm\<lparr>sm_type := SM_INVITE\<rparr> in
     bnd (deref line) (\<lambda>line.
       case strsep [32, 9] line of (uri, line) \<Rightarrow>
         bnd (deref line) (\<lambda>line.
           if fst (strsep [32, 9] line) \<noteq> SIP_VERSION then Inr (sm, - 1)
           else bnd (strncpy URI_LEN (uri @ [0])) (\<lambda>u. Inr (sm\<lparr>smi_uri := u\<rparr>, 0)))))"

definition sip_hdrline_parse :: "sip_msg \<Rightarrow> bytes \<Rightarrow> (sip_msg \<times> int) res" where
  "sip_hdrline_parse sm line =
    (case strsep [32] line of (tag, line) \<Rightarrow>
       if tag = SIP_VERSION then sip_parse_response sm line
       else if tag = octets ''INVITE'' then sip_msg_invite_parse sm line
       else Inr (sm, - 1))"

text \<open>\<open>msghdr_parse\<close> is a parameter; it may allocate.\<close>

type_synonym hdr_parser = "bytes \<Rightarrow> sip_msg \<Rightarrow> blocks \<Rightarrow> (sip_msg \<times> blocks \<times> int) res"

function parse_hdrs :: "hdr_parser \<Rightarrow> bytes option \<Rightarrow> sip_msg \<Rightarrow> blocks \<Rightarrow> (sip_msg \<times> blocks \<times> int) res" where
  "parse_hdrs msghdr_parse str sm h =
    (case str of
       None \<Rightarrow> Inr (sm, h, 0)
     | Some s \<Rightarrow>
         (case strsep [10] s of (line, str) \<Rightarrow>
           if line = [] then Inr (sm, h, 0)
           else bnd (msghdr_parse line sm h) (\<lambda>(sm, h, r).
             if r < 0 then Inr (sm, h, - 1) else parse_hdrs msghdr_parse str sm h)))"
  by auto
termination
  by (relation "measure (\<lambda>(_, str, _). case str of None \<Rightarrow> 0 | Some s \<Rightarrow> Suc (length s))")
    (auto dest: strsep_shorter [OF sym] split: option.splits)

declare parse_hdrs.simps [simp del]

text \<open>\<open>dup\<close> is whether \<open>strdup\<close> succeeds, which is not tested.\<close>

definition sip_msg_parse :: "hdr_parser \<Rightarrow> bool \<Rightarrow> sip_msg \<Rightarrow> blocks \<Rightarrow> (sip_msg \<times> blocks \<times> int) res" where
  "sip_msg_parse msghdr_parse dup sm h =
    bnd (cstr (sm_msg sm)) (\<lambda>s.
      if \<not> dup then Inl Null_Pointer
      else (case strsep [10] s of (line, str) \<Rightarrow>
        bnd (sip_hdrline_parse sm line) (\<lambda>(sm, r).
          if r < 0 then Inr (sm, h, - 1) else parse_hdrs msghdr_parse str sm h)))"

section \<open>Freeing\<close>

fun free_all :: "nat list \<Rightarrow> blocks \<Rightarrow> blocks res" where
  "free_all [] h = Inr h"
| "free_all (a # as) h = bnd (free_block a h) (free_all as)"

definition sip_msg_free :: "sip_msg \<Rightarrow> blocks \<Rightarrow> blocks res" where
  "sip_msg_free sm h =
    bnd (case sm_body sm of Some (a, _) \<Rightarrow> free_block a h | None \<Rightarrow> Inr h) (\<lambda>h.
    bnd (free_all (map smh_at (sm_msghdrs sm)) h) (free_block (sm_at sm)))"

fun free_msgs :: "sip_msg list \<Rightarrow> blocks \<Rightarrow> blocks res" where
  "free_msgs [] h = Inr h"
| "free_msgs (sm # r) h = bnd (sip_msg_free sm h) (free_msgs r)"

definition sip_transaction_free :: "sip_transaction \<Rightarrow> blocks \<Rightarrow> blocks res" where
  "sip_transaction_free st h = bnd (free_msgs (st_msg st) h) (free_block (st_at st))"

definition sip_dialog_free :: "sip_dialog \<Rightarrow> blocks \<Rightarrow> blocks res" where
  "sip_dialog_free sd h =
    bnd (case sd_transaction sd of Some st \<Rightarrow> sip_transaction_free st h | None \<Rightarrow> Inr h) (free_block (sd_at sd))"

text \<open>The result says whether the socket is closed.\<close>

definition sip_client_free :: "sip_client \<Rightarrow> blocks \<Rightarrow> (blocks \<times> bool) res" where
  "sip_client_free sc h =
    bnd (case sc_dialog sc of Some sd \<Rightarrow> sip_dialog_free sd h | None \<Rightarrow> Inr h) (\<lambda>h.
    bnd (free_block (sc_at sc) h) (\<lambda>h. Inr (h, sc_s sc \<noteq> 0)))"

section \<open>The phone\<close>

text \<open>The handler of \<open>apps/sip_phone.c\<close>, with the errors it reports: \<open>None\<close> is the exit when there is no memory.\<close>

definition sip_rcv :: "hdr_parser \<Rightarrow> bool \<Rightarrow> bool \<Rightarrow> recv_result \<Rightarrow> sip_client \<Rightarrow> blocks \<Rightarrow> (blocks \<times> effect list \<times> int option) res" where
  "sip_rcv msghdr_parse ok dup rr sc h =
    (case sip_msg_new ok h of
       None \<Rightarrow> Inr (h, [], None)
     | Some (sm, h) \<Rightarrow>
         bnd (inet_input rr (sm_msg sm)) (\<lambda>((buf, _, from_addr), es, r).
           if r < 0 then Inr (h, es, Some 0)
           else if sc_server_addr sc \<noteq> from_addr then Inr (h, es, Some (- 1))
           else bnd (sip_msg_parse msghdr_parse dup (sm\<lparr>sm_msg := buf\<rparr>) h) (\<lambda>(_, h, r).
             Inr (h, es, Some (if r < 0 then - 1 else 0)))))"

definition sdp_data :: bytes where
  "sdp_data = octets ''v=0'' @ [10] @ octets ''o=Cisco-SIPUA 15829 11606 IN IP4 192.36.125.167'' @ [10]
     @ octets ''s=SIP Call'' @ [10] @ octets ''c=IN IP4 192.36.125.167'' @ [10] @ octets ''t=0 0'' @ [10]
     @ octets ''m=audio 28798 RTP/AVP 8 0 18 101'' @ [10] @ octets ''a=rtpmap:8 PCMA/8000'' @ [10]
     @ octets ''a=rtpmap:0 PCMU/8000'' @ [10] @ octets ''a=fmtp:101 0-15'' @ [10]"

text \<open>What \<open>main\<close> builds: the client with its open socket, a dialog, a transaction and an INVITE with
  a body, and the octets it sends, up to and with the zero. \<open>oks k\<close> is the \<open>k\<close>-th allocation, \<open>rnd\<close> the
  random numbers. \<open>None\<close> is an exit on the way.\<close>

definition sip_request :: "(sip_msghdr \<Rightarrow> packing \<Rightarrow> packing res) \<Rightarrow> (nat \<Rightarrow> bool) \<Rightarrow> nat \<times> nat \<times> nat \<Rightarrow> sip_client \<Rightarrow> blocks
    \<Rightarrow> (sip_client \<times> bytes \<times> blocks) option res" where
  "sip_request msghdr_pack oks rnd sc h =
    (case rnd of (r1, r2, r3) \<Rightarrow>
     bnd (sip_dialog_create (oks 1) r1 r2 sc (octets ''sip:000730631661@kth.se'' @ [0]) h) (\<lambda>x. case x of None \<Rightarrow> Inr None | Some (sc, h) \<Rightarrow>
     bnd (deref (sc_dialog sc)) (\<lambda>sd.
     bnd (sip_transaction_create (oks 2) r3 sd h) (\<lambda>x. case x of None \<Rightarrow> Inr None | Some (sd, h) \<Rightarrow>
     bnd (deref (sd_transaction sd)) (\<lambda>st.
     case sip_msg_create (oks 3) st SM_INVITE h of None \<Rightarrow> Inr None | Some (st, h) \<Rightarrow>
     case (case malloc (oks 4) h of None \<Rightarrow> (None, h) | Some (b, h) \<Rightarrow> (Some (b, sdp_data), h)) of (body, h) \<Rightarrow>
     bnd (sip_msg_invite_construct (\<lambda>k. oks (5 + k)) ((hd (st_msg st))\<lparr>sm_body := body\<rparr>) st sd sc h)
       (\<lambda>(sm, sd, h, r). if r < 0 then Inr None else
     bnd (sip_msg_pack msghdr_pack sm) (\<lambda>sm.
     bnd (strlen_at 0 (sm_msg sm)) (\<lambda>n.
       Inr (Some (sc\<lparr>sc_dialog := Some (sd\<lparr>sd_transaction := Some (st\<lparr>st_msg := sm # tl (st_msg st)\<rparr>)\<rparr>)\<rparr>,
         take (n + 1) (sm_msg sm), h))))))))))"

text \<open>What the system answers to \<open>main\<close>: the allocations of the objects, by number, the random numbers, the address of
  the host and of the server, the socket, whether it is bound, whether there is memory for the registration with the
  event loop, whether the request is sent, and what the event loop meets after that. This is a failure of \<open>select\<close>, or
  a datagram, with the two allocations that it needs. The registration is a block of its own.\<close>

record sip_env =
  si_oks :: "nat \<Rightarrow> bool"
  si_rnd :: "nat \<times> nat \<times> nat"
  si_my_addr :: u32
  si_server_addr :: u32
  si_sock :: int
  si_bound :: bool
  si_reg :: bool
  si_sent :: bool
  si_events :: "(bool \<times> bool \<times> recv_result) option list"

text \<open>The event loop of the phone, which has one registration and no timer: it ends when the handler returns a
  negative value, or when an error has been reported, which sets \<open>sphone_exit\<close>. It counts the datagrams. \<open>None\<close> is
  an exit of the process in the handler; when the events are used up the loop waits.\<close>

fun sip_eventloop :: "hdr_parser \<Rightarrow> (bool \<times> bool \<times> recv_result) option list \<Rightarrow> sip_client \<Rightarrow> blocks \<Rightarrow> (blocks \<times> nat) option res" where
  "sip_eventloop msghdr_parse [] sc h = Inl Blocks_Forever"
| "sip_eventloop msghdr_parse (None # xs) sc h = Inr (Some (h, 0))"
| "sip_eventloop msghdr_parse (Some (ok, dup, rr) # xs) sc h =
    bnd (sip_rcv msghdr_parse ok dup rr sc h) (\<lambda>(h, es, r). case r of
       None \<Rightarrow> Inr None
     | Some v \<Rightarrow> if v < 0 \<or> Sphone_Error \<in> set es then Inr (Some (h, 1))
         else bnd (sip_eventloop msghdr_parse xs sc h) (\<lambda>x. Inr (map_option (\<lambda>(h, n). (h, Suc n)) x)))"

text \<open>\<open>main\<close> behind the command line, up to the request that is sent, and with the event loop. The results tell also the
  block of the registration, the number of datagrams and whether the socket was closed; \<open>None\<close> is an exit or a
  return before the client is freed.\<close>

definition sip_start :: "(sip_msghdr \<Rightarrow> packing \<Rightarrow> packing res) \<Rightarrow> sip_env \<Rightarrow> blocks \<Rightarrow> (sip_client \<times> nat \<times> bytes \<times> blocks) option res" where
  "sip_start msghdr_pack env h =
    bnd (sip_client_create (si_oks env 0) (si_my_addr env) SIP_PORT (si_server_addr env) SIP_PORT (octets ''6534'' @ [0])
          (octets ''sip:6534@kth.se'' @ [0]) h)
      (\<lambda>x. case x of None \<Rightarrow> Inr None | Some (sc, h) \<Rightarrow>
        if si_sock env < 0 \<or> \<not> si_bound env then Inr None
        else (case malloc (si_reg env) h of None \<Rightarrow> Inr None | Some (e, h) \<Rightarrow>
          bnd (sip_request msghdr_pack (si_oks env) (si_rnd env) (sc\<lparr>sc_s := si_sock env\<rparr>) h)
            (\<lambda>y. Inr (map_option (\<lambda>(sc, m, h). (sc, e, m, h)) y))))"

definition sip_main :: "(sip_msghdr \<Rightarrow> packing \<Rightarrow> packing res) \<Rightarrow> hdr_parser \<Rightarrow> sip_env \<Rightarrow> blocks
    \<Rightarrow> (sip_client \<times> nat \<times> bytes \<times> nat \<times> blocks \<times> bool) option res" where
  "sip_main msghdr_pack msghdr_parse env h =
    bnd (sip_start msghdr_pack env h) (\<lambda>x. case x of None \<Rightarrow> Inr None | Some (sc, e, m, h) \<Rightarrow>
      if \<not> si_sent env then Inr None
      else bnd (sip_eventloop msghdr_parse (si_events env) sc h) (\<lambda>y. case y of None \<Rightarrow> Inr None | Some (h, n) \<Rightarrow>
        bnd (sip_client_free sc h) (\<lambda>(h, closed). Inr (Some (sc, e, m, n, h, closed)))))"

lemma msghdr_table [simp]: "length msghdrs = 44" "length msghdr_types = 44"
  by (simp_all add: msghdrs_def msghdr_types_def)

lemma distinct_msghdrs: "distinct msghdrs"
  by (simp add: msghdrs_def)

lemma msghdr_search_found:
  assumes "str = msghdrs ! j" "i \<le> j" "j < 44"
  shows "msghdr_search str i = Inr (Some (msghdr_types ! j))"
  using assms(2)
proof (induction "j - i" arbitrary: i)
  case 0
  then show ?case using assms by (subst msghdr_search.simps) simp
next
  case (Suc n)
  then have "msghdrs ! j \<noteq> msghdrs ! i" using assms(3) distinct_msghdrs by (simp add: nth_eq_iff_index_eq)
  then show ?case using Suc assms by (subst msghdr_search.simps) auto
qed

lemma msghdr_search_missing:
  assumes "str \<notin> set msghdrs" "i \<le> 44"
  shows "msghdr_search str i = Inl Out_Of_Bounds"
  using assms(2)
proof (induction "44 - i" arbitrary: i)
  case 0
  then show ?case by (subst msghdr_search.simps) simp
next
  case (Suc n)
  then have "str \<noteq> msghdrs ! i" using assms(1) by auto
  then show ?case using Suc by (simp add: msghdr_search.simps [of str i])
qed

section \<open>Arrays\<close>

text \<open>An array that holds a string: the string, a zero, and anything.\<close>

lemma cstr_array [simp]: "0 \<notin> set s \<Longrightarrow> cstr (s @ 0 # r) = Inr s"
  by (simp add: cstr_def, subst takeWhile_append2) auto

lemma strncpy_array:
  assumes "0 \<notin> set s"
  shows "strncpy n (s @ 0 # r) = Inr (take n (s @ replicate (n - length s) 0))"
proof -
  have "takeWhile (\<lambda>b. b \<noteq> 0) (s @ 0 # r) = s" using assms by (subst takeWhile_append2) auto
  then show ?thesis using assms by (simp add: strncpy_def)
qed

text \<open>What \<open>strncpy\<close> leaves is again an array of the same size, and copying it again changes nothing.\<close>

lemma strncpy_full:
  assumes "length a = n"
  shows "\<exists>b. strncpy n a = Inr b \<and> length b = n"
proof (cases "0 \<in> set a")
  case True
  have "length (takeWhile (\<lambda>b. b \<noteq> 0) a) \<le> n" using assms length_takeWhile_le by metis
  then show ?thesis using assms True by (auto simp: strncpy_def cstr_def)
next
  case False
  then have "length (takeWhile (\<lambda>b. b \<noteq> 0) a) = n" using assms by (metis (mono_tags, lifting) takeWhile_eq_all_conv)
  then show ?thesis using assms by (simp add: strncpy_def)
qed

section \<open>The INVITE\<close>

lemma fill_hdr_add [simp]:
  "msghdr_add ok t sm h = Some (sm', h') \<Longrightarrow> fill_hdr d sm' =
    sm\<lparr>sm_msghdrs := sm_msghdrs sm @ [\<lparr>smh_at = next_block h, smh_type = t, smh_msghdr = d\<rparr>]\<rparr>"
  by (auto simp: msghdr_add_def malloc_def fill_hdr_def split: if_splits)

text \<open>The headers that a list of additions leaves, with their blocks.\<close>

fun hdr_row :: "nat \<Rightarrow> (msghdr_type \<times> sip_msghdr1) list \<Rightarrow> sip_msghdr list" where
  "hdr_row n [] = []"
| "hdr_row n ((t, d) # ds) = \<lparr>smh_at = n, smh_type = t, smh_msghdr = d\<rparr> # hdr_row (Suc n) ds"

lemma hdr_row_fields [simp]: "map smh_at (hdr_row n ds) = [n..<n + length ds]" "map smh_type (hdr_row n ds) = map fst ds"
  "map smh_msghdr (hdr_row n ds) = map snd ds" "length (hdr_row n ds) = length ds"
  by (induction n ds rule: hdr_row.induct) (simp_all add: upt_conv_Cons del: upt_Suc)

lemma hdr_row_append: "hdr_row n (xs @ ys) = hdr_row n xs @ hdr_row (n + length xs) ys"
  by (induction n xs rule: hdr_row.induct) auto

definition more_blocks :: "nat \<Rightarrow> blocks \<Rightarrow> blocks" where
  "more_blocks n h = h\<lparr>live := live h \<union> {next_block h..<next_block h + n}, next_block := next_block h + n\<rparr>"

lemma more_blocks_simps [simp]: "more_blocks 0 h = h" "more_blocks m (more_blocks n h) = more_blocks (n + m) h"
  "next_block (more_blocks n h) = next_block h + n" "live (more_blocks n h) = live h \<union> {next_block h..<next_block h + n}"
proof -
  have "{a..<a + n} \<union> {a + n..<a + n + m} = {a..<a + (n + m)}" for a :: nat by auto
  then show "more_blocks m (more_blocks n h) = more_blocks (n + m) h" by (simp add: more_blocks_def Un_assoc add.assoc)
qed (simp_all add: more_blocks_def)

lemma malloc_True: "malloc True h = Some (next_block h, more_blocks 1 h)"
  by (auto simp: malloc_def more_blocks_def)

text \<open>As many headers are added as there are successful allocations in front.\<close>

lemma add_hdrs_prefix:
  assumes "n \<le> length ds" "\<forall>i < n. oks (k + i)" "n < length ds \<longrightarrow> \<not> oks (k + n)"
  shows "add_hdrs oks k (map (\<lambda>(t, d). (t, Inr d)) ds) sm h =
    Inr (sm\<lparr>sm_msghdrs := sm_msghdrs sm @ hdr_row (next_block h) (take n ds)\<rparr>, more_blocks n h, if n < length ds then - 1 else 0)"
  using assms
proof (induction n arbitrary: k ds sm h)
  case 0
  then show ?case by (cases ds) (auto simp: msghdr_add_def malloc_def Suc_le_eq)
next
  case (Suc n)
  obtain t d r where ds: "ds = (t, d) # r" using Suc.prems(1) by (cases ds) auto
  have k: "oks k" using Suc.prems(2) by force
  have IH: "add_hdrs oks (Suc k) (map (\<lambda>(t, d). (t, Inr d)) r) sm' h' =
    Inr (sm'\<lparr>sm_msghdrs := sm_msghdrs sm' @ hdr_row (next_block h') (take n r)\<rparr>, more_blocks n h', if n < length r then - 1 else 0)" for sm' h'
    using Suc.prems ds by (intro Suc.IH) (auto simp: less_Suc_eq_0_disj)
  have "msghdr_add True t sm h = Some (sm\<lparr>sm_msghdrs := sm_msghdrs sm @ [\<lparr>smh_at = next_block h, smh_type = t, smh_msghdr = No_Data\<rparr>]\<rparr>, more_blocks 1 h)"
    by (simp add: msghdr_add_def malloc_True)
  then show ?case using ds k IH by (auto simp: fill_hdr_def)
qed


text \<open>The sizes of the arrays that the builders copy.\<close>

definition arrays_sized :: "sip_transaction \<Rightarrow> sip_dialog \<Rightarrow> sip_client \<Rightarrow> bool" where
  "arrays_sized st sd sc \<longleftrightarrow> length (st_branch st) = BRANCH_LEN \<and> length (sd_peer_uri sd) = URI_LEN \<and> length (sd_tag sd) = TAG_LEN \<and>
     length (sd_call_id sd) = TAG_LEN \<and> length (sc_disp sc) = DISP_LEN \<and> length (sc_uri sc) = URI_LEN \<and>
     length (sd_cseq sd) = sm_nr SM_RESPONSE"

definition request_types :: "msghdr_type list" where
  "request_types = [MH_Via, MH_Max_Forwards, MH_To, MH_From, MH_Call_ID, MH_CSeq]"

definition content_types :: "msghdr_type list" where
  "content_types = [MH_Contact, MH_Content_Type, MH_Content_Length, MH_Accept]"

lemma request_hdrs_ok:
  assumes "arrays_sized st sd sc"
  obtains ds where "request_hdrs st sd sc = map (\<lambda>(t, d). (t, Inr d)) ds" "map fst ds = request_types"
    "\<exists>u. strncpy URI_LEN (sd_peer_uri sd) = Inr u \<and> length u = URI_LEN \<and> ds ! 2 = (MH_To, Hdr_To u)"
    "\<exists>c. strncpy TAG_LEN (sd_call_id sd) = Inr c \<and> ds ! 4 = (MH_Call_ID, Hdr_Call_ID c (s_addr (sc_addr sc)))"
    "\<exists>t. ds ! 5 = (MH_CSeq, Hdr_CSeq (sd_cseq sd ! 1) t)"
proof -
  have len: "length (st_branch st) = BRANCH_LEN" "length (sd_peer_uri sd) = URI_LEN" "length (sd_tag sd) = TAG_LEN"
     "length (sd_call_id sd) = TAG_LEN" "length (sc_disp sc) = DISP_LEN" "length (sc_uri sc) = URI_LEN"
    using assms by (simp_all add: arrays_sized_def)
  obtain b u d v t c where
    "strncpy BRANCH_LEN (st_branch st) = Inr b" "strncpy URI_LEN (sd_peer_uri sd) = Inr u" "length u = URI_LEN"
    "strncpy DISP_LEN (sc_disp sc) = Inr d"
    "strncpy URI_LEN (sc_uri sc) = Inr v" "strncpy TAG_LEN (sd_tag sd) = Inr t" "strncpy TAG_LEN (sd_call_id sd) = Inr c"
    using strncpy_full len by metis
  moreover obtain i where "strncpy SIP_FLEN (octets ''INVITE'' @ [0]) = Inr i"
    using strncpy_array [of "octets ''INVITE''" SIP_FLEN "[]"] by simp
  ultimately show thesis
    by (intro that [of "[(MH_Via, Hdr_Via (sc_addr sc) b), (MH_Max_Forwards, No_Data), (MH_To, Hdr_To u), (MH_From, Hdr_From d v t),
      (MH_Call_ID, Hdr_Call_ID c (s_addr (sc_addr sc))), (MH_CSeq, Hdr_CSeq (sd_cseq sd ! 1) i)]"])
      (simp_all add: request_hdrs_def request_types_def)
qed

lemma content_hdrs_ok:
  assumes "arrays_sized st sd sc"
  obtains ds where "content_hdrs sc sm = map (\<lambda>(t, d). (t, Inr d)) ds" "map fst ds = content_types"
proof -
  obtain d where "strncpy DISP_LEN (sc_disp sc) = Inr d" using strncpy_full assms by (metis arrays_sized_def)
  then show thesis
    by (intro that [of "[(MH_Contact, Hdr_Contact d (sc_addr sc)), (MH_Content_Type, No_Data),
      (MH_Content_Length, Hdr_Content_Length (case sm_body sm of Some (_, b) \<Rightarrow> length b | None \<Rightarrow> 0)), (MH_Accept, No_Data)]"])
      (simp_all add: content_hdrs_def content_types_def)
qed

lemma invite_construct_result:
  assumes "arrays_sized st sd sc" "n \<le> 10" "\<forall>i < n. oks i" "n < 10 \<longrightarrow> \<not> oks n"
  shows "\<exists>u ds. strncpy URI_LEN (sd_peer_uri sd) = Inr u \<and> length u = URI_LEN \<and> map fst ds = request_types @ content_types \<and>
    ds ! 2 = (MH_To, Hdr_To u) \<and> (\<exists>c. strncpy TAG_LEN (sd_call_id sd) = Inr c \<and> ds ! 4 = (MH_Call_ID, Hdr_Call_ID c (s_addr (sc_addr sc)))) \<and>
    (\<exists>t. ds ! 5 = (MH_CSeq, Hdr_CSeq (sd_cseq sd ! 1) t)) \<and>
    sip_msg_invite_construct oks sm st sd sc h =
      Inr (sm\<lparr>smi_uri := u, sm_msghdrs := sm_msghdrs sm @ hdr_row (next_block h) (take n ds)\<rparr>,
        if 6 \<le> n then sd\<lparr>sd_cseq := (sd_cseq sd)[1 := sd_cseq sd ! 1 + 1]\<rparr> else sd, more_blocks n h, if n < 10 then - 1 else 0)"
proof -
  obtain ds1 where ds1: "request_hdrs st sd sc = map (\<lambda>(t, d). (t, Inr d)) ds1" "map fst ds1 = request_types"
    "\<exists>u. strncpy URI_LEN (sd_peer_uri sd) = Inr u \<and> length u = URI_LEN \<and> ds1 ! 2 = (MH_To, Hdr_To u)"
    "\<exists>c. strncpy TAG_LEN (sd_call_id sd) = Inr c \<and> ds1 ! 4 = (MH_Call_ID, Hdr_Call_ID c (s_addr (sc_addr sc)))"
    "\<exists>t. ds1 ! 5 = (MH_CSeq, Hdr_CSeq (sd_cseq sd ! 1) t)"
    using request_hdrs_ok [OF assms(1)] by blast
  obtain u where u: "strncpy URI_LEN (sd_peer_uri sd) = Inr u" "length u = URI_LEN" "ds1 ! 2 = (MH_To, Hdr_To u)" using ds1(3) by blast
  have l1: "length ds1 = 6" using arg_cong [OF ds1(2), of length] by (simp add: request_types_def)
  define sm1 where "sm1 = sm\<lparr>smi_uri := u, sm_msghdrs := sm_msghdrs sm @ hdr_row (next_block h) ds1\<rparr>"
  obtain ds2 where ds2: "content_hdrs sc sm1 = map (\<lambda>(t, d). (t, Inr d)) ds2" "map fst ds2 = content_types"
    using content_hdrs_ok [OF assms(1)] by blast
  have l2: "length ds2 = 4" using arg_cong [OF ds2(2), of length] by (simp add: content_types_def)
  have "sip_msg_invite_construct oks sm st sd sc h =
      Inr (sm\<lparr>smi_uri := u, sm_msghdrs := sm_msghdrs sm @ hdr_row (next_block h) (take n (ds1 @ ds2))\<rparr>,
        if 6 \<le> n then sd\<lparr>sd_cseq := (sd_cseq sd)[1 := sd_cseq sd ! 1 + 1]\<rparr> else sd, more_blocks n h, if n < 10 then - 1 else 0)"
  proof (cases "6 \<le> n")
    case True
    have "add_hdrs oks 0 (request_hdrs st sd sc) (sm\<lparr>smi_uri := u\<rparr>) h = Inr (sm1, more_blocks 6 h, 0)"
      unfolding ds1(1) using add_hdrs_prefix [of 6 ds1 oks 0] l1 assms(3) True by (simp add: sm1_def)
    moreover have "add_hdrs oks 6 (content_hdrs sc sm1) sm1 (more_blocks 6 h) =
      Inr (sm1\<lparr>sm_msghdrs := sm_msghdrs sm1 @ hdr_row (next_block h + 6) (take (n - 6) ds2)\<rparr>, more_blocks (n - 6) (more_blocks 6 h), if n - 6 < 4 then - 1 else 0)"
      unfolding ds2(1) using add_hdrs_prefix [of "n - 6" ds2 oks 6] l2 assms(2-4) True by simp
    ultimately show ?thesis using True u(1) l1
      by (auto simp: sip_msg_invite_construct_def Let_def sm1_def hdr_row_append)
  next
    case False
    have "add_hdrs oks 0 (request_hdrs st sd sc) (sm\<lparr>smi_uri := u\<rparr>) h =
      Inr (sm\<lparr>smi_uri := u, sm_msghdrs := sm_msghdrs sm @ hdr_row (next_block h) (take n ds1)\<rparr>, more_blocks n h, - 1)"
      unfolding ds1(1) using add_hdrs_prefix [of n ds1 oks 0] l1 assms(3,4) False by simp
    then show ?thesis using False u(1) l1 by (simp add: sip_msg_invite_construct_def)
  qed
  moreover have "map fst (ds1 @ ds2) = request_types @ content_types" using ds1(2) ds2(2) by simp
  ultimately show ?thesis using u ds1(4,5) l1
    by (intro exI [of _ u] exI [of _ "ds1 @ ds2"]) (simp add: nth_append)
qed

section \<open>Blocks\<close>

definition msg_blocks :: "sip_msg \<Rightarrow> nat list" where
  "msg_blocks sm = (case sm_body sm of Some (a, _) \<Rightarrow> [a] | None \<Rightarrow> []) @ map smh_at (sm_msghdrs sm) @ [sm_at sm]"

definition transaction_blocks :: "sip_transaction \<Rightarrow> nat list" where
  "transaction_blocks st = concat (map msg_blocks (st_msg st)) @ [st_at st]"

definition dialog_blocks :: "sip_dialog \<Rightarrow> nat list" where
  "dialog_blocks sd = (case sd_transaction sd of Some st \<Rightarrow> transaction_blocks st | None \<Rightarrow> []) @ [sd_at sd]"

definition client_blocks :: "sip_client \<Rightarrow> nat list" where
  "client_blocks sc = (case sc_dialog sc of Some sd \<Rightarrow> dialog_blocks sd | None \<Rightarrow> []) @ [sc_at sc]"

lemma free_all_append: "free_all (as @ bs) h = bnd (free_all as h) (free_all bs)"
  by (induction as arbitrary: h) (simp_all add: bnd_def split: sum.splits)

lemma free_all_one: "free_all [a] h = free_block a h"
  by (simp add: bnd_def split: sum.splits)

text \<open>The walks over the tree free its blocks in this order.\<close>

lemma sip_msg_free_blocks: "sip_msg_free sm h = free_all (msg_blocks sm) h"
  by (simp add: sip_msg_free_def msg_blocks_def free_all_append bnd_def split: option.splits sum.splits)

lemma free_msgs_blocks: "free_msgs sms h = free_all (concat (map msg_blocks sms)) h"
  by (induction sms arbitrary: h) (simp_all add: free_all_append sip_msg_free_blocks bnd_def split: sum.splits)

lemma sip_transaction_free_blocks: "sip_transaction_free st h = free_all (transaction_blocks st) h"
  by (simp add: sip_transaction_free_def transaction_blocks_def free_all_append free_msgs_blocks bnd_def split: sum.splits)

lemma sip_dialog_free_blocks: "sip_dialog_free sd h = free_all (dialog_blocks sd) h"
  by (simp add: sip_dialog_free_def dialog_blocks_def free_all_append sip_transaction_free_blocks bnd_def split: option.splits sum.splits)

lemma sip_client_free_blocks: "sip_client_free sc h = bnd (free_all (client_blocks sc) h) (\<lambda>h. Inr (h, sc_s sc \<noteq> 0))"
  by (simp add: sip_client_free_def client_blocks_def free_all_append sip_dialog_free_blocks bnd_def split: option.splits sum.splits)

lemma free_all_ok: "distinct as \<Longrightarrow> set as \<subseteq> live h \<Longrightarrow> free_all as h = Inr (h\<lparr>live := live h - set as\<rparr>)"
proof (induction as arbitrary: h)
  case (Cons a as)
  then have "free_all as (h\<lparr>live := live h - {a}\<rparr>) = Inr (h\<lparr>live := live h - {a} - set as\<rparr>)" by (subst Cons.IH) auto
  moreover have "live h - {a} - set as = live h - set (a # as)" by auto
  ultimately show ?case using Cons.prems by (simp add: free_block_def)
qed simp

lemma strncpy_length: "strncpy n a = Inr b \<Longrightarrow> length b = n"
  using length_takeWhile_le [of "\<lambda>b. b \<noteq> 0" a] by (auto simp: strncpy_def cstr_def split: if_splits)

lemma sprintf_length: "sprintf n s = Inr b \<Longrightarrow> length b = n"
  by (auto simp: sprintf_def split: if_splits)

lemma malloc_more: "malloc ok h = Some (a, h') \<Longrightarrow> ok \<and> a = next_block h \<and> h' = more_blocks 1 h"
  using malloc_True [of h] by (cases ok) (auto simp: malloc_def)

lemma client_created:
  assumes "sip_client_create ok a p sa sp d u h = Inr (Some (sc, h'))"
  shows "h' = more_blocks 1 h" "client_blocks sc = [next_block h]" "sc_dialog sc = None" "length (sc_disp sc) = DISP_LEN"
    "length (sc_uri sc) = URI_LEN"
  using assms
  by (auto simp: sip_client_create_def client_blocks_def strncpy_length dest!: malloc_more elim!: bnd_InrE split: option.splits)

lemma dialog_created:
  assumes "sip_dialog_create ok r1 r2 sc u h = Inr (Some (sc', h'))" "sd = the (sc_dialog sc')"
  shows "sc' = sc\<lparr>sc_dialog := Some sd\<rparr>" "h' = more_blocks 1 h" "sd_transaction sd = None"
    "length (sd_peer_uri sd) = URI_LEN" "length (sd_tag sd) = TAG_LEN"
    "length (sd_call_id sd) = TAG_LEN" "sd_cseq sd = replicate 7 SIP_CSEQ_START" "sd_at sd = next_block h"
  using assms
  by (auto simp: sip_dialog_create_def strncpy_length sprintf_length dest!: malloc_more
      elim!: bnd_InrE split: option.splits if_splits)

lemma transaction_created:
  assumes "sip_transaction_create ok r sd h = Inr (Some (sd', h'))" "st = the (sd_transaction sd')"
  shows "sd' = sd\<lparr>sd_transaction := Some st\<rparr>" "h' = more_blocks 1 h" "st_msg st = []" "st_at st = next_block h"
    "length (st_branch st) = BRANCH_LEN"
  using assms
  by (auto simp: sip_transaction_create_def strncpy_length sprintf_length dest!: malloc_more
      elim!: bnd_InrE split: option.splits if_splits)

lemma msg_created:
  assumes "sip_msg_create ok st t h = Some (st', h')"
  obtains sm where "st' = st\<lparr>st_msg := sm # st_msg st\<rparr>" "h' = more_blocks 1 h" "sm_at sm = next_block h" "sm_msghdrs sm = []"
    "sm_body sm = None" "sm_type sm = t" "sm_msg sm = replicate SIP_MSG_LEN 0"
  using assms
  by (auto simp: sip_msg_create_def sip_msg_new_def dest!: malloc_more split: option.splits)

lemma pack_keeps:
  assumes "sip_msg_pack mp sm = Inr sm'"
  shows "\<exists>b. sm' = sm\<lparr>sm_msg := b\<rparr>"
  using assms by (auto simp: sip_msg_pack_def elim!: bnd_InrE split: if_splits prod.splits)

lemma first_failure: "\<exists>n \<le> m. (\<forall>i < n. P i) \<and> (n < m \<longrightarrow> \<not> P n)" for m :: nat
proof (induction m)
  case (Suc m)
  then obtain n where n: "n \<le> m" "\<forall>i < n. P i" "n < m \<longrightarrow> \<not> P n" by blast
  show ?case
  proof (cases "n = m \<and> P m")
    case True
    then show ?thesis using n by (intro exI [of _ "Suc m"]) (auto simp: less_Suc_eq)
  next
    case False
    then show ?thesis using n by (intro exI [of _ n]) auto
  qed
qed simp

lemma construct_all:
  assumes "arrays_sized st sd sc" "sip_msg_invite_construct oks sm st sd sc h = Inr (sm', sd', h', r)" "\<not> r < 0"
  shows "\<exists>u ds c. sm' = sm\<lparr>smi_uri := u, sm_msghdrs := sm_msghdrs sm @ hdr_row (next_block h) ds\<rparr> \<and> length ds = 10 \<and>
    sd' = sd\<lparr>sd_cseq := c\<rparr> \<and> h' = more_blocks 10 h"
proof -
  obtain n where n: "n \<le> 10" "\<forall>i < n. oks i" "n < 10 \<longrightarrow> \<not> oks n" using first_failure [of 10 oks] by blast
  obtain u ds where ds: "map fst ds = request_types @ content_types"
    and res: "sip_msg_invite_construct oks sm st sd sc h =
      Inr (sm\<lparr>smi_uri := u, sm_msghdrs := sm_msghdrs sm @ hdr_row (next_block h) (take n ds)\<rparr>,
        if 6 \<le> n then sd\<lparr>sd_cseq := (sd_cseq sd)[1 := sd_cseq sd ! 1 + 1]\<rparr> else sd, more_blocks n h, if n < 10 then - 1 else 0)"
    using invite_construct_result [OF assms(1) n, of sm h] by blast
  have len: "length ds = 10" using arg_cong [OF ds, of length] by (simp add: request_types_def content_types_def)
  have "n = 10" using assms(2,3) res n(1) by (auto split: if_splits)
  then show ?thesis using assms(2) res len
    by (intro exI [of _ u] exI [of _ ds] exI [of _ "(sd_cseq sd)[1 := sd_cseq sd ! 1 + 1]"]) auto
qed

lemma sip_request_blocks:
  assumes "sip_request mp oks rnd sc h = Inr (Some (sc', m, h'))" "sc_dialog sc = None" "length (sc_disp sc) = DISP_LEN" "length (sc_uri sc) = URI_LEN"
  shows "\<exists>as n. client_blocks sc' = as @ [sc_at sc] \<and> distinct as \<and> set as = {next_block h..<next_block h + n} \<and>
    h' = more_blocks n h \<and> sc_s sc' = sc_s sc"
proof -
  obtain r1 r2 r3 where rnd: "rnd = (r1, r2, r3)" by (cases rnd)
  obtain sc1 h1 where d: "sip_dialog_create (oks 1) r1 r2 sc (octets ''sip:000730631661@kth.se'' @ [0]) h = Inr (Some (sc1, h1))"
    using assms(1) unfolding sip_request_def rnd by (auto elim!: bnd_InrE split: option.splits)
  define sd where "sd = the (sc_dialog sc1)"
  note dd = dialog_created [OF d sd_def]
  obtain sd1 h2 where t: "sip_transaction_create (oks 2) r3 sd h1 = Inr (Some (sd1, h2))"
    using assms(1) d dd(1) unfolding sip_request_def rnd by (auto elim!: bnd_InrE split: option.splits)
  define st where "st = the (sd_transaction sd1)"
  note tt = transaction_created [OF t st_def]
  obtain st1 h3 where m: "sip_msg_create (oks 3) st SM_INVITE h2 = Some (st1, h3)"
    using assms(1) d dd(1) t tt(1) unfolding sip_request_def rnd by (auto elim!: bnd_InrE split: option.splits)
  obtain sm where sm: "st1 = st\<lparr>st_msg := [sm]\<rparr>" "h3 = more_blocks 1 h2" "sm_at sm = next_block h2" "sm_msghdrs sm = []" "sm_body sm = None"
    using msg_created [OF m] tt(3) by metis
  obtain body h4 where b: "(case malloc (oks 4) h3 of None \<Rightarrow> (None, h3) | Some (b, h) \<Rightarrow> (Some (b, sdp_data), h)) = (body, h4)" by fastforce
  then have body: "(body = None \<and> h4 = h3) \<or> (body = Some (next_block h3, sdp_data) \<and> h4 = more_blocks 1 h3)"
    by (auto split: option.splits dest!: malloc_more)
  let ?sm = "sm\<lparr>sm_body := body\<rparr>"
  have sized: "arrays_sized st1 sd1 sc1"
    using assms(3,4) dd tt sm(1) by (simp add: arrays_sized_def)
  obtain sm2 sd2 h5 r where c: "sip_msg_invite_construct (\<lambda>k. oks (5 + k)) ?sm st1 sd1 sc1 h4 = Inr (sm2, sd2, h5, r)" "\<not> r < 0"
    using assms(1) d dd(1) t tt(1) m b sm(1) unfolding sip_request_def rnd
    by (auto elim!: bnd_InrE split: option.splits if_splits)
  obtain u ds cq where c2: "sm2 = ?sm\<lparr>smi_uri := u, sm_msghdrs := sm_msghdrs ?sm @ hdr_row (next_block h4) ds\<rparr>" "length ds = 10"
    "sd2 = sd1\<lparr>sd_cseq := cq\<rparr>" "h5 = more_blocks 10 h4"
    using construct_all [OF sized c] by blast
  obtain sm3 where p: "sip_msg_pack mp sm2 = Inr sm3"
    and fin: "h' = h5" "sc' = sc1\<lparr>sc_dialog := Some (sd2\<lparr>sd_transaction := Some (st1\<lparr>st_msg := [sm3]\<rparr>)\<rparr>)\<rparr>"
    using assms(1) d dd(1) t tt(1) m b sm(1) c unfolding sip_request_def rnd
    by (auto elim!: bnd_InrE split: option.splits if_splits)
  obtain bb where sm3: "sm3 = sm2\<lparr>sm_msg := bb\<rparr>" using pack_keeps [OF p] by blast
  let ?n = "next_block h"
  have blocks: "client_blocks sc' = (case body of Some (a, _) \<Rightarrow> [a] | None \<Rightarrow> []) @ [next_block h4..<next_block h4 + 10] @ [?n + 2, ?n + 1, ?n] @ [sc_at sc]"
    using dd tt sm fin sm3 c2
    by (simp add: client_blocks_def dialog_blocks_def transaction_blocks_def msg_blocks_def)
  define k where "k = (if body = None then 3 else 4 :: nat)"
  have h4: "h4 = more_blocks k h" using body dd(2) tt(2) sm(2) by (auto simp: k_def eval_nat_numeral)
  have body_block: "(case body of Some (a, _) \<Rightarrow> [a] | None \<Rightarrow> []) = (if k = 4 then [?n + 3] else [])"
    using body dd(2) tt(2) sm(2) by (auto simp: k_def)
  have "h' = more_blocks (k + 10) h" using fin(1) c2(4) h4 by simp
  moreover have "distinct ((if k = 4 then [?n + 3] else []) @ [?n + k..<?n + k + 10] @ [?n + 2, ?n + 1, ?n])"
    "set ((if k = 4 then [?n + 3] else []) @ [?n + k..<?n + k + 10] @ [?n + 2, ?n + 1, ?n]) = {?n..<?n + (k + 10)}"
    by (auto simp: k_def)
  ultimately show ?thesis using blocks h4 body_block fin(2) dd(1) c2(3)
    by (intro exI [of _ "(if k = 4 then [?n + 3] else []) @ [?n + k..<?n + k + 10] @ [?n + 2, ?n + 1, ?n]"] exI [of _ "k + 10"]) simp
qed

section \<open>Packing and parsing\<close>

text \<open>The text packed so far: it fills the message up to the position, a zero behind it.\<close>

definition packed :: "bytes \<Rightarrow> packing \<Rightarrow> bool" where
  "packed T = (\<lambda>(buf, line, len). length buf = SIP_MSG_LEN \<and> take (Suc (length T)) buf = T @ [0] \<and> 0 \<notin> set T \<and>
     line = length T \<and> len = of_nat (SIP_MSG_LEN - length T))"

text \<open>What a function that packs a part of a message does: it appends its text, if there is room.\<close>

definition packs :: "(packing \<Rightarrow> packing res) \<Rightarrow> bytes \<Rightarrow> bool" where
  "packs pk t \<longleftrightarrow> (\<forall>T st. packed T st \<and> length T + length t < SIP_MSG_LEN \<longrightarrow> (\<exists>st'. pk st = Inr st' \<and> packed (T @ t) st'))"

definition invite_line :: "bytes \<Rightarrow> bytes" where
  "invite_line u = octets ''INVITE '' @ u @ octets '' '' @ SIP_VERSION @ [10]"

lemma packed_append:
  assumes "packed T (buf, line, len)" "length T + length t < SIP_MSG_LEN" "0 \<notin> set t"
  shows "packed (T @ t) (take line buf @ t @ [0] @ drop (line + length t + 1) buf, line + length t, len - of_nat (length t))"
proof -
  have "take (length T) buf = take (length T) (take (Suc (length T)) buf)" by simp
  also have "... = T" using assms(1) by (simp add: packed_def)
  finally show ?thesis using assms by (auto simp: packed_def of_nat_diff)
qed

lemma cstr_packed: "packed T (buf, line, len) \<Longrightarrow> cstr buf = Inr T"
proof -
  assume p: "packed T (buf, line, len)"
  then have "buf = T @ 0 # drop (Suc (length T)) buf" unfolding packed_def by (metis (mono_tags, lifting) append.assoc append_Cons append_Nil append_take_drop_id case_prodD)
  then show ?thesis using p cstr_array [of T "drop (Suc (length T)) buf"] by (simp add: packed_def)
qed

lemma unat_left: "length T \<le> SIP_MSG_LEN \<Longrightarrow> unat (of_nat (SIP_MSG_LEN - length T) :: u32) = SIP_MSG_LEN - length T"
  by (intro unat_word_of_nat_small) simp

lemma invite_pack_packs:
  assumes "cstr uri = Inr u" "0 \<notin> set u"
  shows "packs (sip_msg_invite_pack uri) (invite_line u)"
proof -
  have "\<exists>st'. sip_msg_invite_pack uri st = Inr st' \<and> packed (T @ invite_line u) st'"
    if T: "packed T st" "length T + length (invite_line u) < SIP_MSG_LEN" for T st
  proof -
    obtain buf line len where st: "st = (buf, line, len)" by (cases st)
    have nz: "0 \<notin> set (invite_line u)" using assms(2) by (auto simp: invite_line_def SIP_VERSION_def)
    let ?buf = "take line buf @ invite_line u @ [0] @ drop (line + length (invite_line u) + 1) buf"
    have p: "length buf = SIP_MSG_LEN" "line = length T" "unat len = SIP_MSG_LEN - length T"
      using T unat_left [of T] by (auto simp: st packed_def)
    then have "snprintf line (unat len) (invite_line u) buf = Inr ?buf" using T(2) by (simp add: snprintf_def Let_def)
    moreover have "strlen_at line ?buf = Inr (length (invite_line u))"
      using p T(2) nz cstr_array [of "invite_line u"] by (simp add: strlen_at_def)
    ultimately have "sip_msg_invite_pack uri st = Inr (?buf, line + length (invite_line u), len - of_nat (length (invite_line u)))"
      using assms(1) unfolding st sip_msg_invite_pack_def invite_line_def [symmetric] by simp
    then show ?thesis using packed_append [OF T(1) [unfolded st] T(2) nz] by blast
  qed
  then show ?thesis unfolding packs_def by blast
qed

lemma pack_hdrs_packs:
  "\<forall>smh \<in> set hs. packs (mp smh) (txt smh) \<Longrightarrow> packs (pack_hdrs mp hs) (concat (map txt hs))"
proof (induction hs)
  case (Cons smh r)
  then have IH: "packs (pack_hdrs mp r) (concat (map txt r))" "packs (mp smh) (txt smh)" by simp_all
  show ?case unfolding packs_def
  proof (intro allI impI)
    fix T st assume T: "packed T st \<and> length T + length (concat (map txt (smh # r))) < SIP_MSG_LEN"
    then have "length T + length (txt smh) < SIP_MSG_LEN" by simp
    then obtain st1 where st1: "mp smh st = Inr st1" "packed (T @ txt smh) st1" using T IH(2) unfolding packs_def by blast
    have "length (T @ txt smh) + length (concat (map txt r)) < SIP_MSG_LEN" using T by simp
    then obtain st2 where "pack_hdrs mp r st1 = Inr st2" "packed ((T @ txt smh) @ concat (map txt r)) st2"
      using st1(2) IH(1) unfolding packs_def by blast
    then show "\<exists>st'. pack_hdrs mp (smh # r) st = Inr st' \<and> packed (T @ concat (map txt (smh # r))) st'" using st1(1) by simp
  qed
qed (simp add: packs_def)

lemma pack_body_result:
  assumes "packed T (buf, line, len)" "0 \<notin> set b" "length T < SIP_MSG_LEN"
  shows "length T + length b < SIP_MSG_LEN \<Longrightarrow> \<exists>st'. pack_body (Some b) (buf, line, len) = Inr st' \<and> packed (T @ b) st'"
    and "SIP_MSG_LEN \<le> length T + length b \<Longrightarrow> pack_body (Some b) (buf, line, len) = Inl Out_Of_Bounds"
proof -
  have p: "length buf = SIP_MSG_LEN" "line = length T" "unat len = SIP_MSG_LEN - length T" "take (Suc (length T)) buf = T @ [0]"
    using assms(1,3) unat_left [of T] by (auto simp: packed_def)
  have "buf ! line = take (Suc (length T)) buf ! line" using p(2) by simp
  then have "buf ! line = 0" using p(2,4) by (simp add: nth_append)
  then have "drop line buf = 0 # drop (Suc line) buf" using p(1,2) assms(3) by (simp add: Cons_nth_drop_Suc [symmetric])
  then have n: "strlen_at line buf = Inr 0" using cstr_array [of "[]" "drop (Suc line) buf"] by (simp add: strlen_at_def)
  show "\<exists>st'. pack_body (Some b) (buf, line, len) = Inr st' \<and> packed (T @ b) st'" if "length T + length b < SIP_MSG_LEN"
    using packed_append [OF assms(1) that assms(2)] n p(1-3) that by (simp add: pack_body_def)
  show "pack_body (Some b) (buf, line, len) = Inl Out_Of_Bounds" if "SIP_MSG_LEN \<le> length T + length b"
    using n p(1-3) that assms(3) by (simp add: pack_body_def)
qed

lemma sip_msg_pack_result:
  assumes "sm_type sm = SM_INVITE" "cstr (smi_uri sm) = Inr u" "0 \<notin> set u" "\<forall>smh \<in> set (sm_msghdrs sm). packs (mp smh) (txt smh)"
    and "sm_msg sm = replicate SIP_MSG_LEN 0" "T = invite_line u @ concat (map txt (sm_msghdrs sm))" "length T < SIP_MSG_LEN"
    and "b = (case sm_body sm of Some (_, b) \<Rightarrow> b | None \<Rightarrow> [])" "0 \<notin> set b"
  shows "length T + length b < SIP_MSG_LEN \<Longrightarrow>
      \<exists>buf. sip_msg_pack mp sm = Inr (sm\<lparr>sm_msg := buf\<rparr>) \<and> cstr buf = Inr (T @ b) \<and> length buf = SIP_MSG_LEN"
    and "SIP_MSG_LEN \<le> length T + length b \<Longrightarrow> sip_msg_pack mp sm = Inl Out_Of_Bounds"
proof -
  have "packed [] (sm_msg sm, 0, of_nat SIP_MSG_LEN)" by (simp add: packed_def assms(5) take_Cons' eval_nat_numeral)
  then obtain st1 where st1: "sip_msg_hdrline_pack sm (sm_msg sm, 0, of_nat SIP_MSG_LEN) = Inr st1" "packed (invite_line u) st1"
    using invite_pack_packs [OF assms(2,3)] assms(1,6,7) unfolding packs_def sip_msg_hdrline_pack_def by fastforce
  obtain st2 where st2: "pack_hdrs mp (sm_msghdrs sm) st1 = Inr st2" "packed T st2"
    using pack_hdrs_packs [OF assms(4)] st1(2) assms(6,7) unfolding packs_def by (metis length_append)
  obtain buf line len where b2: "st2 = (buf, line, len)" by (cases st2)
  note body = pack_body_result [OF st2(2) [unfolded b2] assms(9,7)]
  have bodyless: "pack_body None st2 = Inr st2" by (simp add: pack_body_def b2)
  have fin: "\<exists>buf. bnd (Inr st) (\<lambda>(buf, line, len). bnd (strlen_at 0 buf) (\<lambda>n.
      if of_nat SIP_MSG_LEN - len \<noteq> of_nat n \<or> n \<noteq> line then Inl Assert_Failed else Inr (sm\<lparr>sm_msg := buf\<rparr>))) =
      Inr (sm\<lparr>sm_msg := buf\<rparr>) \<and> cstr buf = Inr S \<and> length buf = SIP_MSG_LEN" if S: "packed S st" "length S < SIP_MSG_LEN" for S st
  proof -
    obtain buf line len where st: "st = (buf, line, len)" by (cases st)
    have "strlen_at 0 buf = Inr (length S)" "cstr buf = Inr S" using cstr_packed [OF S(1) [unfolded st]] by (simp_all add: strlen_at_def)
    then show ?thesis using S by (auto simp: st packed_def of_nat_diff)
  qed
  show "\<exists>buf. sip_msg_pack mp sm = Inr (sm\<lparr>sm_msg := buf\<rparr>) \<and> cstr buf = Inr (T @ b) \<and> length buf = SIP_MSG_LEN"
    if fits: "length T + length b < SIP_MSG_LEN"
  proof (cases "sm_body sm")
    case None
    then have "b = []" using assms(8) by simp
    then show ?thesis using fin [OF st2(2) assms(7)] st1(1) st2(1) bodyless None by (simp add: sip_msg_pack_def)
  next
    case (Some x)
    obtain st3 where st3: "pack_body (Some b) st2 = Inr st3" "packed (T @ b) st3" using body(1) [OF fits] b2 by blast
    obtain a where "sm_body sm = Some (a, b)" using Some assms(8) by (cases x) simp
    then show ?thesis using fin [OF st3(2)] fits st1(1) st2(1) st3(1) by (simp add: sip_msg_pack_def)
  qed
  show "sip_msg_pack mp sm = Inl Out_Of_Bounds" if long: "SIP_MSG_LEN \<le> length T + length b"
  proof -
    obtain a where "sm_body sm = Some (a, b)" using long assms(7,8) by (cases "sm_body sm") auto
    then show ?thesis using body(2) [OF long] st1(1) st2(1) by (simp add: sip_msg_pack_def b2)
  qed
qed

text \<open>What the parser of a header gets to see: the lines one after another.\<close>

fun feed :: "hdr_parser \<Rightarrow> bytes list \<Rightarrow> sip_msg \<Rightarrow> blocks \<Rightarrow> (sip_msg \<times> blocks \<times> int) res" where
  "feed P [] sm h = Inr (sm, h, 0)"
| "feed P (l # ls) sm h = bnd (P l sm h) (\<lambda>(sm, h, r). if r < 0 then Inr (sm, h, - 1) else feed P ls sm h)"

abbreviation joined :: "bytes list \<Rightarrow> bytes" where
  "joined ls \<equiv> concat (map (\<lambda>l. l @ [10]) ls)"

lemma strsep_token: "\<forall>x \<in> set t. x \<notin> set ds \<Longrightarrow> d \<in> set ds \<Longrightarrow> strsep ds (t @ d # r) = (t, Some r)"
  by (induction t) (auto simp: strsep_def)

lemma strsep_last: "\<forall>x \<in> set t. x \<notin> set ds \<Longrightarrow> strsep ds t = (t, None)"
  by (induction t) (auto simp: strsep_def split: list.splits)

lemma parse_hdrs_lines:
  "\<forall>l \<in> set ls. l \<noteq> [] \<and> 10 \<notin> set l \<Longrightarrow> parse_hdrs P (Some (joined ls)) sm h = feed P ls sm h"
proof (induction ls arbitrary: sm h)
  case Nil
  then show ?case by (simp add: parse_hdrs.simps strsep_def)
next
  case (Cons l ls)
  then have "strsep [10] (joined (l # ls)) = (l, Some (joined ls))" using strsep_token [of l "[10]" 10 "joined ls"] by auto
  then show ?case using Cons by (subst parse_hdrs.simps) (auto simp: bnd_def split: sum.splits)
qed

lemma sip_msg_parse_invite:
  assumes "cstr (sm_msg sm) = Inr (invite_line u @ joined ls)" "\<forall>x \<in> set u. x \<notin> {0, 9, 10, 32}" "length u < URI_LEN"
    and "\<forall>l \<in> set ls. l \<noteq> [] \<and> 10 \<notin> set l"
  shows "sip_msg_parse P True sm h = feed P ls (sm\<lparr>sm_type := SM_INVITE, smi_uri := u @ replicate (URI_LEN - length u) 0\<rparr>) h"
proof -
  let ?l = "octets ''INVITE '' @ u @ octets '' '' @ SIP_VERSION"
  have "10 \<notin> set ?l" using assms(2) by (auto simp: SIP_VERSION_def)
  then have l: "strsep [10] (invite_line u @ joined ls) = (?l, Some (joined ls))"
    using strsep_token [of ?l "[10]" 10 "joined ls"] by (auto simp: invite_line_def)
  have tag: "strsep [32] ?l = (octets ''INVITE'', Some (u @ 32 # SIP_VERSION))"
    using strsep_token [of "octets ''INVITE''" "[32]" 32 "u @ 32 # SIP_VERSION"] by simp
  have uri: "strsep [32, 9] (u @ 32 # SIP_VERSION) = (u, Some SIP_VERSION)" using strsep_token [of u "[32, 9]" 32] assms(2) by auto
  have ver: "strsep [32, 9] SIP_VERSION = (SIP_VERSION, None)" by (rule strsep_last) (simp add: SIP_VERSION_def)
  have "strncpy URI_LEN (u @ [0]) = Inr (u @ replicate (URI_LEN - length u) 0)"
    using strncpy_array [of u URI_LEN "[]"] assms(2,3) by auto
  then have "sip_hdrline_parse sm ?l = Inr (sm\<lparr>sm_type := SM_INVITE, smi_uri := u @ replicate (URI_LEN - length u) 0\<rparr>, 0)"
    unfolding sip_hdrline_parse_def tag by (simp add: sip_msg_invite_parse_def uri ver) (simp add: SIP_VERSION_def)
  then show ?thesis using parse_hdrs_lines [OF assms(4)] by (simp add: sip_msg_parse_def assms(1) l)
qed

section \<open>Properties\<close>

text \<open>C38. An INVITE survives the wire: when request line, headers and body leave room for the final zero
  in the array, packing writes just this text, with the assertions at its end holding, and the
  parser finds the type and the array of the address again and hands every line behind the request
  line, those of the body too, to the header parser in order; when they leave no room \<open>strncat\<close>
  writes its zero behind the array.\<close>

theorem invite_survives_the_wire:
  assumes "sm_type sm = SM_INVITE" "smi_uri sm = u @ replicate (URI_LEN - length u) 0" "length u < URI_LEN" "\<forall>x \<in> set u. x \<notin> {0, 9, 10, 32}"
    and "\<forall>smh \<in> set (sm_msghdrs sm). packs (mp smh) (txt smh)" "sm_msg sm = replicate SIP_MSG_LEN 0"
    and "T = invite_line u @ concat (map txt (sm_msghdrs sm))" "length T < SIP_MSG_LEN"
    and "b = (case sm_body sm of Some (_, b) \<Rightarrow> b | None \<Rightarrow> [])" "0 \<notin> set b"
  shows "(length T + length b < SIP_MSG_LEN \<longrightarrow>
      (\<exists>buf. sip_msg_pack mp sm = Inr (sm\<lparr>sm_msg := buf\<rparr>) \<and> cstr buf = Inr (T @ b) \<and>
        (\<forall>ls. concat (map txt (sm_msghdrs sm)) @ b = joined ls \<and> (\<forall>l \<in> set ls. l \<noteq> [] \<and> 10 \<notin> set l) \<longrightarrow>
          sip_msg_parse P True (new\<lparr>sm_msg := buf\<rparr>) h = feed P ls (new\<lparr>sm_msg := buf, sm_type := SM_INVITE, smi_uri := smi_uri sm\<rparr>) h))) \<and>
    (SIP_MSG_LEN \<le> length T + length b \<longrightarrow> sip_msg_pack mp sm = Inl Out_Of_Bounds)"
proof (intro conjI impI)
  have "URI_LEN - length u = Suc (63 - length u)" using assms(3) by simp
  then have u: "0 \<notin> set u" "cstr (smi_uri sm) = Inr u"
    using assms(2,4) cstr_array [of u "replicate (63 - length u) 0"] by auto
  note res = sip_msg_pack_result [OF assms(1) u(2,1) assms(5-10)]
  show "sip_msg_pack mp sm = Inl Out_Of_Bounds" if "SIP_MSG_LEN \<le> length T + length b" using res(2) [OF that] .
  show "\<exists>buf. sip_msg_pack mp sm = Inr (sm\<lparr>sm_msg := buf\<rparr>) \<and> cstr buf = Inr (T @ b) \<and>
        (\<forall>ls. concat (map txt (sm_msghdrs sm)) @ b = joined ls \<and> (\<forall>l \<in> set ls. l \<noteq> [] \<and> 10 \<notin> set l) \<longrightarrow>
          sip_msg_parse P True (new\<lparr>sm_msg := buf\<rparr>) h = feed P ls (new\<lparr>sm_msg := buf, sm_type := SM_INVITE, smi_uri := smi_uri sm\<rparr>) h)"
    if fits: "length T + length b < SIP_MSG_LEN"
  proof -
    obtain buf where buf: "sip_msg_pack mp sm = Inr (sm\<lparr>sm_msg := buf\<rparr>)" "cstr buf = Inr (T @ b)" using res(1) [OF fits] by blast
    have "sip_msg_parse P True (new\<lparr>sm_msg := buf\<rparr>) h = feed P ls (new\<lparr>sm_msg := buf, sm_type := SM_INVITE, smi_uri := smi_uri sm\<rparr>) h"
      if "concat (map txt (sm_msghdrs sm)) @ b = joined ls" "\<forall>l \<in> set ls. l \<noteq> [] \<and> 10 \<notin> set l" for ls
      using sip_msg_parse_invite [of "new\<lparr>sm_msg := buf\<rparr>" u ls P h] that buf(2) assms(2-4,7) by simp
    then show ?thesis using buf by blast
  qed
qed

definition sample_hdr_pack :: "sip_msghdr \<Rightarrow> packing \<Rightarrow> packing res" where
  "sample_hdr_pack smh = (\<lambda>(buf, line, len). let t = octets ''Accept: x'' @ [10] in
     Inr (take line buf @ t @ [0] @ drop (line + length t + 1) buf, line + length t, len - of_nat (length t)))"

lemma sample_hdr_pack_packs: "packs (sample_hdr_pack smh) (octets ''Accept: x'' @ [10])"
  unfolding packs_def
proof (intro allI impI)
  fix T st assume T: "packed T st \<and> length T + length (octets ''Accept: x'' @ [10]) < SIP_MSG_LEN"
  obtain buf line len where st: "st = (buf, line, len)" by (cases st)
  show "\<exists>st'. sample_hdr_pack smh st = Inr st' \<and> packed (T @ octets ''Accept: x'' @ [10]) st'"
    using packed_append [of T buf line len "octets ''Accept: x'' @ [10]"] T by (simp add: st sample_hdr_pack_def)
qed

definition sample_msg :: "sip_msg" where
  "sample_msg = \<lparr>sm_at = 3, sm_msg = replicate SIP_MSG_LEN 0, sm_type = SM_INVITE, smi_uri = octets ''sip:a'' @ replicate 59 0,
     sm_body = Some (4, octets ''v=0'' @ [10]), sm_msghdrs = [\<lparr>smh_at = 5, smh_type = MH_Accept, smh_msghdr = No_Data\<rparr>]\<rparr>"

theorem invite_survives_the_wire_witness:
  "\<exists>buf. sip_msg_pack sample_hdr_pack sample_msg = Inr (sample_msg\<lparr>sm_msg := buf\<rparr>) \<and>
    sip_msg_parse (\<lambda>l sm h. Inr (sm, h, 0)) True (sample_msg\<lparr>sm_msg := buf, sm_type := SM_UNKNOWN\<rparr>) \<lparr>live = {}, next_block = 0\<rparr> =
      Inr (sample_msg\<lparr>sm_msg := buf\<rparr>, \<lparr>live = {}, next_block = 0\<rparr>, 0)"
proof -
  let ?u = "octets ''sip:a''" and ?t = "\<lambda>_ :: sip_msghdr. octets ''Accept: x'' @ [10]" and ?b = "octets ''v=0'' @ [10]"
  let ?T = "invite_line ?u @ concat (map ?t (sm_msghdrs sample_msg))"
  have h: "sm_type sample_msg = SM_INVITE" "smi_uri sample_msg = ?u @ replicate (URI_LEN - length ?u) 0" "length ?u < URI_LEN"
    "\<forall>x \<in> set ?u. x \<notin> {0, 9, 10, 32}" "\<forall>smh \<in> set (sm_msghdrs sample_msg). packs (sample_hdr_pack smh) (?t smh)"
    "sm_msg sample_msg = replicate SIP_MSG_LEN 0" "length ?T < SIP_MSG_LEN"
    "?b = (case sm_body sample_msg of Some (_, b) \<Rightarrow> b | None \<Rightarrow> [])" "0 \<notin> set ?b" "length ?T + length ?b < SIP_MSG_LEN"
    using sample_hdr_pack_packs by (simp_all add: sample_msg_def invite_line_def SIP_VERSION_def)
  obtain buf where buf: "sip_msg_pack sample_hdr_pack sample_msg = Inr (sample_msg\<lparr>sm_msg := buf\<rparr>)"
    and parse: "\<forall>ls. concat (map ?t (sm_msghdrs sample_msg)) @ ?b = joined ls \<and> (\<forall>l \<in> set ls. l \<noteq> [] \<and> 10 \<notin> set l) \<longrightarrow>
      sip_msg_parse (\<lambda>l sm h. Inr (sm, h, 0)) True (sample_msg\<lparr>sm_type := SM_UNKNOWN, sm_msg := buf\<rparr>) \<lparr>live = {}, next_block = 0\<rparr> =
      feed (\<lambda>l sm h. Inr (sm, h, 0)) ls (sample_msg\<lparr>sm_type := SM_UNKNOWN, sm_msg := buf, sm_type := SM_INVITE, smi_uri := smi_uri sample_msg\<rparr>)
        \<lparr>live = {}, next_block = 0\<rparr>"
    using invite_survives_the_wire [OF h(1-6) refl h(7-9), of "\<lambda>l sm h. Inr (sm, h, 0)" "sample_msg\<lparr>sm_type := SM_UNKNOWN\<rparr>"] h(10) by blast
  have "concat (map ?t (sm_msghdrs sample_msg)) @ ?b = joined [octets ''Accept: x'', octets ''v=0'']"
    "\<forall>l \<in> set [octets ''Accept: x'', octets ''v=0'']. l \<noteq> [] \<and> 10 \<notin> set l"
    by (simp_all add: sample_msg_def)
  then have "sip_msg_parse (\<lambda>l sm h. Inr (sm, h, 0)) True (sample_msg\<lparr>sm_type := SM_UNKNOWN, sm_msg := buf\<rparr>) \<lparr>live = {}, next_block = 0\<rparr> =
      feed (\<lambda>l sm h. Inr (sm, h, 0)) [octets ''Accept: x'', octets ''v=0'']
        (sample_msg\<lparr>sm_type := SM_UNKNOWN, sm_msg := buf, sm_type := SM_INVITE, smi_uri := smi_uri sample_msg\<rparr>) \<lparr>live = {}, next_block = 0\<rparr>"
    using parse by blast
  then show ?thesis using buf by (intro exI [of _ buf]) (simp add: sample_msg_def)
qed

text \<open>C39. With all ten allocations an INVITE has the headers that are mandatory for a request, of which To
  carries the address of the request line, Call-ID the identity of the dialog and CSeq the number
  the dialog had, and the dialog goes on to the next number; when an allocation fails the result is
  -1, with the headers made until then in the message.\<close>

theorem invite_is_complete:
  assumes "arrays_sized st sd sc" "n \<le> 10" "\<forall>i < n. oks i" "n < 10 \<longrightarrow> \<not> oks n" "sm_msghdrs sm = []"
  shows "\<exists>sm' sd'. sip_msg_invite_construct oks sm st sd sc h = Inr (sm', sd', more_blocks n h, if n < 10 then - 1 else 0) \<and>
    map smh_type (sm_msghdrs sm') = take n (request_types @ content_types) \<and>
    {MH_To, MH_From, MH_CSeq, MH_Call_ID, MH_Max_Forwards, MH_Via} \<subseteq> set (request_types @ content_types) \<and>
    sd' = (if 6 \<le> n then sd\<lparr>sd_cseq := (sd_cseq sd)[sm_nr SM_INVITE := sd_cseq sd ! sm_nr SM_INVITE + 1]\<rparr> else sd) \<and>
    (6 \<le> n \<longrightarrow> (\<exists>t c. smh_msghdr (sm_msghdrs sm' ! 2) = Hdr_To (smi_uri sm') \<and>
      smh_msghdr (sm_msghdrs sm' ! 4) = Hdr_Call_ID c (s_addr (sc_addr sc)) \<and> strncpy TAG_LEN (sd_call_id sd) = Inr c \<and>
      smh_msghdr (sm_msghdrs sm' ! 5) = Hdr_CSeq (sd_cseq sd ! sm_nr SM_INVITE) t))"
proof -
  obtain u ds c t where r: "map fst ds = request_types @ content_types" "ds ! 2 = (MH_To, Hdr_To u)"
    "strncpy TAG_LEN (sd_call_id sd) = Inr c" "ds ! 4 = (MH_Call_ID, Hdr_Call_ID c (s_addr (sc_addr sc)))"
    "ds ! 5 = (MH_CSeq, Hdr_CSeq (sd_cseq sd ! 1) t)"
    "sip_msg_invite_construct oks sm st sd sc h =
      Inr (sm\<lparr>smi_uri := u, sm_msghdrs := sm_msghdrs sm @ hdr_row (next_block h) (take n ds)\<rparr>,
        if 6 \<le> n then sd\<lparr>sd_cseq := (sd_cseq sd)[1 := sd_cseq sd ! 1 + 1]\<rparr> else sd, more_blocks n h, if n < 10 then - 1 else 0)"
    using invite_construct_result [OF assms(1-4), of sm h] by blast
  have len: "length ds = 10" using arg_cong [OF r(1), of length] by (simp add: request_types_def content_types_def)
  let ?sm = "sm\<lparr>smi_uri := u, sm_msghdrs := hdr_row (next_block h) (take n ds)\<rparr>"
  have data: "smh_msghdr (sm_msghdrs ?sm ! i) = snd (ds ! i)" if "i < n" for i
  proof -
    have "map smh_msghdr (sm_msghdrs ?sm) ! i = snd (ds ! i)" using that len assms(2) by simp
    then show ?thesis using that len assms(2) by (simp del: hdr_row_fields(3))
  qed
  have "map smh_type (sm_msghdrs ?sm) = take n (request_types @ content_types)" using r(1) by (simp flip: take_map)
  moreover have "6 \<le> n \<longrightarrow> (\<exists>t c. smh_msghdr (sm_msghdrs ?sm ! 2) = Hdr_To (smi_uri ?sm) \<and>
      smh_msghdr (sm_msghdrs ?sm ! 4) = Hdr_Call_ID c (s_addr (sc_addr sc)) \<and> strncpy TAG_LEN (sd_call_id sd) = Inr c \<and>
      smh_msghdr (sm_msghdrs ?sm ! 5) = Hdr_CSeq (sd_cseq sd ! sm_nr SM_INVITE) t)"
    using data [of 2] data [of 4] data [of 5] r(2-5) by simp
  ultimately show ?thesis unfolding r(6) assms(5)
    by (intro exI [of _ ?sm] exI [of _ "if 6 \<le> n then sd\<lparr>sd_cseq := (sd_cseq sd)[sm_nr SM_INVITE := sd_cseq sd ! sm_nr SM_INVITE + 1]\<rparr> else sd"])
      (simp add: request_types_def content_types_def)
qed


definition sample_transaction :: sip_transaction where
  "sample_transaction = \<lparr>st_at = 2, st_msg = [], st_branch = BRANCH_MAGIC @ replicate 57 0\<rparr>"

definition sample_dialog :: sip_dialog where
  "sample_dialog = \<lparr>sd_at = 1, sd_transaction = None, sd_state = SD_INIT, sd_peer_disp = replicate 32 0, sd_peer_uri = octets ''sip:b'' @ replicate 59 0,
     sd_tag = replicate 32 0, sd_peer_tag = replicate 32 0, sd_call_id = octets ''1f'' @ replicate 30 0, sd_cseq = replicate 7 101\<rparr>"

definition sample_sip_client :: sip_client where
  "sample_sip_client = \<lparr>sc_at = 0, sc_dialog = None, sc_s = 5, sc_disp = replicate 32 0, sc_uri = replicate 64 0, sc_addr = zero_addr,
     sc_server_addr = zero_addr\<rparr>"

lemma sample_sized: "arrays_sized sample_transaction sample_dialog sample_sip_client"
  by (simp add: arrays_sized_def sample_transaction_def sample_dialog_def sample_sip_client_def BRANCH_MAGIC_def)

theorem invite_is_complete_witness:
  "\<exists>sm' sd'. sip_msg_invite_construct (\<lambda>_. True) (sample_msg\<lparr>sm_msghdrs := []\<rparr>) sample_transaction sample_dialog sample_sip_client
      \<lparr>live = {}, next_block = 7\<rparr> = Inr (sm', sd', more_blocks 10 \<lparr>live = {}, next_block = 7\<rparr>, 0) \<and>
    map smh_type (sm_msghdrs sm') = request_types @ content_types \<and> sd_cseq sd' ! 1 = 102"
  using invite_is_complete [OF sample_sized, of 10 "\<lambda>_. True" "sample_msg\<lparr>sm_msghdrs := []\<rparr>" "\<lparr>live = {}, next_block = 7\<rparr>"]
  by (auto simp: request_types_def content_types_def sample_dialog_def)

text \<open>A step that frees nothing: the live blocks stay, and others may be allocated.\<close>

definition grows :: "blocks \<Rightarrow> blocks \<Rightarrow> bool" where
  "grows h h' \<longleftrightarrow> live h \<subseteq> live h' \<and> next_block h \<le> next_block h' \<and> (\<forall>a \<in> live h' - live h. next_block h \<le> a \<and> a < next_block h')"

lemma grows_refl [simp]: "grows h h"
  by (simp add: grows_def)

lemma grows_trans: "grows h h1 \<Longrightarrow> grows h1 h2 \<Longrightarrow> grows h h2"
  unfolding grows_def by (metis Diff_iff le_trans less_le_trans subset_trans subsetD)

lemma more_blocks_grows: "grows h (more_blocks n h)"
  by (auto simp: grows_def)

text \<open>What is assumed of the header parser: it allocates at most.\<close>

definition parser_grows :: "hdr_parser \<Rightarrow> bool" where
  "parser_grows P \<longleftrightarrow> (\<forall>l sm h sm' h' r. P l sm h = Inr (sm', h', r) \<longrightarrow> grows h h')"

lemma parse_hdrs_grows:
  assumes "parser_grows P" "parse_hdrs P str sm h = Inr (sm', h', r)"
  shows "grows h h'"
  using assms
proof (induction P str sm h arbitrary: sm' h' r rule: parse_hdrs.induct)
  case (1 P str sm h)
  show ?case
  proof (cases str)
    case None
    then show ?thesis using "1.prems" by (simp add: parse_hdrs.simps)
  next
    case (Some s)
    obtain line rest where l: "strsep [10] s = (line, rest)" by fastforce
    show ?thesis
    proof (cases "line = []")
      case True
      then show ?thesis using "1.prems" Some l by (simp add: parse_hdrs.simps)
    next
      case False
      then obtain sm1 h1 r1 where p: "P line sm h = Inr (sm1, h1, r1)"
        "(if r1 < 0 then Inr (sm1, h1, - 1) else parse_hdrs P rest sm1 h1) = Inr (sm', h', r)"
        using "1.prems"(2) Some l by (subst (asm) parse_hdrs.simps) (auto elim!: bnd_InrE)
      have "grows h h1" using p(1) "1.prems"(1) unfolding parser_grows_def by blast
      moreover have "grows h1 h'"
      proof (cases "r1 < 0")
        case False
        then show ?thesis using "1.IH" [OF Some l [symmetric] \<open>line \<noteq> []\<close> False] p(2) "1.prems"(1) by simp
      qed (use p(2) in simp)
      ultimately show ?thesis by (rule grows_trans)
    qed
  qed
qed

lemma sip_rcv_keeps:
  assumes "parser_grows P" "sip_rcv P ok dup rr sc h = Inr (h', es, Some v)"
  shows "grows (more_blocks 1 h) h'"
proof -
  obtain sm h1 where n: "sip_msg_new ok h = Some (sm, h1)" using assms(2) by (auto simp: sip_rcv_def split: option.splits)
  then have h1: "h1 = more_blocks 1 h" by (auto simp: sip_msg_new_def malloc_def split: if_splits)
  have "grows h1 h'" using assms(2) n
    by (auto simp: sip_rcv_def sip_msg_parse_def elim!: bnd_InrE split: prod.splits if_splits)
      (use parse_hdrs_grows [OF assms(1)] in blast)+
  then show ?thesis by (simp add: h1)
qed

lemma sip_eventloop_leaks:
  assumes "parser_grows P" "sip_eventloop P xs sc h = Inr (Some (h', n))" "\<forall>a \<in> live h. a < next_block h"
  shows "grows h h' \<and> n \<le> card (live h' - live h)"
  using assms
proof (induction P xs sc h arbitrary: h' n rule: sip_eventloop.induct)
  case (3 P ok dup rr xs sc h)
  obtain h1 es v where r: "sip_rcv P ok dup rr sc h = Inr (h1, es, Some v)"
    and k: "(if v < 0 \<or> Sphone_Error \<in> set es then Inr (Some (h1, 1))
        else bnd (sip_eventloop P xs sc h1) (\<lambda>x. Inr (map_option (\<lambda>(h, n). (h, Suc n)) x))) = Inr (Some (h', n))"
    using "3.prems"(2) by (auto elim!: bnd_InrE split: option.splits)
  have g: "grows (more_blocks 1 h) h1" by (rule sip_rcv_keeps [OF "3.prems"(1) r])
  have h1: "\<forall>a \<in> live h1. a < next_block h1" using g "3.prems"(3) by (fastforce simp: grows_def)
  have gh: "grows h h1" using grows_trans [OF more_blocks_grows g] .
  have new: "next_block h \<in> live h1" "next_block h \<notin> live h" using g "3.prems"(3) by (auto simp: grows_def)
  have fin: "finite (live h' - live h)" if "grows h h'" for h'
  proof (rule finite_subset)
    show "live h' - live h \<subseteq> {next_block h..<next_block h'}" using that by (auto simp: grows_def)
  qed simp
  show ?case
  proof (cases "v < 0 \<or> Sphone_Error \<in> set es")
    case True
    then have "h' = h1" "n = 1" using k by auto
    moreover have "card {next_block h} \<le> card (live h1 - live h)"
      using new by (intro card_mono fin gh) auto
    ultimately show ?thesis using gh by simp
  next
    case False
    then obtain h2 n2 where e: "sip_eventloop P xs sc h1 = Inr (Some (h2, n2))" "h' = h2" "n = Suc n2"
      using k by (auto elim!: bnd_InrE)
    have ih: "grows h1 h2 \<and> n2 \<le> card (live h2 - live h1)"
      using "3.IH" [OF False "3.prems"(1) e(1) h1] .
    then have g2: "grows h h2" using gh grows_trans by blast
    have "card (insert (next_block h) (live h2 - live h1)) \<le> card (live h2 - live h)"
      using new ih gh by (intro card_mono fin g2) (auto simp: grows_def)
    moreover have "card (insert (next_block h) (live h2 - live h1)) = Suc (card (live h2 - live h1))"
      using new finite_subset [OF _ fin [OF g2], of "live h2 - live h1"] gh by (intro card_insert_disjoint) (auto simp: grows_def)
    ultimately show ?thesis using ih g2 e(2,3) by simp
  qed
qed auto

lemma sip_start_blocks:
  assumes "sip_start mp env h = Inr (Some (sc, e, m, h1))"
  obtains as n where "client_blocks sc = as @ [next_block h]" "distinct as" "set as = {next_block h + 2..<next_block h + 2 + n}"
    "e = next_block h + 1" "h1 = more_blocks (n + 2) h" "sc_s sc = si_sock env"
proof -
  obtain sc0 h0 where c: "sip_client_create (si_oks env 0) (si_my_addr env) SIP_PORT (si_server_addr env) SIP_PORT (octets ''6534'' @ [0])
      (octets ''sip:6534@kth.se'' @ [0]) h = Inr (Some (sc0, h0))"
    and r: "sip_request mp (si_oks env) (si_rnd env) (sc0\<lparr>sc_s := si_sock env\<rparr>) (more_blocks 1 h0) = Inr (Some (sc, m, h1))"
    and e: "e = next_block h0"
    using assms unfolding sip_start_def by (auto dest!: malloc_more elim!: bnd_InrE split: option.splits if_splits simp del: list.map)
  note cc = client_created [OF c]
  have at: "sc_at sc0 = next_block h" using cc(2,3) by (simp add: client_blocks_def)
  obtain as n where "client_blocks sc = as @ [next_block h]" "distinct as"
    "set as = {next_block (more_blocks 1 h0)..<next_block (more_blocks 1 h0) + n}" "h1 = more_blocks n (more_blocks 1 h0)" "sc_s sc = si_sock env"
    using sip_request_blocks [OF r] cc(3-5) at by auto
  then show thesis using that [of as n] cc(1) e by (simp add: add.commute)
qed

text \<open>The client can be freed once, whatever was allocated since it was built.\<close>

lemma sip_client_freed:
  assumes "sip_start mp env h = Inr (Some (sc, e, m, h1))" "\<forall>a \<in> live h. a < next_block h" "grows h1 h2"
    and "h3 = h2\<lparr>live := live h2 - set (client_blocks sc)\<rparr>"
  shows "sip_client_free sc h2 = Inr (h3, si_sock env \<noteq> 0)" "sip_client_free sc h3 = Inl Double_Free"
    "distinct (client_blocks sc) \<and> client_blocks sc \<noteq> [] \<and> set (client_blocks sc) \<inter> live h3 = {}"
    "live h3 = live h \<union> {e} \<union> (live h2 - live h1)" "e \<notin> live h \<union> (live h2 - live h1)" "(live h2 - live h1) \<inter> live h = {}"
proof -
  obtain as n where as: "client_blocks sc = as @ [next_block h]" "distinct as" "set as = {next_block h + 2..<next_block h + 2 + n}"
    "e = next_block h + 1" "h1 = more_blocks (n + 2) h" "sc_s sc = si_sock env"
    using sip_start_blocks [OF assms(1)] .
  let ?own = "set (client_blocks sc)"
  have own: "distinct (client_blocks sc)" "?own = insert (next_block h) {next_block h + 2..<next_block h + 2 + n}"
    using as(1-3) by auto
  have live: "live h1 = live h \<union> {e} \<union> ?own" unfolding own(2) as(4,5) by auto
  have old: "live h1 \<subseteq> live h2" using assms(3) by (simp add: grows_def)
  have "free_all (client_blocks sc) h2 = Inr h3" unfolding assms(4) using own live old by (intro free_all_ok) auto
  then show "sip_client_free sc h2 = Inr (h3, si_sock env \<noteq> 0)" using as(6) by (simp add: sip_client_free_blocks)
  show "sip_client_free sc h3 = Inl Double_Free"
  proof -
    obtain a bs where ab: "client_blocks sc = a # bs" using as(1) by (metis append_is_Nil_conv list.exhaust not_Cons_self2)
    then have "a \<notin> live h3" by (simp add: assms(4))
    then show ?thesis by (simp add: ab free_block_def sip_client_free_blocks)
  qed
  show "distinct (client_blocks sc) \<and> client_blocks sc \<noteq> [] \<and> ?own \<inter> live h3 = {}" using own(1) as(1) by (auto simp: assms(4))
  have "?own \<inter> (live h \<union> {e}) = {}" using assms(2) unfolding own(2) as(4) by auto
  then show "live h3 = live h \<union> {e} \<union> (live h2 - live h1)" using live old by (auto simp: assms(4))
  show "e \<notin> live h \<union> (live h2 - live h1)" using assms(2) live as(4) by auto
  show "(live h2 - live h1) \<inter> live h = {}" using live by auto
qed

text \<open>C40. Whatever \<open>main\<close> has built, freeing the client at its end frees each of the client's blocks exactly once, and
  no other: none of them lives afterwards, and freeing the client again is a double free. The socket is closed if it
  is not 0. What stays behind is the registration with the event loop, which nothing frees, and at least
  one block for every datagram that arrived, the message that the handler allocates for it and drops; what lived
  before \<open>main\<close> began still lives. Of the header parser, which is not in the repository, it is assumed that it
  frees nothing.\<close>

theorem sip_blocks_freed_once:
  assumes "sip_main mp P env h = Inr (Some (sc, e, m, n, h', closed))" "\<forall>a \<in> live h. a < next_block h" "parser_grows P"
  shows "\<exists>left. live h' = live h \<union> {e} \<union> left \<and> e \<notin> live h \<union> left \<and> left \<inter> live h = {} \<and> n \<le> card left \<and>
    distinct (client_blocks sc) \<and> client_blocks sc \<noteq> [] \<and> set (client_blocks sc) \<inter> live h' = {} \<and> closed = (si_sock env \<noteq> 0) \<and>
    sip_client_free sc h' = Inl Double_Free"
proof -
  obtain h1 h2 where st: "sip_start mp env h = Inr (Some (sc, e, m, h1))"
    and ev: "sip_eventloop P (si_events env) sc h1 = Inr (Some (h2, n))" and fr: "sip_client_free sc h2 = Inr (h', closed)"
    using assms(1) by (auto simp: sip_main_def elim!: bnd_InrE split: option.splits if_splits)
  obtain as k where h1: "h1 = more_blocks k h" using sip_start_blocks [OF st] by metis
  have "\<forall>a \<in> live h1. a < next_block h1" using assms(2) unfolding h1 by auto
  then have leak: "grows h1 h2" "n \<le> card (live h2 - live h1)" using sip_eventloop_leaks [OF assms(3) ev] by blast+
  note fd = sip_client_freed [OF st assms(2) leak(1) refl]
  have "h' = h2\<lparr>live := live h2 - set (client_blocks sc)\<rparr>" "closed = (si_sock env \<noteq> 0)" using fd(1) fr by auto
  then show ?thesis using fd(2-6) leak(2) by (intro exI [of _ "live h2 - live h1"]) simp
qed

lemma hex_digits_small: "n < 16 \<Longrightarrow> hex_digits n = [n]"
  by (simp add: hex_digits.simps)

text \<open>A phone that receives one datagram, which is empty.\<close>

definition sample_sip_env :: sip_env where
  "sample_sip_env = \<lparr>si_oks = \<lambda>_. True, si_rnd = (1, 2, 3), si_my_addr = 10, si_server_addr = 20, si_sock = 5, si_bound = True,
     si_reg = True, si_sent = True, si_events = [Some (True, True, Received [] zero_addr 16)]\<rparr>"

lemma sample_start_phone: "\<exists>x. sip_start sample_hdr_pack sample_sip_env \<lparr>live = {}, next_block = 0\<rparr> = Inr (Some x)"
proof -
  let ?h = "\<lparr>live = {}, next_block = 0\<rparr>" and ?u = "octets ''sip:000730631661@kth.se''"
  obtain sc h0 where c: "sip_client_create True 10 SIP_PORT 20 SIP_PORT (octets ''6534'' @ [0]) (octets ''sip:6534@kth.se'' @ [0]) ?h = Inr (Some (sc, h0))"
    using strncpy_array [of "octets ''6534''" DISP_LEN "[]"] strncpy_array [of "octets ''sip:6534@kth.se''" URI_LEN "[]"]
    by (simp add: sip_client_create_def malloc_True)
  note cc = client_created [OF c]
  let ?sc = "sc\<lparr>sc_s := 5\<rparr>"
  define h1 where "h1 = more_blocks 1 h0"
  have z: "replicate 41 (0 :: u8) = 0 # replicate 40 0" by (simp add: numeral_eq_Suc)
  have uri: "strncpy URI_LEN (?u @ [0]) = Inr (?u @ replicate 41 0)" using strncpy_array [of ?u URI_LEN "[]"] by simp
  obtain sc1 h2 where d: "sip_dialog_create True 1 2 ?sc (?u @ [0]) h1 = Inr (Some (sc1, h2))" "sd_peer_uri (the (sc_dialog sc1)) = ?u @ replicate 41 0"
    using cc(3) uri by (simp add: sip_dialog_create_def malloc_True sprintf_def print_hex_def hex_digits_small)
  define sd where "sd = the (sc_dialog sc1)"
  note dd = dialog_created [OF d(1) sd_def]
  obtain sd1 h3 where t: "sip_transaction_create True 3 sd h2 = Inr (Some (sd1, h3))"
    using dd(3) by (simp add: sip_transaction_create_def malloc_True sprintf_def print_hex_def hex_digits_small BRANCH_MAGIC_def)
  define st where "st = the (sd_transaction sd1)"
  note tt = transaction_created [OF t st_def]
  obtain st1 h4 where m: "sip_msg_create True st SM_INVITE h3 = Some (st1, h4)" by (simp add: sip_msg_create_def sip_msg_new_def malloc_True)
  obtain sm where sm: "st1 = st\<lparr>st_msg := sm # st_msg st\<rparr>" "sm_msghdrs sm = []" "sm_type sm = SM_INVITE" "sm_msg sm = replicate SIP_MSG_LEN 0"
    using msg_created [OF m] by metis
  let ?sm = "sm\<lparr>sm_body := Some (next_block h4, sdp_data)\<rparr>"
  have sized: "arrays_sized st1 sd1 sc1" using cc(4,5) dd tt sm(1) by (simp add: arrays_sized_def)
  have pu: "strncpy URI_LEN (sd_peer_uri sd1) = Inr (?u @ replicate 41 0)"
  proof -
    have "sd_peer_uri sd1 = ?u @ 0 # replicate 40 0" using d(2) tt(1) z by (simp add: sd_def)
    moreover have "strncpy URI_LEN (?u @ 0 # replicate 40 0) = Inr (take URI_LEN (?u @ replicate (URI_LEN - length ?u) 0))"
      by (rule strncpy_array) simp
    ultimately show ?thesis by simp
  qed
  obtain ds where ds: "map fst ds = request_types @ content_types" and k: "sip_msg_invite_construct (\<lambda>_. True) ?sm st1 sd1 sc1 (more_blocks 1 h4) =
      Inr (?sm\<lparr>smi_uri := ?u @ replicate 41 0, sm_msghdrs := hdr_row (next_block (more_blocks 1 h4)) (take 10 ds)\<rparr>,
        sd1\<lparr>sd_cseq := (sd_cseq sd1)[1 := sd_cseq sd1 ! 1 + 1]\<rparr>, more_blocks 10 (more_blocks 1 h4), 0)"
    using invite_construct_result [OF sized, of 10 "\<lambda>_. True" ?sm "more_blocks 1 h4"] pu sm(2) by auto
  have len: "length ds = 10" using arg_cong [OF ds, of length] by (simp add: request_types_def content_types_def)
  let ?sm2 = "?sm\<lparr>smi_uri := ?u @ replicate 41 0, sm_msghdrs := hdr_row (next_block (more_blocks 1 h4)) (take 10 ds)\<rparr>"
  let ?t = "\<lambda>_ :: sip_msghdr. octets ''Accept: x'' @ [10]"
  have x: "sm_type ?sm2 = SM_INVITE" "cstr (smi_uri ?sm2) = Inr ?u" "0 \<notin> set ?u"
    "\<forall>smh \<in> set (sm_msghdrs ?sm2). packs (sample_hdr_pack smh) (?t smh)" "sm_msg ?sm2 = replicate SIP_MSG_LEN 0"
    "sdp_data = (case sm_body ?sm2 of Some (_, b) \<Rightarrow> b | None \<Rightarrow> [])" "0 \<notin> set sdp_data"
    using sm(3,4) sample_hdr_pack_packs cstr_array [of ?u "replicate 40 0", folded z]
    by (simp_all add: sdp_data_def)
  have l: "length (concat (map ?t (sm_msghdrs ?sm2))) = 100" using len by (simp add: length_concat comp_def sum_list_triv)
  have fits: "length (invite_line ?u @ concat (map ?t (sm_msghdrs ?sm2))) < SIP_MSG_LEN"
    "length (invite_line ?u @ concat (map ?t (sm_msghdrs ?sm2))) + length sdp_data < SIP_MSG_LEN"
    unfolding length_append l by (simp_all add: invite_line_def SIP_VERSION_def sdp_data_def)
  obtain buf where p: "sip_msg_pack sample_hdr_pack ?sm2 = Inr (?sm2\<lparr>sm_msg := buf\<rparr>)"
    "cstr buf = Inr ((invite_line ?u @ concat (map ?t (sm_msghdrs ?sm2))) @ sdp_data)"
    using sip_msg_pack_result(1) [OF x(1-5) refl fits(1) x(6,7) fits(2)] by blast
  have "\<exists>y. sip_request sample_hdr_pack (\<lambda>_. True) (1, 2, 3) ?sc h1 = Inr (Some y)"
    using d(1) dd(1) t tt(1) m sm(1) k p by (simp add: sip_request_def malloc_True strlen_at_def)
  then show ?thesis using c by (auto simp: sip_start_def sample_sip_env_def malloc_True h1_def)
qed

theorem sip_blocks_freed_once_witness:
  "\<exists>sc e m h'. sip_main sample_hdr_pack (\<lambda>l sm h. Inr (sm, h, 0)) sample_sip_env \<lparr>live = {}, next_block = 0\<rparr> =
      Inr (Some (sc, e, m, 1, h', True)) \<and> e \<in> live h' \<and> live h' \<noteq> {e} \<and> sip_client_free sc h' = Inl Double_Free"
proof -
  let ?h = "\<lparr>live = {}, next_block = 0 :: nat\<rparr>" and ?P = "\<lambda>l sm h. Inr (sm, h, 0) :: (sip_msg \<times> blocks \<times> int) res"
  obtain sc e m h1 where st: "sip_start sample_hdr_pack sample_sip_env ?h = Inr (Some (sc, e, m, h1))"
    using sample_start_phone by (metis prod_cases4)
  have ev: "sip_eventloop ?P (si_events sample_sip_env) sc h1 = Inr (Some (more_blocks 1 h1, 1))"
    by (simp add: sample_sip_env_def sip_rcv_def sip_msg_new_def malloc_True inet_input_def)
  have wf: "\<forall>a \<in> live ?h. a < next_block ?h" by simp
  note fr = sip_client_freed(1) [OF st wf more_blocks_grows [of h1 1] refl]
  obtain h' where main: "sip_main sample_hdr_pack ?P sample_sip_env ?h = Inr (Some (sc, e, m, 1, h', True))"
    using st ev fr by (simp add: sip_main_def) (simp add: sample_sip_env_def)
  have "parser_grows ?P" by (auto simp: parser_grows_def)
  from sip_blocks_freed_once [OF main wf this] obtain left where l: "live h' = live ?h \<union> {e} \<union> left" "e \<notin> live ?h \<union> left" "1 \<le> card left"
    "sip_client_free sc h' = Inl Double_Free"
    by (elim exE conjE)
  have "left \<noteq> {}" using l(3) by auto
  then have "e \<in> live h'" "live h' \<noteq> {e}" using l(1,2) by auto
  then show ?thesis using main l(4) by blast
qed

text \<open>What stops the phone: a datagram that does not come from the server makes the handler return -1,
  which ends the event loop; an empty datagram is an error, which ends it too; an INVITE line without version is a null dereference; a datagram that
  fills the array without a zero is read past its end. And as long as the header parser frees
  nothing, the handler never frees the message it has allocated.\<close>

lemma sip_phone_stops:
  assumes "sip_msg_new True h = Some (sm0, h1)"
  shows "(d \<noteq> [] \<and> sc_server_addr sc \<noteq> a \<longrightarrow> sip_rcv P True dup (Received d a 16) sc h = Inr (h1, [], Some (- 1))) \<and>
    sip_rcv P True dup (Received [] a 16) sc h = Inr (h1, [Sphone_Error], Some 0) \<and>
    (d = octets ''INVITE '' @ x \<and> (\<forall>b \<in> set x. b \<notin> {0, 9, 10, 32}) \<and> length d < SIP_MSG_LEN \<and> sc_server_addr sc = a \<longrightarrow>
      sip_rcv P True dup (Received d a 16) sc h = Inl Null_Pointer) \<and>
    (SIP_MSG_LEN \<le> length d \<and> 0 \<notin> set (take SIP_MSG_LEN d) \<and> sc_server_addr sc = a \<longrightarrow>
      sip_rcv P True dup (Received d a 16) sc h = Inl Out_Of_Bounds) \<and>
    (parser_grows P \<and> sip_rcv P True dup rr sc h = Inr (h', es, Some v) \<longrightarrow>
      insert (next_block h) (live h) \<subseteq> live h')"
proof (intro conjI impI; (elim conjE)?)
  have sm0: "length (sm_msg sm0) = SIP_MSG_LEN" "sm_msg sm0 = replicate SIP_MSG_LEN 0" "h1 = more_blocks 1 h"
    using assms by (auto simp: sip_msg_new_def malloc_True)
  then have ne: "sm_msg sm0 \<noteq> []" by force
  show "sip_rcv P True dup (Received d a 16) sc h = Inr (h1, [], Some (- 1))" if "d \<noteq> []" "sc_server_addr sc \<noteq> a"
    using that assms sm0(1) ne by (simp add: sip_rcv_def inet_input_def Let_def)
  show "sip_rcv P True dup (Received d a 16) sc h = Inl Null_Pointer"
    if d: "d = octets ''INVITE '' @ x" "\<forall>b \<in> set x. b \<notin> {0, 9, 10, 32}" "length d < SIP_MSG_LEN" "sc_server_addr sc = a"
  proof -
    define z where "z = replicate (SIP_MSG_LEN - length d - 1) (0 :: u8)"
    have "replicate (SIP_MSG_LEN - length d) (0 :: u8) = 0 # z"
      using d(3) by (simp add: z_def replicate_Suc [symmetric] Suc_diff_Suc del: replicate_Suc)
    then have buf: "take SIP_MSG_LEN d @ drop (length d) (sm_msg sm0) = d @ 0 # z"
      using d(3) sm0(2) by simp
    have nz: "0 \<notin> set d" "10 \<notin> set d" using d(1,2) by auto
    have s: "cstr (d @ 0 # z) = Inr d" using nz(1) by simp
    have line: "strsep [10] d = (d, None)" using nz(2) by (intro strsep_last) auto
    have tag: "strsep [32] d = (octets ''INVITE'', Some x)" using strsep_token [of "octets ''INVITE''" "[32]" 32 x] d(1) by simp
    have uri: "strsep [32, 9] x = (x, None)" using d(2) by (intro strsep_last) auto
    have "sip_hdrline_parse sm d = Inl Null_Pointer" for sm
      by (simp add: sip_hdrline_parse_def tag sip_msg_invite_parse_def uri SIP_VERSION_def)
    then have "sip_msg_parse P dup (sm0\<lparr>sm_msg := d @ 0 # z\<rparr>) h1 = Inl Null_Pointer"
      by (simp add: sip_msg_parse_def s line)
    then show ?thesis using assms d(1,3,4) buf sm0(1) ne by (simp add: sip_rcv_def inet_input_def Let_def)
  qed
  show "sip_rcv P True dup (Received d a 16) sc h = Inl Out_Of_Bounds"
    if d: "SIP_MSG_LEN \<le> length d" "0 \<notin> set (take SIP_MSG_LEN d)" "sc_server_addr sc = a"
    using that assms sm0(1) ne by (cases "d = []") (simp_all add: sip_rcv_def inet_input_def Let_def sip_msg_parse_def cstr_def)
  show "sip_rcv P True dup (Received [] a 16) sc h = Inr (h1, [Sphone_Error], Some 0)"
    using assms by (simp add: sip_rcv_def inet_input_def)
  show "insert (next_block h) (live h) \<subseteq> live h'" if "parser_grows P" "sip_rcv P True dup rr sc h = Inr (h', es, Some v)"
    using sip_rcv_keeps [OF that] by (auto simp: grows_def)
qed

lemma sip_phone_stops_witness:
  "sip_rcv (\<lambda>l sm h. Inr (sm, h, 0)) True True (Received (octets ''INVITE sip:a'') zero_addr 16) sample_sip_client \<lparr>live = {}, next_block = 0\<rparr>
    = Inl Null_Pointer"
proof -
  obtain sm0 h1 where "sip_msg_new True \<lparr>live = {}, next_block = 0\<rparr> = Some (sm0, h1)" by (auto simp: sip_msg_new_def malloc_True)
  from sip_phone_stops [OF this, of "octets ''INVITE sip:a''" sample_sip_client zero_addr "\<lambda>l sm h. Inr (sm, h, 0)" True "octets ''sip:a''"]
  show ?thesis by (simp add: sample_sip_client_def)
qed

end
