(* ===== verification/Ilbc_Arith.thy ===== *)
theory Ilbc_Arith
  imports Sphone_Base "HOL-Library.Monad_Syntax"
begin

text \<open>
  What the models of the signal processing of iLBC, \<open>coding/iLBC_1.1.0\<close>, share: arithmetic, arrays and
  loops, and rules to prove that a computation stays inside its arrays.

  The arithmetic of \<open>float\<close> and \<open>double\<close> is a parameter of the models: one type of values and the operations
  that the code uses; \<open>f_lit m n\<close> is the value of the literal \<open>m / 10 ^ n\<close>. What is proved holds for every arithmetic, that of the machine with its roundings, its
  infinities and NaNs among them, unless it names what it needs.

  An array is a list. Reading and writing are checked: a computation is None when it accesses an element
  outside an array. Pointers into an array are the array and an index, which is an \<open>int\<close> since the code also
  computes addresses in front of an element. Local arrays start with a value of which nothing is known.
\<close>

section \<open>Arithmetic\<close>

record 'f arith =
  f_lit :: "int \<Rightarrow> nat \<Rightarrow> 'f"
  f_int :: "int \<Rightarrow> 'f"
  f_add :: "'f \<Rightarrow> 'f \<Rightarrow> 'f"
  f_sub :: "'f \<Rightarrow> 'f \<Rightarrow> 'f"
  f_mul :: "'f \<Rightarrow> 'f \<Rightarrow> 'f"
  f_div :: "'f \<Rightarrow> 'f \<Rightarrow> 'f"
  f_neg :: "'f \<Rightarrow> 'f"
  f_abs :: "'f \<Rightarrow> 'f"
  f_sqrt :: "'f \<Rightarrow> 'f"
  f_cos :: "'f \<Rightarrow> 'f"
  f_pow :: "'f \<Rightarrow> 'f \<Rightarrow> 'f"
  f_log10 :: "'f \<Rightarrow> 'f"
  f_lt :: "'f \<Rightarrow> 'f \<Rightarrow> bool"
  f_le :: "'f \<Rightarrow> 'f \<Rightarrow> bool"
  f_trunc :: "'f \<Rightarrow> int"
  f_junk :: 'f

abbreviation f0 :: "('f, 'x) arith_scheme \<Rightarrow> 'f" where "f0 ar \<equiv> f_int ar 0"
abbreviation f1 :: "('f, 'x) arith_scheme \<Rightarrow> 'f" where "f1 ar \<equiv> f_int ar 1"

section \<open>Arrays and loops\<close>

definition rd :: "'a list \<Rightarrow> int \<Rightarrow> 'a option" where
  "rd a i = (if 0 \<le> i \<and> i < int (length a) then Some (a ! nat i) else None)"

definition wr :: "'a list \<Rightarrow> int \<Rightarrow> 'a \<Rightarrow> 'a list option" where
  "wr a i x = (if 0 \<le> i \<and> i < int (length a) then Some (a[nat i := x]) else None)"

text \<open>\<open>n\<close> elements from an index on, as they are read and written by \<open>memcpy\<close>, \<open>memset\<close> and \<open>memmove\<close>; a negative
  length is outside of everything.\<close>

definition rds :: "'a list \<Rightarrow> int \<Rightarrow> int \<Rightarrow> 'a list option" where
  "rds a i n = (if 0 \<le> i \<and> 0 \<le> n \<and> i + n \<le> int (length a) then Some (take (nat n) (drop (nat i) a)) else None)"

definition wrs :: "'a list \<Rightarrow> int \<Rightarrow> 'a list \<Rightarrow> 'a list option" where
  "wrs a i xs = (if 0 \<le> i \<and> i + int (length xs) \<le> int (length a)
     then Some (take (nat i) a @ xs @ drop (nat i + length xs) a) else None)"

definition copy_to :: "'a list \<Rightarrow> int \<Rightarrow> 'a list \<Rightarrow> int \<Rightarrow> int \<Rightarrow> 'a list option" where
  "copy_to a i b j n = do { xs \<leftarrow> rds b j n; wrs a i xs }"

definition set_to :: "'a list \<Rightarrow> int \<Rightarrow> 'a \<Rightarrow> int \<Rightarrow> 'a list option" where
  "set_to a i x n = (if 0 \<le> n then wrs a i (replicate (nat n) x) else None)"

definition local_array :: "('f, 'x) arith_scheme \<Rightarrow> nat \<Rightarrow> 'f list" where
  "local_array ar n = replicate n (f_junk ar)"

primrec loop_over :: "('i \<Rightarrow> 's \<Rightarrow> 's option) \<Rightarrow> 'i list \<Rightarrow> 's \<Rightarrow> 's option" where
  "loop_over f [] s = Some s"
| "loop_over f (i # is) s = do { s \<leftarrow> f i s; loop_over f is s }"

text \<open>\<open>for (i = lo; i < hi; i++)\<close>.\<close>

definition for_loop :: "int \<Rightarrow> int \<Rightarrow> (int \<Rightarrow> 's \<Rightarrow> 's option) \<Rightarrow> 's \<Rightarrow> 's option" where
  "for_loop lo hi f s = loop_over f [lo..hi - 1] s"

text \<open>\<open>for (i = hi; i >= lo; i--)\<close>.\<close>

definition for_down :: "int \<Rightarrow> int \<Rightarrow> (int \<Rightarrow> 's \<Rightarrow> 's option) \<Rightarrow> 's \<Rightarrow> 's option" where
  "for_down hi lo f s = loop_over f (rev [lo..hi]) s"

text \<open>\<open>for (i = lo; i < hi; i += step)\<close>.\<close>

definition for_step :: "int \<Rightarrow> int \<Rightarrow> int \<Rightarrow> (int \<Rightarrow> 's \<Rightarrow> 's option) \<Rightarrow> 's \<Rightarrow> 's option" where
  "for_step lo hi step f s = for_loop 0 ((hi - lo + step - 1) div step) (\<lambda>n. f (lo + step * n)) s"

section \<open>Computations that end well\<close>

text \<open>A computation ends, without an access outside an array, in a state with a property. The rules are applied
  backwards; what a rule leaves are the bounds.\<close>

definition yields :: "'a option \<Rightarrow> ('a \<Rightarrow> bool) \<Rightarrow> bool" where
  "yields m P \<longleftrightarrow> (\<exists>x. m = Some x \<and> P x)"

named_theorems yields_rules "rules for computations"

lemma yields_Some [yields_rules]: "P x \<Longrightarrow> yields (Some x) P"
  by (simp add: yields_def)

lemma yields_bind [yields_rules]: "yields m (\<lambda>x. yields (f x) P) \<Longrightarrow> yields (m \<bind> f) P"
  by (auto simp: yields_def)

lemma yields_mono: "yields m Q \<Longrightarrow> (\<And>x. Q x \<Longrightarrow> P x) \<Longrightarrow> yields m P"
  by (auto simp: yields_def)

lemma yields_rd [yields_rules]:
  "0 \<le> i \<Longrightarrow> i < int (length a) \<Longrightarrow> (\<And>x. x \<in> set a \<Longrightarrow> P x) \<Longrightarrow> yields (rd a i) P"
  by (simp add: yields_def rd_def)

lemma yields_wr [yields_rules]:
  "0 \<le> i \<Longrightarrow> i < int (length a) \<Longrightarrow> (\<And>b. length b = length a \<Longrightarrow> P b) \<Longrightarrow> yields (wr a i x) P"
  by (simp add: yields_def wr_def)

lemma yields_rds [yields_rules]:
  "0 \<le> i \<Longrightarrow> 0 \<le> n \<Longrightarrow> i + n \<le> int (length a) \<Longrightarrow> (\<And>xs. length xs = nat n \<Longrightarrow> P xs) \<Longrightarrow> yields (rds a i n) P"
  by (simp add: yields_def rds_def)

lemma yields_wrs [yields_rules]:
  "0 \<le> i \<Longrightarrow> i + int (length xs) \<le> int (length a) \<Longrightarrow> (\<And>b. length b = length a \<Longrightarrow> P b) \<Longrightarrow> yields (wrs a i xs) P"
  by (auto simp: yields_def wrs_def)

lemma yields_copy_to [yields_rules]:
  "0 \<le> j \<Longrightarrow> 0 \<le> n \<Longrightarrow> j + n \<le> int (length b) \<Longrightarrow> 0 \<le> i \<Longrightarrow> i + n \<le> int (length a) \<Longrightarrow>
   (\<And>c. length c = length a \<Longrightarrow> P c) \<Longrightarrow> yields (copy_to a i b j n) P"
  unfolding copy_to_def by (intro yields_rules) auto

lemma yields_set_to [yields_rules]:
  "0 \<le> n \<Longrightarrow> 0 \<le> i \<Longrightarrow> i + n \<le> int (length a) \<Longrightarrow> (\<And>c. length c = length a \<Longrightarrow> P c) \<Longrightarrow> yields (set_to a i x n) P"
  unfolding set_to_def by (auto intro!: yields_rules)

lemma yields_if [yields_rules]:
  "(b \<Longrightarrow> yields m P) \<Longrightarrow> (\<not> b \<Longrightarrow> yields m' P) \<Longrightarrow> yields (if b then m else m') P"
  by simp

lemma yields_let [yields_rules]: "(\<And>x. x = t \<Longrightarrow> yields (f x) P) \<Longrightarrow> yields (Let t f) P"
  by simp

lemma yields_split [yields_rules]: "(\<And>x y. p = (x, y) \<Longrightarrow> yields (f x y) P) \<Longrightarrow> yields (case p of (x, y) \<Rightarrow> f x y) P"
  by (simp split: prod.split)

lemma length_local_array [simp]: "length (local_array ar n) = n"
  by (simp add: local_array_def)

text \<open>Loops: an invariant that may speak of the index; the lengths of the arrays of the state; nothing.\<close>

lemma loop_over_invariant:
  "I s \<Longrightarrow> (\<And>i s. i \<in> set xs \<Longrightarrow> I s \<Longrightarrow> yields (f i s) I) \<Longrightarrow> yields (loop_over f xs s) I"
proof (induction xs arbitrary: s)
  case (Cons i xs)
  have "yields (f i s) I" using Cons.prems by simp
  then obtain s1 where "f i s = Some s1" "I s1" by (auto simp: yields_def)
  then show ?case using Cons.prems Cons.IH [of s1] by simp
qed (simp add: yields_def)

lemma for_invariant:
  assumes "I s" "\<And>i s. lo \<le> i \<Longrightarrow> i < hi \<Longrightarrow> I s \<Longrightarrow> yields (f i s) I" "\<And>s. I s \<Longrightarrow> P s"
  shows "yields (for_loop lo hi f s) P"
  unfolding for_loop_def by (rule yields_mono [OF loop_over_invariant [where I = I]]) (use assms in auto)

lemma for_down_invariant:
  assumes "I s" "\<And>i s. lo \<le> i \<Longrightarrow> i \<le> hi \<Longrightarrow> I s \<Longrightarrow> yields (f i s) I" "\<And>s. I s \<Longrightarrow> P s"
  shows "yields (for_down hi lo f s) P"
  unfolding for_down_def by (rule yields_mono [OF loop_over_invariant [where I = I]]) (use assms in auto)

lemma loop_over_counted:
  "I lo s \<Longrightarrow> lo \<le> hi \<Longrightarrow> (\<And>i s. lo \<le> i \<Longrightarrow> i < hi \<Longrightarrow> I i s \<Longrightarrow> yields (f i s) (I (i + 1))) \<Longrightarrow>
   yields (loop_over f [lo..hi - 1] s) (I hi)"
proof (induction "nat (hi - lo)" arbitrary: lo s)
  case 0
  then show ?case by (simp add: yields_def)
next
  case (Suc n)
  then have lt: "lo < hi" by simp
  have "yields (f lo s) (I (lo + 1))" using Suc.prems lt by simp
  then obtain s1 where "f lo s = Some s1" "I (lo + 1) s1" by (auto simp: yields_def)
  moreover have "yields (loop_over f [lo + 1..hi - 1] s1) (I hi)"
    using Suc.hyps(2) Suc.prems lt calculation(2) by (intro Suc.hyps(1)) auto
  ultimately show ?case using lt by (simp add: upto_rec1)
qed

lemma for_counted:
  assumes "I lo s" "lo \<le> hi" "\<And>i s. lo \<le> i \<Longrightarrow> i < hi \<Longrightarrow> I i s \<Longrightarrow> yields (f i s) (I (i + 1))" "\<And>s. I hi s \<Longrightarrow> P s"
  shows "yields (for_loop lo hi f s) P"
  unfolding for_loop_def by (rule yields_mono [OF loop_over_counted [where I = I]]) (use assms in auto)

lemma loop_over_counted_down:
  "I hi s \<Longrightarrow> lo - 1 \<le> hi \<Longrightarrow> (\<And>i s. lo \<le> i \<Longrightarrow> i \<le> hi \<Longrightarrow> I i s \<Longrightarrow> yields (f i s) (I (i - 1))) \<Longrightarrow>
   yields (loop_over f (rev [lo..hi]) s) (I (lo - 1))"
proof (induction "nat (hi - lo + 1)" arbitrary: hi s)
  case 0
  then have "hi = lo - 1" by simp
  then show ?case using 0 by (simp add: yields_def)
next
  case (Suc n)
  then have le: "lo \<le> hi" by simp
  have "yields (f hi s) (I (hi - 1))" using Suc.prems le by simp
  then obtain s1 where s1: "f hi s = Some s1" "I (hi - 1) s1" by (auto simp: yields_def)
  moreover have "yields (loop_over f (rev [lo..hi - 1]) s1) (I (lo - 1))"
    using Suc.hyps(2) Suc.prems le s1(2) by (intro Suc.hyps(1)) auto
  moreover have "rev [lo..hi] = hi # rev [lo..hi - 1]" using le upto_rec2 [of lo hi] by simp
  ultimately show ?case by simp
qed

lemma for_down_counted:
  assumes "I hi s" "lo - 1 \<le> hi" "\<And>i s. lo \<le> i \<Longrightarrow> i \<le> hi \<Longrightarrow> I i s \<Longrightarrow> yields (f i s) (I (i - 1))" "\<And>s. I (lo - 1) s \<Longrightarrow> P s"
  shows "yields (for_down hi lo f s) P"
  unfolding for_down_def by (rule yields_mono [OF loop_over_counted_down [where I = I]]) (use assms in auto)

lemma for_down_none: "hi < lo \<Longrightarrow> P s \<Longrightarrow> yields (for_down hi lo f s) P"
  by (simp add: for_down_def yields_def)

lemmas for_array = for_invariant [where I = "\<lambda>s. length s = length s0" and s = s0 for s0]
lemmas for_arrays = for_invariant [where I = "\<lambda>(a, b). length a = length a0 \<and> length b = length b0" and s = "(a0, b0)" for a0 b0]
lemmas for_array_scalar = for_invariant [where I = "\<lambda>(a, x). length a = length a0" and s = "(a0, x0)" for a0 x0]
lemmas for_scalar = for_invariant [where I = "\<lambda>_. True"]

end
