(* ===== verification/Ilbc_Tables.thy ===== *)
theory Ilbc_Tables
  imports Ilbc_Arith
begin

text \<open>
  The tables of \<open>constants.c\<close> that the decoder of iLBC uses, \<open>coding/iLBC_1.1.0\<close>, and their lengths. A
  table is the decimal numbers of the source, scaled to integers; an arithmetic makes its values of them.
\<close>

section \<open>Tables\<close>

definition lpFilt_coefsTbl :: "('f, 'x) arith_scheme \<Rightarrow> 'f list" where
  "lpFilt_coefsTbl ar = map (\<lambda>m. f_lit ar m 6)
   [- 66650, 125000, 316650, 414063, 316650, 125000, - 66650]"

definition state_sq3Tbl :: "('f, 'x) arith_scheme \<Rightarrow> 'f list" where
  "state_sq3Tbl ar = map (\<lambda>m. f_lit ar m 6)
   [- 3719849, - 2177490, - 1130005, - 309692, 444214, 1329712, 2436279, 3983887]"

definition state_frgqTbl :: "('f, 'x) arith_scheme \<Rightarrow> 'f list" where
  "state_frgqTbl ar = map (\<lambda>m. f_lit ar m 6)
   [1000085, 1071695, 1140395, 1206868, 1277188, 1351503, 1429380, 1500727, 1569049, 1639599, 1707071, 1781531,
    1840799, 1901550, 1956695, 2006750, 2055474, 2102787, 2142819, 2183592, 2217962, 2257177, 2295739, 2332967,
    2369248, 2402792, 2435080, 2468598, 2503394, 2539284, 2572944, 2605036, 2636331, 2668939, 2698780, 2729101,
    2759786, 2789834, 2818679, 2848074, 2877470, 2906899, 2936655, 2967804, 3000115, 3033367, 3066355, 3104231,
    3141499, 3183012, 3222952, 3265433, 3308441, 3350823, 3395275, 3442793, 3490801, 3542514, 3604064, 3666050,
    3740994, 3830749, 3938770, 4101764]"

definition cbfiltersTbl :: "('f, 'x) arith_scheme \<Rightarrow> 'f list" where
  "cbfiltersTbl ar = map (\<lambda>m. f_lit ar m 6)
   [- 33691, 83740, - 144043, 713379, 806152, - 184326, 108887, - 34180]"

definition gain_sq3Tbl :: "('f, 'x) arith_scheme \<Rightarrow> 'f list" where
  "gain_sq3Tbl ar = map (\<lambda>m. f_lit ar m 6)
   [- 1000000, - 659973, - 330017, 0, 250000, 500000, 750000, 1000000]"

definition gain_sq4Tbl :: "('f, 'x) arith_scheme \<Rightarrow> 'f list" where
  "gain_sq4Tbl ar = map (\<lambda>m. f_lit ar m 6)
   [- 1049988, - 900024, - 750000, - 599976, - 450012, - 299988, - 150024, 0, 150024, 299988, 450012, 599976, 750000,
    900024, 1049988, 1200012]"

definition gain_sq5Tbl :: "('f, 'x) arith_scheme \<Rightarrow> 'f list" where
  "gain_sq5Tbl ar = map (\<lambda>m. f_lit ar m 6)
   [37476, 75012, 112488, 150024, 187500, 224976, 262512, 299988, 337524, 375000, 412476, 450012, 487488, 525024,
    562500, 599976, 637512, 674988, 712524, 750000, 787476, 825012, 862488, 900024, 937500, 974976, 1012512, 1049988,
    1087524, 1125000, 1162476, 1200012]"

definition polyphaserTbl :: "('f, 'x) arith_scheme \<Rightarrow> 'f list" where
  "polyphaserTbl ar = map (\<lambda>m. f_lit ar m 6)
   [0, 0, 0, 1000000, 0, 0, 0, 15625, - 76904, 288330, 862061, - 106445, 18799, - 15625, 23682, - 124268, 601563,
    601563, - 124268, 23682, - 23682, 18799, - 106445, 862061, 288330, - 76904, 15625, - 18799]"

definition enh_plocsTbl :: "('f, 'x) arith_scheme \<Rightarrow> 'f list" where
  "enh_plocsTbl ar = map (\<lambda>m. f_lit ar m 1)
   [400, 1200, 2000, 2800, 3600, 4400, 5200, 6000]"

definition lsfmeanTbl :: "('f, 'x) arith_scheme \<Rightarrow> 'f list" where
  "lsfmeanTbl ar = map (\<lambda>m. f_lit ar m 6)
   [281738, 445801, 663330, 962524, 1251831, 1533081, 1850586, 2137817, 2481445, 2777344]"

definition lsfCbTbl_1 :: "int list" where
  "lsfCbTbl_1 =
   [155396, 273193, 451172, 390503, 648071, 1002075, 440186, 692261, 955688, 343628, 642334, 1071533, 318359, 491577,
    670532, 193115, 375488, 725708, 364136, 510376, 658691, 297485, 527588, 842529, 227173, 365967, 563110, 244995,
    396729, 636475, 169434, 300171, 520264, 312866, 464478, 643188, 248535, 429932, 626099, 236206, 491333, 817139,
    334961, 625122, 895752, 343018, 518555, 698608, 372803, 659790, 945435, 176880, 316528, 581421, 416382, 625977,
    805176, 303223, 568726, 915039, 203613, 351440, 588135, 221191, 375000, 614746, 199951, 323364, 476074, 300781,
    433350, 566895, 226196, 354004, 507568, 300049, 508179, 711670, 312012, 492676, 763428, 329956, 541016, 795776,
    373779, 604614, 928833, 210571, 452026, 755249, 271118, 473267, 662476, 285522, 436890, 634399, 246704, 565552,
    859009, 270508, 406250, 553589, 361450, 578491, 813843, 342651, 482788, 622437, 340332, 549438, 743164, 200439,
    336304, 540894, 407837, 644775, 895142, 294678, 454834, 699097, 193115, 344482, 643188, 275757, 420776, 598755,
    380493, 608643, 861084, 222778, 426147, 676514, 407471, 700195, 1053101, 218384, 377197, 669922, 313232, 454102,
    600952, 347412, 571533, 874146, 238037, 405396, 729492, 223877, 412964, 822021, 395264, 582153, 743896, 247925,
    485596, 720581, 229126, 496582, 907715, 260132, 566895, 1012695, 337402, 611572, 978149, 267822, 447632, 769287,
    250610, 381714, 530029, 430054, 805054, 1221924, 382568, 544067, 701660, 383545, 710327, 1149170, 271362, 529053,
    775513, 246826, 393555, 588623, 266846, 422119, 676758, 311523, 580688, 838623]"

definition lsfCbTbl_2 :: "int list" where
  "lsfCbTbl_2 =
   [1331177, 1576782, 1779541, 1160034, 1401978, 1768188, 1161865, 1525146, 1715332, 759521, 913940, 1119873, 947144,
    1121338, 1282471, 1015015, 1557007, 1804932, 1172974, 1402100, 1692627, 1087524, 1474243, 1665405, 899536,
    1105225, 1406250, 1148438, 1484741, 1796265, 785645, 1209839, 1567749, 867798, 1166504, 1450684, 922485, 1229858,
    1420898, 791260, 1123291, 1409546, 788940, 966064, 1340332, 1051147, 1272827, 1556641, 866821, 1181152, 1538818,
    906738, 1373535, 1607910, 1244751, 1581421, 1933838, 913940, 1337280, 1539673, 680542, 959229, 1662720, 887207,
    1430542, 1800781, 912598, 1433594, 1683960, 860474, 1060303, 1455322, 1005127, 1381104, 1706909, 800781, 1363892,
    1829102, 781860, 1124390, 1505981, 1003662, 1471436, 1684692, 981323, 1309570, 1618042, 1228760, 1554321, 1756470,
    734375, 895752, 1225586, 841797, 1055664, 1249268, 920166, 1119385, 1486206, 894409, 1539063, 1828979, 1283691,
    1543335, 1858276, 676025, 933105, 1490845, 821289, 1491821, 1739868, 923218, 1144653, 1580566, 1057251, 1345581,
    1635864, 888672, 1074951, 1353149, 942749, 1195435, 1505493, 1492310, 1788086, 2039673, 1070313, 1634399, 1860962,
    1253296, 1488892, 1686035, 647095, 864014, 1401855, 866699, 1254883, 1453369, 1063965, 1532593, 1731323, 1167847,
    1521484, 1884033, 956055, 1502075, 1745605, 928711, 1288574, 1479614, 1088013, 1380737, 1570801, 905029, 1186768,
    1371948, 1057861, 1421021, 1617432, 1108276, 1312500, 1501465, 979492, 1416992, 1624268, 1276001, 1661011,
    2007935, 993042, 1168579, 1331665, 778198, 944946, 1235962, 1223755, 1491333, 1815674, 852661, 1350464, 1722290,
    1134766, 1593140, 1787354, 1051392, 1339722, 1531006, 803589, 1271240, 1652100, 755737, 1143555, 1639404, 700928,
    837280, 1130371, 942749, 1197876, 1669800, 993286, 1378296, 1566528, 801025, 1095337, 1298950, 739990, 1032959,
    1383667, 845703, 1072266, 1543823, 915649, 1072266, 1224487, 1021973, 1226196, 1481323, 999878, 1204102, 1555908,
    722290, 913940, 1340210, 673340, 835938, 1259521, 832397, 1208374, 1394165, 962158, 1576172, 1912842, 1166748,
    1370850, 1556763, 946289, 1138550, 1400391, 1035034, 1218262, 1386475, 1393799, 1717773, 2000244, 972656, 1260986,
    1760620, 1028198, 1288452, 1484619, 773560, 1258057, 1756714, 1080322, 1328003, 1742676, 823975, 1450806, 1917725,
    859009, 1016602, 1191895, 843994, 1131104, 1645020, 1189697, 1702759, 1894409, 1346680, 1763184, 2066040, 980469,
    1253784, 1441650, 1338135, 1641968, 1932739, 1223267, 1424194, 1626465, 765747, 1004150, 1579102, 1042847,
    1269165, 1647461, 968750, 1257568, 1555786, 826294, 993408, 1275146, 742310, 950439, 1430542, 1054321, 1439819,
    1828003, 1072998, 1261719, 1441895, 859375, 1036377, 1314819, 895752, 1267212, 1605591, 805420, 962891, 1142334,
    795654, 1005493, 1468506, 1105347, 1313843, 1584839, 792236, 1221802, 1465698, 1170532, 1467651, 1664063, 838257,
    1153198, 1342163, 968018, 1198242, 1391235, 1250122, 1623535, 1823608, 711670, 1058350, 1512085, 1204834, 1454468,
    1739136, 1137451, 1421753, 1620117, 820435, 1322754, 1578247, 798706, 1005005, 1213867, 980713, 1324951, 1512939,
    1112305, 1438843, 1735596, 1135498, 1356689, 1635742, 1101318, 1387451, 1686523, 849854, 1276978, 1523438,
    1377930, 1627563, 1858154, 884888, 1095459, 1287476, 1289795, 1505859, 1756592, 817505, 1384155, 1650513, 1446655,
    1702148, 1931885, 835815, 1023071, 1385376, 916626, 1139038, 1335327, 980103, 1174072, 1453735]"

definition lsfCbTbl_3 :: "int list" where
  "lsfCbTbl_3 =
   [1705688, 2153809, 2398315, 2743408, 1797119, 2016846, 2445679, 2701904, 1990356, 2219116, 2576416, 2813477,
    1849365, 2190918, 2611572, 2835083, 1657959, 1854370, 2159058, 2726196, 1437744, 1897705, 2253174, 2655396,
    2028687, 2247314, 2542358, 2875854, 1736938, 1922119, 2185913, 2743408, 1521606, 1870972, 2526855, 2786987,
    1841431, 2050659, 2463623, 2857666, 1590088, 2067261, 2427979, 2794434, 1746826, 2057373, 2320190, 2800781,
    1734619, 1940552, 2306030, 2826416, 1786255, 2204468, 2457520, 2795288, 1861084, 2170532, 2414551, 2763672,
    2001465, 2307617, 2552734, 2811890, 1784424, 2124146, 2381592, 2645508, 1888794, 2135864, 2418579, 2861206,
    2301147, 2531250, 2724976, 2913086, 1837769, 2051270, 2261963, 2553223, 2012939, 2221191, 2440186, 2678101,
    1429565, 1858276, 2582275, 2845703, 1622803, 1897705, 2367310, 2621094, 1581543, 1960449, 2515869, 2736450,
    1419434, 1933960, 2394653, 2746704, 1721924, 2059570, 2421753, 2769653, 1911011, 2220703, 2461060, 2740723,
    1581177, 1860840, 2516968, 2874634, 1870361, 2098755, 2432373, 2656494, 2059692, 2279785, 2495605, 2729370,
    1815674, 2181519, 2451538, 2680542, 1407959, 1768311, 2343018, 2668091, 2168701, 2394653, 2604736, 2829346,
    1636230, 1865723, 2329102, 2824219, 1878906, 2139526, 2376709, 2679810, 1765381, 1971802, 2195435, 2586914,
    2164795, 2410889, 2673706, 2903198, 2071899, 2331055, 2645874, 2907104, 2026001, 2311523, 2594849, 2863892,
    1948975, 2180786, 2514893, 2797852, 1881836, 2130859, 2478149, 2804199, 2238159, 2452759, 2652832, 2868286,
    1897949, 2101685, 2524292, 2880127, 1856445, 2074585, 2541016, 2791748, 1695557, 2199097, 2506226, 2742676,
    1612671, 1877075, 2435425, 2732910, 1568848, 1786499, 2194580, 2768555, 1953369, 2164551, 2486938, 2874023,
    1388306, 1725342, 2384521, 2771851, 2115356, 2337769, 2592896, 2864014, 1905762, 2111328, 2363525, 2789307,
    1882568, 2332031, 2598267, 2827637, 1683594, 2088745, 2361938, 2608643, 1874023, 2182129, 2536133, 2766968,
    1861938, 2070435, 2309692, 2700562, 1722168, 2107422, 2477295, 2837646, 1926880, 2184692, 2442627, 2663818,
    2123901, 2337280, 2553101, 2777466, 1588135, 1911499, 2212769, 2543945, 2053955, 2370850, 2712158, 2939941,
    2210449, 2519653, 2770386, 2958618, 2199463, 2474731, 2718262, 2919922, 1960083, 2175415, 2608032, 2888794,
    1953735, 2185181, 2428223, 2809570, 1615234, 2036499, 2576538, 2834595, 1621094, 2028198, 2431030, 2664673,
    1824951, 2267456, 2514526, 2747925, 1994263, 2229126, 2475220, 2833984, 1746338, 2011353, 2588257, 2826904,
    1562866, 2135986, 2471680, 2687256, 1748901, 2083496, 2460938, 2686279, 1758057, 2131470, 2636597, 2891602,
    2071289, 2299072, 2550781, 2814331, 1839600, 2094360, 2496460, 2723999, 1882202, 2088257, 2636841, 2923096,
    1957886, 2153198, 2384399, 2615234, 1992920, 2351196, 2654419, 2889771, 2012817, 2262451, 2643799, 2903076,
    2025635, 2254761, 2508423, 2784058, 2316040, 2589355, 2794189, 2963623, 1741211, 2279541, 2578491, 2816284,
    1845337, 2055786, 2348511, 2822021, 1679932, 1926514, 2499756, 2835693, 1722534, 1946899, 2448486, 2728760,
    1829834, 2043213, 2580444, 2867676, 1676636, 2071655, 2322510, 2704834, 1791504, 2113525, 2469727, 2784058,
    1977051, 2215088, 2497437, 2726929, 1800171, 2106689, 2357788, 2738892, 1827759, 2170166, 2525879, 2852417,
    1918335, 2132813, 2488403, 2728149, 1916748, 2225098, 2542603, 2857666, 1761230, 1976074, 2507446, 2884521,
    2053711, 2367432, 2608032, 2837646, 1595337, 2000977, 2307129, 2578247, 1470581, 2031250, 2375854, 2647583,
    1801392, 2128052, 2399780, 2822876, 1853638, 2066650, 2429199, 2751465, 1956299, 2163696, 2394775, 2734253,
    1963623, 2275757, 2585327, 2865234, 1887451, 2105469, 2331787, 2587402, 2120117, 2443359, 2733887, 2941406,
    1506348, 1766968, 2400513, 2851807, 1664551, 1981079, 2375732, 2774414, 1720703, 1978882, 2391479, 2640991,
    1483398, 1814819, 2434448, 2722290, 1769043, 2136597, 2563721, 2774414, 1810791, 2049316, 2373901, 2613647,
    1788330, 2005981, 2359131, 2723145, 1785156, 1993164, 2399780, 2832520, 1695313, 2022949, 2522583, 2745117,
    1584106, 1965576, 2299927, 2715576, 1894897, 2249878, 2655884, 2897705, 1720581, 1995728, 2299438, 2557007,
    1619385, 2173950, 2574219, 2787964, 1883179, 2220459, 2474365, 2825073, 1447632, 2045044, 2555542, 2744873,
    1502686, 2156616, 2653320, 2846558, 1711548, 1944092, 2282959, 2685791, 1499756, 1867554, 2341064, 2578857,
    1916870, 2135132, 2568237, 2826050, 1498047, 1711182, 2223267, 2755127, 1808716, 1997559, 2256470, 2758545,
    2088501, 2402710, 2667358, 2890259, 1545044, 1819214, 2324097, 2692993, 1796021, 2012573, 2505737, 2784912,
    1786499, 2041748, 2290405, 2650757, 1938232, 2264404, 2529053, 2796143]"

definition lsfCbTbl :: "('f, 'x) arith_scheme \<Rightarrow> 'f list" where
  "lsfCbTbl ar = map (\<lambda>m. f_lit ar m 6) (lsfCbTbl_1 @ lsfCbTbl_2 @ lsfCbTbl_3)"

definition dim_lsfCbTbl :: "int list" where "dim_lsfCbTbl = [3, 3, 4]"
definition size_lsfCbTbl :: "int list" where "size_lsfCbTbl = [64, 128, 128]"

definition lsf_weightTbl :: "('f, 'x) arith_scheme \<Rightarrow> 'f list" where
  "lsf_weightTbl ar = [f_div ar (f_int ar 1) (f_int ar 2), f_int ar 1, f_div ar (f_int ar 2) (f_int ar 3),
    f_div ar (f_int ar 1) (f_int ar 3), f_int ar 0, f_int ar 0]"

definition stMemLTbl :: int where "stMemLTbl = 85"
definition memLfTbl :: "int list" where "memLfTbl = [147, 147, 147, 147]"

section \<open>Their lengths\<close>

lemma length_lsfCbTbl_parts: "length lsfCbTbl_1 = 192" "length lsfCbTbl_2 = 384" "length lsfCbTbl_3 = 512"
  by code_simp+

lemma length_tables [simp]:
  "length (lpFilt_coefsTbl ar) = 7"
  "length (state_sq3Tbl ar) = 8"
  "length (state_frgqTbl ar) = 64"
  "length (cbfiltersTbl ar) = 8"
  "length (gain_sq3Tbl ar) = 8"
  "length (gain_sq4Tbl ar) = 16"
  "length (gain_sq5Tbl ar) = 32"
  "length (polyphaserTbl ar) = 28"
  "length (enh_plocsTbl ar) = 8"
  "length (lsfmeanTbl ar) = 10"
  "length (lsfCbTbl ar) = 1088" "length (lsf_weightTbl ar) = 6" "length memLfTbl = 4"
  by (simp_all add: lpFilt_coefsTbl_def state_sq3Tbl_def state_frgqTbl_def cbfiltersTbl_def gain_sq3Tbl_def gain_sq4Tbl_def gain_sq5Tbl_def polyphaserTbl_def enh_plocsTbl_def lsfmeanTbl_def
    lsfCbTbl_def lsf_weightTbl_def memLfTbl_def length_lsfCbTbl_parts)

end
