(* ===== verification/Ilbc_Residual.thy ===== *)
theory Ilbc_Residual
  imports Ilbc_Tables
begin

text \<open>
  The construction of the residual from the parameters of a frame: the filters of \<open>filter.c\<close>,
  \<open>gainquant.c\<close> (the decoder's part), \<open>getCBvec.c\<close>, \<open>iCBConstruct.c\<close> and
  \<open>StateConstructW.c\<close> of \<open>coding/iLBC_1.1.0\<close>. A pointer argument is an array and an index. The lemmas say which
  accesses these functions make: for the ranges of the parameters that the stream has room for, none outside
  an array.
\<close>

abbreviation "LPC_FILTERORDER \<equiv> 10 :: int"
abbreviation "SUBL \<equiv> 40 :: int"
abbreviation "CB_MEML \<equiv> 147 :: int"
abbreviation "CB_FILTERLEN \<equiv> 8 :: int"
abbreviation "CB_HALFFILTERLEN \<equiv> 4 :: int"
abbreviation "STATE_LEN \<equiv> 80 :: int"

section \<open>Filters\<close>

definition AllPoleFilter :: "('f, 'x) arith_scheme \<Rightarrow> 'f list \<Rightarrow> int \<Rightarrow> 'f list \<Rightarrow> int \<Rightarrow> int \<Rightarrow> int \<Rightarrow> 'f list option" where
  "AllPoleFilter ar InOut p Coef c lengthInOut orderCoef =
    for_loop 0 lengthInOut (\<lambda>n. for_loop 1 (orderCoef + 1) (\<lambda>k InOut. do {
      x \<leftarrow> rd InOut (p + n); a \<leftarrow> rd Coef (c + k); y \<leftarrow> rd InOut (p + n - k);
      wr InOut (p + n) (f_sub ar x (f_mul ar a y)) })) InOut"

definition AllZeroFilter ::
  "('f, 'x) arith_scheme \<Rightarrow> 'f list \<Rightarrow> int \<Rightarrow> 'f list \<Rightarrow> int \<Rightarrow> int \<Rightarrow> int \<Rightarrow> 'f list \<Rightarrow> int \<Rightarrow> 'f list option" where
  "AllZeroFilter ar In p Coef c lengthInOut orderCoef Out q =
    for_loop 0 lengthInOut (\<lambda>n Out. do {
      a \<leftarrow> rd Coef c; x \<leftarrow> rd In (p + n); Out \<leftarrow> wr Out (q + n) (f_mul ar a x);
      for_loop 1 (orderCoef + 1) (\<lambda>k Out. do {
        o' \<leftarrow> rd Out (q + n); a \<leftarrow> rd Coef (c + k); x \<leftarrow> rd In (p + n - k);
        wr Out (q + n) (f_add ar o' (f_mul ar a x)) }) Out }) Out"

definition ZeroPoleFilter ::
  "('f, 'x) arith_scheme \<Rightarrow> 'f list \<Rightarrow> int \<Rightarrow> 'f list \<Rightarrow> int \<Rightarrow> 'f list \<Rightarrow> int \<Rightarrow> int \<Rightarrow> int \<Rightarrow> 'f list \<Rightarrow> int \<Rightarrow> 'f list option" where
  "ZeroPoleFilter ar In p ZeroCoef z PoleCoef c lengthInOut orderCoef Out q = do {
     Out \<leftarrow> AllZeroFilter ar In p ZeroCoef z lengthInOut orderCoef Out q;
     AllPoleFilter ar Out q PoleCoef c lengthInOut orderCoef }"

lemma AllPoleFilter_safe [yields_rules]:
  assumes "0 \<le> n" "0 \<le> p - m" "p + n \<le> int (length a)" "0 \<le> c" "c + m < int (length co)"
    and "\<And>b. length b = length a \<Longrightarrow> P b"
  shows "yields (AllPoleFilter ar a p co c n m) P"
  unfolding AllPoleFilter_def by (intro for_array yields_rules) (use assms in auto)

lemma AllZeroFilter_safe [yields_rules]:
  assumes "0 \<le> n" "0 \<le> m" "0 \<le> p - m" "p + n \<le> int (length a)" "0 \<le> c" "c + m < int (length co)"
    and "0 \<le> q" "q + n \<le> int (length b)" "\<And>b'. length b' = length b \<Longrightarrow> P b'"
  shows "yields (AllZeroFilter ar a p co c n m b q) P"
  unfolding AllZeroFilter_def by (intro for_array yields_rules) (use assms in auto)

lemma ZeroPoleFilter_safe [yields_rules]:
  assumes "0 \<le> n" "0 \<le> m" "0 \<le> p - m" "p + n \<le> int (length a)" "0 \<le> z" "z + m < int (length ze)" "0 \<le> c" "c + m < int (length co)"
    and "0 \<le> q - m" "q + n \<le> int (length b)" "\<And>b'. length b' = length b \<Longrightarrow> P b'"
  shows "yields (ZeroPoleFilter ar a p ze z co c n m b q) P"
  unfolding ZeroPoleFilter_def by (intro yields_rules) (use assms in auto)

section \<open>The start state\<close>

definition StateConstructW ::
  "('f, 'x) arith_scheme \<Rightarrow> int \<Rightarrow> int list \<Rightarrow> 'f list \<Rightarrow> int \<Rightarrow> 'f list \<Rightarrow> int \<Rightarrow> int \<Rightarrow> 'f list option" where
  "StateConstructW ar idxForMax idxVec syntDenum s out q len = do {
     m \<leftarrow> rd (state_frgqTbl ar) idxForMax;
     let maxVal = f_div ar (f_pow ar (f_int ar 10) m) (f_lit ar 45 1);
     tmpbuf \<leftarrow> set_to (local_array ar 170) 0 (f0 ar) LPC_FILTERORDER;
     foutbuf \<leftarrow> set_to (local_array ar 170) 0 (f0 ar) LPC_FILTERORDER;
     numerator \<leftarrow> for_loop 0 LPC_FILTERORDER (\<lambda>k numerator. do {
       x \<leftarrow> rd syntDenum (s + LPC_FILTERORDER - k); wr numerator k x }) (local_array ar 11);
     x \<leftarrow> rd syntDenum s;
     numerator \<leftarrow> wr numerator LPC_FILTERORDER x;
     tmpbuf \<leftarrow> for_loop 0 len (\<lambda>k tmpbuf. do {
       i \<leftarrow> rd idxVec (len - 1 - k); v \<leftarrow> rd (state_sq3Tbl ar) i; wr tmpbuf (LPC_FILTERORDER + k) (f_mul ar maxVal v) }) tmpbuf;
     tmpbuf \<leftarrow> set_to tmpbuf (LPC_FILTERORDER + len) (f0 ar) len;
     foutbuf \<leftarrow> ZeroPoleFilter ar tmpbuf LPC_FILTERORDER numerator 0 syntDenum s (2 * len) LPC_FILTERORDER foutbuf LPC_FILTERORDER;
     for_loop 0 len (\<lambda>k out. do {
       x \<leftarrow> rd foutbuf (LPC_FILTERORDER + len - 1 - k); y \<leftarrow> rd foutbuf (LPC_FILTERORDER + 2 * len - 1 - k);
       wr out (q + k) (f_add ar x y) }) out }"

text \<open>Indices within a range, as they come out of the stream.\<close>

definition index_below :: "int \<Rightarrow> int list \<Rightarrow> bool" where
  "index_below n xs \<longleftrightarrow> (\<forall>x \<in> set xs. 0 \<le> x \<and> x < n)"

lemma StateConstructW_safe [yields_rules]:
  assumes "0 \<le> i" "i < 64" "index_below 8 v" "0 \<le> len" "len \<le> int (length v)" "len \<le> 80" "0 \<le> s" "s + 11 \<le> int (length a)"
    and "0 \<le> q" "q + len \<le> int (length b)" "\<And>b'. length b' = length b \<Longrightarrow> P b'"
  shows "yields (StateConstructW ar i v a s b q len) P"
  unfolding StateConstructW_def by (intro for_array yields_rules) (use assms in \<open>auto simp: index_below_def\<close>)

section \<open>The codebook\<close>

definition gaindequant :: "('f, 'x) arith_scheme \<Rightarrow> int \<Rightarrow> 'f \<Rightarrow> int \<Rightarrow> 'f option" where
  "gaindequant ar index maxIn cblen =
    (let scale = f_abs ar maxIn; scale = (if f_lt ar scale (f_lit ar 1 1) then f_lit ar 1 1 else scale) in
     if cblen = 8 then do { x \<leftarrow> rd (gain_sq3Tbl ar) index; Some (f_mul ar scale x) }
     else if cblen = 16 then do { x \<leftarrow> rd (gain_sq4Tbl ar) index; Some (f_mul ar scale x) }
     else if cblen = 32 then do { x \<leftarrow> rd (gain_sq5Tbl ar) index; Some (f_mul ar scale x) }
     else Some (f0 ar))"

text \<open>The two halves of a vector that is interpolated from the codebook \<open>mem\<close>, at \<open>m\<close>, with the lag \<open>k\<close> and half
  of it.\<close>

definition cb_interpolated ::
  "('f, 'x) arith_scheme \<Rightarrow> 'f list \<Rightarrow> 'f list \<Rightarrow> int \<Rightarrow> int \<Rightarrow> int \<Rightarrow> int \<Rightarrow> 'f list option" where
  "cb_interpolated ar cbvec mem m k lMem cbveclen = (let ihigh = k div 2; ilow = ihigh - 5 in do {
     cbvec \<leftarrow> copy_to cbvec 0 mem (m + lMem - k div 2) ilow;
     (cbvec, alfa) \<leftarrow> for_loop ilow ihigh (\<lambda>j (cbvec, alfa). do {
       x \<leftarrow> rd mem (m + lMem - k div 2 + j); y \<leftarrow> rd mem (m + lMem - k + j);
       cbvec \<leftarrow> wr cbvec j (f_add ar (f_mul ar (f_sub ar (f1 ar) alfa) x) (f_mul ar alfa y));
       Some (cbvec, f_add ar alfa (f_lit ar 2 1)) }) (cbvec, f0 ar);
     copy_to cbvec ihigh mem (m + lMem - k + ihigh) (cbveclen - ihigh) })"

text \<open>\<open>tempbuff2\<close>: the codebook between zeros; and \<open>n\<close> samples of it filtered.\<close>

definition cb_extended :: "('f, 'x) arith_scheme \<Rightarrow> 'f list \<Rightarrow> int \<Rightarrow> int \<Rightarrow> 'f list option" where
  "cb_extended ar mem m lMem = do {
     tempbuff2 \<leftarrow> set_to (local_array ar 156) 0 (f0 ar) CB_HALFFILTERLEN;
     tempbuff2 \<leftarrow> copy_to tempbuff2 CB_HALFFILTERLEN mem m lMem;
     set_to tempbuff2 (lMem + CB_HALFFILTERLEN) (f0 ar) (CB_HALFFILTERLEN + 1) }"

definition cb_filtered :: "('f, 'x) arith_scheme \<Rightarrow> 'f list \<Rightarrow> int \<Rightarrow> 'f list \<Rightarrow> int \<Rightarrow> int \<Rightarrow> 'f list option" where
  "cb_filtered ar tempbuff2 memInd out q len = do {
     out \<leftarrow> set_to out q (f0 ar) len;
     for_loop 0 len (\<lambda>n. for_loop 0 CB_FILTERLEN (\<lambda>j out. do {
       o' \<leftarrow> rd out (q + n); x \<leftarrow> rd tempbuff2 (memInd + n + CB_HALFFILTERLEN + j); c \<leftarrow> rd (cbfiltersTbl ar) j;
       wr out (q + n) (f_add ar o' (f_mul ar x c)) })) out }"

definition getCBvec ::
  "('f, 'x) arith_scheme \<Rightarrow> 'f list \<Rightarrow> 'f list \<Rightarrow> int \<Rightarrow> int \<Rightarrow> int \<Rightarrow> int \<Rightarrow> 'f list option" where
  "getCBvec ar cbvec mem m index lMem cbveclen =
    (let base_size = lMem - cbveclen + 1 + (if cbveclen = SUBL then cbveclen div 2 else 0) in
     if index < lMem - cbveclen + 1 then
       (let k = index + cbveclen in copy_to cbvec 0 mem (m + lMem - k) cbveclen)
     else if index < base_size then
       cb_interpolated ar cbvec mem m (2 * (index - (lMem - cbveclen + 1)) + cbveclen) lMem cbveclen
     else do {
       tempbuff2 \<leftarrow> cb_extended ar mem m lMem;
       if index - base_size < lMem - cbveclen + 1 then
         (let k = index - base_size + cbveclen; sFilt = lMem - k; memInd = sFilt + 1 - CB_HALFFILTERLEN in
          cb_filtered ar tempbuff2 memInd cbvec 0 cbveclen)
       else
         (let k = 2 * (index - base_size - (lMem - cbveclen + 1)) + cbveclen; sFilt = lMem - k;
              memInd = sFilt + 1 - CB_HALFFILTERLEN in do {
            tmpbuf \<leftarrow> cb_filtered ar tempbuff2 memInd (local_array ar 147) sFilt k;
            cb_interpolated ar cbvec tmpbuf 0 k lMem cbveclen }) })"

definition iCBConstruct ::
  "('f, 'x) arith_scheme \<Rightarrow> 'f list \<Rightarrow> int \<Rightarrow> int list \<Rightarrow> int \<Rightarrow> int list \<Rightarrow> int \<Rightarrow> 'f list \<Rightarrow> int \<Rightarrow> int \<Rightarrow> int \<Rightarrow> int \<Rightarrow>
   'f list option" where
  "iCBConstruct ar decvector d index i gain_index g mem m lMem veclen nStages = do {
     gi \<leftarrow> rd gain_index g; x \<leftarrow> gaindequant ar gi (f1 ar) 32; gain \<leftarrow> wr (local_array ar 3) 0 x;
     gain \<leftarrow> (if nStages > 1 then do {
       gi \<leftarrow> rd gain_index (g + 1); y \<leftarrow> rd gain 0; x \<leftarrow> gaindequant ar gi (f_abs ar y) 16; wr gain 1 x } else Some gain);
     gain \<leftarrow> (if nStages > 2 then do {
       gi \<leftarrow> rd gain_index (g + 2); y \<leftarrow> rd gain 1; x \<leftarrow> gaindequant ar gi (f_abs ar y) 8; wr gain 2 x } else Some gain);
     ix \<leftarrow> rd index i;
     cbvec \<leftarrow> getCBvec ar (local_array ar 40) mem m ix lMem veclen;
     decvector \<leftarrow> for_loop 0 veclen (\<lambda>j decvector. do {
       y \<leftarrow> rd gain 0; x \<leftarrow> rd cbvec j; wr decvector (d + j) (f_mul ar y x) }) decvector;
     (decvector, cbvec) \<leftarrow> for_loop 1 nStages (\<lambda>k (decvector, cbvec). do {
       ix \<leftarrow> rd index (i + k);
       cbvec \<leftarrow> getCBvec ar cbvec mem m ix lMem veclen;
       decvector \<leftarrow> for_loop 0 veclen (\<lambda>j decvector. do {
         z \<leftarrow> rd decvector (d + j); y \<leftarrow> rd gain k; x \<leftarrow> rd cbvec j;
         wr decvector (d + j) (f_add ar z (f_mul ar y x)) }) decvector;
       Some (decvector, cbvec) }) (decvector, cbvec);
     Some decvector }"

text \<open>The sections of the codebook: each size of vector has its memory and its range of indices.\<close>

definition cb_range :: "int \<Rightarrow> int \<Rightarrow> int \<Rightarrow> bool" where
  "cb_range lMem cbveclen index \<longleftrightarrow>
    lMem = 147 \<and> cbveclen = 40 \<and> 0 \<le> index \<and> index < 256 \<or> lMem = 85 \<and> cbveclen = 22 \<and> 0 \<le> index \<and> index < 128"

lemma gaindequant_safe [yields_rules]:
  assumes "0 \<le> i" "n = 8 \<or> n = 16 \<or> n = 32 \<longrightarrow> i < n" "\<And>x. P x"
  shows "yields (gaindequant ar i x n) P"
  unfolding gaindequant_def by (intro yields_rules) (use assms in auto)

lemma cb_interpolated_safe [yields_rules]:
  assumes "10 \<le> k" "k \<le> 2 * n" "k \<le> l" "0 \<le> m" "m + l \<le> int (length mem)" "n \<le> int (length a)" "n \<le> k"
    and "\<And>b. length b = length a \<Longrightarrow> P b"
  shows "yields (cb_interpolated ar a mem m k l n) P"
  unfolding cb_interpolated_def by (intro yields_rules for_array_scalar) (use assms in auto)

lemma cb_extended_safe [yields_rules]:
  assumes "0 \<le> l" "l \<le> 147" "0 \<le> m" "m + l \<le> int (length mem)" "\<And>b. length b = 156 \<Longrightarrow> P b"
  shows "yields (cb_extended ar mem m l) P"
  unfolding cb_extended_def by (intro yields_rules) (use assms in auto)

lemma cb_filtered_safe [yields_rules]:
  assumes "0 \<le> n" "- 4 \<le> i" "i + n + 11 \<le> int (length t)" "0 \<le> q" "q + n \<le> int (length a)" "\<And>b. length b = length a \<Longrightarrow> P b"
  shows "yields (cb_filtered ar t i a q n) P"
  unfolding cb_filtered_def by (intro yields_rules for_array) (use assms in auto)

lemma getCBvec_safe [yields_rules]:
  assumes "cb_range l n i" "0 \<le> m" "m + l \<le> int (length mem)" "length a = 40" "\<And>b. length b = length a \<Longrightarrow> P b"
  shows "yields (getCBvec ar a mem m i l n) P"
proof -
  consider "l = 147" "n = 40" "0 \<le> i" "i < 256" | "l = 85" "n = 22" "0 \<le> i" "i < 128" using assms(1) by (auto simp: cb_range_def)
  then show ?thesis
  proof cases
    case 1
    then show ?thesis unfolding getCBvec_def by (intro yields_rules) (use assms in auto)
  next
    case 2
    then show ?thesis unfolding getCBvec_def by (intro yields_rules) (use assms in auto)
  qed
qed

definition gains_ok :: "int \<Rightarrow> int list \<Rightarrow> bool" where
  "gains_ok g xs \<longleftrightarrow> 0 \<le> g \<and> g + 2 < int (length xs) \<and> 0 \<le> xs ! nat g \<and> xs ! nat g < 32 \<and>
    0 \<le> xs ! nat (g + 1) \<and> xs ! nat (g + 1) < 16 \<and> 0 \<le> xs ! nat (g + 2) \<and> xs ! nat (g + 2) < 8"

lemma yields_rd_at: "0 \<le> i \<Longrightarrow> i < int (length a) \<Longrightarrow> P (a ! nat i) \<Longrightarrow> yields (rd a i) P"
  by (simp add: yields_def rd_def)

lemma iCBConstruct_safe [yields_rules]:
  assumes "gains_ok g gs" "0 \<le> i" "i + 2 < int (length is)" "\<And>k. i \<le> k \<Longrightarrow> k < i + 3 \<Longrightarrow> cb_range l n (is ! nat k)"
    and "0 \<le> m" "m + l \<le> int (length mem)" "0 \<le> d" "d + n \<le> int (length a)" "\<And>b. length b = length a \<Longrightarrow> P b"
  shows "yields (iCBConstruct ar a d is i gs g mem m l n 3) P"
proof -
  have n: "0 \<le> n" "n \<le> 40" using assms(4) [of i] by (auto simp: cb_range_def)
  have gs: "yields (rd gs g) Q" if "\<And>x. 0 \<le> x \<Longrightarrow> x < 32 \<Longrightarrow> Q x" for Q
    using assms(1) that by (intro yields_rd_at) (auto simp: gains_ok_def)
  have gs1: "yields (rd gs (g + 1)) Q" if "\<And>x. 0 \<le> x \<Longrightarrow> x < 16 \<Longrightarrow> Q x" for Q
    using assms(1) that by (intro yields_rd_at) (auto simp: gains_ok_def)
  have gs2: "yields (rd gs (g + 2)) Q" if "\<And>x. 0 \<le> x \<Longrightarrow> x < 8 \<Longrightarrow> Q x" for Q
    using assms(1) that by (intro yields_rd_at) (auto simp: gains_ok_def)
  have ix: "yields (rd is k) Q" if "i \<le> k" "k < i + 3" "\<And>x. cb_range l n x \<Longrightarrow> Q x" for k Q
    using assms(2-4) that by (intro yields_rd_at) auto
  show ?thesis unfolding iCBConstruct_def
    by (intro gs gs1 gs2 ix [of i] ix yields_rules for_array for_arrays) (use assms n in auto)
qed

end
