(* ===== verification/Ilbc_Lpc.thy ===== *)
theory Ilbc_Lpc
  imports Ilbc_Residual
begin

text \<open>
  The filters of a frame and their coefficients: \<open>LPCdecode.c\<close>, \<open>syntFilter.c\<close>, the conversion of
  line spectral frequencies in \<open>lsf.c\<close> and the functions of \<open>helpfun.c\<close> that the decoder uses, of
  \<open>coding/iLBC_1.1.0\<close>. Local arrays of the callers are arguments, as in the code.
\<close>

abbreviation "LPC_HALFORDER \<equiv> 5 :: int"
abbreviation "NSUB \<equiv> 6 :: int"

section \<open>Vectors\<close>

definition interpolate ::
  "('f, 'x) arith_scheme \<Rightarrow> 'f list \<Rightarrow> 'f list \<Rightarrow> int \<Rightarrow> 'f list \<Rightarrow> int \<Rightarrow> 'f \<Rightarrow> int \<Rightarrow> 'f list option" where
  "interpolate ar out in1 p in2 q coef len =
    (let invcoef = f_sub ar (f1 ar) coef in
     for_loop 0 len (\<lambda>i out. do {
       x \<leftarrow> rd in1 (p + i); y \<leftarrow> rd in2 (q + i);
       wr out i (f_add ar (f_mul ar coef x) (f_mul ar invcoef y)) }) out)"

definition bwexpand :: "('f, 'x) arith_scheme \<Rightarrow> 'f list \<Rightarrow> int \<Rightarrow> 'f list \<Rightarrow> 'f \<Rightarrow> int \<Rightarrow> 'f list option" where
  "bwexpand ar out q In coef len = do {
     x \<leftarrow> rd In 0; out \<leftarrow> wr out q x;
     (out, chirp) \<leftarrow> for_loop 1 len (\<lambda>i (out, chirp). do {
       x \<leftarrow> rd In i; out \<leftarrow> wr out (q + i) (f_mul ar chirp x); Some (out, f_mul ar chirp coef) }) (out, coef);
     Some out }"

text \<open>The separation of the frequencies; the result says whether something was changed.\<close>

definition LSF_check1 :: "('f, 'x) arith_scheme \<Rightarrow> int \<Rightarrow> 'f list \<times> int \<Rightarrow> ('f list \<times> int) option" where
  "LSF_check1 ar pos = (\<lambda>(lsf, change). do {
     x \<leftarrow> rd lsf pos; y \<leftarrow> rd lsf (pos + 1);
     (lsf, change) \<leftarrow>
       (if f_lt ar (f_sub ar y x) (f_lit ar 39 3) then
          (if f_lt ar y x then do {
             lsf \<leftarrow> wr lsf (pos + 1) (f_add ar x (f_lit ar 195 4)); z \<leftarrow> rd lsf (pos + 1);
             lsf \<leftarrow> wr lsf pos (f_sub ar z (f_lit ar 195 4)); Some (lsf, 1) }
           else do {
             lsf \<leftarrow> wr lsf pos (f_sub ar x (f_lit ar 195 4));
             lsf \<leftarrow> wr lsf (pos + 1) (f_add ar y (f_lit ar 195 4)); Some (lsf, 1) })
        else Some (lsf, change));
     x \<leftarrow> rd lsf pos;
     (lsf, change) \<leftarrow> (if f_lt ar x (f_lit ar 1 2) then do { lsf \<leftarrow> wr lsf pos (f_lit ar 1 2); Some (lsf, 1) }
       else Some (lsf, change));
     x \<leftarrow> rd lsf pos;
     (if f_lt ar (f_lit ar 314 2) x then do { lsf \<leftarrow> wr lsf pos (f_lit ar 314 2); Some (lsf, 1) }
       else Some (lsf, change)) })"

definition LSF_check :: "('f, 'x) arith_scheme \<Rightarrow> 'f list \<Rightarrow> int \<Rightarrow> int \<Rightarrow> ('f list \<times> int) option" where
  "LSF_check ar lsf dim NoAn =
    for_loop 0 2 (\<lambda>n. for_loop 0 NoAn (\<lambda>m. for_loop 0 (dim - 1) (\<lambda>k. LSF_check1 ar (m * dim + k)))) (lsf, 0)"

lemma interpolate_safe [yields_rules]:
  assumes "0 \<le> n" "n \<le> int (length a)" "0 \<le> p" "p + n \<le> int (length b)" "0 \<le> q" "q + n \<le> int (length c)"
    and "\<And>a'. length a' = length a \<Longrightarrow> P a'"
  shows "yields (interpolate ar a b p c q x n) P"
  unfolding interpolate_def by (intro yields_rules for_array) (use assms in auto)

lemma bwexpand_safe [yields_rules]:
  assumes "0 < n" "0 \<le> q" "q + n \<le> int (length a)" "n \<le> int (length b)" "\<And>a'. length a' = length a \<Longrightarrow> P a'"
  shows "yields (bwexpand ar a q b x n) P"
  unfolding bwexpand_def by (intro yields_rules for_array_scalar) (use assms in auto)

lemma LSF_check1_safe [yields_rules]:
  assumes "0 \<le> p" "p + 1 < int (length a)" "\<And>a' x'. length a' = length a \<Longrightarrow> P (a', x')"
  shows "yields (LSF_check1 ar p (a, x)) P"
  unfolding LSF_check1_def prod.case
  by (intro yields_rules) (use assms in auto)

lemma LSF_check_safe [yields_rules]:
  assumes "length a = 20" "\<And>a' x'. length a' = length a \<Longrightarrow> P (a', x')"
  shows "yields (LSF_check ar a 10 2) P"
  unfolding LSF_check_def by (intro yields_rules for_array_scalar) (use assms in \<open>auto intro!: yields_rules for_array_scalar\<close>)

section \<open>From frequencies to coefficients\<close>

type_synonym 'f sections = "'f list \<times> 'f list \<times> 'f list \<times> 'f list \<times> 'f list \<times> 'f list"

definition lsf2a_sections :: "('f, 'x) arith_scheme \<Rightarrow> 'f list \<Rightarrow> 'f list \<Rightarrow> 'f sections \<Rightarrow> 'f sections option" where
  "lsf2a_sections ar p q = for_loop 0 LPC_HALFORDER (\<lambda>i (a, a1, a2, b, b1, b2). do {
     x \<leftarrow> rd a i; pi \<leftarrow> rd p i; x1 \<leftarrow> rd a1 i; x2 \<leftarrow> rd a2 i;
     a \<leftarrow> wr a (i + 1) (f_add ar (f_sub ar x (f_mul ar (f_mul ar (f_int ar 2) pi) x1)) x2);
     y \<leftarrow> rd b i; qi \<leftarrow> rd q i; y1 \<leftarrow> rd b1 i; y2 \<leftarrow> rd b2 i;
     b \<leftarrow> wr b (i + 1) (f_add ar (f_sub ar y (f_mul ar (f_mul ar (f_int ar 2) qi) y1)) y2);
     x1 \<leftarrow> rd a1 i; a2 \<leftarrow> wr a2 i x1; x \<leftarrow> rd a i; a1 \<leftarrow> wr a1 i x;
     y1 \<leftarrow> rd b1 i; b2 \<leftarrow> wr b2 i y1; y \<leftarrow> rd b i; b1 \<leftarrow> wr b1 i y;
     Some (a, a1, a2, b, b1, b2) })"

text \<open>\<open>freq\<close> is scaled, and moved when it is ill-conditioned.\<close>

definition lsf2a_freq :: "('f, 'x) arith_scheme \<Rightarrow> 'f list \<Rightarrow> 'f list option" where
  "lsf2a_freq ar freq = do {
     freq \<leftarrow> for_loop 0 LPC_FILTERORDER (\<lambda>i freq. do { x \<leftarrow> rd freq i; wr freq i (f_mul ar x (f_lit ar 159154943 9)) }) freq;
     x \<leftarrow> rd freq 0; y \<leftarrow> rd freq (LPC_FILTERORDER - 1);
     if f_le ar x (f0 ar) \<or> f_le ar (f_lit ar 5 1) y then do {
       freq \<leftarrow> (if f_le ar x (f0 ar) then wr freq 0 (f_lit ar 22 3) else Some freq);
       y \<leftarrow> rd freq (LPC_FILTERORDER - 1);
       freq \<leftarrow> (if f_le ar (f_lit ar 5 1) y then wr freq (LPC_FILTERORDER - 1) (f_lit ar 499 3) else Some freq);
       y \<leftarrow> rd freq (LPC_FILTERORDER - 1); x \<leftarrow> rd freq 0;
       let hlp = f_div ar (f_sub ar y x) (f_int ar (LPC_FILTERORDER - 1));
       for_loop 1 LPC_FILTERORDER (\<lambda>i freq. do { x \<leftarrow> rd freq (i - 1); wr freq i (f_add ar x hlp) }) freq }
     else Some freq }"

definition lsf2a :: "('f, 'x) arith_scheme \<Rightarrow> 'f list \<Rightarrow> 'f list \<Rightarrow> ('f list \<times> 'f list) option" where
  "lsf2a ar a_coef freq = do {
     freq \<leftarrow> lsf2a_freq ar freq;
     a1 \<leftarrow> set_to (local_array ar 5) 0 (f0 ar) LPC_HALFORDER; a2 \<leftarrow> set_to (local_array ar 5) 0 (f0 ar) LPC_HALFORDER;
     b1 \<leftarrow> set_to (local_array ar 5) 0 (f0 ar) LPC_HALFORDER; b2 \<leftarrow> set_to (local_array ar 5) 0 (f0 ar) LPC_HALFORDER;
     a \<leftarrow> set_to (local_array ar 6) 0 (f0 ar) (LPC_HALFORDER + 1); b \<leftarrow> set_to (local_array ar 6) 0 (f0 ar) (LPC_HALFORDER + 1);
     (p, q) \<leftarrow> for_loop 0 LPC_HALFORDER (\<lambda>i (p, q). do {
       x \<leftarrow> rd freq (2 * i); p \<leftarrow> wr p i (f_cos ar (f_mul ar (f_lit ar 6283185307 9) x));
       y \<leftarrow> rd freq (2 * i + 1); q \<leftarrow> wr q i (f_cos ar (f_mul ar (f_lit ar 6283185307 9) y));
       Some (p, q) }) (local_array ar 5, local_array ar 5);
     a \<leftarrow> wr a 0 (f_lit ar 25 2); b \<leftarrow> wr b 0 (f_lit ar 25 2);
     (a, a1, a2, b, b1, b2) \<leftarrow> lsf2a_sections ar p q (a, a1, a2, b, b1, b2);
     (a_coef, _) \<leftarrow> for_loop 0 LPC_FILTERORDER (\<lambda>j (a_coef, a, a1, a2, b, b1, b2). do {
       a \<leftarrow> wr a 0 (if j = 0 then f_lit ar 25 2 else f0 ar);
       b \<leftarrow> wr b 0 (if j = 0 then f_lit ar (- 25) 2 else f0 ar);
       (a, a1, a2, b, b1, b2) \<leftarrow> lsf2a_sections ar p q (a, a1, a2, b, b1, b2);
       x \<leftarrow> rd a LPC_HALFORDER; y \<leftarrow> rd b LPC_HALFORDER;
       a_coef \<leftarrow> wr a_coef (j + 1) (f_mul ar (f_int ar 2) (f_add ar x y));
       Some (a_coef, a, a1, a2, b, b1, b2) }) (a_coef, a, a1, a2, b, b1, b2);
     a_coef \<leftarrow> wr a_coef 0 (f1 ar);
     Some (a_coef, freq) }"

definition LSFinterpolate2a_dec ::
  "('f, 'x) arith_scheme \<Rightarrow> 'f list \<Rightarrow> 'f list \<Rightarrow> int \<Rightarrow> 'f list \<Rightarrow> int \<Rightarrow> 'f \<Rightarrow> int \<Rightarrow> 'f list option" where
  "LSFinterpolate2a_dec ar a lsf1 p lsf2 q coef len = do {
     lsftmp \<leftarrow> interpolate ar (local_array ar 10) lsf1 p lsf2 q coef len;
     (a, _) \<leftarrow> lsf2a ar a lsftmp;
     Some a }"

definition sections_ok :: "'f sections \<Rightarrow> bool" where
  "sections_ok = (\<lambda>(a, a1, a2, b, b1, b2). length a = 6 \<and> length a1 = 5 \<and> length a2 = 5 \<and> length b = 6 \<and> length b1 = 5 \<and> length b2 = 5)"

lemma lsf2a_sections_safe [yields_rules]:
  assumes "length p = 5" "length q = 5" "sections_ok s" "\<And>s. sections_ok s \<Longrightarrow> P s"
  shows "yields (lsf2a_sections ar p q s) P"
  unfolding lsf2a_sections_def
  by (intro for_invariant [where I = sections_ok] yields_rules) (use assms in \<open>auto simp: sections_ok_def\<close>)

lemma lsf2a_freq_safe [yields_rules]:
  assumes "length f = 10" "\<And>f'. length f' = length f \<Longrightarrow> P f'"
  shows "yields (lsf2a_freq ar f) P"
  unfolding lsf2a_freq_def by (intro yields_rules for_array) (use assms in auto)

lemma lsf2a_safe [yields_rules]:
  assumes "length a = 11" "length f = 10" "\<And>a' f'. length a' = length a \<Longrightarrow> length f' = length f \<Longrightarrow> P (a', f')"
  shows "yields (lsf2a ar a f) P"
  unfolding lsf2a_def
  by (intro yields_rules for_arrays for_invariant [where I = "\<lambda>(a, s). length a = 11 \<and> sections_ok s"])
    (use assms in \<open>auto simp: sections_ok_def\<close>)

lemma LSFinterpolate2a_dec_safe [yields_rules]:
  assumes "length a = 11" "0 \<le> p" "p + 10 \<le> int (length b)" "0 \<le> q" "q + 10 \<le> int (length c)"
    and "\<And>a'. length a' = length a \<Longrightarrow> P a'"
  shows "yields (LSFinterpolate2a_dec ar a b p c q x 10) P"
  unfolding LSFinterpolate2a_dec_def by (intro yields_rules) (use assms in auto)

section \<open>The decoder\<close>

record 'f iLBC_Dec_Inst =
  syntMem :: "'f list"
  lsfdeqold :: "'f list"
  last_lag :: int
  prevLag :: int
  consPLICount :: int
  prevPLI :: int
  prev_enh_pl :: int
  prevGain :: 'f
  prevLpc :: "'f list"
  prevResidual :: "'f list"
  energy :: 'f
  seed :: int
  old_syntdenum :: "'f list"
  hpomem :: "'f list"
  use_enhancer :: int
  enh_buf :: "'f list"
  enh_period :: "'f list"

definition SimplelsfDEQ1 ::
  "('f, 'x) arith_scheme \<Rightarrow> 'f list \<Rightarrow> int \<Rightarrow> int list \<Rightarrow> int \<Rightarrow> 'f list option" where
  "SimplelsfDEQ1 ar lsfdeq o' index k = do {
     (lsfdeq, _, _) \<leftarrow> for_loop 0 3 (\<lambda>i (lsfdeq, pos, cb_pos). do {
       dim \<leftarrow> rd dim_lsfCbTbl i; cb_size \<leftarrow> rd size_lsfCbTbl i;
       lsfdeq \<leftarrow> for_loop 0 dim (\<lambda>j lsfdeq. do {
         ix \<leftarrow> rd index (k + i); x \<leftarrow> rd (lsfCbTbl ar) (cb_pos + ix * dim + j);
         wr lsfdeq (o' + pos + j) x }) lsfdeq;
       Some (lsfdeq, pos + dim, cb_pos + cb_size * dim) }) (lsfdeq, 0, 0);
     Some lsfdeq }"

definition SimplelsfDEQ :: "('f, 'x) arith_scheme \<Rightarrow> 'f list \<Rightarrow> int list \<Rightarrow> 'f list option" where
  "SimplelsfDEQ ar lsfdeq index = do {
     lsfdeq \<leftarrow> SimplelsfDEQ1 ar lsfdeq 0 index 0;
     SimplelsfDEQ1 ar lsfdeq LPC_FILTERORDER index 3 }"

definition DecoderInterpolateLSF ::
  "('f, 'x) arith_scheme \<Rightarrow> 'f list \<Rightarrow> 'f list \<Rightarrow> 'f list \<Rightarrow> int \<Rightarrow> 'f iLBC_Dec_Inst \<Rightarrow>
   ('f list \<times> 'f list \<times> 'f iLBC_Dec_Inst) option" where
  "DecoderInterpolateLSF ar syntdenum weightdenum lsfdeq len dec = (let lp_length = len + 1 in do {
     w \<leftarrow> rd (lsf_weightTbl ar) 0;
     lp \<leftarrow> LSFinterpolate2a_dec ar (local_array ar 11) (lsfdeqold dec) 0 lsfdeq 0 w len;
     syntdenum \<leftarrow> copy_to syntdenum 0 lp 0 lp_length;
     weightdenum \<leftarrow> bwexpand ar weightdenum 0 lp (f_lit ar 4222 4) lp_length;
     (syntdenum, weightdenum, lp, pos) \<leftarrow> for_loop 1 6 (\<lambda>i (syntdenum, weightdenum, lp, pos). do {
       w \<leftarrow> rd (lsf_weightTbl ar) i;
       lp \<leftarrow> LSFinterpolate2a_dec ar lp lsfdeq 0 lsfdeq len w len;
       syntdenum \<leftarrow> copy_to syntdenum pos lp 0 lp_length;
       weightdenum \<leftarrow> bwexpand ar weightdenum pos lp (f_lit ar 4222 4) lp_length;
       Some (syntdenum, weightdenum, lp, pos + lp_length) }) (syntdenum, weightdenum, lp, lp_length);
     old \<leftarrow> copy_to (lsfdeqold dec) 0 lsfdeq len len;
     Some (syntdenum, weightdenum, dec\<lparr>lsfdeqold := old\<rparr>) })"

definition lsf_ok :: "int list \<Rightarrow> bool" where
  "lsf_ok is \<longleftrightarrow> length is = 6 \<and> (\<forall>i < 6. 0 \<le> is ! i) \<and> is ! 0 < 64 \<and> is ! 1 < 128 \<and> is ! 2 < 128 \<and> is ! 3 < 64 \<and> is ! 4 < 128 \<and> is ! 5 < 128"

lemma SimplelsfDEQ1_safe [yields_rules]:
  assumes "lsf_ok is" "k = 0 \<or> k = 3" "0 \<le> q" "q + 10 \<le> int (length a)" "\<And>b. length b = length a \<Longrightarrow> P b"
  shows "yields (SimplelsfDEQ1 ar a q is k) P"
proof -
  have i0: "yields (rd is k) Q" if "\<And>x. 0 \<le> x \<Longrightarrow> x < 64 \<Longrightarrow> Q x" for Q
    using assms(1,2) that by (intro yields_rd_at) (auto simp: lsf_ok_def)
  have i1: "yields (rd is (k + 1)) Q" if "\<And>x. 0 \<le> x \<Longrightarrow> x < 128 \<Longrightarrow> Q x" for Q
    using assms(1,2) that by (intro yields_rd_at) (auto simp: lsf_ok_def)
  have i2: "yields (rd is (k + 2)) Q" if "\<And>x. 0 \<le> x \<Longrightarrow> x < 128 \<Longrightarrow> Q x" for Q
    using assms(1,2) that by (intro yields_rd_at) (auto simp: lsf_ok_def)
  show ?thesis unfolding SimplelsfDEQ1_def for_loop_def [of 0 3]
    apply (simp add: upto.simps dim_lsfCbTbl_def size_lsfCbTbl_def rd_def [of "[_, _, _]"])
    apply (intro i0 i1 i2 yields_rules for_array)
    apply (use assms in auto)
    done
qed

lemma SimplelsfDEQ_safe [yields_rules]:
  assumes "lsf_ok is" "length a = 20" "\<And>b. length b = length a \<Longrightarrow> P b"
  shows "yields (SimplelsfDEQ ar a is) P"
  unfolding SimplelsfDEQ_def by (intro yields_rules) (use assms in auto)

lemma DecoderInterpolateLSF_safe [yields_rules]:
  assumes "length s = 66" "length w = 66" "length l = 20" "length (lsfdeqold dec) = 10"
    and "\<And>s' w' old. length s' = length s \<Longrightarrow> length w' = length w \<Longrightarrow> length old = length (lsfdeqold dec) \<Longrightarrow>
      P (s', w', dec\<lparr>lsfdeqold := old\<rparr>)"
  shows "yields (DecoderInterpolateLSF ar s w l 10 dec) P"
  unfolding DecoderInterpolateLSF_def
  by (intro yields_rules for_counted [where I = "\<lambda>i (s', w', lp, pos). length s' = 66 \<and> length w' = 66 \<and> length lp = 11 \<and> pos = 11 * i"])
    (use assms in \<open>auto simp: lsf_weightTbl_def\<close>)

section \<open>Synthesis\<close>

definition syntFilter :: "('f, 'x) arith_scheme \<Rightarrow> 'f list \<Rightarrow> int \<Rightarrow> 'f list \<Rightarrow> int \<Rightarrow> int \<Rightarrow> 'f list \<Rightarrow> ('f list \<times> 'f list) option" where
  "syntFilter ar Out p a c len mem = do {
     Out \<leftarrow> for_loop 0 LPC_FILTERORDER (\<lambda>i Out. do {
       Out \<leftarrow> for_loop 1 (i + 1) (\<lambda>j Out. do {
         o' \<leftarrow> rd Out (p + i); x \<leftarrow> rd a (c + j); y \<leftarrow> rd Out (p + i - j);
         wr Out (p + i) (f_sub ar o' (f_mul ar x y)) }) Out;
       for_loop (i + 1) (LPC_FILTERORDER + 1) (\<lambda>j Out. do {
         o' \<leftarrow> rd Out (p + i); x \<leftarrow> rd a (c + j); y \<leftarrow> rd mem (LPC_FILTERORDER + i - j);
         wr Out (p + i) (f_sub ar o' (f_mul ar x y)) }) Out }) Out;
     Out \<leftarrow> for_loop LPC_FILTERORDER len (\<lambda>i. for_loop 1 (LPC_FILTERORDER + 1) (\<lambda>j Out. do {
       o' \<leftarrow> rd Out (p + i); x \<leftarrow> rd a (c + j); y \<leftarrow> rd Out (p + i - j);
       wr Out (p + i) (f_sub ar o' (f_mul ar x y)) })) Out;
     mem \<leftarrow> copy_to mem 0 Out (p + len - LPC_FILTERORDER) LPC_FILTERORDER;
     Some (Out, mem) }"

lemma syntFilter_safe [yields_rules]:
  assumes "10 \<le> n" "0 \<le> p" "p + n \<le> int (length a)" "0 \<le> c" "c + 11 \<le> int (length co)" "length m = 10"
    and "\<And>a' m'. length a' = length a \<Longrightarrow> length m' = length m \<Longrightarrow> P (a', m')"
  shows "yields (syntFilter ar a p co c n m) P"
  unfolding syntFilter_def by (intro yields_rules for_array) (use assms in auto)

end
