(* ===== verification/Ilbc_Plc.thy ===== *)
theory Ilbc_Plc
  imports Ilbc_Lpc
begin

text \<open>
  The concealment of lost packets, \<open>doCPLC.c\<close> of \<open>coding/iLBC_1.1.0\<close>: the pitch of the last residual is repeated
  and mixed with noise, which is the last residual with a lag that a generator draws.
\<close>

abbreviation "BLOCKL \<equiv> 240 :: int"

section \<open>Concealment\<close>

definition compCorr :: "('f, 'x) arith_scheme \<Rightarrow> 'f list \<Rightarrow> int \<Rightarrow> int \<Rightarrow> int \<Rightarrow> ('f \<times> 'f) option" where
  "compCorr ar buffer lag bLen sRange = do {
     (ftmp1, ftmp2) \<leftarrow> for_loop 0 sRange (\<lambda>i (ftmp1, ftmp2). do {
       x \<leftarrow> rd buffer (bLen - sRange + i); y \<leftarrow> rd buffer (bLen - sRange + i - lag);
       Some (f_add ar ftmp1 (f_mul ar x y), f_add ar ftmp2 (f_mul ar y y)) }) (f0 ar, f0 ar);
     Some (if f_lt ar (f0 ar) ftmp2
       then (f_div ar (f_mul ar ftmp1 ftmp1) ftmp2, f_abs ar (f_div ar ftmp1 ftmp2)) else (f0 ar, f0 ar)) }"

text \<open>The lag around \<open>inlag\<close> with the best correlation, and its gain.\<close>

definition plc_search :: "('f, 'x) arith_scheme \<Rightarrow> 'f list \<Rightarrow> int \<Rightarrow> (int \<times> 'f) option" where
  "plc_search ar buffer inlag = do {
     (maxcc, gain) \<leftarrow> compCorr ar buffer (inlag - 3) BLOCKL 60;
     (maxcc, gain, lag) \<leftarrow> for_loop (inlag - 2) (inlag + 4) (\<lambda>i (maxcc, gain, lag). do {
       (maxcc_comp, gain_comp) \<leftarrow> compCorr ar buffer i BLOCKL 60;
       Some (if f_lt ar maxcc maxcc_comp then (maxcc_comp, gain_comp, i) else (maxcc, gain, lag)) }) (maxcc, gain, inlag - 3);
     Some (lag, if f_lt ar (f1 ar) gain then f1 ar else gain) }"

definition plc_mix :: "('f, 'x) arith_scheme \<Rightarrow> 'f \<Rightarrow> 'f" where
  "plc_mix ar gain =
    (if f_lt ar (f_int ar 1) gain then f_lit ar 95 2
     else if f_lt ar gain (f_int ar 0) then f_int ar 0
     else f_add ar (f_int ar 0) (f_div ar
       (f_mul ar (f_sub ar gain (f_int ar 0)) (f_sub ar (f_lit ar 95 2) (f_int ar 0))) (f_sub ar (f_int ar 1) (f_int ar 0))))"

definition plc_pick :: "('f, 'x) arith_scheme \<Rightarrow> 'f list \<Rightarrow> 'f \<Rightarrow> int \<Rightarrow> int \<Rightarrow> 'f list \<Rightarrow> 'f list option" where
  "plc_pick ar prev gain i pick out =
    (if pick < 0 then do { x \<leftarrow> rd prev (BLOCKL + pick); wr out i (f_mul ar gain x) }
     else do { x \<leftarrow> rd out pick; wr out i (f_mul ar gain x) })"

text \<open>A sample of the noise and of the concealed residual.\<close>

definition plc_sample ::
  "('f, 'x) arith_scheme \<Rightarrow> 'f list \<Rightarrow> 'f \<Rightarrow> int \<Rightarrow> 'f \<Rightarrow> int \<Rightarrow> int \<times> 'f list \<times> 'f list \<Rightarrow> (int \<times> 'f list \<times> 'f list) option" where
  "plc_sample ar prev gain lag pitchfact i = (\<lambda>(sd, randvec, PLCresidual). do {
     let sd = take_bit 31 (sd * 69069 + 1);
     let randlag = 50 + sd mod 70;
     randvec \<leftarrow> plc_pick ar prev gain i (i - randlag) randvec;
     PLCresidual \<leftarrow> plc_pick ar prev gain i (i - lag) PLCresidual;
     x \<leftarrow> rd PLCresidual i; y \<leftarrow> rd randvec i;
     PLCresidual \<leftarrow> wr PLCresidual i (f_add ar (f_mul ar pitchfact x) (f_mul ar (f_sub ar (f1 ar) pitchfact) y));
     Some (sd, randvec, PLCresidual) })"

definition plc_conceal ::
  "('f, 'x) arith_scheme \<Rightarrow> 'f list \<Rightarrow> 'f list \<Rightarrow> int \<Rightarrow> 'f iLBC_Dec_Inst \<Rightarrow> ('f list \<times> 'f list \<times> int \<times> 'f \<times> 'f iLBC_Dec_Inst) option" where
  "plc_conceal ar PLCresidual PLClpc inlag dec = do {
     let dec = dec\<lparr>consPLICount := consPLICount dec + 1\<rparr>;
     (lag, gain) \<leftarrow> (if prevPLI dec \<noteq> 1 then plc_search ar (prevResidual dec) inlag else Some (prevLag dec, prevGain dec));
     let gain = (if consPLICount dec > 1 then f_mul ar gain (f_lit ar 9 1) else gain);
     (sd, randvec, PLCresidual, en) \<leftarrow> for_loop 0 BLOCKL (\<lambda>i (sd, randvec, PLCresidual, en). do {
       (sd, randvec, PLCresidual) \<leftarrow> plc_sample ar (prevResidual dec) gain lag (plc_mix ar gain) i (sd, randvec, PLCresidual);
       x \<leftarrow> rd PLCresidual i;
       Some (sd, randvec, PLCresidual, f_add ar en (f_mul ar x x)) })
         (seed dec, local_array ar 240, PLCresidual, f0 ar);
     (PLCresidual, gain, en) \<leftarrow>
       (if f_lt ar (f_sqrt ar (f_div ar en (f_int ar BLOCKL))) (f_int ar 30) then do {
          (PLCresidual, en) \<leftarrow> for_loop 0 BLOCKL (\<lambda>i (PLCresidual, en). do {
            y \<leftarrow> rd randvec i; PLCresidual \<leftarrow> wr PLCresidual i y; x \<leftarrow> rd PLCresidual i;
            Some (PLCresidual, f_add ar en (f_mul ar x x)) }) (PLCresidual, f0 ar);
          Some (PLCresidual, f0 ar, en) }
        else Some (PLCresidual, gain, en));
     PLClpc \<leftarrow> wr PLClpc 0 (f1 ar);
     (PLClpc, _) \<leftarrow> for_loop 1 (LPC_FILTERORDER + 1) (\<lambda>i (PLClpc, ftmp). do {
       x \<leftarrow> rd (prevLpc dec) i; PLClpc \<leftarrow> wr PLClpc i (f_mul ar ftmp x);
       Some (PLClpc, f_mul ar ftmp (f_lit ar 99 2)) }) (PLClpc, f_lit ar 99 2);
     Some (PLCresidual, PLClpc, lag, gain, dec\<lparr>seed := sd, energy := en\<rparr>) }"

text \<open>The first good packet after a loss: its first three subframes are mixed with what the concealment goes on with.\<close>

definition plc_merge ::
  "('f, 'x) arith_scheme \<Rightarrow> 'f list \<Rightarrow> 'f list \<Rightarrow> 'f iLBC_Dec_Inst \<Rightarrow> ('f list \<times> 'f iLBC_Dec_Inst) option" where
  "plc_merge ar PLCresidual decresidual dec = (let lag = prevLag dec; gain = prevGain dec in
     if f_le ar (f_lit ar 5 1) gain then do {
       (sd, randvec, PLCresidual) \<leftarrow> for_loop 0 (3 * SUBL) (plc_sample ar (prevResidual dec) gain lag (plc_mix ar gain))
         (seed dec, local_array ar 240, PLCresidual);
       let offset = 3 * SUBL;
       PLCresidual \<leftarrow> for_loop 0 offset (\<lambda>i PLCresidual. do {
         let ftmp1 = f_div ar (f_int ar (i + 1)) (f_int ar (offset + 1));
         let ftmp = f_sub ar (f1 ar) ftmp1;
         x \<leftarrow> rd PLCresidual i; y \<leftarrow> rd decresidual i;
         wr PLCresidual i (f_add ar (f_mul ar x ftmp) (f_mul ar y ftmp1)) }) PLCresidual;
       PLCresidual \<leftarrow> copy_to PLCresidual offset decresidual offset (BLOCKL - offset);
       Some (PLCresidual, dec\<lparr>seed := sd\<rparr>) }
     else do { PLCresidual \<leftarrow> copy_to PLCresidual 0 decresidual 0 BLOCKL; Some (PLCresidual, dec) })"

text \<open>Without a loss in this packet and the one before it \<open>gain\<close> has no value.\<close>

definition doThePLC ::
  "('f, 'x) arith_scheme \<Rightarrow> 'f list \<Rightarrow> 'f list \<Rightarrow> int \<Rightarrow> 'f list \<Rightarrow> 'f list \<Rightarrow> int \<Rightarrow> int \<Rightarrow> 'f iLBC_Dec_Inst \<Rightarrow>
   ('f list \<times> 'f list \<times> 'f iLBC_Dec_Inst) option" where
  "doThePLC ar PLCresidual PLClpc PLI decresidual lpc l inlag dec = do {
     (PLCresidual, PLClpc, lag, gain, dec) \<leftarrow>
       (if PLI = 1 then plc_conceal ar PLCresidual PLClpc inlag dec
        else if prevPLI dec = 1 then do {
          let lag = prevLag dec; let gain = prevGain dec;
          (PLCresidual, dec) \<leftarrow> plc_merge ar PLCresidual decresidual dec;
          PLClpc \<leftarrow> copy_to PLClpc 0 lpc l (LPC_FILTERORDER + 1);
          Some (PLCresidual, PLClpc, lag, gain, dec\<lparr>consPLICount := 0\<rparr>) }
        else do {
          PLCresidual \<leftarrow> copy_to PLCresidual 0 decresidual 0 BLOCKL;
          PLClpc \<leftarrow> copy_to PLClpc 0 lpc l (LPC_FILTERORDER + 1);
          Some (PLCresidual, PLClpc, 20, f_junk ar, dec) });
     lpc \<leftarrow> copy_to (prevLpc dec) 0 PLClpc 0 (LPC_FILTERORDER + 1);
     res \<leftarrow> copy_to (prevResidual dec) 0 PLCresidual 0 BLOCKL;
     Some (PLCresidual, PLClpc,
       dec\<lparr>prevLag := lag, prevGain := gain, prevPLI := PLI, prevLpc := lpc, prevResidual := res\<rparr>) }"

section \<open>Safety\<close>

text \<open>What holds of the decoder between two packets: the sizes of its arrays, and its lags reach back into the residual
  of the last frame.\<close>

definition lag_ok :: "int \<Rightarrow> bool" where
  "lag_ok l \<longleftrightarrow> 17 \<le> l \<and> l \<le> 122"

definition dec_ok :: "'f iLBC_Dec_Inst \<Rightarrow> bool" where
  "dec_ok dec \<longleftrightarrow> length (syntMem dec) = 10 \<and> length (lsfdeqold dec) = 10 \<and> 20 \<le> last_lag dec \<and> last_lag dec \<le> 119 \<and>
    lag_ok (prevLag dec) \<and> length (prevLpc dec) = 11 \<and> length (prevResidual dec) = 240 \<and> length (old_syntdenum dec) = 66 \<and>
    length (enh_buf dec) = 640 \<and> length (enh_period dec) = 8"

lemma dec_ok_update [simp]:
  "dec_ok (dec\<lparr>seed := n\<rparr>) = dec_ok dec" "dec_ok (dec\<lparr>energy := x\<rparr>) = dec_ok dec"
  "dec_ok (dec\<lparr>consPLICount := n\<rparr>) = dec_ok dec" "dec_ok (dec\<lparr>prevGain := x\<rparr>) = dec_ok dec"
  "dec_ok (dec\<lparr>prevPLI := n\<rparr>) = dec_ok dec" "dec_ok (dec\<lparr>prev_enh_pl := n\<rparr>) = dec_ok dec"
  by (simp_all add: dec_ok_def)

lemma compCorr_safe [yields_rules]:
  assumes "0 \<le> n" "n \<le> b" "b \<le> int (length buf)" "0 \<le> l" "n + l \<le> b" "\<And>x y. P (x, y)"
  shows "yields (compCorr ar buf l b n) P"
  unfolding compCorr_def by (intro yields_rules for_scalar) (use assms in auto)

lemma plc_search_safe [yields_rules]:
  assumes "length buf = 240" "20 \<le> l" "l \<le> 119" "\<And>k x. lag_ok k \<Longrightarrow> P (k, x)"
  shows "yields (plc_search ar buf l) P"
  unfolding plc_search_def
  by (intro yields_rules for_invariant [where I = "\<lambda>(_, _, k). lag_ok k"]) (use assms in \<open>auto simp: lag_ok_def\<close>)

lemma plc_pick_safe [yields_rules]:
  assumes "length p = 240" "- 240 \<le> k" "k < i" "i < 240" "0 \<le> i" "length a = 240" "\<And>b. length b = length a \<Longrightarrow> P b"
  shows "yields (plc_pick ar p g i k a) P"
  unfolding plc_pick_def by (intro yields_rules) (use assms in auto)

lemma plc_sample_safe [yields_rules]:
  assumes "length p = 240" "lag_ok l" "0 \<le> i" "i < 240" "length a = 240" "length b = 240"
    and "\<And>n a' b'. length a' = length a \<Longrightarrow> length b' = length b \<Longrightarrow> P (n, a', b')"
  shows "yields (plc_sample ar p g l f i (m, a, b)) P"
proof -
  have "0 \<le> x mod 70" "x mod 70 < 70" for x :: int by simp_all
  then have "i - (50 + x mod 70) < i" "- 240 \<le> i - (50 + x mod 70)" for x :: int using assms(3) by (smt (verit))+
  then show ?thesis unfolding plc_sample_def prod.case by (intro yields_rules) (use assms in \<open>auto simp: lag_ok_def\<close>)
qed

lemma plc_conceal_safe [yields_rules]:
  assumes "dec_ok dec" "length a = 240" "length b = 11" "20 \<le> l" "l \<le> 119"
    and "\<And>a' b' k g n x c. length a' = length a \<Longrightarrow> length b' = length b \<Longrightarrow> lag_ok k \<Longrightarrow>
      P (a', b', k, g, dec\<lparr>consPLICount := c, seed := n, energy := x\<rparr>)"
  shows "yields (plc_conceal ar a b l dec) P"
  unfolding plc_conceal_def
  by (intro yields_rules for_array_scalar
      for_invariant [where I = "\<lambda>(_, r, p, _). length r = 240 \<and> length p = 240" and lo = 0 and hi = 240])
    (use assms in \<open>auto simp: dec_ok_def\<close>)

lemma plc_merge_safe [yields_rules]:
  assumes "dec_ok dec" "length a = 240" "length d = 240"
    and "\<And>a' n. length a' = length a \<Longrightarrow> P (a', dec\<lparr>seed := n\<rparr>)"
  shows "yields (plc_merge ar a d dec) P"
  unfolding plc_merge_def
  by (intro yields_rules for_array for_invariant [where I = "\<lambda>(_, r, p). length r = 240 \<and> length p = 240" and lo = 0 and hi = "3 * SUBL"])
    (use assms assms(4) [where n = "seed dec"] in \<open>auto simp: dec_ok_def intro!: plc_sample_safe\<close>)

lemma doThePLC_safe [yields_rules]:
  assumes "dec_ok dec" "length a = 240" "length b = 11" "20 \<le> l" "l \<le> 119" "length d = 240" "0 \<le> k" "k + 11 \<le> int (length lpc)"
    and "\<And>a' b' dec'. length a' = length a \<Longrightarrow> length b' = length b \<Longrightarrow> dec_ok dec' \<Longrightarrow> use_enhancer dec' = use_enhancer dec \<Longrightarrow>
      enh_period dec' = enh_period dec \<Longrightarrow> P (a', b', dec')"
  shows "yields (doThePLC ar a b pli d lpc k l dec) P"
proof -
  have "lag_ok (prevLag dec)" "lag_ok 20" using assms(1) by (simp_all add: dec_ok_def lag_ok_def)
  moreover have "length (prevLpc dec) = 11" "length (prevResidual dec) = 240" using assms(1) by (simp_all add: dec_ok_def)
  ultimately show ?thesis unfolding doThePLC_def
    by (intro yields_rules) (use assms(1-8) in \<open>auto intro!: assms(9) simp: dec_ok_def\<close>)
qed

end
