(* ===== verification/Ilbc_Enhancer.thy ===== *)
theory Ilbc_Enhancer
  imports Ilbc_Plc
begin

text \<open>
  The enhancer of the decoder, \<open>enhancer.c\<close> of \<open>coding/iLBC_1.1.0\<close>, and \<open>DownSample\<close> of \<open>filter.c\<close>. A block
  is smoothed with the segments one, two and three pitch periods before and after it. Where these are is computed
  with \<open>float\<close>s and turned into indices, so that here the accesses depend on the arithmetic.
\<close>

abbreviation "ENH_BLOCKL \<equiv> 80 :: int"
abbreviation "ENH_HL \<equiv> 3 :: int"
abbreviation "ENH_SLOP \<equiv> 2 :: int"
abbreviation "ENH_OVERHANG \<equiv> 2 :: int"
abbreviation "ENH_UPS0 \<equiv> 4 :: int"
abbreviation "ENH_FL0 \<equiv> 3 :: int"
abbreviation "ENH_VECTL \<equiv> 86 :: int"
abbreviation "ENH_NBLOCKS \<equiv> 3 :: int"
abbreviation "ENH_NBLOCKS_EXTRA \<equiv> 5 :: int"
abbreviation "ENH_NBLOCKS_TOT \<equiv> 8 :: int"
abbreviation "ENH_BUFL \<equiv> 640 :: int"

section \<open>Correlation and sampling\<close>

definition NearestNeighbor :: "('f, 'x) arith_scheme \<Rightarrow> 'f list \<Rightarrow> 'f \<Rightarrow> int \<Rightarrow> int option" where
  "NearestNeighbor ar array value arlength = do {
     x \<leftarrow> rd array 0;
     let crit = f_sub ar x value;
     (index, _) \<leftarrow> for_loop 1 arlength (\<lambda>i (index, bestcrit). do {
       x \<leftarrow> rd array i;
       let crit = f_sub ar x value; let crit = f_mul ar crit crit;
       Some (if f_lt ar crit bestcrit then (i, crit) else (index, bestcrit)) }) (0, f_mul ar crit crit);
     Some index }"

definition mycorr1 ::
  "('f, 'x) arith_scheme \<Rightarrow> 'f list \<Rightarrow> int \<Rightarrow> 'f list \<Rightarrow> int \<Rightarrow> int \<Rightarrow> 'f list \<Rightarrow> int \<Rightarrow> int \<Rightarrow> 'f list option" where
  "mycorr1 ar corr c seq1 p dim1 seq2 q dim2 = for_loop 0 (dim1 - dim2 + 1) (\<lambda>i corr. do {
     corr \<leftarrow> wr corr (c + i) (f0 ar);
     for_loop 0 dim2 (\<lambda>j corr. do {
       z \<leftarrow> rd corr (c + i); x \<leftarrow> rd seq1 (p + i + j); y \<leftarrow> rd seq2 (q + j);
       wr corr (c + i) (f_add ar z (f_mul ar x y)) }) corr }) corr"

text \<open>A sample: \<open>n\<close> products of \<open>seq1\<close>, backwards from \<open>s\<close>, and the filter from \<open>pp\<close> on.\<close>

definition upsample1 ::
  "('f, 'x) arith_scheme \<Rightarrow> 'f list \<Rightarrow> int \<Rightarrow> int \<Rightarrow> int \<Rightarrow> 'f list \<times> int \<Rightarrow> ('f list \<times> int) option" where
  "upsample1 ar seq1 s pp n = (\<lambda>(useq1, pu). do {
     useq1 \<leftarrow> wr useq1 pu (f0 ar);
     useq1 \<leftarrow> for_loop 0 n (\<lambda>k useq1. do {
       z \<leftarrow> rd useq1 pu; x \<leftarrow> rd seq1 (s - k); y \<leftarrow> rd (polyphaserTbl ar) (pp + k);
       wr useq1 pu (f_add ar z (f_mul ar x y)) }) useq1;
     Some (useq1, pu + 1) })"

definition enh_upsample :: "('f, 'x) arith_scheme \<Rightarrow> 'f list \<Rightarrow> 'f list \<Rightarrow> int \<Rightarrow> int \<Rightarrow> 'f list option" where
  "enh_upsample ar useq1 seq1 dim1 hfl =
    (let fl = 2 * hfl + 1;
         (hfl, filterlength, polyp) =
           (if fl > dim1 then (let hfl2 = dim1 sdiv 2 in (hfl2, 2 * hfl2 + 1, \<lambda>j. j * fl + hfl - hfl2))
            else (hfl, fl, \<lambda>j. j * fl)) in do {
     (useq1, pu) \<leftarrow> for_loop hfl filterlength (\<lambda>i. for_loop 0 ENH_UPS0 (\<lambda>j. upsample1 ar seq1 i (polyp j) (i + 1))) (useq1, 0);
     (useq1, pu) \<leftarrow> for_loop filterlength dim1 (\<lambda>i. for_loop 0 ENH_UPS0 (\<lambda>j. upsample1 ar seq1 i (polyp j) filterlength)) (useq1, pu);
     (useq1, _) \<leftarrow> for_loop 1 (hfl + 1) (\<lambda>q. for_loop 0 ENH_UPS0 (\<lambda>j. upsample1 ar seq1 (dim1 - 1) (polyp j + q) (filterlength - q))) (useq1, pu);
     Some useq1 })"

definition xCorrCoef :: "('f, 'x) arith_scheme \<Rightarrow> 'f list \<Rightarrow> int \<Rightarrow> 'f list \<Rightarrow> int \<Rightarrow> int \<Rightarrow> 'f option" where
  "xCorrCoef ar target t regressor r subl = do {
     (ftmp1, ftmp2) \<leftarrow> for_loop 0 subl (\<lambda>i (ftmp1, ftmp2). do {
       x \<leftarrow> rd target (t + i); y \<leftarrow> rd regressor (r + i);
       Some (f_add ar ftmp1 (f_mul ar x y), f_add ar ftmp2 (f_mul ar y y)) }) (f0 ar, f0 ar);
     Some (if f_lt ar (f0 ar) ftmp1 then f_div ar (f_mul ar ftmp1 ftmp1) ftmp2 else f0 ar) }"

text \<open>The lag, of those below a bound, with the greatest coefficient.\<close>

definition best_lag :: "('f, 'x) arith_scheme \<Rightarrow> (int \<Rightarrow> 'f option) \<Rightarrow> int \<Rightarrow> int \<Rightarrow> int option" where
  "best_lag ar coef lo hi = do {
     maxcc \<leftarrow> coef lo;
     (lag, _) \<leftarrow> for_loop (lo + 1) hi (\<lambda>ilag (lag, maxcc). do {
       cc \<leftarrow> coef ilag;
       Some (if f_lt ar maxcc cc then (ilag, cc) else (lag, maxcc)) }) (lo, maxcc);
     Some lag }"

text \<open>The second loop is entered once, with an index that is not below the length.\<close>

definition DownSample :: "('f, 'x) arith_scheme \<Rightarrow> 'f list \<Rightarrow> int \<Rightarrow> 'f list \<Rightarrow> int \<Rightarrow> 'f list \<Rightarrow> 'f list \<Rightarrow> 'f list option" where
  "DownSample ar In p Coef lengthIn state Out = do {
     (Out, q) \<leftarrow> for_step 3 lengthIn 2 (\<lambda>i (Out, q). do {
       let stop = (if i < 7 then i + 1 else 7);
       o' \<leftarrow> for_loop 0 stop (\<lambda>j o'. do {
         c \<leftarrow> rd Coef j; x \<leftarrow> rd In (p + i - j); Some (f_add ar o' (f_mul ar c x)) }) (f0 ar);
       o' \<leftarrow> for_loop (i + 1) 7 (\<lambda>j o'. do {
         c \<leftarrow> rd Coef j; x \<leftarrow> rd state (5 - (j - (i + 1))); Some (f_add ar o' (f_mul ar c x)) }) o';
       Out \<leftarrow> wr Out q o'; Some (Out, q + 1) }) (Out, 0);
     (Out, q) \<leftarrow> for_step (lengthIn + 2) (lengthIn + 3) 2 (\<lambda>i (Out, q). do {
       (o', q) \<leftarrow> (if i < lengthIn then for_loop 0 7 (\<lambda>j (o', q). do {
           c \<leftarrow> rd Coef j; x \<leftarrow> rd Out q; Some (f_add ar o' (f_mul ar c x), q - 1) }) (f0 ar, q)
         else do {
           o' \<leftarrow> for_loop 0 (7 - (i - lengthIn)) (\<lambda>j o'. do {
             c \<leftarrow> rd Coef (i - lengthIn + j); x \<leftarrow> rd In (p + lengthIn - 1 - j); Some (f_add ar o' (f_mul ar c x)) }) (f0 ar);
           Some (o', q) });
       Out \<leftarrow> wr Out q o'; Some (Out, q + 1) }) (Out, q);
     Some Out }"

section \<open>Segments\<close>

definition refiner ::
  "('f, 'x) arith_scheme \<Rightarrow> 'f list \<Rightarrow> int \<Rightarrow> 'f list \<Rightarrow> int \<Rightarrow> int \<Rightarrow> 'f \<Rightarrow> ('f list \<times> 'f) option" where
  "refiner ar seg g idata idatal centerStartPos estSegPos =
    (let estSegPosRounded = f_trunc ar (f_sub ar estSegPos (f_lit ar 5 1));
         searchSegStartPos = estSegPosRounded - ENH_SLOP;
         searchSegStartPos = (if searchSegStartPos < 0 then 0 else searchSegStartPos);
         searchSegEndPos = estSegPosRounded + ENH_SLOP;
         searchSegEndPos = (if searchSegEndPos + ENH_BLOCKL \<ge> idatal then idatal - ENH_BLOCKL - 1 else searchSegEndPos);
         corrdim = searchSegEndPos - searchSegStartPos + 1 in do {
     corrVec \<leftarrow> mycorr1 ar (local_array ar 5) 0 idata searchSegStartPos (corrdim + ENH_BLOCKL - 1) idata centerStartPos ENH_BLOCKL;
     corrVecUps \<leftarrow> enh_upsample ar (local_array ar 20) corrVec corrdim ENH_FL0;
     x \<leftarrow> rd corrVecUps 0;
     (tloc, _) \<leftarrow> for_loop 1 (ENH_UPS0 * corrdim) (\<lambda>i (tloc, maxv). do {
       x \<leftarrow> rd corrVecUps i;
       Some (if f_lt ar maxv x then (i, x) else (tloc, maxv)) }) (0, x);
     let updStartPos = f_add ar (f_add ar (f_int ar searchSegStartPos) (f_div ar (f_int ar tloc) (f_int ar ENH_UPS0))) (f1 ar);
     let tloc2 = tloc div ENH_UPS0;
     let tloc2 = (if tloc > tloc2 * ENH_UPS0 then tloc2 + 1 else tloc2);
     let st = searchSegStartPos + tloc2 - ENH_FL0;
     let en = st + ENH_VECTL;
     vect \<leftarrow>
       (if st < 0 then do {
          vect \<leftarrow> set_to (local_array ar 86) 0 (f0 ar) (- st);
          copy_to vect (- st) idata 0 (ENH_VECTL + st) }
        else if en > idatal then do {
          vect \<leftarrow> copy_to (local_array ar 86) 0 idata st (ENH_VECTL - (en - idatal));
          set_to vect (ENH_VECTL - (en - idatal)) (f0 ar) (en - idatal) }
        else copy_to (local_array ar 86) 0 idata st ENH_VECTL);
     let fraction = tloc2 * ENH_UPS0 - tloc;
     seg \<leftarrow> mycorr1 ar seg g vect 0 ENH_VECTL (polyphaserTbl ar) ((2 * ENH_FL0 + 1) * fraction) (2 * ENH_FL0 + 1);
     Some (seg, updStartPos) })"

text \<open>The waveforms of \<open>sseq\<close>, weighted; the current one has no part in it.\<close>

definition smath_surround :: "('f, 'x) arith_scheme \<Rightarrow> 'f list \<Rightarrow> int \<Rightarrow> 'f list option" where
  "smath_surround ar sseq hl = do {
     wt \<leftarrow> for_loop 1 (2 * hl + 2) (\<lambda>i wt. wr wt (i - 1)
       (f_mul ar (f_lit ar 5 1) (f_sub ar (f1 ar)
         (f_cos ar (f_div ar (f_mul ar (f_mul ar (f_int ar 2) (f_lit ar 314159265358979323846 20)) (f_int ar i)) (f_int ar (2 * hl + 2)))))))
       (local_array ar 7);
     wt \<leftarrow> wr wt hl (f0 ar);
     surround \<leftarrow> for_loop 0 ENH_BLOCKL (\<lambda>i surround. do {
       x \<leftarrow> rd sseq i; w \<leftarrow> rd wt 0; wr surround i (f_mul ar x w) }) (local_array ar 240);
     let add = (\<lambda>k. for_loop 0 ENH_BLOCKL (\<lambda>i surround. do {
       z \<leftarrow> rd surround i; x \<leftarrow> rd sseq (k * ENH_BLOCKL + i); w \<leftarrow> rd wt k; wr surround i (f_add ar z (f_mul ar x w)) }));
     surround \<leftarrow> for_loop 1 hl add surround;
     for_loop (hl + 1) (2 * hl + 1) add surround }"

definition smath :: "('f, 'x) arith_scheme \<Rightarrow> 'f list \<Rightarrow> int \<Rightarrow> 'f list \<Rightarrow> int \<Rightarrow> 'f \<Rightarrow> 'f list option" where
  "smath ar odata d sseq hl alpha0 = do {
     surround \<leftarrow> smath_surround ar sseq hl;
     (w00, w11, w10) \<leftarrow> for_loop 0 ENH_BLOCKL (\<lambda>i (w00, w11, w10). do {
       x \<leftarrow> rd sseq (hl * ENH_BLOCKL + i); y \<leftarrow> rd surround i;
       Some (f_add ar w00 (f_mul ar x x), f_add ar w11 (f_mul ar y y), f_add ar w10 (f_mul ar y x)) }) (f0 ar, f0 ar, f0 ar);
     let w11 = (if f_lt ar (f_abs ar w11) (f1 ar) then f1 ar else w11);
     let C = f_sqrt ar (f_div ar w00 w11);
     (odata, errs) \<leftarrow> for_loop 0 ENH_BLOCKL (\<lambda>i (odata, errs). do {
       y \<leftarrow> rd surround i; odata \<leftarrow> wr odata (d + i) (f_mul ar C y);
       x \<leftarrow> rd sseq (hl * ENH_BLOCKL + i); z \<leftarrow> rd odata (d + i);
       let err = f_sub ar x z;
       Some (odata, f_add ar errs (f_mul ar err err)) }) (odata, f0 ar);
     if f_lt ar (f_mul ar alpha0 w00) errs then do {
       let w00 = (if f_lt ar w00 (f1 ar) then f1 ar else w00);
       let denom = f_div ar (f_sub ar (f_mul ar w11 w00) (f_mul ar w10 w10)) (f_mul ar w00 w00);
       let (A, B) =
         (if f_lt ar (f_lit ar 1 4) denom then
            (let A = f_sqrt ar (f_div ar (f_sub ar alpha0 (f_div ar (f_mul ar alpha0 alpha0) (f_int ar 4))) denom);
                 B = f_sub ar (f_div ar (f_neg ar alpha0) (f_int ar 2)) (f_div ar (f_mul ar A w10) w00)
             in (A, f_add ar B (f1 ar)))
          else (f0 ar, f1 ar));
       for_loop 0 ENH_BLOCKL (\<lambda>i odata. do {
         y \<leftarrow> rd surround i; x \<leftarrow> rd sseq (hl * ENH_BLOCKL + i);
         wr odata (d + i) (f_add ar (f_mul ar A y) (f_mul ar B x)) }) odata }
     else Some odata }"

text \<open>The state of \<open>getsseq\<close>: the sequence, and for each of its segments its start and the block whose period it has.\<close>

type_synonym 'f segments = "'f list \<times> 'f list \<times> int list"

definition getsseq_past ::
  "('f, 'x) arith_scheme \<Rightarrow> 'f list \<Rightarrow> int \<Rightarrow> int \<Rightarrow> 'f list \<Rightarrow> 'f list \<Rightarrow> int \<Rightarrow> int \<Rightarrow> 'f segments \<Rightarrow> 'f segments option" where
  "getsseq_past ar idata idatal centerStartPos period plocs periodl q = (\<lambda>(sseq, blockStartPos, lagBlock). do {
     b1 \<leftarrow> rd blockStartPos (q + 1); k1 \<leftarrow> rd lagBlock (q + 1); p1 \<leftarrow> rd period k1;
     let b = f_sub ar b1 p1;
     blockStartPos \<leftarrow> wr blockStartPos q b;
     k \<leftarrow> NearestNeighbor ar plocs (f_sub ar (f_add ar b (f_int ar 40)) p1) periodl;
     lagBlock \<leftarrow> wr lagBlock q k;
     if f_le ar (f0 ar) (f_sub ar b (f_int ar ENH_OVERHANG)) then do {
       (sseq, b) \<leftarrow> refiner ar sseq (q * ENH_BLOCKL) idata idatal centerStartPos b;
       blockStartPos \<leftarrow> wr blockStartPos q b;
       Some (sseq, blockStartPos, lagBlock) }
     else do {
       sseq \<leftarrow> set_to sseq (q * ENH_BLOCKL) (f0 ar) ENH_BLOCKL;
       Some (sseq, blockStartPos, lagBlock) } })"

definition getsseq_future ::
  "('f, 'x) arith_scheme \<Rightarrow> 'f list \<Rightarrow> int \<Rightarrow> int \<Rightarrow> 'f list \<Rightarrow> 'f list \<Rightarrow> int \<Rightarrow> int \<Rightarrow> 'f segments \<Rightarrow> 'f segments option" where
  "getsseq_future ar idata idatal centerStartPos period plocs2 periodl q = (\<lambda>(sseq, blockStartPos, lagBlock). do {
     b1 \<leftarrow> rd blockStartPos (q - 1);
     k \<leftarrow> NearestNeighbor ar plocs2 (f_add ar b1 (f_int ar 40)) periodl;
     lagBlock \<leftarrow> wr lagBlock q k;
     p \<leftarrow> rd period k;
     let b = f_add ar b1 p;
     blockStartPos \<leftarrow> wr blockStartPos q b;
     if f_lt ar (f_add ar (f_add ar b (f_int ar ENH_BLOCKL)) (f_int ar ENH_OVERHANG)) (f_int ar idatal) then do {
       (sseq, b) \<leftarrow> refiner ar sseq (q * ENH_BLOCKL) idata idatal centerStartPos b;
       blockStartPos \<leftarrow> wr blockStartPos q b;
       Some (sseq, blockStartPos, lagBlock) }
     else do {
       sseq \<leftarrow> set_to sseq (q * ENH_BLOCKL) (f0 ar) ENH_BLOCKL;
       Some (sseq, blockStartPos, lagBlock) } })"

definition getsseq ::
  "('f, 'x) arith_scheme \<Rightarrow> 'f list \<Rightarrow> 'f list \<Rightarrow> int \<Rightarrow> int \<Rightarrow> 'f list \<Rightarrow> 'f list \<Rightarrow> int \<Rightarrow> int \<Rightarrow> 'f list option" where
  "getsseq ar sseq idata idatal centerStartPos period plocs periodl hl =
    (let centerEndPos = centerStartPos + ENH_BLOCKL - 1 in do {
     k \<leftarrow> NearestNeighbor ar plocs (f_mul ar (f_lit ar 5 1) (f_int ar (centerStartPos + centerEndPos))) periodl;
     lagBlock \<leftarrow> wr (replicate 7 0) hl k;
     blockStartPos \<leftarrow> wr (local_array ar 7) hl (f_int ar centerStartPos);
     sseq \<leftarrow> copy_to sseq (ENH_BLOCKL * hl) idata centerStartPos ENH_BLOCKL;
     (sseq, blockStartPos, lagBlock) \<leftarrow>
       for_down (hl - 1) 0 (getsseq_past ar idata idatal centerStartPos period plocs periodl) (sseq, blockStartPos, lagBlock);
     plocs2 \<leftarrow> for_loop 0 periodl (\<lambda>i plocs2. do {
       x \<leftarrow> rd plocs i; p \<leftarrow> rd period i; wr plocs2 i (f_sub ar x p) }) (local_array ar 20);
     (sseq, _, _) \<leftarrow>
       for_loop (hl + 1) (2 * hl + 1) (getsseq_future ar idata idatal centerStartPos period plocs2 periodl) (sseq, blockStartPos, lagBlock);
     Some sseq })"

definition enhancer ::
  "('f, 'x) arith_scheme \<Rightarrow> 'f list \<Rightarrow> int \<Rightarrow> 'f list \<Rightarrow> int \<Rightarrow> int \<Rightarrow> 'f \<Rightarrow> 'f list \<Rightarrow> 'f list \<Rightarrow> int \<Rightarrow> 'f list option" where
  "enhancer ar odata d idata idatal centerStartPos alpha0 period plocs periodl = do {
     sseq \<leftarrow> getsseq ar (local_array ar 560) idata idatal centerStartPos period plocs periodl ENH_HL;
     smath ar odata d sseq ENH_HL alpha0 }"

section \<open>The enhancer of a frame\<close>

text \<open>After a loss the block before the frame is replaced with the frame continued backwards.\<close>

definition enh_backwards :: "('f, 'x) arith_scheme \<Rightarrow> 'f list \<Rightarrow> 'f list \<Rightarrow> 'f list option" where
  "enh_backwards ar In buf = do {
     lag \<leftarrow> best_lag ar (\<lambda>ilag. xCorrCoef ar In 0 In ilag ENH_BLOCKL) 20 120;
     (ftmp1, ftmp2) \<leftarrow> for_loop 0 ENH_BLOCKL (\<lambda>i (ftmp1, ftmp2). do {
       x \<leftarrow> rd In i; y \<leftarrow> rd In (i + lag);
       Some (f_add ar ftmp1 (f_mul ar x y), f_add ar ftmp2 (f_mul ar y y)) }) (f0 ar, f0 ar);
     let gain = (if f_lt ar (f0 ar) ftmp1 then f_div ar ftmp1 ftmp2 else f0 ar);
     let gain = (if f_lt ar (f1 ar) gain then f1 ar else if f_lt ar gain (f_int ar (- 1)) then f_int ar (- 1) else gain);
     let start = (if lag > ENH_BLOCKL then ENH_BLOCKL else lag);
     (buf, p, _) \<leftarrow> for_down start 1 (\<lambda>_ (buf, p, i). do {
       x \<leftarrow> rd In i; buf \<leftarrow> wr buf p (f_mul ar gain x); Some (buf, p - 1, i - 1) })
         (buf, ENH_NBLOCKS_EXTRA * ENH_BLOCKL - 1, lag - 1);
     (buf, _, _) \<leftarrow> for_down (ENH_BLOCKL - 1 - lag) 0 (\<lambda>_ (buf, p, i). do {
       x \<leftarrow> rd buf i; buf \<leftarrow> wr buf p (f_mul ar gain x); Some (buf, p - 1, i - 1) })
         (buf, p, ENH_NBLOCKS_EXTRA * ENH_BLOCKL - 1);
     Some buf }"

definition enhancerInterface ::
  "('f, 'x) arith_scheme \<Rightarrow> 'f list \<Rightarrow> 'f list \<Rightarrow> 'f iLBC_Dec_Inst \<Rightarrow> (int \<times> 'f list \<times> 'f iLBC_Dec_Inst) option" where
  "enhancerInterface ar out In dec = (let inLen = ENH_NBLOCKS * ENH_BLOCKL + 120 in do {
     buf \<leftarrow> copy_to (enh_buf dec) 0 (enh_buf dec) (ENH_NBLOCKS * ENH_BLOCKL) (ENH_NBLOCKS_EXTRA * ENH_BLOCKL);
     buf \<leftarrow> copy_to buf (ENH_NBLOCKS_EXTRA * ENH_BLOCKL) In 0 (ENH_NBLOCKS * ENH_BLOCKL);
     buf \<leftarrow> (if prev_enh_pl dec = 1 then enh_backwards ar In buf else Some buf);
     period \<leftarrow> copy_to (enh_period dec) 0 (enh_period dec) ENH_NBLOCKS ENH_NBLOCKS_EXTRA;
     lpState \<leftarrow> copy_to (local_array ar 6) 0 buf (ENH_NBLOCKS_EXTRA * ENH_BLOCKL - 126) 6;
     downsampled \<leftarrow> DownSample ar buf (ENH_NBLOCKS_EXTRA * ENH_BLOCKL - 120) (lpFilt_coefsTbl ar) inLen lpState (local_array ar 180);
     (period, lag) \<leftarrow> for_loop 0 ENH_NBLOCKS (\<lambda>iblock (period, _). do {
       lag \<leftarrow> best_lag ar (\<lambda>ilag. xCorrCoef ar downsampled (60 + iblock * 40) downsampled (60 + iblock * 40 - ilag) 40) 10 60;
       period \<leftarrow> wr period (iblock + ENH_NBLOCKS_EXTRA) (f_mul ar (f_int ar lag) (f_int ar 2));
       Some (period, lag) }) (period, 0);
     out \<leftarrow> for_loop 0 ENH_NBLOCKS (\<lambda>iblock out.
       enhancer ar out (iblock * ENH_BLOCKL) buf ENH_BUFL ((4 + iblock) * ENH_BLOCKL) (f_lit ar 5 2) period (enh_plocsTbl ar) ENH_NBLOCKS_TOT) out;
     Some (lag * 2, out, dec\<lparr>enh_buf := buf, enh_period := period\<rparr>) })"

section \<open>Safety\<close>

lemma NearestNeighbor_safe [yields_rules]:
  assumes "0 < n" "n \<le> int (length a)" "\<And>k. 0 \<le> k \<Longrightarrow> k < n \<Longrightarrow> P k"
  shows "yields (NearestNeighbor ar a x n) P"
  unfolding NearestNeighbor_def
  by (intro yields_rules for_invariant [where I = "\<lambda>(k, _). 0 \<le> k \<and> k < n"]) (use assms in auto)

lemma mycorr1_safe [yields_rules]:
  assumes "0 \<le> m" "0 \<le> c" "c + (n - m) < int (length a)" "0 \<le> p" "p + n \<le> int (length s)" "0 \<le> q" "q + m \<le> int (length t)"
    and "\<And>b. length b = length a \<Longrightarrow> P b"
  shows "yields (mycorr1 ar a c s p n t q m) P"
  unfolding mycorr1_def by (intro yields_rules for_array) (use assms in auto)

lemma upsample1_safe [yields_rules]:
  assumes "0 \<le> pu" "pu < int (length a)" "n \<le> k + 1" "k < int (length s)" "0 \<le> pp" "pp + n \<le> 28"
    and "\<And>b. length b = length a \<Longrightarrow> P (b, pu + 1)"
  shows "yields (upsample1 ar s k pp n (a, pu)) P"
  unfolding upsample1_def prod.case by (intro yields_rules for_array) (use assms in auto)

lemma xCorrCoef_safe [yields_rules]:
  assumes "0 \<le> t" "t + n \<le> int (length a)" "0 \<le> r" "r + n \<le> int (length b)" "\<And>x. P x"
  shows "yields (xCorrCoef ar a t b r n) P"
  unfolding xCorrCoef_def by (intro yields_rules for_scalar) (use assms in auto)

lemma best_lag_safe [yields_rules]:
  assumes "lo < hi" "\<And>k. lo \<le> k \<Longrightarrow> k < hi \<Longrightarrow> yields (f k) (\<lambda>_. True)" "\<And>k. lo \<le> k \<Longrightarrow> k < hi \<Longrightarrow> P k"
  shows "yields (best_lag ar f lo hi) P"
  unfolding best_lag_def
  by (intro yields_bind yields_mono [OF assms(2)] for_invariant [where I = "\<lambda>(k, _). lo \<le> k \<and> k < hi"] yields_split yields_Some)
    (use assms in auto)

text \<open>The two loops of \<open>enh_backwards\<close>, for the lag \<open>l\<close>.\<close>

lemma enh_backwards_first:
  assumes "length a = 240" "length buf = 640" "0 \<le> l" "l \<le> 119" "l \<le> 80 \<longrightarrow> start = l" "80 < l \<longrightarrow> start = 80"
    and "\<And>b i. length b = 640 \<Longrightarrow> P (b, 399 - start, i)"
  shows "yields (for_down start 1 (\<lambda>_ (buf, p, i). do { x \<leftarrow> rd a i; buf \<leftarrow> wr buf p (f_mul ar gain x); Some (buf, p - 1, i - 1) })
      (buf, 399, l - 1)) P"
  by (rule for_down_counted [where I = "\<lambda>n (b, p, i). length b = 640 \<and> p = 399 - (start - n) \<and> i = l - 1 - (start - n)"])
    (use assms in \<open>auto intro!: yields_rules\<close>)

lemma enh_backwards_second:
  assumes "length buf = 640" "l \<le> 119" "0 \<le> l" "l < 80 \<longrightarrow> p = 399 - l" "\<And>b p i. length b = 640 \<Longrightarrow> P (b, p, i)"
  shows "yields (for_down (79 - l) 0 (\<lambda>_ (buf, p, i). do { x \<leftarrow> rd buf i; buf \<leftarrow> wr buf p (f_mul ar gain x); Some (buf, p - 1, i - 1) })
      (buf, p, 399)) P"
proof (cases "l < 80")
  case True
  then show ?thesis
    by (intro for_down_counted [where I = "\<lambda>n (b, p, i). length b = 640 \<and> p = 320 + n \<and> i = 320 + l + n"])
      (use assms in \<open>auto intro!: yields_rules\<close>)
qed (use assms in \<open>auto intro!: for_down_none\<close>)

lemma enh_backwards_safe [yields_rules]:
  assumes "length a = 240" "length buf = 640" "\<And>b. length b = 640 \<Longrightarrow> P b"
  shows "yields (enh_backwards ar a buf) P"
proof -
  have 1: "80 * 5 - 1 = (399 :: int)" "5 * 80 - 1 = (399 :: int)" "80 - 1 - l = 79 - l" for l :: int by simp_all
  show ?thesis unfolding enh_backwards_def 1
    by (intro yields_rules for_scalar enh_backwards_first enh_backwards_second) (use assms in auto)
qed

lemma DownSample_safe [yields_rules]:
  assumes "length buf = 640" "length st = 6" "length co = 7" "length out = 180" "\<And>b. length b = 180 \<Longrightarrow> P b"
  shows "yields (DownSample ar buf 280 co 360 st out) P"
  unfolding DownSample_def for_step_def
  by (intro yields_rules for_counted [where I = "\<lambda>n (out, q). length out = 180 \<and> q = n" and lo = 0 and hi = "(360 - 3 + 2 - 1) div 2"]
     for_counted [where I = "\<lambda>n (out, q). length out = 180 \<and> q = 179 + n" and lo = 0 and hi = "(360 + 3 - (360 + 2) + 2 - 1) div 2"] for_scalar)
    (use assms in \<open>auto split: if_splits\<close>)

section \<open>Where the segments are\<close>

text \<open>What the enhancer needs of the arithmetic: that multiples of a quarter, up to a bound that is far below what a
  \<open>float\<close> holds exactly, are added, subtracted, compared and truncated exactly. \<open>q n\<close> is the value of \<open>n / 4\<close>.\<close>

definition exact_quarters :: "('f, 'x) arith_scheme \<Rightarrow> (int \<Rightarrow> 'f) \<Rightarrow> bool" where
  "exact_quarters ar q \<longleftrightarrow> (\<forall>a b. \<bar>a\<bar> \<le> 10000 \<and> \<bar>b\<bar> \<le> 10000 \<longrightarrow>
     f_add ar (q a) (q b) = q (a + b) \<and> f_sub ar (q a) (q b) = q (a - b) \<and>
     (f_le ar (q a) (q b) \<longleftrightarrow> a \<le> b) \<and> (f_lt ar (q a) (q b) \<longleftrightarrow> a < b) \<and>
     f_trunc ar (q a) = a sdiv 4 \<and> f_div ar (f_int ar a) (f_int ar 4) = q a \<and>
     f_int ar a = q (4 * a) \<and> f_mul ar (f_int ar a) (f_int ar 2) = f_int ar (2 * a)) \<and> f_lit ar 5 1 = q 2"

text \<open>The periods are those of the search: an even number of samples, at least 20 and at most 118.\<close>

definition periods_ok :: "(int \<Rightarrow> 'f) \<Rightarrow> 'f list \<Rightarrow> bool" where
  "periods_ok q ps \<longleftrightarrow> length ps = 8 \<and> (\<forall>p \<in> set ps. \<exists>n. p = q (4 * n) \<and> 20 \<le> n \<and> n \<le> 118)"

lemma exact_quartersD:
  assumes "exact_quarters ar q"
  shows "\<bar>a\<bar> \<le> 10000 \<Longrightarrow> \<bar>b\<bar> \<le> 10000 \<Longrightarrow> f_add ar (q a) (q b) = q (a + b)"
    "\<bar>a\<bar> \<le> 10000 \<Longrightarrow> \<bar>b\<bar> \<le> 10000 \<Longrightarrow> f_sub ar (q a) (q b) = q (a - b)"
    "\<bar>a\<bar> \<le> 10000 \<Longrightarrow> \<bar>b\<bar> \<le> 10000 \<Longrightarrow> f_le ar (q a) (q b) \<longleftrightarrow> a \<le> b"
    "\<bar>a\<bar> \<le> 10000 \<Longrightarrow> \<bar>b\<bar> \<le> 10000 \<Longrightarrow> f_lt ar (q a) (q b) \<longleftrightarrow> a < b"
    "\<bar>a\<bar> \<le> 10000 \<Longrightarrow> f_trunc ar (q a) = a sdiv 4"
    "\<bar>a\<bar> \<le> 10000 \<Longrightarrow> f_div ar (f_int ar a) (f_int ar 4) = q a"
    "\<bar>a\<bar> \<le> 10000 \<Longrightarrow> f_int ar a = q (4 * a)"
    "\<bar>a\<bar> \<le> 10000 \<Longrightarrow> f_mul ar (f_int ar a) (f_int ar 2) = f_int ar (2 * a)"
    "f_lit ar 5 1 = q 2"
  using assms unfolding exact_quarters_def by (metis abs_zero zero_le_numeral)+

lemma enh_upsample_safe [yields_rules]:
  assumes "d = 4 \<or> d = 5" "length s = 5" "length u = 20" "\<And>b. length b = 20 \<Longrightarrow> P b"
  shows "yields (enh_upsample ar u s d 3) P"
proof -
  have d: "d sdiv 2 = 2" using assms(1) by (auto simp: signed_divide_int_def)
  have first: "yields (for_loop 2 5 (\<lambda>i. for_loop 0 4 (\<lambda>j. upsample1 ar s i (1 + j * 7) (i + 1))) (u, 0)) Q"
    if "\<And>b. length b = 20 \<Longrightarrow> Q (b, 12)" for Q
  proof (rule for_counted [where I = "\<lambda>i (b, n). length b = 20 \<and> n = 4 * (i - 2)"])
    fix i and t :: "'a list \<times> int" assume "2 \<le> i" "i < 5" "case t of (b, n) \<Rightarrow> length b = 20 \<and> n = 4 * (i - 2)"
    then show "yields (for_loop 0 4 (\<lambda>j. upsample1 ar s i (1 + j * 7) (i + 1)) t) (\<lambda>(b, n). length b = 20 \<and> n = 4 * (i + 1 - 2))"
      by (intro for_counted [where I = "\<lambda>j (b, n). length b = 20 \<and> n = 4 * (i - 2) + j"])
        (use assms in \<open>auto intro!: upsample1_safe\<close>)
  qed (use assms that in auto)
  have third: "yields (for_loop 1 3 (\<lambda>k. for_loop 0 4 (\<lambda>j. upsample1 ar s (d - 1) (1 + j * 7 + k) (5 - k))) (b, m)) Q"
    if "length b = 20" "m = 12" "\<And>b n. length b = 20 \<Longrightarrow> Q (b, n)" for Q b m
  proof (rule for_counted [where I = "\<lambda>i (b, n). length b = 20 \<and> n = 8 + 4 * i"])
    fix i and t :: "'a list \<times> int" assume "1 \<le> i" "i < 3" "case t of (b, n) \<Rightarrow> length b = 20 \<and> n = 8 + 4 * i"
    then show "yields (for_loop 0 4 (\<lambda>j. upsample1 ar s (d - 1) (1 + j * 7 + i) (5 - i)) t) (\<lambda>(b, n). length b = 20 \<and> n = 8 + 4 * (i + 1))"
      by (intro for_counted [where I = "\<lambda>j (b, n). length b = 20 \<and> n = 8 + 4 * i + j"])
        (use assms(1,2) in \<open>auto intro!: upsample1_safe\<close>)
  qed (use that in auto)
  have second: "yields (for_loop 5 d f t) Q" if "Q t" for f Q and t :: "'a list \<times> int"
    using assms(1) that by (intro for_invariant [where I = "\<lambda>x. x = t"]) auto
  have "7 > d" using assms(1) by auto
  then show ?thesis unfolding enh_upsample_def
    by (simp add: d Let_def) (intro yields_rules first second third, use assms in auto)
qed

text \<open>A segment that starts at \<open>b / 4\<close>, at least two samples behind the start of the buffer and with its overhang before
  the end, is refined; the start that is found is near.\<close>

lemma refiner_safe:
  assumes "exact_quarters ar q" "8 \<le> b" "b < 2232" "length buf = 640" "0 \<le> c" "c \<le> 480" "0 \<le> g" "g + 80 \<le> int (length seg)"
    and "\<And>seg' b'. length seg' = length seg \<Longrightarrow> b - 9 \<le> b' \<Longrightarrow> b' \<le> b + 13 \<Longrightarrow> P (seg', q b')"
  shows "yields (refiner ar seg g buf 640 c (q b)) P"
proof -
  define e where "e = (b - 2) div 4"
  have e: "1 \<le> e" "e \<le> 557" "4 * e \<le> b - 2" "b - 5 \<le> 4 * e" using assms(2,3) unfolding e_def by linarith+
  define s0 where "s0 = (if e - 2 < 0 then 0 else e - 2)"
  define d where "d = e + 2 - s0 + 1"
  have s0: "0 \<le> s0" "s0 \<le> 555" "s0 \<le> e - 1" "e - 2 \<le> s0" "d = 4 \<and> e = 1 \<and> s0 = 0 \<or> d = 5 \<and> s0 = e - 2" using e by (auto simp: s0_def d_def)
  have trunc: "f_trunc ar (f_sub ar (q b) (f_lit ar 5 1)) = e"
    unfolding exact_quartersD(9) [OF assms(1)] using assms(2,3)
    by (simp add: exact_quartersD(2,5) [OF assms(1)] signed_divide_int_def e_def)
  have upd: "f_add ar (f_add ar (f_int ar s0) (f_div ar (f_int ar k) (f_int ar 4))) (f1 ar) = q (4 * s0 + k + 4)"
    if "0 \<le> k" "k \<le> 20" for k
    using that s0(1,2) exact_quartersD(6) [OF assms(1), of k] by (simp add: exact_quartersD(1,7) [OF assms(1)])
  have k2: "0 \<le> k2 \<and> k2 \<le> d \<and> 0 \<le> k2 * 4 - k \<and> k2 * 4 - k \<le> 3"
    if "0 \<le> k" "k < 4 * d" "k2 = (if k > k div 4 * 4 then k div 4 + 1 else k div 4)" for k k2 using that by auto
  have s1: "(if e + 2 + 80 \<ge> 640 then 640 - 80 - 1 else e + 2) - s0 + 1 = d" using e by (simp add: d_def)
  have fin: "P (seg', f_add ar (f_add ar (f_int ar s0) (f_div ar (f_int ar k) (f_int ar 4))) (f1 ar))"
    if "length seg' = length seg" "0 \<le> k" "k < 4 * d" for seg' k
    using that s0 e by (subst upd) (auto intro!: assms(9))
  show ?thesis unfolding refiner_def trunc Let_def s0_def [symmetric] s1
    by (intro fin yields_rules for_invariant [where I = "\<lambda>(k, _). 0 \<le> k \<and> k < 4 * d"])
      (use assms(4-8) s0 e in auto)
qed

lemma yields_wr_at: "0 \<le> i \<Longrightarrow> i < int (length a) \<Longrightarrow> P (a[nat i := x]) \<Longrightarrow> yields (wr a i x) P"
  by (simp add: yields_def wr_def)

lemma index_below_update: "index_below n xs \<Longrightarrow> 0 \<le> x \<Longrightarrow> x < n \<Longrightarrow> index_below n (xs[i := x])"
  using set_update_subset_insert [of xs i x] by (auto simp: index_below_def)

lemma index_below_nth: "index_below n xs \<Longrightarrow> 0 \<le> i \<Longrightarrow> i < int (length xs) \<Longrightarrow> 0 \<le> xs ! nat i \<and> xs ! nat i < n"
  by (simp add: index_below_def)

lemma period_at:
  assumes "periods_ok q ps" "0 \<le> k" "k < 8"
  obtains n where "ps ! nat k = q (4 * n)" "20 \<le> n" "n \<le> 118"
  using assms by (force simp: periods_ok_def)

lemma getsseq_past_safe:
  assumes "exact_quarters ar q" "periods_ok q ps" "length buf = 640" "0 \<le> c" "c \<le> 480" "length pl = 8"
    and "length sq = 560" "length bs = 7" "length lb = 7" "index_below 8 lb" "0 \<le> n" "n \<le> 2"
    and "bs ! nat (n + 1) = q b" "- 1000 \<le> b" "b \<le> 1920"
    and "\<And>sq' b' lb'. length sq' = 560 \<Longrightarrow> b - 500 \<le> b' \<Longrightarrow> b' \<le> b \<Longrightarrow> length lb' = 7 \<Longrightarrow> index_below 8 lb' \<Longrightarrow>
      P (sq', bs[nat n := q b'], lb')"
  shows "yields (getsseq_past ar buf 640 c ps pl 8 n (sq, bs, lb)) P"
proof -
  have lb: "0 \<le> lb ! nat (n + 1)" "lb ! nat (n + 1) < 8" using index_below_nth [OF assms(10), of "n + 1"] assms(9,11,12) by simp_all
  obtain m where m: "ps ! nat (lb ! nat (n + 1)) = q (4 * m)" "20 \<le> m" "m \<le> 118" by (rule period_at [OF assms(2) lb])
  have sub: "f_sub ar (q b) (q (4 * m)) = q (b - 4 * m)" using assms(14,15) m by (simp add: exact_quartersD(2) [OF assms(1)])
  have guard: "f_le ar (f0 ar) (f_sub ar (q (b - 4 * m)) (f_int ar 2)) \<longleftrightarrow> 8 \<le> b - 4 * m"
    using assms(14,15) m by (simp add: exact_quartersD(2,3,7) [OF assms(1)])
  have ps: "length ps = 8" using assms(2) by (simp add: periods_ok_def)
  have reads: "\<And>Q. Q (q b) \<Longrightarrow> yields (rd bs (n + 1)) Q" "\<And>Q. Q (lb ! nat (n + 1)) \<Longrightarrow> yields (rd lb (n + 1)) Q"
    "\<And>Q. Q (q (4 * m)) \<Longrightarrow> yields (rd ps (lb ! nat (n + 1))) Q"
    using assms(8,9,11-13) lb ps m(1) by (auto intro!: yields_rd_at)
  have starts: "\<And>Q x. Q (bs[nat n := x]) \<Longrightarrow> yields (wr bs n x) Q"
    "\<And>Q x y. Q (bs[nat n := y]) \<Longrightarrow> yields (wr (bs[nat n := x]) n y) Q"
    using assms(8,11,12) by (auto intro!: yields_wr_at)
  have lags: "yields (wr lb n k) Q" if "0 \<le> k" "k < 8" "\<And>lb'. length lb' = 7 \<Longrightarrow> index_below 8 lb' \<Longrightarrow> Q lb'" for k Q
    using assms(9-12) that(1,2) by (intro yields_wr_at that(3)) (auto intro: index_below_update)
  have refined: "yields (refiner ar sq (n * 80) buf 640 c (f_sub ar (q b) (q (4 * m)))) Q"
    if "f_le ar (f0 ar) (f_sub ar (f_sub ar (q b) (q (4 * m))) (f_int ar 2))"
      "\<And>sq' b'. length sq' = 560 \<Longrightarrow> b - 500 \<le> b' \<Longrightarrow> b' \<le> b \<Longrightarrow> Q (sq', q b')" for Q
    using that(1) assms(3-7,11,12,15) m unfolding sub guard by (intro refiner_safe [OF assms(1)] that(2)) auto
  show ?thesis unfolding getsseq_past_def prod.case Let_def
    by (intro reads starts lags refined yields_rules) (use assms(6,7,11,12) m in \<open>auto simp: sub intro!: assms(16)\<close>)
qed

lemma getsseq_future_safe:
  assumes "exact_quarters ar q" "periods_ok q ps" "length buf = 640" "0 \<le> c" "c \<le> 480" "length pl = 20"
    and "length sq = 560" "length bs = 7" "length lb = 7" "index_below 8 lb" "4 \<le> n" "n \<le> 6"
    and "bs ! nat (n - 1) = q b" "1280 \<le> b" "b \<le> 8000"
    and "\<And>sq' b' lb'. length sq' = 560 \<Longrightarrow> b \<le> b' \<Longrightarrow> b' \<le> b + 500 \<Longrightarrow> length lb' = 7 \<Longrightarrow> index_below 8 lb' \<Longrightarrow>
      P (sq', bs[nat n := q b'], lb')"
  shows "yields (getsseq_future ar buf 640 c ps pl 8 n (sq, bs, lb)) P"
proof -
  have reads: "\<And>Q. Q (q b) \<Longrightarrow> yields (rd bs (n - 1)) Q"
    using assms(8,11-13) by (auto intro!: yields_rd_at)
  have period: "yields (rd ps k) Q" if "0 \<le> k" "k < 8" "\<And>m. 20 \<le> m \<Longrightarrow> m \<le> 118 \<Longrightarrow> Q (q (4 * m))" for k Q
  proof -
    note k = that(1,2)
    obtain m where "ps ! nat k = q (4 * m)" "20 \<le> m" "m \<le> 118" by (rule period_at [OF assms(2) k])
    then show ?thesis using assms(2) that by (auto intro!: yields_rd_at simp: periods_ok_def)
  qed
  have starts: "\<And>Q x. Q (bs[nat n := x]) \<Longrightarrow> yields (wr bs n x) Q"
    "\<And>Q x y. Q (bs[nat n := y]) \<Longrightarrow> yields (wr (bs[nat n := x]) n y) Q"
    using assms(8,11,12) by (auto intro!: yields_wr_at)
  have lags: "yields (wr lb n k) Q" if "0 \<le> k" "k < 8" "\<And>lb'. length lb' = 7 \<Longrightarrow> index_below 8 lb' \<Longrightarrow> Q lb'" for k Q
    using assms(9-12) that(1,2) by (intro yields_wr_at that(3)) (auto intro: index_below_update)
  have guard: "f_lt ar (f_add ar (f_add ar (q (b + 4 * m)) (f_int ar 80)) (f_int ar 2)) (f_int ar 640) \<longleftrightarrow> b + 4 * m < 2232"
    "f_add ar (q b) (q (4 * m)) = q (b + 4 * m)" if "20 \<le> m" "m \<le> 118" for m
    using that assms(14,15) by (simp_all add: exact_quartersD(1,4,7) [OF assms(1)])
  have refined: "yields (refiner ar sq (n * 80) buf 640 c (f_add ar (q b) (q (4 * m)))) Q"
    if "20 \<le> m" "m \<le> 118" "f_lt ar (f_add ar (f_add ar (f_add ar (q b) (q (4 * m))) (f_int ar 80)) (f_int ar 2)) (f_int ar 640)"
      "\<And>sq' b'. length sq' = 560 \<Longrightarrow> b \<le> b' \<Longrightarrow> b' \<le> b + 500 \<Longrightarrow> Q (sq', q b')" for Q m
    using that(3) assms(3-7,11,12,14) that(1,2) unfolding guard(2) [OF that(1,2)] guard(1) [OF that(1,2)]
    by (intro refiner_safe [OF assms(1)] that(4)) auto
  show ?thesis unfolding getsseq_future_def prod.case Let_def
    by (intro reads starts lags period refined yields_rules) (use assms(6,7,11,12) in \<open>auto simp: guard(2) intro!: assms(16)\<close>)
qed

lemma getsseq_safe [yields_rules]:
  assumes "exact_quarters ar q" "periods_ok q ps" "length buf = 640" "320 \<le> c" "c \<le> 480" "length pl = 8" "length sq = 560"
    and "\<And>sq'. length sq' = 560 \<Longrightarrow> P sq'"
  shows "yields (getsseq ar sq buf 640 c ps pl 8 3) P"
proof -
  let ?I = "\<lambda>n (sq, bs, lb). length sq = 560 \<and> length bs = 7 \<and> length lb = (7 :: nat) \<and> index_below 8 lb \<and> bs ! 3 = q (4 * c) \<and>
    (\<exists>b. bs ! nat (n + 1) = q b \<and> 1280 - 500 * (2 - n) \<le> b \<and> b \<le> 1920)"
  let ?J = "\<lambda>n (sq, bs, lb). length sq = 560 \<and> length bs = 7 \<and> length lb = (7 :: nat) \<and> index_below 8 lb \<and>
    (\<exists>b. bs ! nat (n - 1) = q b \<and> 1280 \<le> b \<and> b \<le> 1920 + 500 * (n - 4))"
  have past: "yields (for_down (3 - 1) 0 (getsseq_past ar buf 640 c ps pl 8) (sq, bs, lb)) Q"
    if "length sq = 560" "length bs = 7" "length lb = 7" "index_below 8 lb" "bs ! 3 = q (4 * c)" "\<And>s. ?I (- 1) s \<Longrightarrow> Q s" for sq bs lb Q
  proof (rule for_down_counted [where I = ?I])
    fix n and s :: "'a segments" assume n: "0 \<le> n" "n \<le> 3 - 1" and I: "?I n s"
    obtain sq bs lb b where s: "s = (sq, bs, lb)" "length sq = 560" "length bs = 7" "length lb = 7" "index_below 8 lb" "bs ! 3 = q (4 * c)"
      "bs ! nat (n + 1) = q b" "1280 - 500 * (2 - n) \<le> b" "b \<le> 1920" using I by (cases s) auto
    show "yields (getsseq_past ar buf 640 c ps pl 8 n s) (?I (n - 1))" unfolding s(1)
      by (rule getsseq_past_safe [OF assms(1,2,3) _ assms(5,6) s(2-5) n(1) _ s(7)]) (use assms(4) s n in auto)
  qed (use that assms(4,5) in auto)
  have future: "yields (for_loop (3 + 1) (2 * 3 + 1) (getsseq_future ar buf 640 c ps pl2 8) (sq, bs, lb)) Q"
    if "length sq = 560" "length bs = 7" "length lb = 7" "index_below 8 lb" "bs ! 3 = q (4 * c)" "length pl2 = 20" "\<And>s. ?J 7 s \<Longrightarrow> Q s" for sq bs lb Q pl2
  proof (rule for_counted [where I = ?J])
    fix n and s :: "'a segments" assume n: "3 + 1 \<le> n" "n < 2 * 3 + 1" and I: "?J n s"
    obtain sq bs lb b where s: "s = (sq, bs, lb)" "length sq = 560" "length bs = 7" "length lb = 7" "index_below 8 lb"
      "bs ! nat (n - 1) = q b" "1280 \<le> b" "b \<le> 1920 + 500 * (n - 4)" using I by (cases s) auto
    show "yields (getsseq_future ar buf 640 c ps pl2 8 n s) (?J (n + 1))" unfolding s(1)
      by (rule getsseq_future_safe [OF assms(1,2,3) _ assms(5) that(6) s(2-5) _ _ s(6,7)]) (use assms(4) s n in auto)
  qed (use that assms(4,5) in auto)
  have c: "f_int ar c = q (4 * c)" using assms(4,5) by (simp add: exact_quartersD(7) [OF assms(1)])
  have zeros: "index_below 8 (replicate 7 0)" by (simp add: index_below_def)
  have lag: "yields (wr (replicate 7 0) 3 k) Q" if "0 \<le> k" "k < 8" "\<And>lb. length lb = 7 \<Longrightarrow> index_below 8 lb \<Longrightarrow> Q lb" for k Q
    using that(1,2) by (intro yields_wr_at that(3)) (auto intro!: index_below_update zeros)
  have start: "yields (wr (local_array ar 7) 3 (q (4 * c))) Q" if "\<And>bs. length bs = 7 \<Longrightarrow> bs ! 3 = q (4 * c) \<Longrightarrow> Q bs" for Q
    by (intro yields_wr_at that) auto
  show ?thesis unfolding getsseq_def Let_def c
    by (intro start lag past future for_array yields_rules) (use assms in \<open>auto simp: periods_ok_def\<close>)
qed

lemma smath_surround_safe [yields_rules]:
  assumes "length sq = 560" "\<And>a. length a = 240 \<Longrightarrow> P a"
  shows "yields (smath_surround ar sq 3) P"
  unfolding smath_surround_def Let_def by (intro yields_rules for_array) (use assms in auto)

lemma smath_safe [yields_rules]:
  assumes "0 \<le> d" "d + 80 \<le> int (length a)" "length sq = 560" "\<And>b. length b = length a \<Longrightarrow> P b"
  shows "yields (smath ar a d sq 3 x) P"
  unfolding smath_def by (intro yields_rules for_array for_array_scalar for_scalar) (use assms in auto)

lemma enhancer_safe [yields_rules]:
  assumes "exact_quarters ar q" "periods_ok q ps" "length buf = 640" "320 \<le> c" "c \<le> 480" "length pl = 8"
    and "0 \<le> d" "d + 80 \<le> int (length a)" "\<And>b. length b = length a \<Longrightarrow> P b"
  shows "yields (enhancer ar a d buf 640 c x ps pl 8) P"
  unfolding enhancer_def by (intro yields_rules) (use assms in auto)

text \<open>The periods of the last five blocks stay, three new ones are found.\<close>

lemma periods_ok_update:
  "periods_ok q ps \<Longrightarrow> 20 \<le> n \<Longrightarrow> n \<le> 118 \<Longrightarrow> periods_ok q (ps[i := q (4 * n)])"
  using set_update_subset_insert [of ps i "q (4 * n)"] by (auto simp: periods_ok_def)

lemma enhancerInterface_safe [yields_rules]:
  assumes "exact_quarters ar q" "dec_ok dec" "periods_ok q (enh_period dec)" "length out = 240" "length a = 240"
    and "\<And>l out' buf ps. 20 \<le> l \<Longrightarrow> l \<le> 118 \<Longrightarrow> length out' = 240 \<Longrightarrow> length buf = 640 \<Longrightarrow> periods_ok q ps \<Longrightarrow>
      P (l, out', dec\<lparr>enh_buf := buf, enh_period := ps\<rparr>)"
  shows "yields (enhancerInterface ar out a dec) P"
proof -
  have shifted: "yields (copy_to (enh_period dec) 0 (enh_period dec) 3 5) Q" if "\<And>ps. periods_ok q ps \<Longrightarrow> Q ps" for Q
    using assms(3) by (auto simp: copy_to_def rds_def wrs_def yields_def periods_ok_def
        intro!: that dest!: in_set_takeD in_set_dropD)
  have found: "yields (wr ps (i + 5) (f_mul ar (f_int ar k) (f_int ar 2))) Q"
    if "0 \<le> i" "i < 3" "10 \<le> k" "k < 60" "periods_ok q ps" "\<And>ps. periods_ok q ps \<Longrightarrow> Q ps" for ps i k Q
  proof -
    have v: "f_mul ar (f_int ar k) (f_int ar 2) = q (4 * (2 * k))"
      using exact_quartersD(8) [OF assms(1), of k] exact_quartersD(7) [OF assms(1), of "2 * k"] that by simp
    show ?thesis unfolding v using that(1-5) by (intro yields_wr_at that(6) periods_ok_update) (auto simp: periods_ok_def)
  qed
  have searched: "yields (for_loop 0 3 (\<lambda>iblock (period, _). do {
       lag \<leftarrow> best_lag ar (\<lambda>ilag. xCorrCoef ar ds (60 + iblock * 40) ds (60 + iblock * 40 - ilag) 40) 10 60;
       period \<leftarrow> wr period (iblock + 5) (f_mul ar (f_int ar lag) (f_int ar 2));
       Some (period, lag) }) (ps, 0)) Q"
    if "length ds = 180" "periods_ok q ps" "\<And>ps k. periods_ok q ps \<Longrightarrow> 10 \<le> k \<Longrightarrow> k < 60 \<Longrightarrow> Q (ps, k)" for ds Q ps
    by (rule for_counted [where I = "\<lambda>n (ps, k). periods_ok q ps \<and> (n = 0 \<or> 10 \<le> k \<and> k < 60)"])
      (use that in \<open>auto intro!: found yields_bind yields_Some best_lag_safe xCorrCoef_safe\<close>)
  have blocks: "yields (for_loop 0 3 (\<lambda>iblock out. enhancer ar out (iblock * 80) buf 640 ((4 + iblock) * 80) x ps (enh_plocsTbl ar) 8) out) Q"
    if "length buf = 640" "periods_ok q ps" "length out = 240" "\<And>out. length out = 240 \<Longrightarrow> Q out" for buf ps x Q and out :: "'a list"
    by (rule for_invariant [where I = "\<lambda>out. length out = 240"]) (use that in \<open>auto intro!: enhancer_safe [OF assms(1)]\<close>)
  have e: "5 * 80 - 120 = (280 :: int)" "3 * 80 + 120 = (360 :: int)" by simp_all
  have l: "length (enh_buf dec) = 640" using assms(2) by (simp add: dec_ok_def)
  show ?thesis unfolding enhancerInterface_def Let_def e
    by (intro shifted searched blocks yields_rules) (use l assms(4,5) in \<open>auto intro!: assms(6)\<close>)
qed

end
