(* ===== verification/Ilbc_Stream.thy ===== *)
theory Ilbc_Stream
  imports Sphone_Base
begin

text \<open>
  The bit stream of the iLBC coder, \<open>coding/iLBC_1.1.0\<close>: \<open>packing.c\<close>, the tables of the bit
  allocation in \<open>constants.c\<close>, and the loops that pack a frame in \<open>iLBC_encode.c\<close> and unpack it in
  \<open>iLBC_decode.c\<close>. The parameters of a frame are \<open>int\<close>s, each with a row of the tables: the bits it
  has in each of the three classes of sensitivity, and two zeros. The most significant bits of all
  parameters stand first in the stream, then those of the second class, then the rest.

  The state of packing is the buffer, the place in it and the bits of the current octet that are
  written (or read), the \<open>pbytes\<close> and \<open>pos\<close> of the code. No width is above 8, so the shifts are
  defined.
\<close>

section \<open>Packing of bits\<close>

lemma bnd_fundef_cong [fundef_cong]:
  "m = m' \<Longrightarrow> (\<And>x. m' = Inr x \<Longrightarrow> f x = f' x) \<Longrightarrow> bnd m f = bnd m' f'"
  by (cases m') simp_all

definition packsplit :: "int \<Rightarrow> nat \<Rightarrow> nat \<Rightarrow> int \<times> int" where
  "packsplit index bitno_firstpart bitno_total =
    (let bitno_rest = bitno_total - bitno_firstpart; firstpart = drop_bit bitno_rest index in
     (firstpart, index - push_bit bitno_rest firstpart))"

definition packcombine :: "int \<Rightarrow> int \<Rightarrow> nat \<Rightarrow> int" where
  "packcombine index rest bitno_rest = push_bit bitno_rest index + rest"

type_synonym bit_state = "bytes \<times> nat \<times> nat"

definition set_octet :: "nat \<Rightarrow> (u8 \<Rightarrow> u8) \<Rightarrow> bytes \<Rightarrow> bytes res" where
  "set_octet p f buf = (if p < length buf then Inr (buf[p := f (buf ! p)]) else Inl Out_Of_Bounds)"

text \<open>The step to the next octet, which is cleared.\<close>

definition pack_octet :: "bit_state \<Rightarrow> bit_state res" where
  "pack_octet = (\<lambda>(buf, p, pos).
    if pos = 8 then bnd (set_octet (p + 1) (\<lambda>_. 0) buf) (\<lambda>buf. Inr (buf, p + 1, 0)) else Inr (buf, p, pos))"

function dopack_loop :: "int \<Rightarrow> nat \<Rightarrow> bit_state \<Rightarrow> bit_state res" where
  "dopack_loop index bitno st =
    (if bitno = 0 then Inr st
     else bnd (pack_octet st) (\<lambda>(buf, p, pos).
       if bitno + pos \<le> 8 then
         bnd (set_octet p (\<lambda>b. b OR word_of_int (push_bit (8 - pos - bitno) index)) buf) (\<lambda>buf. Inr (buf, p, pos + bitno))
       else
         bnd (set_octet p (\<lambda>b. b OR word_of_int (drop_bit (bitno + pos - 8) index)) buf) (\<lambda>buf.
           dopack_loop (index - push_bit (bitno + pos - 8) (drop_bit (bitno + pos - 8) index)) (bitno + pos - 8) (buf, p, 8))))"
  by pat_completeness auto
termination
  by (relation "measures [\<lambda>(_, n, _, _, pos). if 8 < pos then 1 else 0, \<lambda>(_, n, _). n]")
    (auto simp: pack_octet_def set_octet_def split: if_splits)

declare dopack_loop.simps [simp del]

definition dopack :: "int \<Rightarrow> nat \<Rightarrow> bit_state \<Rightarrow> bit_state res" where
  "dopack index bitno = (\<lambda>(buf, p, pos).
    if pos = 0 then bnd (set_octet p (\<lambda>_. 0) buf) (\<lambda>buf. dopack_loop index bitno (buf, p, pos))
    else dopack_loop index bitno (buf, p, pos))"

function unpack_loop :: "bytes \<Rightarrow> int \<Rightarrow> nat \<Rightarrow> nat \<times> nat \<Rightarrow> (int \<times> nat \<times> nat) res" where
  "unpack_loop buf index bitno st =
    (if bitno = 0 then Inr (index, st)
     else case (if snd st = 8 then (fst st + 1, 0) else st) of (p, pos) \<Rightarrow>
       if length buf \<le> p then Inl Out_Of_Bounds
       else
         (let x = push_bit pos (uint (buf ! p)) AND 255 in
          if bitno + pos \<le> 8 then Inr (index + drop_bit (8 - bitno) x, p, pos + bitno)
          else unpack_loop buf (index + (if bitno < 8 then drop_bit (8 - bitno) x else push_bit (bitno - 8) x))
            (bitno + pos - 8) (p, 8)))"
  by pat_completeness auto
termination
  by (relation "measures [\<lambda>(_, _, n, _, pos). if 8 < pos then 1 else 0, \<lambda>(_, _, n, _). n]")
    (auto split: if_splits)

declare unpack_loop.simps [simp del]

definition unpack :: "bytes \<Rightarrow> nat \<Rightarrow> nat \<times> nat \<Rightarrow> (int \<times> nat \<times> nat) res" where
  "unpack buf bitno st = unpack_loop buf 0 bitno st"

section \<open>The allocation of bits\<close>

abbreviation "NO_OF_BYTES \<equiv> 50 :: nat"
abbreviation "STATE_SHORT_LEN \<equiv> 58 :: nat"
abbreviation "CB_NSTAGES \<equiv> 3 :: nat"
abbreviation "NASUB \<equiv> 4 :: nat"

definition ulp_lsf_bitsTbl :: "nat list list" where
  "ulp_lsf_bitsTbl = [[6, 0, 0, 0, 0], [7, 0, 0, 0, 0], [7, 0, 0, 0, 0], [6, 0, 0, 0, 0], [7, 0, 0, 0, 0], [7, 0, 0, 0, 0]]"

definition ulp_start_bitsTbl :: "nat list" where "ulp_start_bitsTbl = [3, 0, 0, 0, 0]"
definition ulp_startfirst_bitsTbl :: "nat list" where "ulp_startfirst_bitsTbl = [1, 0, 0, 0, 0]"
definition ulp_scale_bitsTbl :: "nat list" where "ulp_scale_bitsTbl = [6, 0, 0, 0, 0]"
definition ulp_state_bitsTbl :: "nat list" where "ulp_state_bitsTbl = [0, 1, 2, 0, 0]"

definition ulp_extra_cb_indexTbl :: "nat list list" where
  "ulp_extra_cb_indexTbl = [[4, 2, 1, 0, 0], [0, 0, 7, 0, 0], [0, 0, 7, 0, 0]]"

definition ulp_extra_cb_gainTbl :: "nat list list" where
  "ulp_extra_cb_gainTbl = [[1, 1, 3, 0, 0], [1, 1, 2, 0, 0], [0, 0, 3, 0, 0]]"

text \<open>The tables of the four sub-blocks, the row of sub-block \<open>i\<close> and stage \<open>k\<close> at \<open>3 i + k\<close>.\<close>

definition ulp_cb_indexTbl :: "nat list list" where
  "ulp_cb_indexTbl =
    [[6, 1, 1, 0, 0], [0, 0, 7, 0, 0], [0, 0, 7, 0, 0],
     [0, 7, 1, 0, 0], [0, 0, 8, 0, 0], [0, 0, 8, 0, 0],
     [0, 7, 1, 0, 0], [0, 0, 8, 0, 0], [0, 0, 8, 0, 0],
     [0, 7, 1, 0, 0], [0, 0, 8, 0, 0], [0, 0, 8, 0, 0]]"

definition ulp_cb_gainTbl :: "nat list list" where
  "ulp_cb_gainTbl =
    [[1, 2, 2, 0, 0], [1, 2, 1, 0, 0], [0, 0, 3, 0, 0],
     [0, 2, 3, 0, 0], [0, 2, 2, 0, 0], [0, 0, 3, 0, 0],
     [0, 1, 4, 0, 0], [0, 1, 3, 0, 0], [0, 0, 3, 0, 0],
     [0, 1, 4, 0, 0], [0, 1, 3, 0, 0], [0, 0, 3, 0, 0]]"

section \<open>Frames\<close>

text \<open>The local variables of the coders that go into the stream.\<close>

record ilbc_frame =
  lsf_i :: "int list"
  frame_start :: int
  state_first :: int
  idxForMax :: int
  idxVec :: "int list"
  extra_cb_index :: "int list"
  extra_gain_index :: "int list"
  cb_index :: "int list"
  gain_index :: "int list"

text \<open>The codebook indices of the first sub-block have ranges without gaps in the stream.\<close>

definition index_conv_enc :: "int list \<Rightarrow> int list" where
  "index_conv_enc index = fold (\<lambda>k index.
     if 108 \<le> index ! k \<and> index ! k < 172 then index[k := index ! k - 64]
     else if 236 \<le> index ! k then index[k := index ! k - 128]
     else index) [1..<CB_NSTAGES] index"

definition index_conv_dec :: "int list \<Rightarrow> int list" where
  "index_conv_dec index = fold (\<lambda>k index.
     if 44 \<le> index ! k \<and> index ! k < 108 then index[k := index ! k + 64]
     else if 108 \<le> index ! k \<and> index ! k < 128 then index[k := index ! k + 128]
     else index) [1..<CB_NSTAGES] index"

text \<open>Splitting the part of one class from a parameter and packing it.\<close>

definition pack_param :: "nat \<Rightarrow> nat list \<Rightarrow> int \<Rightarrow> bit_state \<Rightarrow> (int \<times> bit_state) res" where
  "pack_param ulp tbl x st =
    (case packsplit x (tbl ! ulp) (tbl ! ulp + tbl ! (ulp + 1) + tbl ! (ulp + 2)) of (firstpart, rest) \<Rightarrow>
       bnd (dopack firstpart (tbl ! ulp) st) (\<lambda>st. Inr (rest, st)))"

text \<open>A loop over the rows of a table and the array of parameters they belong to.\<close>

fun pack_params :: "nat \<Rightarrow> nat list list \<Rightarrow> int list \<Rightarrow> bit_state \<Rightarrow> (int list \<times> bit_state) res" where
  "pack_params ulp [] xs st = Inr (xs, st)"
| "pack_params ulp (t # ts) [] st = Inl Out_Of_Bounds"
| "pack_params ulp (t # ts) (x # xs) st =
    bnd (pack_param ulp t x st) (\<lambda>(x, st). bnd (pack_params ulp ts xs st) (\<lambda>(xs, st). Inr (x # xs, st)))"

definition pack_class :: "nat \<Rightarrow> ilbc_frame \<times> bit_state \<Rightarrow> (ilbc_frame \<times> bit_state) res" where
  "pack_class ulp = (\<lambda>(f, st).
    bnd (pack_params ulp ulp_lsf_bitsTbl (lsf_i f) st) (\<lambda>(lsf, st).
    bnd (pack_param ulp ulp_start_bitsTbl (frame_start f) st) (\<lambda>(start, st).
    bnd (pack_param ulp ulp_startfirst_bitsTbl (state_first f) st) (\<lambda>(first, st).
    bnd (pack_param ulp ulp_scale_bitsTbl (idxForMax f) st) (\<lambda>(scale, st).
    bnd (pack_params ulp (replicate STATE_SHORT_LEN ulp_state_bitsTbl) (idxVec f) st) (\<lambda>(vec, st).
    bnd (pack_params ulp ulp_extra_cb_indexTbl (extra_cb_index f) st) (\<lambda>(ecb, st).
    bnd (pack_params ulp ulp_extra_cb_gainTbl (extra_gain_index f) st) (\<lambda>(egain, st).
    bnd (pack_params ulp ulp_cb_indexTbl (cb_index f) st) (\<lambda>(cb, st).
    bnd (pack_params ulp ulp_cb_gainTbl (gain_index f) st) (\<lambda>(gain, st).
      Inr (\<lparr>lsf_i = lsf, frame_start = start, state_first = first, idxForMax = scale, idxVec = vec,
        extra_cb_index = ecb, extra_gain_index = egain, cb_index = cb, gain_index = gain\<rparr>, st)))))))))))"

text \<open>The end of \<open>iLBC_encode\<close>: the indices are adjusted, the three classes packed into \<open>bytes\<close>, and
  the last bit set to zero.\<close>

definition pack_frame :: "ilbc_frame \<Rightarrow> bytes \<Rightarrow> bytes res" where
  "pack_frame f buf =
    bnd (pack_class 0 (f\<lparr>cb_index := index_conv_enc (cb_index f)\<rparr>, buf, 0, 0)) (\<lambda>x.
    bnd (pack_class 1 x) (\<lambda>x.
    bnd (pack_class 2 x) (\<lambda>(f, st).
    bnd (dopack 0 1 st) (\<lambda>(buf, _). Inr buf))))"

definition unpack_param :: "nat \<Rightarrow> bytes \<Rightarrow> nat list \<Rightarrow> int \<Rightarrow> nat \<times> nat \<Rightarrow> (int \<times> nat \<times> nat) res" where
  "unpack_param ulp buf tbl x st =
    bnd (unpack buf (tbl ! ulp) st) (\<lambda>(lastpart, st). Inr (packcombine x lastpart (tbl ! ulp), st))"

fun unpack_params :: "nat \<Rightarrow> bytes \<Rightarrow> nat list list \<Rightarrow> int list \<Rightarrow> nat \<times> nat \<Rightarrow> (int list \<times> nat \<times> nat) res" where
  "unpack_params ulp buf [] xs st = Inr (xs, st)"
| "unpack_params ulp buf (t # ts) [] st = Inl Out_Of_Bounds"
| "unpack_params ulp buf (t # ts) (x # xs) st =
    bnd (unpack_param ulp buf t x st) (\<lambda>(x, st). bnd (unpack_params ulp buf ts xs st) (\<lambda>(xs, st). Inr (x # xs, st)))"

definition unpack_class :: "nat \<Rightarrow> bytes \<Rightarrow> ilbc_frame \<times> nat \<times> nat \<Rightarrow> (ilbc_frame \<times> nat \<times> nat) res" where
  "unpack_class ulp buf = (\<lambda>(f, st).
    bnd (unpack_params ulp buf ulp_lsf_bitsTbl (lsf_i f) st) (\<lambda>(lsf, st).
    bnd (unpack_param ulp buf ulp_start_bitsTbl (frame_start f) st) (\<lambda>(start, st).
    bnd (unpack_param ulp buf ulp_startfirst_bitsTbl (state_first f) st) (\<lambda>(first, st).
    bnd (unpack_param ulp buf ulp_scale_bitsTbl (idxForMax f) st) (\<lambda>(scale, st).
    bnd (unpack_params ulp buf (replicate STATE_SHORT_LEN ulp_state_bitsTbl) (idxVec f) st) (\<lambda>(vec, st).
    bnd (unpack_params ulp buf ulp_extra_cb_indexTbl (extra_cb_index f) st) (\<lambda>(ecb, st).
    bnd (unpack_params ulp buf ulp_extra_cb_gainTbl (extra_gain_index f) st) (\<lambda>(egain, st).
    bnd (unpack_params ulp buf ulp_cb_indexTbl (cb_index f) st) (\<lambda>(cb, st).
    bnd (unpack_params ulp buf ulp_cb_gainTbl (gain_index f) st) (\<lambda>(gain, st).
      Inr (\<lparr>lsf_i = lsf, frame_start = start, state_first = first, idxForMax = scale, idxVec = vec,
        extra_cb_index = ecb, extra_gain_index = egain, cb_index = cb, gain_index = gain\<rparr>, st)))))))))))"

text \<open>What the decoder clears before it unpacks; the rest of \<open>idxVec\<close> is not used.\<close>

definition cleared_frame :: ilbc_frame where
  "cleared_frame = \<lparr>lsf_i = replicate 6 0, frame_start = 0, state_first = 0, idxForMax = 0, idxVec = replicate STATE_SHORT_LEN 0,
     extra_cb_index = replicate CB_NSTAGES 0, extra_gain_index = replicate CB_NSTAGES 0,
     cb_index = replicate (NASUB * CB_NSTAGES) 0, gain_index = replicate (NASUB * CB_NSTAGES) 0\<rparr>"

text \<open>The start of \<open>iLBC_decode\<close> in mode 1: the mode it goes on with and the frame it decodes then.\<close>

definition unpack_frame :: "bytes \<Rightarrow> (int \<times> ilbc_frame) res" where
  "unpack_frame buf =
    bnd (unpack_class 0 buf (cleared_frame, 0, 0)) (\<lambda>x.
    bnd (unpack_class 1 buf x) (\<lambda>x.
    bnd (unpack_class 2 buf x) (\<lambda>(f, _).
      if frame_start f < 1 \<or> 5 < frame_start f then Inr (0, f)
      else Inr (1, f\<lparr>cb_index := index_conv_dec (cb_index f)\<rparr>))))"

section \<open>The stream as a list of bits\<close>

definition field :: "nat \<Rightarrow> int \<Rightarrow> bool list" where
  "field n v = map (bit v) (rev [0..<n])"

definition octet_bits :: "u8 \<Rightarrow> bool list" where
  "octet_bits b = map (bit b) (rev [0..<8])"

abbreviation stream_bits :: "bytes \<Rightarrow> bool list" where
  "stream_bits buf \<equiv> concat (map octet_bits buf)"

lemma length_field [simp]: "length (field n v) = n" "length (octet_bits b) = 8"
  by (simp_all add: field_def octet_bits_def)

lemma length_stream [simp]: "length (stream_bits buf) = 8 * length buf"
  by (induction buf) simp_all

lemma field_0 [simp]: "field 0 v = []"
  by (simp add: field_def)

lemma nth_field: "i < n \<Longrightarrow> field n v ! i \<longleftrightarrow> bit v (n - 1 - i)"
  by (simp add: field_def rev_nth)

lemma nth_octet_bits: "i < 8 \<Longrightarrow> octet_bits b ! i \<longleftrightarrow> bit b (7 - i)"
  by (simp add: octet_bits_def rev_nth)

lemma field_split: "r \<le> n \<Longrightarrow> field n v = field (n - r) (drop_bit r v) @ field r v"
  by (rule nth_equalityI) (auto simp: nth_append nth_field bit_simps intro!: arg_cong [of _ _ "bit v"])

lemma field_take [simp]: "field r (take_bit r v) = field r v"
  by (rule nth_equalityI) (auto simp: nth_field bit_simps)

lemma take_bit_split: "v - push_bit r (drop_bit r v) = take_bit r (v :: int)"
  using bits_ident [of r v] by simp

lemma take_stream:
  assumes "p < length buf" "k \<le> 8"
  shows "take (8 * p + k) (stream_bits buf) = stream_bits (take p buf) @ take k (octet_bits (buf ! p))"
proof -
  have "stream_bits buf = stream_bits (take p buf) @ octet_bits (buf ! p) @ stream_bits (drop (Suc p) buf)"
    by (subst id_take_nth_drop [OF assms(1)]) simp
  then show ?thesis using assms by simp
qed

definition clean :: "bit_state \<Rightarrow> bool" where
  "clean = (\<lambda>(buf, p, pos). p < length buf \<and> pos \<le> 8 \<and> (\<forall>i < 8 - pos. 0 < pos \<longrightarrow> \<not> bit (buf ! p) i))"

definition written :: "bit_state \<Rightarrow> bool list" where
  "written = (\<lambda>(buf, p, pos). take (8 * p + pos) (stream_bits buf))"

definition packs_bits :: "bit_state \<Rightarrow> bit_state \<Rightarrow> bool list \<Rightarrow> bool" where
  "packs_bits st st' bs \<longleftrightarrow> clean st' \<and> written st' = written st @ bs \<and> length (fst st') = length (fst st)"

lemma packs_bits_trans: "packs_bits st st' bs \<Longrightarrow> packs_bits st' st'' bs' \<Longrightarrow> packs_bits st st'' (bs @ bs')"
  by (auto simp: packs_bits_def)

lemma length_written: "clean (buf, p, pos) \<Longrightarrow> length (written (buf, p, pos)) = 8 * p + pos"
  by (auto simp: clean_def written_def)

lemma insert_bits:
  assumes "p < length buf" "pos + n \<le> 8" "take_bit n v = v" "\<forall>i < 8 - pos. \<not> bit (buf ! p) i"
    and "buf' = buf[p := buf ! p OR word_of_int (push_bit (8 - pos - n) v)]"
  shows "clean (buf', p, pos + n)" "packs_bits (buf, p, pos) (buf', p, pos + n) (field n v)"
    "pos + n = 8 \<or> (\<forall>i < 8 - (pos + n). \<not> bit (buf' ! p) i)"
proof -
  let ?b = "buf ! p OR word_of_int (push_bit (8 - pos - n) v)"
  have b: "buf' ! p = ?b" using assms by simp
  have low: "\<forall>i < 8 - (pos + n). \<not> bit ?b i"
    using assms(4) by (auto simp: bit_simps)
  have high: "bit v i \<Longrightarrow> i < n" for i using assms(3) by (metis bit_take_bit_iff)
  show "clean (buf', p, pos + n)" using low b assms(1,2,5) by (auto simp: clean_def)
  moreover have "take (pos + n) (octet_bits ?b) = take pos (octet_bits (buf ! p)) @ field n v"
  proof (rule nth_equalityI)
    fix i assume "i < length (take (pos + n) (octet_bits ?b))"
    then have i: "i < pos + n" using assms(2) by simp
    show "take (pos + n) (octet_bits ?b) ! i = (take pos (octet_bits (buf ! p)) @ field n v) ! i"
    proof (cases "i < pos")
      case True
      then have "\<not> (8 - pos - n \<le> 7 - i \<and> bit v (7 - i - (8 - pos - n)))" using high assms(2) by force
      then show ?thesis using True i assms(2) by (auto simp: nth_append nth_octet_bits bit_simps)
    next
      case False
      then have "\<not> bit (buf ! p) (7 - i)" "8 - pos - n \<le> 7 - i" "7 - i - (8 - pos - n) = n - 1 - (i - pos)"
        using assms(2,4) i by auto
      then show ?thesis using False i assms(2) by (auto simp: nth_append nth_octet_bits nth_field bit_simps)
    qed
  qed (use assms(2) in simp)
  ultimately show "packs_bits (buf, p, pos) (buf', p, pos + n) (field n v)"
    using assms(1,2,5) by (simp add: packs_bits_def written_def take_stream b)
  show "pos + n = 8 \<or> (\<forall>i < 8 - (pos + n). \<not> bit (buf' ! p) i)" using low b by simp
qed


text \<open>The step to the next octet keeps what is written and leaves room in the octet.\<close>

lemma pack_octet_bits:
  assumes "p < length buf" "pos \<le> 8" "\<forall>i < 8 - pos. \<not> bit (buf ! p) i" "8 * p + pos < 8 * length buf"
  obtains buf' p' pos' where "pack_octet (buf, p, pos) = Inr (buf', p', pos')" "length buf' = length buf" "p' < length buf'"
    "pos' < 8" "\<forall>i < 8 - pos'. \<not> bit (buf' ! p') i" "8 * p' + pos' = 8 * p + pos" "written (buf', p', pos') = written (buf, p, pos)"
proof (cases "pos = 8")
  case True
  then have p: "p + 1 < length buf" using assms(4) by simp
  let ?buf = "buf[p + 1 := 0]"
  have "8 * (p + 1) + 0 = 8 * p + (8 :: nat)" by simp
  then have "written (?buf, p + 1, 0) = take (8 * p + 8) (stream_bits ?buf)" unfolding written_def prod.case by (rule arg_cong)
  also have "\<dots> = written (buf, p, pos)"
    using take_stream [of p ?buf 8] take_stream [of p buf 8] p True by (simp add: written_def)
  finally have w: "written (?buf, p + 1, 0) = written (buf, p, pos)" .
  show ?thesis
  proof (rule that [of ?buf "p + 1" 0, OF _ _ _ _ _ _ w])
    show "pack_octet (buf, p, pos) = Inr (?buf, p + 1, 0)" using p True by (simp add: pack_octet_def set_octet_def)
    show "8 * (p + 1) + 0 = 8 * p + pos" using True by simp
  qed (use p in simp_all)
next
  case False
  then show ?thesis using that [of buf p pos] assms by (simp add: pack_octet_def)
qed

lemma dopack_loop_bits:
  assumes "p < length buf" "pos \<le> 8" "\<forall>i < 8 - pos. \<not> bit (buf ! p) i" "take_bit n v = v" "8 * p + pos + n \<le> 8 * length buf"
  shows "\<exists>st'. dopack_loop v n (buf, p, pos) = Inr st' \<and> packs_bits (buf, p, pos) st' (field n v)"
  using assms
proof (induction n arbitrary: v buf p pos rule: less_induct)
  case (less n)
  show ?case
  proof (cases "n = 0")
    case True
    then show ?thesis using less.prems by (subst dopack_loop.simps) (auto simp: packs_bits_def clean_def)
  next
    case False
    then have "8 * p + pos < 8 * length buf" using less.prems(5) by simp
    then obtain buf1 p1 pos1 where st1: "pack_octet (buf, p, pos) = Inr (buf1, p1, pos1)" "length buf1 = length buf" "p1 < length buf1"
      "pos1 < 8" "\<forall>i < 8 - pos1. \<not> bit (buf1 ! p1) i" "8 * p1 + pos1 = 8 * p + pos" "written (buf1, p1, pos1) = written (buf, p, pos)"
      using pack_octet_bits [OF less.prems(1-3)] by blast
    note run = dopack_loop.simps [of v n "(buf, p, pos)"]
    have start: "packs_bits (buf, p, pos) st bs \<longleftrightarrow> packs_bits (buf1, p1, pos1) st bs" for st bs
      using st1(2,7) by (simp add: packs_bits_def)
    show ?thesis
    proof (cases "n + pos1 \<le> 8")
      case fits: True
      then have "pos1 + n \<le> 8" by simp
      from insert_bits(2) [OF st1(3) this less.prems(4) st1(5) refl]
      show ?thesis using fits st1 False by (simp add: run set_octet_def start add.commute)
    next
      case crosses: False
      define r where "r = n + pos1 - 8"
      have r: "r < n" "n - r = 8 - pos1" "n = (8 - pos1) + r" using crosses st1(4) by (auto simp: r_def)
      have "8 - pos1 + r = n" using r by simp
      then have high: "take_bit (8 - pos1) (drop_bit r v) = drop_bit r v" using less.prems(4) by (simp only: take_bit_drop_bit)
      define buf2 where "buf2 = buf1[p1 := buf1 ! p1 OR word_of_int (drop_bit r v)]"
      have b2: "packs_bits (buf1, p1, pos1) (buf2, p1, 8) (field (8 - pos1) (drop_bit r v))"
        using insert_bits(2) [OF st1(3) _ high st1(5), of buf2] st1(4) by (simp add: buf2_def)
      have l2: "length buf2 = length buf1" by (simp add: buf2_def)
      have "\<exists>st'. dopack_loop (take_bit r v) r (buf2, p1, 8) = Inr st' \<and> packs_bits (buf2, p1, 8) st' (field r (take_bit r v))"
        by (rule less.IH [OF r(1)]) (use l2 st1 less.prems(5) r in auto)
      then obtain st' where st': "dopack_loop (take_bit r v) r (buf2, p1, 8) = Inr st'" "packs_bits (buf2, p1, 8) st' (field r v)" by auto
      have "field n v = field (8 - pos1) (drop_bit r v) @ field r v" using field_split [of r n v] r by simp
      then have "packs_bits (buf, p, pos) st' (field n v)"
        using packs_bits_trans [OF b2 st'(2)] by (simp add: start)
      moreover have "dopack_loop v n (buf, p, pos) = Inr st'"
        using False crosses st1 st'(1) by (simp add: run set_octet_def r_def [symmetric] take_bit_split buf2_def [symmetric])
      ultimately show ?thesis by blast
    qed
  qed
qed

lemma dopack_bits:
  assumes "clean (buf, p, pos)" "take_bit n v = v" "8 * p + pos + n \<le> 8 * length buf"
  shows "\<exists>st'. dopack v n (buf, p, pos) = Inr st' \<and> packs_bits (buf, p, pos) st' (field n v)"
proof (cases "pos = 0")
  case True
  let ?buf = "buf[p := 0]"
  have p: "p < length buf" using assms(1) by (simp add: clean_def)
  have "written (?buf, p, 0) = written (buf, p, pos)"
    using take_stream [of p ?buf 0] take_stream [of p buf 0] p True by (simp add: written_def)
  then show ?thesis using dopack_loop_bits [of p ?buf 0 n v] p True assms
    by (auto simp: dopack_def set_octet_def packs_bits_def)
next
  case False
  then show ?thesis using dopack_loop_bits [of p buf pos n v] assms by (auto simp: dopack_def clean_def)
qed

lemma drop_stream:
  assumes "p < length buf" "k \<le> 8"
  shows "drop (8 * p + k) (stream_bits buf) = drop k (octet_bits (buf ! p)) @ stream_bits (drop (Suc p) buf)"
proof -
  have "stream_bits buf = stream_bits (take p buf) @ octet_bits (buf ! p) @ stream_bits (drop (Suc p) buf)"
    by (subst id_take_nth_drop [OF assms(1)]) simp
  then show ?thesis using assms by simp
qed

lemma drop_octet_field:
  assumes "pos \<le> 8" "n \<le> 8 - pos" "drop pos (octet_bits b) = field n v @ rest" "take_bit n v = v"
  shows "drop_bit (8 - n) (push_bit pos (uint b) AND 255) = v"
proof (rule bit_eqI)
  fix i
  have eq: "bit b (7 - (pos + j)) \<longleftrightarrow> bit v (n - 1 - j)" if "j < n" for j
    using arg_cong [OF assms(3), of "\<lambda>l. l ! j"] that assms(1,2) by (simp add: nth_octet_bits nth_append nth_field)
  have high: "bit v i \<Longrightarrow> i < n" using assms(4) by (metis bit_take_bit_iff)
  have m: "(255 :: int) = mask 8" by (simp add: mask_eq_exp_minus_1)
  show "bit (drop_bit (8 - n) (push_bit pos (uint b) AND 255)) i \<longleftrightarrow> bit v i"
  proof (cases "i < n")
    case True
    then have "7 - (pos + (n - 1 - i)) = 8 - n + i - pos" "n - 1 - (n - 1 - i) = i" "pos \<le> 8 - n + i" "8 - n + i < 8"
      using assms by auto
    then show ?thesis using eq [of "n - 1 - i"] True by (simp add: m bit_simps del: diff_diff_left)
  next
    case False
    then show ?thesis using high by (auto simp: m bit_simps)
  qed
qed

lemma octet_part:
  assumes "pos \<le> 8" "drop pos (octet_bits b) = field (8 - pos) v" "take_bit (8 - pos) v = v"
  shows "push_bit pos (uint b) AND 255 = push_bit pos v"
proof (rule bit_eqI)
  fix i
  have eq: "bit b (7 - (pos + j)) \<longleftrightarrow> bit v (7 - pos - j)" if "j < 8 - pos" for j
    using arg_cong [OF assms(2), of "\<lambda>l. l ! j"] that assms(1) by (simp add: nth_octet_bits nth_field)
  have high: "bit v j \<Longrightarrow> j < 8 - pos" for j using assms(3) by (metis bit_take_bit_iff)
  have m: "(255 :: int) = mask 8" by (simp add: mask_eq_exp_minus_1)
  show "bit (push_bit pos (uint b) AND 255) i \<longleftrightarrow> bit (push_bit pos v) i"
  proof (cases "pos \<le> i \<and> i < 8")
    case True
    then have "7 - i < 8 - pos" "7 - (pos + (7 - i)) = i - pos" "7 - pos - (7 - i) = i - pos" by auto
    with True show ?thesis using eq [of "7 - i"] by (simp add: m bit_simps del: diff_diff_left)
  next
    case False
    then show ?thesis using high [of "i - pos"] by (auto simp: m bit_simps)
  qed
qed

lemma align_part:
  assumes "8 \<le> n + pos" "pos \<le> 8"
  shows "(if n < 8 then drop_bit (8 - n) (push_bit pos v) else push_bit (n - 8) (push_bit pos v)) = push_bit (n + pos - 8) (v :: int)"
proof (cases "n < 8")
  case True
  then have p: "push_bit pos v = push_bit (8 - n) (push_bit (n + pos - 8) v)" using assms by (simp add: push_bit_push_bit)
  have "drop_bit (8 - n) (push_bit (8 - n) x) = x" for x :: int by (simp add: push_bit_eq_mult drop_bit_eq_div)
  then show ?thesis using True unfolding p by (simp only: if_True)
next
  case False
  then show ?thesis by (simp add: push_bit_push_bit add.commute)
qed

lemma prefix_split:
  "A @ X = B @ Y \<Longrightarrow> length B \<le> length A \<Longrightarrow> A = B @ drop (length B) A \<and> Y = drop (length B) A @ X"
  by (auto simp: append_eq_append_conv2)

lemma unpack_loop_bits:
  assumes "p < length buf" "pos \<le> 8" "drop (8 * p + pos) (stream_bits buf) = field n v @ rest" "take_bit n v = v"
  shows "\<exists>p' pos'. unpack_loop buf index n (p, pos) = Inr (index + v, p', pos') \<and> p' < length buf \<and> pos' \<le> 8 \<and>
    drop (8 * p' + pos') (stream_bits buf) = rest"
  using assms
proof (induction n arbitrary: index v p pos rule: less_induct)
  case (less n)
  show ?case
  proof (cases "n = 0")
    case True
    then show ?thesis using less.prems by (subst unpack_loop.simps) auto
  next
    case False
    define p1 pos1 where "p1 = (if pos = 8 then p + 1 else p)" and "pos1 = (if pos = 8 then 0 else pos)"
    have off: "8 * p1 + pos1 = 8 * p + pos" by (simp add: p1_def pos1_def)
    have "8 * p + pos + n \<le> 8 * length buf"
      using arg_cong [OF less.prems(3), of length] False by simp
    then have p1: "p1 < length buf" "pos1 < 8" using less.prems(1,2) False by (auto simp: p1_def pos1_def)
    have bits: "drop pos1 (octet_bits (buf ! p1)) @ stream_bits (drop (Suc p1) buf) = field n v @ rest"
      using less.prems(3) drop_stream [of p1 buf pos1] p1 off by simp
    let ?x = "push_bit pos1 (uint (buf ! p1)) AND 255"
    have nx: "(if snd (p, pos) = 8 then (fst (p, pos) + 1, 0) else (p, pos)) = (p1, pos1)" by (simp add: p1_def pos1_def)
    note run = unpack_loop.simps [of buf index n "(p, pos)", unfolded nx prod.case]
    show ?thesis
    proof (cases "n + pos1 \<le> 8")
      case fits: True
      have A: "drop pos1 (octet_bits (buf ! p1)) = field n v @ drop n (drop pos1 (octet_bits (buf ! p1)))"
        "rest = drop n (drop pos1 (octet_bits (buf ! p1))) @ stream_bits (drop (Suc p1) buf)"
        using prefix_split [OF bits] fits by auto
      then have "drop_bit (8 - n) ?x = v" using drop_octet_field less.prems(4) fits p1(2) by simp
      then have "unpack_loop buf index n (p, pos) = Inr (index + v, p1, pos1 + n)"
        using False fits p1 by (simp add: run Let_def)
      moreover have "drop (8 * p1 + (pos1 + n)) (stream_bits buf) = rest"
        using drop_stream [of p1 buf "pos1 + n"] p1 fits A(2) by (simp add: add.commute)
      ultimately show ?thesis using p1(1) fits by (simp add: add.commute)
    next
      case crosses: False
      define r where "r = n + pos1 - 8"
      have r: "r < n" "n - r = 8 - pos1" using crosses p1(2) by (auto simp: r_def)
      have "field n v = field (8 - pos1) (drop_bit r v) @ field r (take_bit r v)" using field_split [of r n v] r by simp
      then have "drop pos1 (octet_bits (buf ! p1)) @ stream_bits (drop (Suc p1) buf) = field (8 - pos1) (drop_bit r v) @ field r (take_bit r v) @ rest"
        using bits by (simp only: append_assoc)
      then have two: "drop pos1 (octet_bits (buf ! p1)) = field (8 - pos1) (drop_bit r v)" "stream_bits (drop (Suc p1) buf) = field r (take_bit r v) @ rest"
        by (simp_all only: append_eq_append_conv length_drop length_field simp_thms)
      have "8 - pos1 + r = n" using r by simp
      then have "take_bit (8 - pos1) (drop_bit r v) = drop_bit r v" using less.prems(4) by (simp only: take_bit_drop_bit)
      then have "?x = push_bit pos1 (drop_bit r v)" using octet_part [of pos1] two(1) p1(2) by simp
      moreover have "8 \<le> n + pos1" "pos1 \<le> 8" using crosses p1(2) by auto
      ultimately have "(if n < 8 then drop_bit (8 - n) ?x else push_bit (n - 8) ?x) = push_bit r (drop_bit r v)"
        unfolding r_def by (simp only: align_part)
      then have "unpack_loop buf index n (p, pos) = unpack_loop buf (index + push_bit r (drop_bit r v)) r (p1, 8)"
        using False crosses p1 by (simp add: run Let_def r_def)
      moreover have "\<exists>p' pos'. unpack_loop buf (index + push_bit r (drop_bit r v)) r (p1, 8) = Inr (index + push_bit r (drop_bit r v) + take_bit r v, p', pos') \<and>
          p' < length buf \<and> pos' \<le> 8 \<and> drop (8 * p' + pos') (stream_bits buf) = rest"
        by (rule less.IH [OF r(1) p1(1)]) (use two(2) p1(1) drop_stream [of p1 buf 8] in auto)
      ultimately show ?thesis using bits_ident [of r v] by (simp add: add.assoc)
    qed
  qed
qed

section \<open>Classes of a frame\<close>

text \<open>The bits a parameter has below class \<open>u\<close>, and what class \<open>u\<close> has of it in the stream.\<close>

definition below :: "nat \<Rightarrow> nat list \<Rightarrow> nat" where
  "below u t = t ! (u + 1) + t ! (u + 2)"

definition share :: "nat \<Rightarrow> nat list \<Rightarrow> int \<Rightarrow> bool list" where
  "share u t x = field (t ! u) (drop_bit (below u t) x)"

definition shares :: "nat \<Rightarrow> nat list list \<Rightarrow> int list \<Rightarrow> bool list" where
  "shares u ts xs = concat (map2 (share u) ts xs)"

lemma length_share [simp]: "length (share u t x) = t ! u"
  by (simp add: share_def)

lemma shares_simps [simp]: "shares u [] xs = []" "shares u (t # ts) (x # xs) = share u t x @ shares u ts xs"
  by (simp_all add: shares_def)

lemma length_shares [simp]: "length xs = length ts \<Longrightarrow> length (shares u ts xs) = sum_list (map (\<lambda>t. t ! u) ts)"
  by (induction xs ts rule: list_induct2) simp_all

text \<open>The state has room for \<open>n\<close> more bits.\<close>

definition room :: "nat \<Rightarrow> bit_state \<Rightarrow> bool" where
  "room n st \<longleftrightarrow> clean st \<and> length (written st) + n \<le> 8 * length (fst st)"

lemma room_after: "packs_bits st st' bs \<Longrightarrow> room (length bs + n) st \<Longrightarrow> room n st'"
  by (auto simp: room_def packs_bits_def)

lemma room_less: "room n st \<Longrightarrow> m \<le> n \<Longrightarrow> room m st"
  by (auto simp: room_def)

lemma pack_param_bits:
  assumes "room (t ! u) st"
  shows "\<exists>st'. pack_param u t (take_bit (t ! u + below u t) x) st = Inr (take_bit (below u t) x, st') \<and> packs_bits st st' (share u t x)"
proof -
  obtain buf p pos where st: "st = (buf, p, pos)" by (cases st)
  have "packsplit (take_bit (t ! u + below u t) x) (t ! u) (t ! u + t ! (u + 1) + t ! (u + 2)) =
      (take_bit (t ! u) (drop_bit (below u t) x), take_bit (below u t) x)"
  proof -
    have b: "t ! u + t ! (u + 1) + t ! (u + 2) - t ! u = below u t" by (simp add: below_def)
    show ?thesis unfolding packsplit_def b Let_def take_bit_split by (simp add: drop_bit_take_bit)
  qed
  moreover have "\<exists>st'. dopack (take_bit (t ! u) (drop_bit (below u t) x)) (t ! u) st = Inr st' \<and> packs_bits st st' (share u t x)"
    using assms dopack_bits [of buf p pos "t ! u" "take_bit (t ! u) (drop_bit (below u t) x)"] length_written [of buf p pos]
    by (simp add: st room_def share_def)
  ultimately show ?thesis by (auto simp: pack_param_def)
qed

lemma pack_params_bits:
  assumes "length xs = length ts" "room (sum_list (map (\<lambda>t. t ! u) ts)) st"
  shows "\<exists>st'. pack_params u ts (map2 (\<lambda>t x. take_bit (t ! u + below u t) x) ts xs) st =
      Inr (map2 (\<lambda>t x. take_bit (below u t) x) ts xs, st') \<and> packs_bits st st' (shares u ts xs)"
  using assms
proof (induction xs ts arbitrary: st rule: list_induct2)
  case Nil
  then show ?case by (simp add: packs_bits_def room_def)
next
  case (Cons x xs t ts)
  obtain st1 where st1: "pack_param u t (take_bit (t ! u + below u t) x) st = Inr (take_bit (below u t) x, st1)" "packs_bits st st1 (share u t x)"
    using pack_param_bits [of t u st x] room_less [OF Cons.prems] by auto
  obtain st2 where "pack_params u ts (map2 (\<lambda>t x. take_bit (t ! u + below u t) x) ts xs) st1 = Inr (map2 (\<lambda>t x. take_bit (below u t) x) ts xs, st2)"
    "packs_bits st1 st2 (shares u ts xs)"
    using Cons.IH [of st1] room_after [OF st1(2)] Cons.prems by auto
  then show ?case using st1 packs_bits_trans [OF st1(2)] by simp
qed

definition reads :: "bytes \<Rightarrow> nat \<times> nat \<Rightarrow> bool list \<Rightarrow> bool" where
  "reads buf st bs \<longleftrightarrow> fst st < length buf \<and> snd st \<le> 8 \<and> drop (8 * fst st + snd st) (stream_bits buf) = bs"

lemma unpack_param_bits:
  assumes "reads buf st (share u t x @ bs)"
  shows "\<exists>st'. unpack_param u buf t (drop_bit (t ! u + below u t) x) st = Inr (drop_bit (below u t) x, st') \<and> reads buf st' bs"
proof -
  let ?v = "take_bit (t ! u) (drop_bit (below u t) x)"
  obtain p pos where st: "st = (p, pos)" by (cases st)
  have "packcombine (drop_bit (t ! u + below u t) x) ?v (t ! u) = drop_bit (below u t) x"
    using bits_ident [of "t ! u" "drop_bit (below u t) x"] by (simp add: packcombine_def)
  then show ?thesis using unpack_loop_bits [of p buf pos "t ! u" ?v bs 0] assms
    by (auto simp: st reads_def share_def unpack_param_def unpack_def)
qed

lemma unpack_params_bits:
  assumes "length xs = length ts" "reads buf st (shares u ts xs @ bs)"
  shows "\<exists>st'. unpack_params u buf ts (map2 (\<lambda>t x. drop_bit (t ! u + below u t) x) ts xs) st =
      Inr (map2 (\<lambda>t x. drop_bit (below u t) x) ts xs, st') \<and> reads buf st' bs"
  using assms
proof (induction xs ts arbitrary: st rule: list_induct2)
  case Nil
  then show ?case by simp
next
  case (Cons x xs t ts)
  obtain st1 where st1: "unpack_param u buf t (drop_bit (t ! u + below u t) x) st = Inr (drop_bit (below u t) x, st1)" "reads buf st1 (shares u ts xs @ bs)"
    using unpack_param_bits [of buf st u t x "shares u ts xs @ bs"] Cons.prems by auto
  then show ?case using Cons.IH [OF st1(2)] by auto
qed


definition shaped :: "ilbc_frame \<Rightarrow> bool" where
  "shaped f \<longleftrightarrow> length (lsf_i f) = 6 \<and> length (idxVec f) = STATE_SHORT_LEN \<and>
    length (extra_cb_index f) = CB_NSTAGES \<and> length (extra_gain_index f) = CB_NSTAGES \<and>
    length (cb_index f) = NASUB * CB_NSTAGES \<and> length (gain_index f) = NASUB * CB_NSTAGES"

definition on_frame :: "(nat list \<Rightarrow> int \<Rightarrow> int) \<Rightarrow> ilbc_frame \<Rightarrow> ilbc_frame" where
  "on_frame g f = \<lparr>lsf_i = map2 g ulp_lsf_bitsTbl (lsf_i f), frame_start = g ulp_start_bitsTbl (frame_start f),
     state_first = g ulp_startfirst_bitsTbl (state_first f), idxForMax = g ulp_scale_bitsTbl (idxForMax f),
     idxVec = map2 g (replicate STATE_SHORT_LEN ulp_state_bitsTbl) (idxVec f),
     extra_cb_index = map2 g ulp_extra_cb_indexTbl (extra_cb_index f), extra_gain_index = map2 g ulp_extra_cb_gainTbl (extra_gain_index f),
     cb_index = map2 g ulp_cb_indexTbl (cb_index f), gain_index = map2 g ulp_cb_gainTbl (gain_index f)\<rparr>"

definition class_bits :: "nat \<Rightarrow> ilbc_frame \<Rightarrow> bool list" where
  "class_bits u f = shares u ulp_lsf_bitsTbl (lsf_i f) @ share u ulp_start_bitsTbl (frame_start f) @
     share u ulp_startfirst_bitsTbl (state_first f) @ share u ulp_scale_bitsTbl (idxForMax f) @
     shares u (replicate STATE_SHORT_LEN ulp_state_bitsTbl) (idxVec f) @
     shares u ulp_extra_cb_indexTbl (extra_cb_index f) @ shares u ulp_extra_cb_gainTbl (extra_gain_index f) @
     shares u ulp_cb_indexTbl (cb_index f) @ shares u ulp_cb_gainTbl (gain_index f)"

lemmas ulp_tables = ulp_lsf_bitsTbl_def ulp_start_bitsTbl_def ulp_startfirst_bitsTbl_def ulp_scale_bitsTbl_def
  ulp_state_bitsTbl_def ulp_extra_cb_indexTbl_def ulp_extra_cb_gainTbl_def ulp_cb_indexTbl_def ulp_cb_gainTbl_def

lemma table_lengths [simp]:
  "length ulp_lsf_bitsTbl = 6" "length ulp_extra_cb_indexTbl = CB_NSTAGES" "length ulp_extra_cb_gainTbl = CB_NSTAGES"
  "length ulp_cb_indexTbl = NASUB * CB_NSTAGES" "length ulp_cb_gainTbl = NASUB * CB_NSTAGES"
  by (simp_all add: ulp_tables)


text \<open>Operations that write, or read, just these bits and yield this result; they compose.\<close>

definition packer :: "(bit_state \<Rightarrow> ('a \<times> bit_state) res) \<Rightarrow> bool list \<Rightarrow> 'a \<Rightarrow> bool" where
  "packer m bs y \<longleftrightarrow> (\<forall>st n. room (length bs + n) st \<longrightarrow> (\<exists>st'. m st = Inr (y, st') \<and> packs_bits st st' bs \<and> room n st'))"

definition reader :: "(nat \<times> nat \<Rightarrow> ('a \<times> nat \<times> nat) res) \<Rightarrow> bytes \<Rightarrow> bool list \<Rightarrow> 'a \<Rightarrow> bool" where
  "reader m buf bs y \<longleftrightarrow> (\<forall>st rest. reads buf st (bs @ rest) \<longrightarrow> (\<exists>st'. m st = Inr (y, st') \<and> reads buf st' rest))"

lemma packer_return: "packer (\<lambda>st. Inr (y, st)) [] y"
  by (auto simp: packer_def packs_bits_def room_def)

lemma packer_bind:
  assumes "packer m bs y" "packer (k y) bs' z"
  shows "packer (\<lambda>st. bnd (m st) (case_prod k)) (bs @ bs') z"
  unfolding packer_def
proof (intro allI impI)
  fix st n assume "room (length (bs @ bs') + n) st"
  then have "room (length bs + (length bs' + n)) st" by (simp add: add.assoc)
  then obtain s1 where s1: "m st = Inr (y, s1)" "packs_bits st s1 bs" "room (length bs' + n) s1"
    using assms(1) unfolding packer_def by blast
  then obtain s2 where "k y s1 = Inr (z, s2)" "packs_bits s1 s2 bs'" "room n s2"
    using assms(2) unfolding packer_def by blast
  then show "\<exists>st'. bnd (m st) (case_prod k) = Inr (z, st') \<and> packs_bits st st' (bs @ bs') \<and> room n st'"
    using s1 packs_bits_trans [OF s1(2)] by auto
qed


lemma packerI:
  assumes "\<And>st. room (length bs) st \<Longrightarrow> \<exists>st'. m st = Inr (y, st') \<and> packs_bits st st' bs"
  shows "packer m bs y"
  unfolding packer_def
proof (intro allI impI)
  fix st n assume r: "room (length bs + n) st"
  then obtain st' where "m st = Inr (y, st')" "packs_bits st st' bs" using assms [OF room_less [OF r]] by auto
  then show "\<exists>st'. m st = Inr (y, st') \<and> packs_bits st st' bs \<and> room n st'" using room_after [OF _ r] by blast
qed

lemma packer_param: "packer (pack_param u t (take_bit (t ! u + below u t) x)) (share u t x) (take_bit (below u t) x)"
  by (rule packerI, rule pack_param_bits) simp

lemma packer_params:
  "length xs = length ts \<Longrightarrow> packer (pack_params u ts (map2 (\<lambda>t x. take_bit (t ! u + below u t) x) ts xs)) (shares u ts xs)
    (map2 (\<lambda>t x. take_bit (below u t) x) ts xs)"
  by (rule packerI, rule pack_params_bits) simp_all

lemma reader_return: "reader (\<lambda>st. Inr (y, st)) buf [] y"
  by (auto simp: reader_def)

lemma reader_bind:
  assumes "reader m buf bs y" "reader (k y) buf bs' z"
  shows "reader (\<lambda>st. bnd (m st) (case_prod k)) buf (bs @ bs') z"
  using assms by (fastforce simp: reader_def)

lemma reader_param: "reader (unpack_param u buf t (drop_bit (t ! u + below u t) x)) buf (share u t x) (drop_bit (below u t) x)"
  using unpack_param_bits by (auto simp: reader_def)

lemma reader_params:
  "length xs = length ts \<Longrightarrow> reader (unpack_params u buf ts (map2 (\<lambda>t x. drop_bit (t ! u + below u t) x) ts xs)) buf
    (shares u ts xs) (map2 (\<lambda>t x. drop_bit (below u t) x) ts xs)"
  using unpack_params_bits by (auto simp: reader_def)


lemma packer_class:
  assumes "shaped f"
  shows "packer (\<lambda>st. pack_class u (on_frame (\<lambda>t. take_bit (t ! u + below u t)) f, st)) (class_bits u f) (on_frame (\<lambda>t. take_bit (below u t)) f)"
proof -
  have b: "class_bits u f = class_bits u f @ []" by simp
  show ?thesis using assms unfolding pack_class_def on_frame_def prod.case ilbc_frame.simps shaped_def
    by (subst b, unfold class_bits_def append_assoc)
      (rule packer_bind, (rule packer_param | rule packer_params, simp) | rule packer_return)+
qed

lemma reader_class:
  assumes "shaped f"
  shows "reader (\<lambda>st. unpack_class u buf (on_frame (\<lambda>t. drop_bit (t ! u + below u t)) f, st)) buf (class_bits u f) (on_frame (\<lambda>t. drop_bit (below u t)) f)"
proof -
  have b: "class_bits u f = class_bits u f @ []" by simp
  show ?thesis using assms unfolding unpack_class_def on_frame_def prod.case ilbc_frame.simps shaped_def
    by (subst b, unfold class_bits_def append_assoc)
      (rule reader_bind, (rule reader_param | rule reader_params, simp) | rule reader_return)+
qed

section \<open>Ranges\<close>

text \<open>Every parameter of a frame with its row.\<close>

definition frame_params :: "ilbc_frame \<Rightarrow> (nat list \<times> int) list" where
  "frame_params f = zip ulp_lsf_bitsTbl (lsf_i f) @ [(ulp_start_bitsTbl, frame_start f), (ulp_startfirst_bitsTbl, state_first f),
     (ulp_scale_bitsTbl, idxForMax f)] @ zip (replicate STATE_SHORT_LEN ulp_state_bitsTbl) (idxVec f) @
     zip ulp_extra_cb_indexTbl (extra_cb_index f) @ zip ulp_extra_cb_gainTbl (extra_gain_index f) @
     zip ulp_cb_indexTbl (cb_index f) @ zip ulp_cb_gainTbl (gain_index f)"

definition fits_stream :: "ilbc_frame \<Rightarrow> bool" where
  "fits_stream f \<longleftrightarrow> shaped f \<and> (\<forall>(t, x) \<in> set (frame_params f). 0 \<le> x \<and> x < 2 ^ sum_list t)"

lemma on_frame_cong:
  "(\<And>t x. (t, x) \<in> set (frame_params f) \<Longrightarrow> g t x = h t x) \<Longrightarrow> on_frame g f = on_frame h f"
  unfolding on_frame_def frame_params_def by (auto intro!: map_cong)

lemma map2_snd: "length xs = length ts \<Longrightarrow> map2 (\<lambda>t x. x) ts xs = xs"
  by (induction xs ts rule: list_induct2) simp_all

lemma map2_const: "length xs = length ts \<Longrightarrow> map2 (\<lambda>t x. c) ts xs = replicate (length ts) c"
  by (induction xs ts rule: list_induct2) simp_all

lemma on_frame_id: "shaped f \<Longrightarrow> on_frame (\<lambda>t x. x) f = f"
  by (simp add: on_frame_def shaped_def map2_snd)

lemma on_frame_0: "shaped f \<Longrightarrow> on_frame (\<lambda>t x. 0) f = cleared_frame"
  by (simp add: on_frame_def shaped_def map2_const cleared_frame_def)

definition rows :: "nat list set" where
  "rows = set (ulp_lsf_bitsTbl @ [ulp_start_bitsTbl, ulp_startfirst_bitsTbl, ulp_scale_bitsTbl, ulp_state_bitsTbl] @
     ulp_extra_cb_indexTbl @ ulp_extra_cb_gainTbl @ ulp_cb_indexTbl @ ulp_cb_gainTbl)"

lemma params_rows: "(t, x) \<in> set (frame_params f) \<Longrightarrow> t \<in> rows"
  unfolding frame_params_def rows_def by (auto dest: set_zip_leftD)

lemma row_shape: "t \<in> rows \<Longrightarrow> \<exists>a b c. t = [a, b, c, 0, 0]"
  unfolding rows_def ulp_tables by auto

lemma row_sums:
  assumes "(t, x) \<in> set (frame_params f)"
  shows "t ! 0 + below 0 t = sum_list t" "t ! 1 + below 1 t = below 0 t" "t ! 2 + below 2 t = below 1 t" "below 2 t = 0"
  using row_shape [OF params_rows [OF assms]] by (auto simp: below_def)

lemma class_sizes:
  assumes "shaped f"
  shows "length (class_bits 0 f) = 64" "length (class_bits 1 f) = 96" "length (class_bits 2 f) = 239"
  using assms by (simp_all add: class_bits_def shaped_def ulp_tables sum_list_replicate)

lemmas class_size_simps = class_sizes class_sizes(2) [unfolded One_nat_def]

lemma range_take: "0 \<le> x \<Longrightarrow> x < 2 ^ n \<Longrightarrow> take_bit n x = (x :: int)"
  by (simp add: take_bit_int_eq_self_iff)

lemma range_drop: "0 \<le> x \<Longrightarrow> x < 2 ^ n \<Longrightarrow> drop_bit n x = (0 :: int)"
  by (simp add: drop_bit_eq_div)


lemma pack_classes:
  assumes "fits_stream f" "length buf = NO_OF_BYTES"
  shows "\<exists>s. bnd (pack_class 0 (f, buf, 0, 0)) (\<lambda>x. bnd (pack_class 1 x) (\<lambda>x. bnd (pack_class 2 x) (\<lambda>(f, st). bnd (dopack 0 1 st) (\<lambda>(buf, _). Inr buf)))) = Inr s
    \<and> length s = NO_OF_BYTES \<and> stream_bits s = class_bits 0 f @ class_bits 1 f @ class_bits 2 f @ [False]"
proof -
  have sh: "shaped f" and ran: "\<And>t x. (t, x) \<in> set (frame_params f) \<Longrightarrow> 0 \<le> x \<and> x < 2 ^ sum_list t"
    using assms(1) by (auto simp: fits_stream_def)
  let ?T = "\<lambda>u. on_frame (\<lambda>t. take_bit (t ! u + below u t)) f" and ?B = "\<lambda>u. on_frame (\<lambda>t. take_bit (below u t)) f"
  have "?T 0 = on_frame (\<lambda>t x. x) f" by (rule on_frame_cong) (use ran range_take row_sums(1) in simp)
  then have start: "?T 0 = f" by (simp add: on_frame_id [OF sh])
  have step: "?B 0 = ?T 1" "?B 1 = ?T 2" by (rule on_frame_cong, use row_sums(2,3) in simp)+
  have "room (length (class_bits 0 f) + (length (class_bits 1 f) + (length (class_bits 2 f) + 1))) (buf, 0, 0)"
    using assms(2) by (simp add: room_def clean_def written_def class_size_simps [OF sh])
  then obtain s1 where s1: "pack_class 0 (f, buf, 0, 0) = Inr (?B 0, s1)" "packs_bits (buf, 0, 0) s1 (class_bits 0 f)"
    "room (length (class_bits 1 f) + (length (class_bits 2 f) + 1)) s1"
    using packer_class [OF sh, of 0] unfolding packer_def start by blast
  obtain s2 where s2: "pack_class 1 (?B 0, s1) = Inr (?B 1, s2)" "packs_bits s1 s2 (class_bits 1 f)" "room (length (class_bits 2 f) + 1) s2"
    using packer_class [OF sh, of 1] s1(3) unfolding packer_def step(1) by blast
  obtain s3 where s3: "pack_class 2 (?B 1, s2) = Inr (?B 2, s3)" "packs_bits s2 s3 (class_bits 2 f)" "room 1 s3"
    using packer_class [OF sh, of 2] s2(3) unfolding packer_def step(2) by blast
  obtain st where st: "dopack 0 1 s3 = Inr st" "packs_bits s3 st (field 1 0)"
    using dopack_bits [of "fst s3" "fst (snd s3)" "snd (snd s3)" 1 0] s3(3) length_written [of "fst s3" "fst (snd s3)" "snd (snd s3)"]
    by (auto simp: room_def)
  obtain s p pos where s: "st = (s, p, pos)" by (cases st)
  have "field 1 0 = [False]" by (simp add: field_def)
  then have all: "packs_bits (buf, 0, 0) (s, p, pos) (class_bits 0 f @ class_bits 1 f @ class_bits 2 f @ [False])"
    using packs_bits_trans [OF s1(2) packs_bits_trans [OF s2(2) packs_bits_trans [OF s3(2) st(2)]]] by (simp only: s)
  then have len: "length s = NO_OF_BYTES" using assms(2) by (simp add: packs_bits_def)
  have "8 * p + pos = 400" using length_written [of s p pos] all by (simp add: packs_bits_def class_size_simps [OF sh]) (simp add: written_def)
  then have "written (s, p, pos) = stream_bits s" using len by (simp add: written_def)
  then have "stream_bits s = class_bits 0 f @ class_bits 1 f @ class_bits 2 f @ [False]" using all by (simp add: packs_bits_def written_def)
  then show ?thesis using s1(1) s2(1) s3(1) st(1) s len by auto
qed

lemma unpack_classes:
  assumes "fits_stream f" "stream_bits s = class_bits 0 f @ class_bits 1 f @ class_bits 2 f @ [b]"
  shows "\<exists>st. bnd (unpack_class 0 s (cleared_frame, 0, 0)) (\<lambda>x. bnd (unpack_class 1 s x) (unpack_class 2 s)) = Inr (f, st)"
proof -
  have sh: "shaped f" and ran: "\<And>t x. (t, x) \<in> set (frame_params f) \<Longrightarrow> 0 \<le> x \<and> x < 2 ^ sum_list t"
    using assms(1) by (auto simp: fits_stream_def)
  let ?T = "\<lambda>u. on_frame (\<lambda>t. drop_bit (t ! u + below u t)) f" and ?B = "\<lambda>u. on_frame (\<lambda>t. drop_bit (below u t)) f"
  have "?T 0 = on_frame (\<lambda>t x. 0) f" by (rule on_frame_cong) (use ran range_drop row_sums(1) in simp)
  then have start: "?T 0 = cleared_frame" by (simp add: on_frame_0 [OF sh])
  have step: "?B 0 = ?T 1" "?B 1 = ?T 2" by (rule on_frame_cong, use row_sums(2,3) in simp)+
  have "?B 2 = on_frame (\<lambda>t x. x) f" by (rule on_frame_cong) (use row_sums(4) in simp)
  then have stop: "?B 2 = f" by (simp add: on_frame_id [OF sh])
  have "length (stream_bits s) = 400" unfolding assms(2) by (simp add: class_size_simps [OF sh])
  then have "s \<noteq> []" by auto
  then have "reads s (0, 0) (class_bits 0 f @ class_bits 1 f @ class_bits 2 f @ [b])" by (auto simp: reads_def assms(2))
  then obtain s1 where s1: "unpack_class 0 s (cleared_frame, 0, 0) = Inr (?B 0, s1)" "reads s s1 (class_bits 1 f @ class_bits 2 f @ [b])"
    using reader_class [OF sh, of 0] unfolding reader_def start by blast
  obtain s2 where s2: "unpack_class 1 s (?B 0, s1) = Inr (?B 1, s2)" "reads s s2 (class_bits 2 f @ [b])"
    using reader_class [OF sh, of 1] s1(2) unfolding reader_def step(1) by blast
  obtain s3 where "unpack_class 2 s (?B 1, s2) = Inr (f, s3)"
    using reader_class [OF sh, of 2] s2(2) unfolding reader_def step(2) stop by blast
  then show ?thesis using s1(1) s2(1) by auto
qed

text \<open>The indices the search leaves in the second and third stage of the first sub-block.\<close>

definition searched :: "int \<Rightarrow> bool" where
  "searched x \<longleftrightarrow> 0 \<le> x \<and> x < 44 \<or> 108 \<le> x \<and> x < 172 \<or> 236 \<le> x \<and> x < 256"


definition conv_enc1 :: "int \<Rightarrow> int" where
  "conv_enc1 x = (if 108 \<le> x \<and> x < 172 then x - 64 else if 236 \<le> x then x - 128 else x)"

definition conv_dec1 :: "int \<Rightarrow> int" where
  "conv_dec1 x = (if 44 \<le> x \<and> x < 108 then x + 64 else if 108 \<le> x \<and> x < 128 then x + 128 else x)"

lemma index_conv_cons:
  "index_conv_enc (a # b # c # r) = a # conv_enc1 b # conv_enc1 c # r"
  "index_conv_dec (a # b # c # r) = a # conv_dec1 b # conv_dec1 c # r"
  by (simp_all add: index_conv_enc_def index_conv_dec_def conv_enc1_def conv_dec1_def upt_rec numeral_3_eq_3)

lemma conv_dec_enc: "searched x \<Longrightarrow> conv_dec1 (conv_enc1 x) = x \<and> 0 \<le> conv_enc1 x \<and> conv_enc1 x < 128"
  by (auto simp: searched_def conv_enc1_def conv_dec1_def)

lemma conv_enc_dec: "0 \<le> x \<Longrightarrow> x < 128 \<Longrightarrow> conv_enc1 (conv_dec1 x) = x \<and> searched (conv_dec1 x)"
  by (auto simp: searched_def conv_enc1_def conv_dec1_def)

section \<open>Every sequence of bits is a frame\<close>

lemma octet_bits_inj: "octet_bits a = octet_bits b \<Longrightarrow> a = b"
proof (rule bit_word_eqI)
  fix i assume eq: "octet_bits a = octet_bits b" and i: "i < LENGTH(8)"
  have "7 - (7 - i) = i" using i by auto
  note n = nth_octet_bits [of "7 - i", unfolded this]
  have "bit a i \<longleftrightarrow> octet_bits a ! (7 - i)" by (simp add: n)
  also have "\<dots> \<longleftrightarrow> octet_bits b ! (7 - i)" by (simp only: eq)
  also have "\<dots> \<longleftrightarrow> bit b i" by (simp add: n)
  finally show "bit a i \<longleftrightarrow> bit b i" .
qed

lemma stream_bits_inj: "length a = length b \<Longrightarrow> stream_bits a = stream_bits b \<Longrightarrow> a = b"
  by (induction a b rule: list_induct2) (auto simp: append_eq_append_conv dest: octet_bits_inj)

lemma octet_last: "octet_bits (b AND 254) = take 7 (octet_bits b) @ [False]"
  by (simp add: octet_bits_def upt_rec bit_and_iff)

lemma stream_last:
  assumes "length s = NO_OF_BYTES"
  shows "stream_bits (s[49 := (s ! 49) AND 254]) = butlast (stream_bits s) @ [False]"
proof -
  have s: "s = take 49 s @ [s ! 49]" using id_take_nth_drop [of 49 s] assms by simp
  have "butlast (stream_bits s) = butlast (stream_bits (take 49 s) @ octet_bits (s ! 49))" by (subst s) simp
  also have "\<dots> = stream_bits (take 49 s) @ take 7 (octet_bits (s ! 49))"
    by (subst butlast_append) (simp add: butlast_conv_take octet_bits_def)
  finally show ?thesis using assms by (subst (1) s) (simp add: list_update_append octet_last)
qed

lemma exists_field: "\<exists>x :: int. field (length b) x = b \<and> 0 \<le> x \<and> x < 2 ^ length b"
proof -
  let ?x = "horner_sum of_bool 2 (rev b) :: int"
  have "take_bit (length b) ?x = ?x" by (rule bit_eqI) (auto simp: bit_simps bit_horner_sum_bit_iff)
  then have "0 \<le> ?x" "?x < 2 ^ length b" by (simp_all add: take_bit_int_eq_self_iff)
  moreover have "field (length b) ?x = b"
    by (rule nth_equalityI) (auto simp: nth_field bit_horner_sum_bit_iff rev_nth)
  ultimately show ?thesis by blast
qed

lemma exists_share:
  assumes "t \<in> rows" "length b0 = t ! 0" "length b1 = t ! 1" "length b2 = t ! 2"
  shows "\<exists>x. share 0 t x = b0 \<and> share 1 t x = b1 \<and> share 2 t x = b2 \<and> 0 \<le> x \<and> x < 2 ^ sum_list t"
proof -
  obtain k l m where t: "t = [k, l, m, 0, 0]" using row_shape [OF assms(1)] by blast
  then have len: "length b0 = k" "length b1 = l" "length b2 = m" using assms by auto
  obtain x :: int where x: "field (k + l + m) x = b0 @ b1 @ b2" "0 \<le> x" "x < 2 ^ (k + l + m)"
    using exists_field [of "b0 @ b1 @ b2"] len by (auto simp: add.assoc)
  have "field (k + l + m) x = field k (drop_bit (l + m) x) @ field l (drop_bit m x) @ field m x"
    using field_split [of "l + m" "k + l + m" x] field_split [of m "l + m" x] by simp
  then have "field k (drop_bit (l + m) x) = b0" "field l (drop_bit m x) = b1" "field m x = b2"
    using x(1) len by (simp_all add: append_eq_append_conv)
  then show ?thesis using x(2,3) by (intro exI [of _ x]) (simp add: t share_def below_def add.assoc)
qed

lemma exists_shares:
  assumes "set ts \<subseteq> rows" "length b0 = sum_list (map (\<lambda>t. t ! 0) ts)" "length b1 = sum_list (map (\<lambda>t. t ! 1) ts)"
    "length b2 = sum_list (map (\<lambda>t. t ! 2) ts)"
  shows "\<exists>xs. length xs = length ts \<and> shares 0 ts xs = b0 \<and> shares 1 ts xs = b1 \<and> shares 2 ts xs = b2 \<and>
    (\<forall>(t, x) \<in> set (zip ts xs). 0 \<le> x \<and> x < 2 ^ sum_list t)"
  using assms
proof (induction ts arbitrary: b0 b1 b2)
  case Nil
  then show ?case by simp
next
  case (Cons t ts)
  obtain x where x: "share 0 t x = take (t ! 0) b0" "share 1 t x = take (t ! 1) b1" "share 2 t x = take (t ! 2) b2" "0 \<le> x" "x < 2 ^ sum_list t"
    using exists_share [of t "take (t ! 0) b0" "take (t ! 1) b1" "take (t ! 2) b2"] Cons.prems by auto
  obtain xs where "length xs = length ts" "shares 0 ts xs = drop (t ! 0) b0" "shares 1 ts xs = drop (t ! 1) b1" "shares 2 ts xs = drop (t ! 2) b2"
    "\<forall>(t, x) \<in> set (zip ts xs). 0 \<le> x \<and> x < 2 ^ sum_list t"
    using Cons.IH [of "drop (t ! 0) b0" "drop (t ! 1) b1" "drop (t ! 2) b2"] Cons.prems by auto
  then show ?case using x by (intro exI [of _ "x # xs"]) simp
qed

definition all_rows :: "nat list list" where
  "all_rows = ulp_lsf_bitsTbl @ [ulp_start_bitsTbl, ulp_startfirst_bitsTbl, ulp_scale_bitsTbl] @ replicate STATE_SHORT_LEN ulp_state_bitsTbl @
     ulp_extra_cb_indexTbl @ ulp_extra_cb_gainTbl @ ulp_cb_indexTbl @ ulp_cb_gainTbl"

lemma cut_list: "length xs = n + m \<Longrightarrow> \<exists>ys zs. xs = ys @ zs \<and> length ys = n \<and> length zs = m"
  by (intro exI [of _ "take n xs"] exI [of _ "drop n xs"]) simp

lemma frame_of_list:
  assumes "length xs = length all_rows"
  shows "\<exists>f. shaped f \<and> frame_params f = zip all_rows xs \<and> (\<forall>u. class_bits u f = shares u all_rows xs)"
proof -
  have "length xs = 6 + (3 + (58 + (3 + (3 + (12 + 12)))))" using assms by (simp add: all_rows_def)
  from cut_list [OF this] obtain l r1 where l: "xs = l @ r1" "length l = 6" and "length r1 = 3 + (58 + (3 + (3 + (12 + 12))))" by blast
  from cut_list [OF this(3)] obtain h r2 where h0: "r1 = h @ r2" "length h = 3" and "length r2 = 58 + (3 + (3 + (12 + 12)))" by blast
  from cut_list [OF this(3)] obtain v r3 where v: "r2 = v @ r3" "length v = 58" and "length r3 = 3 + (3 + (12 + 12))" by blast
  from cut_list [OF this(3)] obtain ei r4 where ei: "r3 = ei @ r4" "length ei = 3" and "length r4 = 3 + (12 + 12)" by blast
  from cut_list [OF this(3)] obtain eg r5 where eg: "r4 = eg @ r5" "length eg = 3" and "length r5 = 12 + 12" by blast
  from cut_list [OF this(3)] obtain ci gi where ci: "r5 = ci @ gi" "length ci = 12" "length gi = 12" by blast
  note x = l h0 v ei eg ci
  obtain a b c where h: "h = [a, b, c]" using h0(2) by (auto simp: numeral_3_eq_3 length_Suc_conv)
  let ?f = "\<lparr>lsf_i = l, frame_start = a, state_first = b, idxForMax = c, idxVec = v, extra_cb_index = ei, extra_gain_index = eg,
    cb_index = ci, gain_index = gi\<rparr>"
  have "zip all_rows xs = frame_params ?f" using x by (simp add: all_rows_def h frame_params_def)
  moreover have "class_bits u ?f = shares u all_rows xs" for u
    using x by (simp add: all_rows_def h class_bits_def shares_def)
  moreover have "shaped ?f" using x by (simp add: shaped_def)
  ultimately show ?thesis by metis
qed

lemma exists_frame:
  assumes "length s = NO_OF_BYTES"
  obtains f b where "fits_stream f" "stream_bits s = class_bits 0 f @ class_bits 1 f @ class_bits 2 f @ [b]"
proof -
  have "length (stream_bits s) = 64 + (96 + (239 + 1))" using assms by simp
  from cut_list [OF this] obtain b0 r1 where b0: "stream_bits s = b0 @ r1" "length b0 = 64" and "length r1 = 96 + (239 + 1)" by blast
  from cut_list [OF this(3)] obtain b1 r2 where b1: "r1 = b1 @ r2" "length b1 = 96" and "length r2 = 239 + 1" by blast
  from cut_list [OF this(3)] obtain b2 b3 where b2: "r2 = b2 @ b3" "length b2 = 239" "length b3 = 1" by blast
  note b = b0 b1 b2
  have "set all_rows \<subseteq> rows" by (auto simp: all_rows_def rows_def)
  moreover have "length b0 = sum_list (map (\<lambda>t. t ! 0) all_rows)" "length b1 = sum_list (map (\<lambda>t. t ! 1) all_rows)"
    "length b2 = sum_list (map (\<lambda>t. t ! 2) all_rows)"
    using b by (simp_all add: all_rows_def ulp_tables sum_list_replicate)
  ultimately obtain xs where xs: "length xs = length all_rows" "shares 0 all_rows xs = b0" "shares 1 all_rows xs = b1" "shares 2 all_rows xs = b2"
    "\<forall>(t, x) \<in> set (zip all_rows xs). 0 \<le> x \<and> x < 2 ^ sum_list t"
    using exists_shares [of all_rows b0 b1 b2] by blast
  obtain f where "shaped f" "frame_params f = zip all_rows xs" "\<forall>u. class_bits u f = shares u all_rows xs" using frame_of_list [OF xs(1)] by blast
  moreover obtain c where "b3 = [c]" using b2(3) by (cases b3) auto
  ultimately show ?thesis using that [of f c] xs b by (simp add: fits_stream_def)
qed

section \<open>Properties\<close>

text \<open>A frame as the search leaves it: every parameter has the width of its row, where the indices of the
  first sub-block are counted after their adjustment.\<close>

definition frame_ok :: "ilbc_frame \<Rightarrow> bool" where
  "frame_ok f \<longleftrightarrow> fits_stream (f\<lparr>cb_index := index_conv_enc (cb_index f)\<rparr>) \<and> searched (cb_index f ! 1) \<and> searched (cb_index f ! 2)"

lemma three_cons: "length xs = 12 \<Longrightarrow> \<exists>a b c r. xs = a # b # c # (r :: int list)"
  by (auto simp: numeral_eq_Suc length_Suc_conv)

lemma length_index_conv [simp]: "length (index_conv_enc xs) = length xs" "length (index_conv_dec xs) = length xs"
  unfolding index_conv_enc_def index_conv_dec_def by (simp_all add: upt_rec numeral_3_eq_3)

text \<open>C24. A frame survives the stream: packing a frame whose parameters are in their ranges fills exactly
  the 50 octets, without writing behind them, with the most significant bits of all parameters, then
  the second, then the third class and a zero; unpacking them gives the frame back with all its
  parameters when its start position is one of 1 to 5, and switches to concealment otherwise.\<close>

theorem frame_survives_the_stream:
  assumes "frame_ok f" "length buf = NO_OF_BYTES"
  shows "\<exists>s. pack_frame f buf = Inr s \<and> length s = NO_OF_BYTES \<and>
    stream_bits s = (let g = f\<lparr>cb_index := index_conv_enc (cb_index f)\<rparr> in class_bits 0 g @ class_bits 1 g @ class_bits 2 g @ [False]) \<and>
    (if 1 \<le> frame_start f \<and> frame_start f \<le> 5 then unpack_frame s = Inr (1, f) else \<exists>g. unpack_frame s = Inr (0, g))"
proof -
  let ?g = "f\<lparr>cb_index := index_conv_enc (cb_index f)\<rparr>"
  have fit: "fits_stream ?g" and se: "searched (cb_index f ! 1)" "searched (cb_index f ! 2)" using assms(1) by (auto simp: frame_ok_def)
  obtain s where s: "pack_frame f buf = Inr s" "length s = NO_OF_BYTES" "stream_bits s = class_bits 0 ?g @ class_bits 1 ?g @ class_bits 2 ?g @ [False]"
    using pack_classes [OF fit assms(2)] by (auto simp: pack_frame_def)
  obtain st where st: "bnd (unpack_class 0 s (cleared_frame, 0, 0)) (\<lambda>x. bnd (unpack_class 1 s x) (unpack_class 2 s)) = Inr (?g, st)"
    using unpack_classes [OF fit s(3)] by blast
  have "index_conv_dec (index_conv_enc (cb_index f)) = cb_index f"
    using three_cons [of "cb_index f"] fit conv_dec_enc se by (auto simp: fits_stream_def shaped_def index_conv_cons)
  moreover have "unpack_frame s = (if frame_start ?g < 1 \<or> 5 < frame_start ?g then Inr (0, ?g)
      else Inr (1, ?g\<lparr>cb_index := index_conv_dec (cb_index ?g)\<rparr>))"
    using st by (auto simp: unpack_frame_def elim!: bnd_InrE)
  ultimately show ?thesis using s by (auto simp: Let_def)
qed


definition sample_frame :: ilbc_frame where
  "sample_frame = cleared_frame\<lparr>lsf_i := [63, 127, 0, 1, 2, 3], frame_start := 5, cb_index := [255, 171, 43] @ replicate 9 200\<rparr>"

lemma sample_frame_ok: "frame_ok sample_frame"
proof -
  have "index_conv_enc ([255, 171, 43] @ replicate 9 200) = [255, 107, 43] @ replicate 9 200"
    by (simp add: index_conv_cons conv_enc1_def)
  then show ?thesis
    by (auto simp: frame_ok_def sample_frame_def cleared_frame_def fits_stream_def shaped_def searched_def frame_params_def
        ulp_tables zip_replicate numeral_eq_Suc)
qed

theorem frame_survives_the_stream_witness:
  "\<exists>s. pack_frame sample_frame (replicate NO_OF_BYTES 0) = Inr s \<and> unpack_frame s = Inr (1, sample_frame)"
proof -
  have "frame_start sample_frame = 5" by (simp add: sample_frame_def)
  then show ?thesis using frame_survives_the_stream [OF sample_frame_ok length_replicate, of 0] by auto
qed

text \<open>What a packet is unpacked to, and the ranges of a frame that comes out of a packet.\<close>

lemma unpack_frame_fits:
  assumes "length s = NO_OF_BYTES"
  obtains f b where "fits_stream f" "stream_bits s = class_bits 0 f @ class_bits 1 f @ class_bits 2 f @ [b]"
    "unpack_frame s = (if frame_start f < 1 \<or> 5 < frame_start f then Inr (0, f) else Inr (1, f\<lparr>cb_index := index_conv_dec (cb_index f)\<rparr>))"
proof -
  obtain f b where f: "fits_stream f" "stream_bits s = class_bits 0 f @ class_bits 1 f @ class_bits 2 f @ [b]" using exists_frame [OF assms] .
  obtain st where "bnd (unpack_class 0 s (cleared_frame, 0, 0)) (\<lambda>x. bnd (unpack_class 1 s x) (unpack_class 2 s)) = Inr (f, st)"
    using unpack_classes [OF f] by blast
  then show thesis using that [OF f] by (auto simp: unpack_frame_def elim!: bnd_InrE)
qed

lemma converted_frame_ok:
  assumes "fits_stream f" "h = f\<lparr>cb_index := index_conv_dec (cb_index f)\<rparr>"
  shows "frame_ok h" "h\<lparr>cb_index := index_conv_enc (cb_index h)\<rparr> = f"
proof -
  obtain a c d r where cb: "cb_index f = a # c # d # r" using three_cons [of "cb_index f"] assms(1) by (auto simp: fits_stream_def shaped_def)
  have "0 \<le> c \<and> c < 128 \<and> 0 \<le> d \<and> d < 128"
    using assms(1) cb by (auto simp: fits_stream_def frame_params_def ulp_cb_indexTbl_def)
  then have g: "h\<lparr>cb_index := index_conv_enc (cb_index h)\<rparr> = f" "searched (cb_index h ! 1)" "searched (cb_index h ! 2)"
    using conv_enc_dec [of c] conv_enc_dec [of d] by (simp_all add: assms(2) cb index_conv_cons)
  then show "frame_ok h" "h\<lparr>cb_index := index_conv_enc (cb_index h)\<rparr> = f" using assms(1) unfolding frame_ok_def by simp_all
qed

text \<open>C25. Every packet is a frame: whatever 50 octets arrive are unpacked without a fault; when their start
  position is one of 1 to 5 the frame has all parameters in the ranges of the coder, and packing it
  gives the same octets, but for the last bit, which is zero.\<close>

theorem packet_survives_the_frame:
  assumes "length s = NO_OF_BYTES" "length buf = NO_OF_BYTES"
  shows "\<exists>f. unpack_frame s = Inr (if 1 \<le> frame_start f \<and> frame_start f \<le> 5 then 1 else 0, f) \<and>
    (1 \<le> frame_start f \<and> frame_start f \<le> 5 \<longrightarrow> frame_ok f \<and> pack_frame f buf = Inr (s[49 := (s ! 49) AND 254]))"
proof -
  obtain f b where f: "fits_stream f" "stream_bits s = class_bits 0 f @ class_bits 1 f @ class_bits 2 f @ [b]"
    and un: "unpack_frame s = (if frame_start f < 1 \<or> 5 < frame_start f then Inr (0, f) else Inr (1, f\<lparr>cb_index := index_conv_dec (cb_index f)\<rparr>))"
    using unpack_frame_fits [OF assms(1)] .
  let ?h = "f\<lparr>cb_index := index_conv_dec (cb_index f)\<rparr>"
  show ?thesis
  proof (cases "1 \<le> frame_start f \<and> frame_start f \<le> 5")
    case False
    then show ?thesis using un by (intro exI [of _ f]) auto
  next
    case True
    have ok: "frame_ok ?h" and g: "?h\<lparr>cb_index := index_conv_enc (cb_index ?h)\<rparr> = f" using converted_frame_ok [OF f(1) refl] by simp_all
    obtain p where p: "pack_frame ?h buf = Inr p" "length p = NO_OF_BYTES" "stream_bits p = class_bits 0 f @ class_bits 1 f @ class_bits 2 f @ [False]"
      using pack_classes [OF f(1) assms(2)] g by (auto simp: pack_frame_def)
    have "stream_bits p = butlast (stream_bits s) @ [False]" by (simp add: f(2) p(3) butlast_append)
    then have "stream_bits p = stream_bits (s[49 := (s ! 49) AND 254])" by (simp only: stream_last [OF assms(1)])
    moreover have "length p = length (s[49 := (s ! 49) AND 254])" using p(2) assms(1) by simp
    ultimately have "p = s[49 := (s ! 49) AND 254]" by (intro stream_bits_inj)
    then show ?thesis using True un ok p(1) by (intro exI [of _ ?h]) auto
  qed
qed

theorem packet_survives_the_frame_witness:
  "\<exists>f. unpack_frame (replicate NO_OF_BYTES 77) = Inr (if 1 \<le> frame_start f \<and> frame_start f \<le> 5 then 1 else 0, f)"
  using packet_survives_the_frame [OF length_replicate length_replicate, of 77 0] by blast

end
