(* ===== verification/Ilbc_Decode.thy ===== *)
theory Ilbc_Decode
  imports Ilbc_Enhancer Ilbc_Stream
begin

text \<open>
  The decoder of iLBC: \<open>iLBC_decode.c\<close> of \<open>coding/iLBC_1.1.0\<close> and the decoder's part of \<open>iLBCInterface.c\<close>,
  through which \<open>coding/sphone_coding.c\<close> calls it. The frame is that of \<open>Ilbc_Stream\<close>. A copy of overlapping
  parts of \<open>mem\<close> is taken to work, \<open>memcpy\<close> does not promise it.

  The lemmas show that a packet, whatever its octets are, leaves the decoder in order and that no array is left on
  the way.
\<close>

section \<open>Decoding\<close>

definition initDecode :: "('f, 'x) arith_scheme \<Rightarrow> int \<Rightarrow> 'f iLBC_Dec_Inst" where
  "initDecode ar use_enh =
    \<lparr>syntMem = replicate 10 (f0 ar), lsfdeqold = lsfmeanTbl ar, last_lag = 20, prevLag = 120, consPLICount = 0, prevPLI = 0,
     prev_enh_pl = 0, prevGain = f0 ar, prevLpc = f1 ar # replicate 10 (f0 ar), prevResidual = replicate 240 (f0 ar),
     energy = f_junk ar, seed = 777, old_syntdenum = concat (replicate 6 (f1 ar # replicate 10 (f0 ar))),
     hpomem = replicate 4 (f0 ar), use_enhancer = use_enh, enh_buf = replicate 640 (f0 ar), enh_period = replicate 8 (f_int ar 40)\<rparr>"

text \<open>The start state: its scalar part, and the 22 samples behind it, or before it and then predicted backwards.\<close>

definition Decode_state ::
  "('f, 'x) arith_scheme \<Rightarrow> 'f list \<Rightarrow> 'f list \<Rightarrow> 'f list \<Rightarrow> 'f list \<Rightarrow> ilbc_frame \<Rightarrow> ('f list \<times> 'f list \<times> 'f list) option" where
  "Decode_state ar decresidual reverse mem syntdenum f =
    (let start = frame_start f; diff = STATE_LEN - 58;
         start_pos = (if state_first f = 1 then (start - 1) * SUBL else (start - 1) * SUBL + diff) in do {
     decresidual \<leftarrow> StateConstructW ar (idxForMax f) (idxVec f) syntdenum ((start - 1) * (LPC_FILTERORDER + 1)) decresidual start_pos 58;
     if state_first f \<noteq> 0 then do {
       mem \<leftarrow> set_to mem 0 (f0 ar) (CB_MEML - 58);
       mem \<leftarrow> copy_to mem (CB_MEML - 58) decresidual start_pos 58;
       decresidual \<leftarrow> iCBConstruct ar decresidual (start_pos + 58) (extra_cb_index f) 0 (extra_gain_index f) 0
         mem (CB_MEML - stMemLTbl) stMemLTbl diff 3;
       Some (decresidual, reverse, mem) }
     else do {
       reverse \<leftarrow> for_loop 0 diff (\<lambda>k reverse. do {
         x \<leftarrow> rd decresidual ((start + 1) * SUBL - 1 - (k + 58)); wr reverse k x }) reverse;
       mem \<leftarrow> for_loop 0 58 (\<lambda>k mem. do { x \<leftarrow> rd decresidual (start_pos + k); wr mem (CB_MEML - 1 - k) x }) mem;
       mem \<leftarrow> set_to mem 0 (f0 ar) (CB_MEML - 58);
       reverse \<leftarrow> iCBConstruct ar reverse 0 (extra_cb_index f) 0 (extra_gain_index f) 0
         mem (CB_MEML - stMemLTbl) stMemLTbl diff 3;
       decresidual \<leftarrow> for_loop 0 diff (\<lambda>k decresidual. do {
         x \<leftarrow> rd reverse k; wr decresidual (start_pos - 1 - k) x }) decresidual;
       Some (decresidual, reverse, mem) } })"

text \<open>A subframe, predicted into \<open>out\<close> at \<open>q\<close> from what the codebook \<open>mem\<close> holds, which it then joins.\<close>

definition Decode_subframe ::
  "('f, 'x) arith_scheme \<Rightarrow> ilbc_frame \<Rightarrow> int \<Rightarrow> 'f list \<times> 'f list \<times> int \<Rightarrow> ('f list \<times> 'f list \<times> int) option" where
  "Decode_subframe ar f q = (\<lambda>(out, mem, subcount). do {
     l \<leftarrow> rd memLfTbl subcount;
     out \<leftarrow> iCBConstruct ar out q (cb_index f) (subcount * 3) (gain_index f) (subcount * 3) mem (CB_MEML - l) l SUBL 3;
     mem \<leftarrow> copy_to mem 0 mem SUBL (CB_MEML - SUBL);
     mem \<leftarrow> copy_to mem (CB_MEML - SUBL) out q SUBL;
     Some (out, mem, subcount + 1) })"

definition Decode :: "('f, 'x) arith_scheme \<Rightarrow> 'f list \<Rightarrow> 'f list \<Rightarrow> ilbc_frame \<Rightarrow> 'f list option" where
  "Decode ar decresidual syntdenum f = (let start = frame_start f; Nfor = NSUB - start - 1; Nback = start - 1 in do {
     (decresidual, reverse, mem) \<leftarrow> Decode_state ar decresidual (local_array ar 240) (local_array ar 147) syntdenum f;
     (decresidual, mem, subcount) \<leftarrow>
       (if Nfor > 0 then do {
          mem \<leftarrow> set_to mem 0 (f0 ar) (CB_MEML - STATE_LEN);
          mem \<leftarrow> copy_to mem (CB_MEML - STATE_LEN) decresidual ((start - 1) * SUBL) STATE_LEN;
          for_loop 0 Nfor (\<lambda>subframe. Decode_subframe ar f ((start + 1 + subframe) * SUBL)) (decresidual, mem, 0) }
        else Some (decresidual, mem, 0));
     if Nback > 0 then do {
       let meml_gotten = SUBL * (NSUB + 1 - start);
       let meml_gotten = (if meml_gotten > CB_MEML then CB_MEML else meml_gotten);
       mem \<leftarrow> for_loop 0 meml_gotten (\<lambda>k mem. do {
         x \<leftarrow> rd decresidual ((start - 1) * SUBL + k); wr mem (CB_MEML - 1 - k) x }) mem;
       mem \<leftarrow> set_to mem 0 (f0 ar) (CB_MEML - meml_gotten);
       (reverse, _, _) \<leftarrow> for_loop 0 Nback (\<lambda>subframe. Decode_subframe ar f (subframe * SUBL)) (reverse, mem, subcount);
       for_loop 0 (SUBL * Nback) (\<lambda>i decresidual. do {
         x \<leftarrow> rd reverse i; wr decresidual (SUBL * Nback - i - 1) x }) decresidual }
     else Some decresidual })"

definition iLBC_decode_good ::
  "('f, 'x) arith_scheme \<Rightarrow> ilbc_frame \<Rightarrow> 'f iLBC_Dec_Inst \<Rightarrow> ('f list \<times> 'f list \<times> 'f iLBC_Dec_Inst) option" where
  "iLBC_decode_good ar f dec = do {
     lsfdeq \<leftarrow> SimplelsfDEQ ar (local_array ar 20) (lsf_i f);
     (lsfdeq, check) \<leftarrow> LSF_check ar lsfdeq LPC_FILTERORDER 2;
     (syntdenum, weightdenum, dec) \<leftarrow> DecoderInterpolateLSF ar (local_array ar 66) (local_array ar 66) lsfdeq LPC_FILTERORDER dec;
     decresidual \<leftarrow> Decode ar (local_array ar 240) syntdenum f;
     (PLCresidual, PLClpc, dec) \<leftarrow> doThePLC ar (local_array ar 240) (local_array ar 11) 0 decresidual
       syntdenum ((LPC_FILTERORDER + 1) * (NSUB - 1)) (last_lag dec) dec;
     decresidual \<leftarrow> copy_to decresidual 0 PLCresidual 0 BLOCKL;
     Some (decresidual, syntdenum, dec) }"

definition iLBC_decode_bad ::
  "('f, 'x) arith_scheme \<Rightarrow> 'f iLBC_Dec_Inst \<Rightarrow> ('f list \<times> 'f list \<times> 'f iLBC_Dec_Inst) option" where
  "iLBC_decode_bad ar dec = do {
     zeros \<leftarrow> set_to (local_array ar 240) 0 (f0 ar) BLOCKL;
     one \<leftarrow> wr (local_array ar 11) 0 (f1 ar);
     one \<leftarrow> set_to one 1 (f0 ar) LPC_FILTERORDER;
     (PLCresidual, PLClpc, dec) \<leftarrow> doThePLC ar (local_array ar 240) (local_array ar 11) 1 zeros one 0 (last_lag dec) dec;
     decresidual \<leftarrow> copy_to (local_array ar 240) 0 PLCresidual 0 BLOCKL;
     syntdenum \<leftarrow> for_loop 0 NSUB (\<lambda>i syntdenum. copy_to syntdenum (i * 11) PLClpc 0 11) (local_array ar 66);
     Some (decresidual, syntdenum, dec) }"

text \<open>The residual is enhanced and filtered, or filtered as it is.\<close>

definition iLBC_synthesis ::
  "('f, 'x) arith_scheme \<Rightarrow> 'f list \<Rightarrow> 'f list \<Rightarrow> 'f iLBC_Dec_Inst \<Rightarrow> ('f list \<times> 'f iLBC_Dec_Inst) option" where
  "iLBC_synthesis ar decresidual syntdenum dec =
    (if use_enhancer dec = 1 then do {
       (lag, data, dec) \<leftarrow> enhancerInterface ar (local_array ar 240) decresidual dec;
       (data, mem) \<leftarrow> for_loop 0 2 (\<lambda>i (data, mem).
         syntFilter ar data (i * SUBL) (old_syntdenum dec) ((i + 4) * (LPC_FILTERORDER + 1)) SUBL mem) (data, syntMem dec);
       (data, mem) \<leftarrow> for_loop 2 NSUB (\<lambda>i (data, mem).
         syntFilter ar data (i * SUBL) syntdenum ((i - 2) * (LPC_FILTERORDER + 1)) SUBL mem) (data, mem);
       Some (data, dec\<lparr>last_lag := lag, syntMem := mem\<rparr>) }
     else do {
       lag \<leftarrow> best_lag ar (\<lambda>ilag. xCorrCoef ar decresidual (BLOCKL - ENH_BLOCKL) decresidual (BLOCKL - ENH_BLOCKL - ilag) ENH_BLOCKL) 20 120;
       data \<leftarrow> copy_to (local_array ar 240) 0 decresidual 0 BLOCKL;
       (data, mem) \<leftarrow> for_loop 0 NSUB (\<lambda>i (data, mem).
         syntFilter ar data (i * SUBL) syntdenum (i * (LPC_FILTERORDER + 1)) SUBL mem) (data, syntMem dec);
       Some (data, dec\<lparr>last_lag := lag, syntMem := mem\<rparr>) })"

text \<open>\<open>mode\<close> is 0 for a packet that is lost, and is set to 0 for one whose start position cannot be.\<close>

definition iLBC_decode ::
  "('f, 'x) arith_scheme \<Rightarrow> 'f list \<Rightarrow> bytes \<Rightarrow> 'f iLBC_Dec_Inst \<Rightarrow> int \<Rightarrow> ('f list \<times> 'f iLBC_Dec_Inst) option" where
  "iLBC_decode ar decblock bs dec mode = do {
     (mode, f) \<leftarrow> (if mode > 0 then (case unpack_frame bs of Inr (m, f) \<Rightarrow> Some (if m = 0 then 0 else mode, f) | Inl _ \<Rightarrow> None)
       else Some (mode, cleared_frame));
     (decresidual, syntdenum, dec) \<leftarrow>
       (if mode = 1 then iLBC_decode_good ar f dec
        else if mode = 0 then iLBC_decode_bad ar dec
        else Some (local_array ar 240, local_array ar 66, dec));
     (data, dec) \<leftarrow> iLBC_synthesis ar decresidual syntdenum dec;
     decblock \<leftarrow> copy_to decblock 0 data 0 BLOCKL;
     old \<leftarrow> copy_to (old_syntdenum dec) 0 syntdenum 0 66;
     Some (decblock, dec\<lparr>old_syntdenum := old, prev_enh_pl := (if mode = 0 then 1 else 0)\<rparr>) }"

text \<open>The decoder as \<open>coding/sphone_coding.c\<close> calls it: a packet becomes samples of 16 bits.\<close>

definition ilbc_sample :: "('f, 'x) arith_scheme \<Rightarrow> 'f \<Rightarrow> int" where
  "ilbc_sample ar x = f_trunc ar
    (if f_lt ar x (f_int ar (- 32768)) then f_int ar (- 32768)
     else if f_lt ar (f_int ar 32767) x then f_int ar 32767 else x)"

definition ilbc_2l16 ::
  "('f, 'x) arith_scheme \<Rightarrow> bytes \<Rightarrow> 'f iLBC_Dec_Inst \<Rightarrow> (bytes \<times> 'f iLBC_Dec_Inst) option" where
  "ilbc_2l16 ar buf_enc dec = do {
     (decblock, dec) \<leftarrow> iLBC_decode ar (local_array ar 240) buf_enc dec 1;
     buf_dec \<leftarrow> for_loop 0 BLOCKL (\<lambda>k buf_dec. do {
       ftmp \<leftarrow> rd decblock k;
       copy_to buf_dec (2 * k) (store16 (word_of_int (ilbc_sample ar ftmp))) 0 2 }) (replicate 480 0);
     Some (buf_dec, dec) }"

text \<open>The packets of a call, one after the other.\<close>

fun ilbc_packets :: "('f, 'x) arith_scheme \<Rightarrow> bytes list \<Rightarrow> 'f iLBC_Dec_Inst \<Rightarrow> (bytes list \<times> 'f iLBC_Dec_Inst) option" where
  "ilbc_packets ar [] dec = Some ([], dec)"
| "ilbc_packets ar (p # ps) dec = do {
     (out, dec) \<leftarrow> ilbc_2l16 ar p dec;
     (outs, dec) \<leftarrow> ilbc_packets ar ps dec;
     Some (out # outs, dec) }"

section \<open>Safety\<close>

text \<open>The ranges of the parameters of a frame that has a start position.\<close>

definition frame_ranges :: "ilbc_frame \<Rightarrow> bool" where
  "frame_ranges f \<longleftrightarrow> 1 \<le> frame_start f \<and> frame_start f \<le> 5 \<and> (state_first f = 0 \<or> state_first f = 1) \<and>
    lsf_ok (lsf_i f) \<and> 0 \<le> idxForMax f \<and> idxForMax f < 64 \<and> length (idxVec f) = 58 \<and> index_below 8 (idxVec f) \<and>
    length (extra_cb_index f) = 3 \<and> index_below 128 (extra_cb_index f) \<and> gains_ok 0 (extra_gain_index f) \<and>
    length (cb_index f) = 12 \<and> index_below 256 (cb_index f) \<and> (\<forall>k \<in> {0, 1, 2, 3}. gains_ok (k * 3) (gain_index f))"

lemma fits_stream_ranges:
  assumes "fits_stream f"
  shows "lsf_ok (lsf_i f)" "0 \<le> idxForMax f" "idxForMax f < 64" "length (idxVec f) = 58" "index_below 8 (idxVec f)"
    "state_first f = 0 \<or> state_first f = 1" "length (extra_cb_index f) = 3" "index_below 128 (extra_cb_index f)"
    "gains_ok 0 (extra_gain_index f)" "length (cb_index f) = 12" "index_below 256 (cb_index f)" "k \<in> {0, 1, 2, 3} \<Longrightarrow> gains_ok (k * 3) (gain_index f)"
proof -
  have sh: "shaped f" and r: "\<And>t x. (t, x) \<in> set (frame_params f) \<Longrightarrow> 0 \<le> x \<and> x < 2 ^ sum_list t"
    using assms by (auto simp: fits_stream_def)
  have part: "0 \<le> xs ! i \<and> xs ! i < 2 ^ sum_list (ts ! i)"
    if "set (zip ts xs) \<subseteq> set (frame_params f)" "i < length ts" "i < length xs" for ts xs i
  proof -
    have "(ts ! i, xs ! i) \<in> set (zip ts xs)" using that(2,3) by (auto simp: set_zip)
    then show ?thesis using r that(1) by blast
  qed
  have sub: "set (zip ulp_lsf_bitsTbl (lsf_i f)) \<subseteq> set (frame_params f)"
    "set (zip (replicate STATE_SHORT_LEN ulp_state_bitsTbl) (idxVec f)) \<subseteq> set (frame_params f)"
    "set (zip ulp_extra_cb_indexTbl (extra_cb_index f)) \<subseteq> set (frame_params f)"
    "set (zip ulp_extra_cb_gainTbl (extra_gain_index f)) \<subseteq> set (frame_params f)"
    "set (zip ulp_cb_indexTbl (cb_index f)) \<subseteq> set (frame_params f)" "set (zip ulp_cb_gainTbl (gain_index f)) \<subseteq> set (frame_params f)"
    by (auto simp: frame_params_def)
  note parts = sub [THEN part]
  have len: "length (lsf_i f) = 6" "length (idxVec f) = 58" "length (extra_cb_index f) = 3" "length (extra_gain_index f) = 3"
    "length (cb_index f) = 12" "length (gain_index f) = 12" using sh by (simp_all add: shaped_def)
  have lt: "i < 3 \<Longrightarrow> i = 0 \<or> i = 1 \<or> i = 2" "i < 6 \<Longrightarrow> i = 0 \<or> i = 1 \<or> i = 2 \<or> i = 3 \<or> i = 4 \<or> i = 5" for i :: nat by auto
  show "length (idxVec f) = 58" "length (extra_cb_index f) = 3" "length (cb_index f) = 12" by (rule len)+
  show "lsf_ok (lsf_i f)"
    using parts(1) [of 0] parts(1) [of 1] parts(1) [of 2] parts(1) [of 3] parts(1) [of 4] parts(1) [of 5] len(1)
    by (auto simp: lsf_ok_def ulp_tables dest!: lt(2))
  have "0 \<le> idxForMax f \<and> idxForMax f < 2 ^ sum_list ulp_scale_bitsTbl" "0 \<le> state_first f \<and> state_first f < 2 ^ sum_list ulp_startfirst_bitsTbl"
    by (rule r, simp add: frame_params_def)+
  then show "0 \<le> idxForMax f" "idxForMax f < 64" "state_first f = 0 \<or> state_first f = 1" by (auto simp: ulp_tables)
  show "index_below 8 (idxVec f)" using parts(2) len(2) by (auto simp: index_below_def in_set_conv_nth ulp_tables)
  show "index_below 128 (extra_cb_index f)" using parts(3) [of 0] parts(3) [of 1] parts(3) [of 2] len(3)
    by (auto simp: index_below_def in_set_conv_nth ulp_tables dest!: lt(1))
  have small: "sum_list (ulp_cb_indexTbl ! i) \<le> 8" if "i < 12" for i
  proof -
    have "\<forall>t \<in> set ulp_cb_indexTbl. sum_list t \<le> 8" "length ulp_cb_indexTbl = 12" by (simp_all add: ulp_cb_indexTbl_def)
    then show ?thesis using that by simp
  qed
  show "index_below 256 (cb_index f)" unfolding index_below_def
  proof
    fix x assume "x \<in> set (cb_index f)"
    then obtain i where i: "i < 12" "x = cb_index f ! i" using len(5) by (auto simp: in_set_conv_nth)
    have "length ulp_cb_indexTbl = 12" by (simp add: ulp_cb_indexTbl_def)
    then have "0 \<le> x \<and> x < 2 ^ sum_list (ulp_cb_indexTbl ! i)" using parts(5) [of i] i len(5) by simp
    moreover have "(2 :: int) ^ sum_list (ulp_cb_indexTbl ! i) \<le> 2 ^ 8" by (rule power_increasing [OF small [OF i(1)]]) simp
    ultimately show "0 \<le> x \<and> x < 256" by simp
  qed
  show "gains_ok 0 (extra_gain_index f)" using parts(4) [of 0] parts(4) [of 1] parts(4) [of 2] len(4) by (simp add: gains_ok_def ulp_tables)
  have "gains_ok 0 (gain_index f)" "gains_ok 3 (gain_index f)" "gains_ok 6 (gain_index f)" "gains_ok 9 (gain_index f)"
    using parts(6) [of 0] parts(6) [of 1] parts(6) [of 2] parts(6) [of 3] parts(6) [of 4] parts(6) [of 5]
      parts(6) [of 6] parts(6) [of 7] parts(6) [of 8] parts(6) [of 9] parts(6) [of 10] parts(6) [of 11] len(6)
    by (simp_all add: gains_ok_def ulp_tables)
  then show "gains_ok (k * 3) (gain_index f)" if "k \<in> {0, 1, 2, 3}" using that by auto
qed

text \<open>The indices of the first sub-block, converted.\<close>

lemma unpacked_ranges:
  assumes "length bs = NO_OF_BYTES"
  obtains f where "unpack_frame bs = Inr (0, f)" | f where "unpack_frame bs = Inr (1, f)" "frame_ranges f"
proof -
  obtain f b where f: "fits_stream f"
    and un: "unpack_frame bs = (if frame_start f < 1 \<or> 5 < frame_start f then Inr (0, f) else Inr (1, f\<lparr>cb_index := index_conv_dec (cb_index f)\<rparr>))"
    using unpack_frame_fits [OF assms] .
  let ?h = "f\<lparr>cb_index := index_conv_dec (cb_index f)\<rparr>"
  have "frame_ok ?h" by (rule converted_frame_ok [OF f refl])
  then have se: "searched (index_conv_dec (cb_index f) ! 1)" "searched (index_conv_dec (cb_index f) ! 2)" by (simp_all add: frame_ok_def)
  note r = fits_stream_ranges [OF f]
  obtain a b c cs where cb: "cb_index f = a # b # c # cs" using three_cons [OF r(10)] by blast
  have "index_below 256 (index_conv_dec (cb_index f))"
    using r(11) se by (auto simp: cb index_conv_cons index_below_def searched_def)
  then have "frame_ranges ?h" if "1 \<le> frame_start f" "frame_start f \<le> 5"
    using r(1-10,12) that by (simp add: frame_ranges_def)
  then show thesis using un that by (cases "frame_start f < 1 \<or> 5 < frame_start f") auto
qed

lemma Decode_state_safe [yields_rules]:
  assumes "frame_ranges f" "length d = 240" "length r = 240" "length m = 147" "length s = 66"
    and "\<And>d r m. length d = 240 \<Longrightarrow> length r = 240 \<Longrightarrow> length m = 147 \<Longrightarrow> P (d, r, m)"
  shows "yields (Decode_state ar d r m s f) P"
proof -
  have extra: "cb_range 85 22 (extra_cb_index f ! nat k)" if "0 \<le> k" "k < 3" for k
    using assms(1) that index_below_nth [of 128 "extra_cb_index f" k] by (simp add: frame_ranges_def cb_range_def)
  have st: "1 \<le> frame_start f" "frame_start f \<le> 5" using assms(1) by (simp_all add: frame_ranges_def)
  have first: "state_first f = 0 \<or> state_first f = 1" using assms(1) by (simp add: frame_ranges_def)
  show ?thesis unfolding Decode_state_def Let_def stMemLTbl_def
    by (intro yields_rules for_array extra)
      (use assms(2-6) assms(1) [unfolded frame_ranges_def] st first in \<open>auto simp: extra\<close>)
qed

lemma Decode_subframe_safe [yields_rules]:
  assumes "frame_ranges f" "0 \<le> q" "q + 40 \<le> 240" "length d = 240" "length m = 147" "0 \<le> n" "n < 4"
    and "\<And>d m. length d = 240 \<Longrightarrow> length m = 147 \<Longrightarrow> P (d, m, n + 1)"
  shows "yields (Decode_subframe ar f q (d, m, n)) P"
proof -
  have cb: "cb_range 147 40 (cb_index f ! nat k)" if "0 \<le> k" "k < 12" for k
    using assms(1) that index_below_nth [of 256 "cb_index f" k] by (simp add: frame_ranges_def cb_range_def)
  have "n = 0 \<or> n = 1 \<or> n = 2 \<or> n = 3" using assms(6,7) by auto
  then have gains: "gains_ok (n * 3) (gain_index f)" using assms(1) by (auto simp: frame_ranges_def)
  have len: "yields (rd memLfTbl n) Q" if "Q 147" for Q
    using assms(6,7) that \<open>n = 0 \<or> _\<close> by (intro yields_rd_at) (auto simp: memLfTbl_def)
  show ?thesis unfolding Decode_subframe_def prod.case
    by (intro len yields_rules gains cb) (use assms(1-8) in \<open>auto simp: frame_ranges_def\<close>)
qed

lemma Decode_safe [yields_rules]:
  assumes "frame_ranges f" "length d = 240" "length s = 66" "\<And>d. length d = 240 \<Longrightarrow> P d"
  shows "yields (Decode ar d s f) P"
proof -
  have st: "1 \<le> frame_start f" "frame_start f \<le> 5" using assms(1) by (simp_all add: frame_ranges_def)
  show ?thesis unfolding Decode_def Let_def
    by (intro yields_rules for_array
      for_counted [where I = "\<lambda>n (d, m, c). length d = 240 \<and> length m = 147 \<and> c = n" and lo = 0 and hi = "6 - frame_start f - 1"]
      for_counted [where I = "\<lambda>n (d, m, c). length d = 240 \<and> length m = 147 \<and> c = max 0 (5 - frame_start f) + n" and lo = 0 and hi = "frame_start f - 1"])
      (use assms st in \<open>auto split: if_splits intro!: Decode_subframe_safe\<close>)
qed

text \<open>What holds of the decoder between two packets.\<close>

definition decoder_ok :: "(int \<Rightarrow> 'f) \<Rightarrow> int \<Rightarrow> 'f iLBC_Dec_Inst \<Rightarrow> bool" where
  "decoder_ok q u dec \<longleftrightarrow> dec_ok dec \<and> use_enhancer dec = u \<and> (u = 1 \<longrightarrow> periods_ok q (enh_period dec))"

lemma doThePLC_ok:
  assumes "decoder_ok q u dec" "length a = 240" "length b = 11" "20 \<le> l" "l \<le> 119" "length d = 240" "0 \<le> k" "k + 11 \<le> int (length lpc)"
    and "\<And>a' b' dec'. length a' = 240 \<Longrightarrow> length b' = 11 \<Longrightarrow> decoder_ok q u dec' \<Longrightarrow> P (a', b', dec')"
  shows "yields (doThePLC ar a b pli d lpc k l dec) P"
  by (intro doThePLC_safe assms(9)) (use assms(1-8) in \<open>auto simp: decoder_ok_def\<close>)

lemma decoder_ok_lags: "decoder_ok q u dec \<Longrightarrow> 20 \<le> last_lag dec" "decoder_ok q u dec \<Longrightarrow> last_lag dec \<le> 119"
  by (simp_all add: decoder_ok_def dec_ok_def)

lemma iLBC_decode_good_safe [yields_rules]:
  assumes "frame_ranges f" "decoder_ok q u dec"
    and "\<And>d s dec. length d = 240 \<Longrightarrow> length s = 66 \<Longrightarrow> decoder_ok q u dec \<Longrightarrow> P (d, s, dec)"
  shows "yields (iLBC_decode_good ar f dec) P"
proof -
  have old: "length (lsfdeqold dec) = 10" using assms(2) by (simp add: decoder_ok_def dec_ok_def)
  have upd: "decoder_ok q u (dec\<lparr>lsfdeqold := old\<rparr>)" if "length old = 10" for old
    using assms(2) that by (simp add: decoder_ok_def dec_ok_def)
  have lsf: "lsf_ok (lsf_i f)" using assms(1) by (simp add: frame_ranges_def)
  show ?thesis unfolding iLBC_decode_good_def
    by (intro doThePLC_ok [where q = q] yields_rules) (use lsf old assms(1) in \<open>auto intro!: assms(3) upd simp: decoder_ok_lags [OF assms(2)]\<close>)
qed

lemma iLBC_decode_bad_safe [yields_rules]:
  assumes "decoder_ok q u dec"
    and "\<And>d s dec. length d = 240 \<Longrightarrow> length s = 66 \<Longrightarrow> decoder_ok q u dec \<Longrightarrow> P (d, s, dec)"
  shows "yields (iLBC_decode_bad ar dec) P"
  unfolding iLBC_decode_bad_def
  by (intro doThePLC_ok [OF assms(1)] yields_rules for_array) (use assms in \<open>auto simp: decoder_ok_lags\<close>)

lemma iLBC_synthesis_safe [yields_rules]:
  assumes "u = 1 \<longrightarrow> exact_quarters ar q" "decoder_ok q u dec" "length d = 240" "length s = 66"
    and "\<And>a dec. length a = 240 \<Longrightarrow> decoder_ok q u dec \<Longrightarrow> P (a, dec)"
  shows "yields (iLBC_synthesis ar d s dec) P"
proof -
  have ok: "dec_ok dec" "length (syntMem dec) = 10" "length (old_syntdenum dec) = 66" using assms(2) by (simp_all add: decoder_ok_def dec_ok_def)
  have u: "use_enhancer dec = u" using assms(2) by (simp add: decoder_ok_def)
  show ?thesis
  proof (cases "use_enhancer dec = 1")
    case True
    then have ar: "exact_quarters ar q" and ps: "periods_ok q (enh_period dec)" using assms(1,2) by (simp_all add: decoder_ok_def)
    have fin: "decoder_ok q u (dec\<lparr>enh_buf := b, enh_period := p, last_lag := l, syntMem := m\<rparr>)"
      if "20 \<le> l" "l \<le> 118" "length b = 640" "periods_ok q p" "length m = 10" for b p l m
      using ok(1) u that by (simp add: decoder_ok_def dec_ok_def periods_ok_def)
    show ?thesis using True unfolding iLBC_synthesis_def
      by (simp only: if_True, intro enhancerInterface_safe [OF ar ok(1) ps] yields_rules for_arrays)
        (use ok assms(3,4) in \<open>auto intro!: syntFilter_safe assms(5) fin\<close>)
  next
    case False
    then show ?thesis unfolding iLBC_synthesis_def
      by (simp only: if_False, intro yields_rules for_arrays)
        (use ok assms(2-4) in \<open>auto intro!: syntFilter_safe xCorrCoef_safe assms(5) simp: u decoder_ok_def dec_ok_def\<close>)
  qed
qed

lemma iLBC_decode_safe:
  assumes "u = 1 \<longrightarrow> exact_quarters ar q" "decoder_ok q u dec" "mode = 1 \<longrightarrow> length bs = NO_OF_BYTES" "mode = 0 \<or> mode = 1"
    and "length d = 240" "\<And>a dec'. length a = 240 \<Longrightarrow> decoder_ok q u dec' \<Longrightarrow> P (a, dec')"
  shows "yields (iLBC_decode ar d bs dec mode) P"
proof -
  have unpacked: "yields (if mode > 0 then (case unpack_frame bs of Inr (m, f) \<Rightarrow> Some (if m = 0 then 0 else mode, f) | Inl _ \<Rightarrow> None)
      else Some (mode, cleared_frame)) Q"
    if "\<And>f. Q (0, f)" "\<And>f. frame_ranges f \<Longrightarrow> Q (1, f)" for Q
  proof (cases "mode = 1")
    case True
    then show ?thesis using assms(3) that by (auto intro!: yields_Some elim!: unpacked_ranges [of bs] split: sum.split)
  qed (use assms(4) that in \<open>auto intro!: yields_Some\<close>)
  have upd: "decoder_ok q u (dec\<lparr>old_syntdenum := s, prev_enh_pl := n\<rparr>)" if "decoder_ok q u dec" "length s = 66" for dec s n
    using that by (simp add: decoder_ok_def dec_ok_def)
  have old: "length (old_syntdenum dec) = 66" if "decoder_ok q u dec" for dec :: "'a iLBC_Dec_Inst"
    using that by (simp add: decoder_ok_def dec_ok_def)
  show ?thesis unfolding iLBC_decode_def
    by (intro unpacked iLBC_decode_good_safe [where q = q and u = u] iLBC_decode_bad_safe [OF assms(2)]
        iLBC_synthesis_safe [OF assms(1)] yields_rules)
      (use assms(2,5) in \<open>auto intro!: assms(6) upd simp: old\<close>)
qed

lemma ilbc_2l16_safe:
  assumes "u = 1 \<longrightarrow> exact_quarters ar q" "decoder_ok q u dec" "length bs = NO_OF_BYTES"
    and "\<And>a dec'. length a = 480 \<Longrightarrow> decoder_ok q u dec' \<Longrightarrow> P (a, dec')"
  shows "yields (ilbc_2l16 ar bs dec) P"
  unfolding ilbc_2l16_def
  by (intro iLBC_decode_safe [OF assms(1,2)] yields_rules for_array) (use assms(3,4) in auto)

lemma initDecode_ok:
  assumes "u = 1 \<longrightarrow> exact_quarters ar q"
  shows "decoder_ok q u (initDecode ar u)"
proof -
  have "f_int ar 40 = q (4 * 40)" if "u = 1" using exact_quartersD(7) [of ar q 40] assms that by simp
  then show ?thesis by (auto simp: decoder_ok_def dec_ok_def initDecode_def lag_ok_def periods_ok_def length_concat sum_list_replicate intro!: exI [of _ 40])
qed

lemma ilbc_packets_safe:
  assumes "u = 1 \<longrightarrow> exact_quarters ar q" "decoder_ok q u dec" "\<forall>p \<in> set ps. length p = NO_OF_BYTES"
  shows "yields (ilbc_packets ar ps dec) (\<lambda>(outs, dec'). map length outs = replicate (length ps) 480 \<and> decoder_ok q u dec')"
  using assms(2,3)
proof (induction ps arbitrary: dec)
  case Nil
  then show ?case by (simp add: yields_def)
next
  case (Cons p ps)
  show ?case unfolding ilbc_packets.simps
    by (intro yields_rules ilbc_2l16_safe [OF assms(1) Cons.prems(1)] yields_mono [OF Cons.IH])
      (use Cons.prems in \<open>auto intro!: yields_Some\<close>)
qed

section \<open>Properties\<close>

text \<open>An arithmetic in which the multiples of a quarter are exact: fixed point with two binary digits.\<close>

definition fixed_point :: "int arith" where
  "fixed_point = \<lparr>f_lit = (\<lambda>m n. 4 * m div 10 ^ n), f_int = (\<lambda>n. 4 * n), f_add = (+), f_sub = (-), f_mul = (\<lambda>x y. x * y div 4),
     f_div = (\<lambda>x y. 4 * x div y), f_neg = uminus, f_abs = abs, f_sqrt = id, f_cos = id, f_pow = (\<lambda>x y. x), f_log10 = id,
     f_lt = (<), f_le = (\<le>), f_trunc = (\<lambda>x. x sdiv 4), f_junk = 1\<rparr>"

lemma fixed_point_exact: "exact_quarters fixed_point id"
  by (simp add: exact_quarters_def fixed_point_def)

text \<open>C4. No packets make the decoder of iLBC leave its arrays: from its initialisation on, whatever the octets of the
  packets of a call are, each one of 50 octets is decoded to the 480 octets of 240 samples, without an access outside an
  array in unpacking, the codebooks, the filters, the concealment and the enhancer. Without the enhancer this holds for
  every arithmetic; with it, for one in which multiples of a quarter below 2500 are exact, as they are for a
  \<open>float\<close>.\<close>

theorem decoder_stays_in_its_arrays:
  assumes "\<forall>p \<in> set packets. length p = NO_OF_BYTES" "use = 1 \<longrightarrow> exact_quarters ar q"
  shows "\<exists>outs dec. ilbc_packets ar packets (initDecode ar use) = Some (outs, dec) \<and>
    map length outs = replicate (length packets) 480"
  using ilbc_packets_safe [OF assms(2) initDecode_ok [OF assms(2)] assms(1)] by (auto simp: yields_def)

theorem decoder_stays_in_its_arrays_witness:
  "\<exists>outs dec. ilbc_packets fixed_point [replicate 50 0, replicate 50 77] (initDecode fixed_point 1) = Some (outs, dec) \<and>
    map length outs = [480, 480]"
  using decoder_stays_in_its_arrays [of "[replicate 50 0, replicate 50 77]" 1 fixed_point id] fixed_point_exact
  by (simp add: numeral_2_eq_2)

end
