(* ===== verification/Devaudio.thy ===== *)
theory Devaudio
  imports Audio_File
begin

text \<open>
  The driver for \<open>/dev/audio\<close>: \<open>audio/sphone_audio_devaudio.c\<close>,
  \<open>audio/sphone_audio_devaudio_play.c\<close> and \<open>audio/sphone_audio_devaudio_record.c\<close>. A device that is
  opened for playing and for recording is opened once: the open devices are kept in a list, with the
  number of those who use each. A device is a node of that list, known by its address; a node that is
  no longer in the list is freed.

  What the kernel answers is an input, grouped in the order of the questions. A \<open>memcpy\<close> needs its
  target: the memory that the device maps starts at an address and has a length.
\<close>

section \<open>The open devices\<close>

record devaudio_device =
  dd_at :: nat
  dd_name :: string
  dd_fd :: int
  dd_refcnt :: int
  dd_devnr :: int
  dd_shmem :: bool

record devices =
  Devaudio_devicelist :: "devaudio_device list"
  next_at :: nat

datatype dev_effect = Dev_Opened string int | Dev_Closed int | Mixer_Opened int int | Mixer_Off nat | Mixer_Closed int
  | Dev_Error | Dev_Warning | Dev_Write int bytes

record dev_answers =
  an_open :: int
  an_props :: "(bool \<times> bool) option"
  an_alloc :: bool
  an_mixer :: int
  an_controls :: "(bool \<times> string) list"
  an_off :: "nat \<Rightarrow> bool"
  an_duplex :: bool
  an_dbg :: bool

text \<open>The controls of the mixer from number \<open>i\<close> on, each an enumeration or not with its label; \<open>off\<close> tells
  for which numbers the switching succeeds.\<close>

fun unmute_loop :: "int \<Rightarrow> nat \<Rightarrow> (bool \<times> string) list \<Rightarrow> (nat \<Rightarrow> bool) \<Rightarrow> dev_effect list \<times> int" where
  "unmute_loop fd i [] off = ([Mixer_Closed fd], 0)"
| "unmute_loop fd i ((enum, label) # cs) off =
    (if enum \<and> label = ''mute'' then
       (if \<not> off i then ([Mixer_Off i, Dev_Error, Mixer_Closed fd], - 1)
        else (case unmute_loop fd (Suc i) cs off of (es, r) \<Rightarrow> (Mixer_Off i # es, r)))
     else unmute_loop fd (Suc i) cs off)"

definition devaudio_unmute :: "dev_answers \<Rightarrow> int \<Rightarrow> dev_effect list \<times> int" where
  "devaudio_unmute an devnr =
    (if an_mixer an < 0 then ([Dev_Error], - 1)
     else (case unmute_loop (an_mixer an) 0 (an_controls an) (an_off an) of (es, r) \<Rightarrow> (Mixer_Opened devnr (an_mixer an) # es, r)))"

text \<open>\<open>atoi\<close> of the last character.\<close>

definition digit_value :: "char \<Rightarrow> int" where
  "digit_value c = (let n = of_char c in if 48 \<le> n \<and> n \<le> 57 then n - 48 else 0)"

definition find_device :: "(devaudio_device \<Rightarrow> bool) \<Rightarrow> devices \<Rightarrow> devaudio_device option" where
  "find_device P s = List.find P (Devaudio_devicelist s)"

definition upd_device :: "nat \<Rightarrow> (devaudio_device \<Rightarrow> devaudio_device) \<Rightarrow> devices \<Rightarrow> devices" where
  "upd_device p f s = s\<lparr>Devaudio_devicelist := map (\<lambda>d. if dd_at d = p then f d else d) (Devaudio_devicelist s)\<rparr>"

text \<open>The result is the state, the effects and the pointer returned. Of the properties of the device only
  full duplex, which is tested twice, and the mapping of its buffer count.\<close>

definition audio_devaudio_init :: "dev_answers \<Rightarrow> string \<Rightarrow> devices \<Rightarrow> (devices \<times> dev_effect list \<times> nat option) res" where
  "audio_devaudio_init an devname s =
    (if devname = [] then Inl Out_Of_Bounds
     else case find_device (\<lambda>d. dd_name d = devname) s of
       Some d \<Rightarrow> Inr (upd_device (dd_at d) (dd_refcnt_update (\<lambda>n. n + 1)) s, [], Some (dd_at d))
     | None \<Rightarrow>
         if an_open an < 0 then Inr (s, [Dev_Error], None)
         else case an_props an of
           None \<Rightarrow> Inr (s, [Dev_Opened devname (an_open an), Dev_Error], None)
         | Some (fullduplex, mmap) \<Rightarrow>
             if \<not> fullduplex then Inr (s, [Dev_Opened devname (an_open an), Dev_Closed (an_open an), Dev_Error], None)
             else if \<not> an_alloc an then Inr (s, [Dev_Opened devname (an_open an), Dev_Error], None)
             else if 16 \<le> length devname then Inl Out_Of_Bounds
             else
               (let devnr = digit_value (last devname);
                    d = \<lparr>dd_at = next_at s, dd_name = devname, dd_fd = an_open an, dd_refcnt = 1, dd_devnr = devnr, dd_shmem = mmap\<rparr>;
                    s = s\<lparr>Devaudio_devicelist := d # Devaudio_devicelist s, next_at := Suc (next_at s)\<rparr>
                in case devaudio_unmute an devnr of (es, r) \<Rightarrow>
                  if r < 0 then Inr (s, Dev_Opened devname (an_open an) # es, None)
                  else if \<not> an_duplex an then Inr (s, Dev_Opened devname (an_open an) # es @ [Dev_Error], None)
                  else Inr (s, Dev_Opened devname (an_open an) # es, Some (dd_at d))))"

definition audio_devaudio_exit :: "nat \<Rightarrow> devices \<Rightarrow> (devices \<times> dev_effect list) res" where
  "audio_devaudio_exit p s =
    (case find_device (\<lambda>d. dd_at d = p) s of
       None \<Rightarrow> Inl Use_After_Free
     | Some d \<Rightarrow>
         if 0 < dd_refcnt d - 1 then Inr (upd_device p (dd_refcnt_update (\<lambda>n. n - 1)) s, [])
         else Inr (s\<lparr>Devaudio_devicelist := filter (\<lambda>e. dd_at e \<noteq> p) (Devaudio_devicelist s)\<rparr>, [Dev_Closed (dd_fd d)]))"

datatype devaudio_encoding = AUDIO_ENCODING_ULAW | AUDIO_ENCODING_ALAW | AUDIO_ENCODING_SLINEAR | AUDIO_ENCODING_SLINEAR_LE

primrec coding2devaudio :: "coding_type \<Rightarrow> devaudio_encoding" where
  "coding2devaudio CODING_LINEAR16 = AUDIO_ENCODING_SLINEAR_LE"
| "coding2devaudio CODING_ULAW = AUDIO_ENCODING_ULAW"
| "coding2devaudio CODING_ALAW = AUDIO_ENCODING_ALAW"
| "coding2devaudio CODING_LINEAR8 = AUDIO_ENCODING_SLINEAR"
| "coding2devaudio CODING_iLBC = AUDIO_ENCODING_SLINEAR"

section \<open>Playing\<close>

text \<open>The modes are bits of the kernel's interface: the set of those that are on.\<close>

datatype au_mode = AUMODE_PLAY | AUMODE_RECORD | AUMODE_PLAY_ALL

record audio_devaudio_play =
  ap_devaudio :: "nat option"
  ap_mode :: "au_mode set"
  ap_playout_type :: playout_type
  ap_mmap_buffer_size :: int
  ap_mmap_buffer :: "nat \<times> bytes"

definition audio_devaudio_play_init :: "bool \<Rightarrow> audio_devaudio_play option \<times> dev_effect list \<times> int" where
  "audio_devaudio_play_init alloc =
    (if \<not> alloc then (None, [Dev_Error], - 1)
     else (Some \<lparr>ap_devaudio = None, ap_mode = {}, ap_playout_type = PLAYOUT_FIFO, ap_mmap_buffer_size = 0,
       ap_mmap_buffer = (0, [])\<rparr>, [], 0))"

text \<open>The node of the device that an object refers to.\<close>

definition device_of :: "nat option \<Rightarrow> devices \<Rightarrow> devaudio_device res" where
  "device_of p s = bnd (deref p) (\<lambda>p. case find_device (\<lambda>d. dd_at d = p) s of None \<Rightarrow> Inl Use_After_Free | Some d \<Rightarrow> Inr d)"

text \<open>\<open>getinfo\<close> is the size of the device's buffer, \<open>mmap\<close> the address it is mapped to.\<close>

definition audio_devaudio_play_open :: "dev_answers \<Rightarrow> u32 option \<Rightarrow> nat option \<Rightarrow> string \<Rightarrow> audio_devaudio_play \<times> devices
    \<Rightarrow> ((audio_devaudio_play \<times> devices) \<times> dev_effect list \<times> int) res" where
  "audio_devaudio_play_open an getinfo mmap devname = (\<lambda>(ap, s).
    bnd (audio_devaudio_init an devname s) (\<lambda>(s, es, p).
      let ap = ap\<lparr>ap_devaudio := p\<rparr> in
      if p = None then Inr ((ap, s), es, - 1)
      else bnd (device_of p s) (\<lambda>d.
        let es = es @ (if an_dbg an then [] else [Dev_Error]);
            ap = ap\<lparr>ap_playout_type := if dd_shmem d then PLAYOUT_SHMEM else PLAYOUT_FIFO\<rparr> in
        if ap_playout_type ap = PLAYOUT_FIFO then Inr ((ap, s), es, 0)
        else case getinfo of
          None \<Rightarrow> Inr ((ap, s), es @ [Dev_Error], - 1)
        | Some n \<Rightarrow>
            (let ap = ap\<lparr>ap_mmap_buffer_size := sint n\<rparr> in
             case mmap of
               None \<Rightarrow> Inr ((ap, s), es @ [Dev_Error], - 1)
             | Some a \<Rightarrow> Inr ((ap\<lparr>ap_mmap_buffer := (a, replicate (unat n) 0)\<rparr>, s), es, 0)))))"

abbreviation "SPHONE_AUDIO_IOCTL_PLAYOUT_SET \<equiv> 3 :: int"
abbreviation "SPHONE_AUDIO_IOCTL_FD \<equiv> 4 :: int"
abbreviation "SPHONE_AUDIO_IOCTL_PLAYBUFLEN \<equiv> 5 :: int"

text \<open>What is written through \<open>oparg\<close>.\<close>

datatype ioctl_out = No_Output | Out_Playout playout_type | Out_Int int

definition audio_devaudio_play_ioctl :: "int \<Rightarrow> playout_type \<Rightarrow> audio_devaudio_play \<Rightarrow> devices
    \<Rightarrow> (audio_devaudio_play \<times> ioctl_out \<times> dev_effect list \<times> int) res" where
  "audio_devaudio_play_ioctl op oparg ap s =
    (if op = SPHONE_AUDIO_IOCTL_PLAYOUT_GET then Inr (ap, Out_Playout (ap_playout_type ap), [], 0)
     else if op = SPHONE_AUDIO_IOCTL_PLAYOUT_SET then
       (if oparg = PLAYOUT_SHMEM then
          bnd (device_of (ap_devaudio ap) s) (\<lambda>d.
            if \<not> dd_shmem d then Inr (ap, No_Output, [Dev_Warning], - 1) else Inr (ap\<lparr>ap_playout_type := oparg\<rparr>, No_Output, [], 0))
        else Inr (ap\<lparr>ap_playout_type := oparg\<rparr>, No_Output, [], 0))
     else if op = SPHONE_AUDIO_IOCTL_FD then bnd (device_of (ap_devaudio ap) s) (\<lambda>d. Inr (ap, Out_Int (dd_fd d), [], 0))
     else Inr (ap, No_Output, [Dev_Warning], 0))"


text \<open>\<open>getooffs\<close> is the offset that the device reports; the play position is not written.\<close>

definition audio_devaudio_play_pos :: "u32 option \<Rightarrow> u32 \<times> u32 \<Rightarrow> audio_devaudio_play \<Rightarrow> devices
    \<Rightarrow> ((u32 \<times> u32) \<times> dev_effect list \<times> int) res" where
  "audio_devaudio_play_pos getooffs pos ap s =
    (if ap_devaudio ap = None then Inl Assert_Failed
     else if ap_playout_type ap \<noteq> PLAYOUT_SHMEM then Inl Assert_Failed
     else bnd (device_of (ap_devaudio ap) s) (\<lambda>_.
       case getooffs of
         None \<Rightarrow> Inr (pos, [Dev_Error], - 1)
       | Some off \<Rightarrow> Inr ((fst pos, off), [], 0)))"

text \<open>A copy to an address: it must lie in the mapped memory.\<close>

definition copy_to :: "int \<Rightarrow> bytes \<Rightarrow> nat \<times> bytes \<Rightarrow> (nat \<times> bytes) res" where
  "copy_to a b m =
    (if b = [] then Inr m
     else if int (fst m) \<le> a \<and> a + int (length b) \<le> int (fst m) + int (length (snd m))
     then Inr (fst m, take (nat (a - int (fst m))) (snd m) @ b @ drop (nat (a - int (fst m)) + length b) (snd m))
     else Inl Out_Of_Bounds)"

text \<open>The address \<open>pos\<close> is compared with the length of the buffer. A negative length is a huge one for
  \<open>memcpy\<close>.\<close>

definition audio_devaudio_play_play_mmap :: "bytes \<Rightarrow> int \<Rightarrow> audio_devaudio_play \<times> rcv_stats
    \<Rightarrow> ((audio_devaudio_play \<times> rcv_stats) \<times> dev_effect list \<times> int) res" where
  "audio_devaudio_play_play_mmap buf pos = (\<lambda>(ap, rst).
    let len = int (length buf); over = pos + len > ap_mmap_buffer_size ap;
        len1 = (if over then ap_mmap_buffer_size ap - pos else len) in
    if len1 < 0 then Inl Out_Of_Bounds
    else
      bnd (copy_to pos (take (nat len1) buf) (ap_mmap_buffer ap)) (\<lambda>m.
      bnd (if over then copy_to (int (fst m)) (drop (nat len1) buf) m else Inr m) (\<lambda>m.
        Inr ((ap\<lparr>ap_mmap_buffer := m\<rparr>, rst\<lparr>rst_pbytes := rst_pbytes rst + of_nat (length buf), rst_ppkt := rst_ppkt rst + 1\<rparr>), [], 0))))"

text \<open>\<open>wr\<close> tells whether \<open>write\<close> succeeds; how much it took is not looked at.\<close>

definition audio_devaudio_play_play_fifo :: "nat option \<Rightarrow> int \<Rightarrow> bytes \<Rightarrow> rcv_stats \<Rightarrow> rcv_stats \<times> dev_effect list \<times> int" where
  "audio_devaudio_play_play_fifo wr fd pkt rst =
    (case wr of
       None \<Rightarrow> (rst, [Dev_Error], - 1)
     | Some n \<Rightarrow> (rst\<lparr>rst_pbytes := rst_pbytes rst + of_nat (length pkt), rst_ppkt := rst_ppkt rst + 1\<rparr>, [Dev_Write fd (take n pkt)], 0))"

definition audio_devaudio_play_play :: "nat option \<Rightarrow> bytes \<Rightarrow> int \<Rightarrow> devices \<Rightarrow> audio_devaudio_play \<times> rcv_stats
    \<Rightarrow> ((audio_devaudio_play \<times> rcv_stats) \<times> dev_effect list \<times> int) res" where
  "audio_devaudio_play_play wr pkt pos s = (\<lambda>(ap, rst).
    if ap_devaudio ap = None then Inl Assert_Failed
    else if ap_playout_type ap = PLAYOUT_FIFO then
      bnd (device_of (ap_devaudio ap) s) (\<lambda>d.
        case audio_devaudio_play_play_fifo wr (dd_fd d) pkt rst of (rst, es, r) \<Rightarrow> Inr ((ap, rst), es, r))
    else audio_devaudio_play_play_mmap pkt pos (ap, rst))"

text \<open>Starting a device for either use: what it is set to, and the channels it has afterwards. \<open>setinfo\<close>
  and \<open>getinfo\<close> are the answers, the second with the channels.\<close>

record audio_info =
  ai_encoding :: devaudio_encoding
  ai_precision :: u32
  ai_sample_rate :: u32
  ai_channels :: u32
  ai_mode :: "au_mode set"

definition device_settings :: "au_mode set \<Rightarrow> coding_params \<Rightarrow> audio_info" where
  "device_settings mode cp = \<lparr>ai_encoding = coding2devaudio (cp_type cp), ai_precision = cp_precision cp,
     ai_sample_rate = cp_samp_sec cp, ai_channels = ucast (cp_channels cp), ai_mode = mode\<rparr>"

definition take_channels :: "(audio_info \<Rightarrow> bool) \<Rightarrow> (audio_info \<Rightarrow> u32 option) \<Rightarrow> au_mode set \<Rightarrow> coding_params
    \<Rightarrow> coding_params \<times> dev_effect list \<times> int" where
  "take_channels setinfo getinfo mode cp =
    (let ai = device_settings mode cp in
     if \<not> setinfo ai then (cp, [Dev_Error], - 1)
     else case getinfo ai of
       None \<Rightarrow> (cp, [Dev_Error], - 1)
     | Some ch \<Rightarrow> if ucast (cp_channels cp) \<noteq> ch then (cp\<lparr>cp_channels := ucast ch\<rparr>, [Dev_Warning], 0) else (cp, [], 0))"

definition audio_devaudio_play_start :: "(audio_info \<Rightarrow> bool) \<Rightarrow> (audio_info \<Rightarrow> u32 option) \<Rightarrow> devices
    \<Rightarrow> audio_devaudio_play \<times> coding_params \<Rightarrow> ((audio_devaudio_play \<times> coding_params) \<times> dev_effect list \<times> int) res" where
  "audio_devaudio_play_start setinfo getinfo s = (\<lambda>(ap, cp).
    let ap = ap\<lparr>ap_mode := ap_mode ap \<union> {AUMODE_PLAY, AUMODE_PLAY_ALL}\<rparr> in
    bnd (device_of (ap_devaudio ap) s) (\<lambda>_.
      case take_channels setinfo getinfo (ap_mode ap) cp of (cp, es, r) \<Rightarrow> Inr ((ap, cp), es, r)))"

definition audio_devaudio_play_settings :: "coding_params \<Rightarrow> int" where
  "audio_devaudio_play_settings cp = 0"

definition audio_devaudio_play_stop :: "audio_devaudio_play \<Rightarrow> int" where
  "audio_devaudio_play_stop ap = 0"

definition audio_devaudio_play_close :: "audio_devaudio_play option \<Rightarrow> devices \<Rightarrow> (devices \<times> dev_effect list) res" where
  "audio_devaudio_play_close ap s =
    (case ap of
       None \<Rightarrow> Inr (s, [])
     | Some ap \<Rightarrow> (case ap_devaudio ap of None \<Rightarrow> Inr (s, []) | Some p \<Rightarrow> audio_devaudio_exit p s))"

text \<open>The private part is freed, and the object: what is left is the null pointer.\<close>

definition audio_devaudio_play_exit :: "audio_devaudio_play option \<Rightarrow> devices \<Rightarrow> (audio_devaudio_play option \<times> devices \<times> dev_effect list) res" where
  "audio_devaudio_play_exit ap s = bnd (audio_devaudio_play_close ap s) (\<lambda>(s, es). Inr (None, s, es))"

section \<open>Recording\<close>

record audio_devaudio_record =
  dr_devaudio :: "nat option"
  dr_mode :: "au_mode set"
  dr_T :: timeval

definition audio_devaudio_record_init :: "bool \<Rightarrow> audio_devaudio_record option \<times> dev_effect list \<times> int" where
  "audio_devaudio_record_init alloc =
    (if \<not> alloc then (None, [Dev_Error], - 1) else (Some \<lparr>dr_devaudio = None, dr_mode = {}, dr_T = tv 0 0\<rparr>, [], 0))"

definition audio_devaudio_record_settings :: "coding_params \<Rightarrow> int" where
  "audio_devaudio_record_settings cp = 0"

definition audio_devaudio_record_open :: "dev_answers \<Rightarrow> string \<Rightarrow> audio_devaudio_record \<times> devices
    \<Rightarrow> ((audio_devaudio_record \<times> devices) \<times> dev_effect list \<times> int) res" where
  "audio_devaudio_record_open an devname = (\<lambda>(ar, s).
    bnd (audio_devaudio_init an devname s) (\<lambda>(s, es, p).
      Inr ((ar\<lparr>dr_devaudio := p\<rparr>, s), (if p = None \<or> an_dbg an then es else es @ [Dev_Error]), if p = None then - 1 else 0)))"

text \<open>What \<open>read\<close> answers. The buffer has the length of a packet; a packet that is read is handed to the
  callback, as in the recording from a file. The last component of the result counts the buffers that
  are not freed.\<close>

datatype read_answer = Got bytes | Would_Block | Read_Failed

fun record_two :: "nat \<Rightarrow> (bool \<times> read_answer) list \<Rightarrow> 'w recorder \<Rightarrow> u32 \<Rightarrow> send_stats \<Rightarrow> 'w
    \<Rightarrow> ((send_stats \<times> 'w) \<times> effect list \<times> int \<times> nat) res" where
  "record_two 0 as cb len sst w = Inr ((sst, w), [], 0, 0)"
| "record_two (Suc i) [] cb len sst w = Inr ((sst, w), [], 0, 1)"
| "record_two (Suc i) ((alloc, a) # as) cb len sst w =
    (if \<not> alloc then Inr ((sst, w), [Sphone_Error], - 1, 0)
     else case a of
       Would_Block \<Rightarrow> Inr ((sst, w), [], 0, 1)
     | Read_Failed \<Rightarrow> Inr ((sst, w), [Sphone_Error], - 1, 0)
     | Got b \<Rightarrow>
         if length b \<noteq> unat len then Inr ((sst, w), [Sphone_Error], - 1, 0)
         else
           (let sst = sst\<lparr>sst_rpkt := sst_rpkt sst + 1, sst_rbytes := sst_rbytes sst + len\<rparr> in
            bnd (cb b (unat len) w) (\<lambda>(w, es, r).
              if r < 0 then Inr ((sst, w), es, - 1, 0)
              else bnd (record_two i as cb len sst w) (\<lambda>(x, es', r, k). Inr (x, es @ es', r, k)))))"

text \<open>The device has nothing to read where the list of answers ends.\<close>

definition audio_devaudio_record_poll :: "(bool \<times> read_answer) list \<Rightarrow> 'w recorder \<Rightarrow> coding_params \<Rightarrow> devices \<Rightarrow> audio_devaudio_record
    \<Rightarrow> send_stats \<times> 'w \<Rightarrow> ((send_stats \<times> 'w) \<times> effect list \<times> int \<times> nat) res" where
  "audio_devaudio_record_poll as cb cp s ar = (\<lambda>(sst, w).
    bnd (device_of (dr_devaudio ar) s) (\<lambda>_. record_two 2 as cb (cp_size_bytes cp) sst w))"

definition audio_devaudio_record_poll_wrapper :: "(bool \<times> read_answer) list \<Rightarrow> 'w recorder \<Rightarrow> coding_params \<Rightarrow> devices \<Rightarrow> timeval \<Rightarrow> bool
    \<Rightarrow> audio_devaudio_record \<times> send_stats \<times> 'w \<Rightarrow> ((audio_devaudio_record \<times> send_stats \<times> 'w) \<times> effect list \<times> int \<times> nat) res" where
  "audio_devaudio_record_poll_wrapper as cb cp s now reg = (\<lambda>(ar, x).
    bnd (audio_devaudio_record_poll as cb cp s ar x) (\<lambda>(x, es, r, k).
      if r < 0 then Inr ((ar, x), es, - 1, k)
      else
        (let ar = ar\<lparr>dr_T := timevalfix (tv (tv_sec now) (tv_usec now + uint (cp_size_ms cp * 1000)))\<rparr> in
         if reg then Inr ((ar, x), es @ [Reg_Timeout (dr_T ar) ''/dev/audio record''], 0, k) else Inr ((ar, x), es, - 1, k))))"

definition audio_devaudio_record_ioctl :: "int \<Rightarrow> audio_devaudio_record \<Rightarrow> devices \<Rightarrow> (ioctl_out \<times> dev_effect list \<times> int) res" where
  "audio_devaudio_record_ioctl op ar s =
    (if op = SPHONE_AUDIO_IOCTL_FD then bnd (device_of (dr_devaudio ar) s) (\<lambda>d. Inr (Out_Int (dd_fd d), [], 0))
     else Inr (No_Output, [Dev_Warning], 0))"

text \<open>The effects on the device and those of the first poll are kept apart.\<close>

definition audio_devaudio_record_start :: "(audio_info \<Rightarrow> bool) \<Rightarrow> (audio_info \<Rightarrow> u32 option) \<Rightarrow> (bool \<times> read_answer) list \<Rightarrow> 'w recorder
    \<Rightarrow> devices \<Rightarrow> timeval \<Rightarrow> bool \<Rightarrow> (audio_devaudio_record \<times> send_stats \<times> 'w) \<times> coding_params
    \<Rightarrow> (((audio_devaudio_record \<times> send_stats \<times> 'w) \<times> coding_params) \<times> dev_effect list \<times> effect list \<times> int \<times> nat) res" where
  "audio_devaudio_record_start setinfo getinfo as cb s now reg = (\<lambda>((ar, x), cp).
    let ar = ar\<lparr>dr_mode := dr_mode ar \<union> {AUMODE_RECORD}\<rparr> in
    bnd (device_of (dr_devaudio ar) s) (\<lambda>_.
      case take_channels setinfo getinfo (dr_mode ar) cp of (cp, ds, r) \<Rightarrow>
        if r < 0 then Inr (((ar, x), cp), ds, [], - 1, 0)
        else bnd (audio_devaudio_record_poll_wrapper as cb cp s now reg (ar, x)) (\<lambda>(y, es, r, k).
          Inr ((y, cp), ds, es, (if r < 0 then - 1 else 0), k))))"

definition audio_devaudio_record_close :: "audio_devaudio_record option \<Rightarrow> devices \<Rightarrow> (devices \<times> dev_effect list) res" where
  "audio_devaudio_record_close ar s =
    (case ar of
       None \<Rightarrow> Inr (s, [])
     | Some ar \<Rightarrow> (case dr_devaudio ar of None \<Rightarrow> Inr (s, []) | Some p \<Rightarrow> audio_devaudio_exit p s))"

definition audio_devaudio_record_exit :: "audio_devaudio_record option \<Rightarrow> devices \<Rightarrow> (audio_devaudio_record option \<times> devices \<times> dev_effect list) res" where
  "audio_devaudio_record_exit ar s = bnd (audio_devaudio_record_close ar s) (\<lambda>(s, es). Inr (None, s, es))"

section \<open>Setting up the playout\<close>

text \<open>What the programs do with a device that is open: they ask for the playout it supports and set that up.
  The buffer length is asked into a field that is zero.\<close>

definition buflen_answer :: "ioctl_out \<times> int \<Rightarrow> u32 option" where
  "buflen_answer = (\<lambda>(out, r). if r < 0 then None else Some (case out of Out_Int n \<Rightarrow> word_of_int n | _ \<Rightarrow> 0))"

definition devaudio_playout :: "bool \<Rightarrow> int list \<Rightarrow> timeval \<Rightarrow> audio_devaudio_play \<Rightarrow> devices
    \<Rightarrow> (playout option \<times> timeval option \<times> int) res" where
  "devaudio_playout ok usecs now ap s =
    bnd (audio_devaudio_play_ioctl SPHONE_AUDIO_IOCTL_PLAYOUT_GET PLAYOUT_FIFO ap s) (\<lambda>(ap, out, es, r).
      if r < 0 then Inr (None, None, - 1)
      else bnd (audio_devaudio_play_ioctl SPHONE_AUDIO_IOCTL_PLAYBUFLEN PLAYOUT_FIFO ap s) (\<lambda>(ap, out', es', r').
        playout_init ok (buflen_answer (out', r')) usecs now (case out of Out_Playout t \<Rightarrow> t | _ \<Rightarrow> PLAYOUT_FIFO)))"

section \<open>A queueing device\<close>

text \<open>The packets that a device in the other mode gets are written to it one after the other.\<close>

definition dev_written :: "dev_effect list \<Rightarrow> bytes" where
  "dev_written es = concat (map (\<lambda>e. case e of Dev_Write fd b \<Rightarrow> b | _ \<Rightarrow> []) es)"

definition fifo_write :: "int \<Rightarrow> bytes \<Rightarrow> rcv_stats \<times> bytes \<Rightarrow> (rcv_stats \<times> bytes) called" where
  "fifo_write fd b = (\<lambda>(rst, out).
    case audio_devaudio_play_play_fifo (Some (length b)) fd b rst of (rst, es, r) \<Rightarrow> Inr ((rst, out @ dev_written es), [], r))"

interpretation device_out: fifo_device "fifo_write fd" snd for fd
  by unfold_locales (auto simp: fifo_write_def audio_devaudio_play_play_fifo_def dev_written_def)

lemma device_plays_in_order: "\<exists>rst'. device_out.play_all fd bs (rst, out) = Inr ((rst', out @ concat bs), [], 0)"
  using device_out.play_all_contents [of fd bs "(rst, out)"] by auto

section \<open>Who uses a device\<close>

text \<open>The states of the list, with the pointers in use, one for each successful initialization that is not
  given up, and the devices of initializations that failed after they had put them into the list.\<close>

inductive dev_reach :: "devices \<Rightarrow> nat list \<Rightarrow> nat list \<Rightarrow> bool" where
  start: "dev_reach \<lparr>Devaudio_devicelist = [], next_at = n\<rparr> [] []"
| opened: "dev_reach s hs ls \<Longrightarrow> audio_devaudio_init an devname s = Inr (s', es, Some p) \<Longrightarrow> dev_reach s' (p # hs) ls"
| failed: "dev_reach s hs ls \<Longrightarrow> audio_devaudio_init an devname s = Inr (s', es, None) \<Longrightarrow>
    dev_reach s' hs (if next_at s' = next_at s then ls else next_at s # ls)"
| exited: "dev_reach s (hs @ p # hs') ls \<Longrightarrow> audio_devaudio_exit p s = Inr (s', es) \<Longrightarrow> dev_reach s' (hs @ hs') ls"

definition dev_inv :: "devices \<Rightarrow> nat list \<Rightarrow> nat list \<Rightarrow> bool" where
  "dev_inv s hs ls \<longleftrightarrow> distinct (map dd_at (Devaudio_devicelist s)) \<and> distinct (map dd_name (Devaudio_devicelist s)) \<and>
    (\<forall>d \<in> set (Devaudio_devicelist s). dd_at d < next_at s \<and> 0 < dd_refcnt d \<and>
      dd_refcnt d = int (count_list hs (dd_at d)) + int (count_list ls (dd_at d))) \<and>
    set hs \<union> set ls \<subseteq> dd_at ` set (Devaudio_devicelist s)"

lemma find_device_Some: "find_device P s = Some d \<Longrightarrow> d \<in> set (Devaudio_devicelist s) \<and> P d"
  unfolding find_device_def by (metis find_Some_iff nth_mem)

lemma find_key: "distinct (map f xs) \<Longrightarrow> d \<in> set xs \<Longrightarrow> List.find (\<lambda>e. f e = f d) xs = Some d"
  by (induction xs) (auto simp: image_iff)

lemma find_device_at: "distinct (map dd_at (Devaudio_devicelist s)) \<Longrightarrow> d \<in> set (Devaudio_devicelist s) \<Longrightarrow>
  find_device (\<lambda>e. dd_at e = dd_at d) s = Some d"
  unfolding find_device_def by (rule find_key)

lemma find_device_None: "find_device P s = None \<longleftrightarrow> (\<forall>d \<in> set (Devaudio_devicelist s). \<not> P d)"
  unfolding find_device_def by (auto simp: find_None_iff)

text \<open>What an initialization does to the list.\<close>

lemma init_cases:
  assumes "audio_devaudio_init an devname s = Inr (s', es, p)"
  obtains (used) d where "d \<in> set (Devaudio_devicelist s)" "s' = upd_device (dd_at d) (dd_refcnt_update (\<lambda>n. n + 1)) s" "p = Some (dd_at d)"
  | (nothing) "s' = s" "p = None"
  | (new) d where "\<forall>e \<in> set (Devaudio_devicelist s). dd_name e \<noteq> devname" "dd_at d = next_at s" "dd_name d = devname" "dd_refcnt d = 1"
      "Devaudio_devicelist s' = d # Devaudio_devicelist s" "next_at s' = Suc (next_at s)" "p = None \<or> p = Some (next_at s)"
proof (cases "find_device (\<lambda>d. dd_name d = devname) s")
  case None
  then have n: "\<forall>e \<in> set (Devaudio_devicelist s). dd_name e \<noteq> devname" by (simp add: find_device_None)
  show ?thesis
  proof (cases "next_at s' = next_at s")
    case True
    then have "s' = s \<and> p = None" using assms None
      by (auto simp: audio_devaudio_init_def Let_def split: if_splits option.splits prod.splits)
    then have "s' = s" "p = None" by auto
    then show ?thesis by (rule nothing)
  next
    case False
    then show ?thesis using assms None n
      by (intro new [of "hd (Devaudio_devicelist s')"]) (auto simp: audio_devaudio_init_def Let_def split: if_splits option.splits prod.splits)
  qed
next
  case (Some d)
  then show ?thesis using assms used [of d] find_device_Some [OF Some] by (auto simp: audio_devaudio_init_def split: if_splits)
qed

lemma upd_device_list:
  "Devaudio_devicelist (upd_device p (dd_refcnt_update f) s) = map (\<lambda>d. d\<lparr>dd_refcnt := if dd_at d = p then f (dd_refcnt d) else dd_refcnt d\<rparr>) (Devaudio_devicelist s)"
  "next_at (upd_device p (dd_refcnt_update f) s) = next_at s"
  by (auto simp: upd_device_def)

lemma used_inv:
  assumes "dev_inv s hs ls" "d \<in> set (Devaudio_devicelist s)"
  shows "dev_inv (upd_device (dd_at d) (dd_refcnt_update (\<lambda>n. n + 1)) s) (dd_at d # hs) ls"
  using assms by (auto simp: dev_inv_def upd_device_list o_def image_image)

lemma new_inv:
  assumes "dev_inv s hs ls" "\<forall>e \<in> set (Devaudio_devicelist s). dd_name e \<noteq> dd_name d" "dd_at d = next_at s" "dd_refcnt d = 1"
    "Devaudio_devicelist s' = d # Devaudio_devicelist s" "next_at s' = Suc (next_at s)"
  shows "dev_inv s' (next_at s # hs) ls" "dev_inv s' hs (next_at s # ls)"
proof -
  have "next_at s \<notin> set hs \<union> set ls" using assms(1) unfolding dev_inv_def by fastforce
  then have "count_list hs (next_at s) = 0" "count_list ls (next_at s) = 0" by (auto simp: count_notin)
  then show "dev_inv s' (next_at s # hs) ls" "dev_inv s' hs (next_at s # ls)"
    using assms by (auto simp: dev_inv_def)
qed

text \<open>Giving up a pointer that is in use finds the node, and closes the device when nobody else counts.\<close>

lemma exit_result:
  assumes "dev_inv s hs ls" "p \<in> set hs"
  obtains d where "find_device (\<lambda>d. dd_at d = p) s = Some d" "d \<in> set (Devaudio_devicelist s)" "dd_at d = p"
    "audio_devaudio_exit p s =
      (if count_list hs p = 1 \<and> p \<notin> set ls
       then Inr (s\<lparr>Devaudio_devicelist := filter (\<lambda>e. dd_at e \<noteq> p) (Devaudio_devicelist s)\<rparr>, [Dev_Closed (dd_fd d)])
       else Inr (upd_device p (dd_refcnt_update (\<lambda>n. n - 1)) s, []))"
proof -
  obtain d where d: "d \<in> set (Devaudio_devicelist s)" "dd_at d = p" using assms by (auto simp: dev_inv_def)
  then have f: "find_device (\<lambda>d. dd_at d = p) s = Some d" using find_device_at [of s d] assms(1) by (auto simp: dev_inv_def)
  have n: "dd_refcnt d = int (count_list hs p) + int (count_list ls p)" using assms(1) d by (auto simp: dev_inv_def)
  have "0 < count_list hs p" using assms(2) by (metis count_list_0_iff gr0I)
  moreover have "count_list ls p = 0 \<longleftrightarrow> p \<notin> set ls" by (rule count_list_0_iff)
  ultimately have "0 < dd_refcnt d - 1 \<longleftrightarrow> \<not> (count_list hs p = 1 \<and> p \<notin> set ls)" using n by auto
  then have "audio_devaudio_exit p s =
      (if count_list hs p = 1 \<and> p \<notin> set ls
       then Inr (s\<lparr>Devaudio_devicelist := filter (\<lambda>e. dd_at e \<noteq> p) (Devaudio_devicelist s)\<rparr>, [Dev_Closed (dd_fd d)])
       else Inr (upd_device p (dd_refcnt_update (\<lambda>n. n - 1)) s, []))"
    by (simp only: audio_devaudio_exit_def f option.case if_not_P if_P split: if_split) simp
  then show ?thesis using that f d by blast
qed

lemma exited_inv:
  assumes "dev_inv s (hs @ p # hs') ls" "audio_devaudio_exit p s = Inr (s', es)"
  shows "dev_inv s' (hs @ hs') ls"
proof -
  have "p \<in> set (hs @ p # hs')" by simp
  from exit_result [OF assms(1) this] obtain d where d: "d \<in> set (Devaudio_devicelist s)" "dd_at d = p"
    and r: "audio_devaudio_exit p s =
      (if count_list (hs @ p # hs') p = 1 \<and> p \<notin> set ls
       then Inr (s\<lparr>Devaudio_devicelist := filter (\<lambda>e. dd_at e \<noteq> p) (Devaudio_devicelist s)\<rparr>, [Dev_Closed (dd_fd d)])
       else Inr (upd_device p (dd_refcnt_update (\<lambda>n. n - 1)) s, []))" .
  show ?thesis
  proof (cases "count_list (hs @ p # hs') p = 1 \<and> p \<notin> set ls")
    case True
    then have "p \<notin> set hs" "p \<notin> set hs'" by (auto simp: count_list_0_iff)
    moreover have "s' = s\<lparr>Devaudio_devicelist := filter (\<lambda>e. dd_at e \<noteq> p) (Devaudio_devicelist s)\<rparr>"
      using assms(2) True r by (simp only: if_P sum.inject prod.inject simp_thms)
    moreover have "A \<subseteq> dd_at ` set (filter (\<lambda>e. dd_at e \<noteq> p) (Devaudio_devicelist s))"
      if "A \<subseteq> dd_at ` set (Devaudio_devicelist s)" "p \<notin> A" for A using that by force
    ultimately show ?thesis using assms(1) True unfolding dev_inv_def
      by (simp add: distinct_map_filter) (auto split: if_splits)
  next
    case False
    then have "s' = upd_device p (dd_refcnt_update (\<lambda>n. n - 1)) s"
      using assms(2) r by (simp only: if_not_P sum.inject prod.inject simp_thms)
    moreover have "0 < int (count_list hs p) + (int (count_list hs' p) + int (count_list ls p))"
      using False count_list_0_iff [of ls p] by auto
    ultimately show ?thesis using assms(1) d by (auto simp: dev_inv_def upd_device_list o_def image_image)
  qed
qed

lemma dev_reach_inv: "dev_reach s hs ls \<Longrightarrow> dev_inv s hs ls"
proof (induction rule: dev_reach.induct)
  case (start n)
  then show ?case by (simp add: dev_inv_def)
next
  case (opened s hs ls an devname s' es p)
  from opened.hyps(2) show ?case
  proof (cases rule: init_cases)
    case (used d)
    then show ?thesis using used_inv [OF opened.IH] by simp
  next
    case (new d)
    then show ?thesis using new_inv(1) [OF opened.IH] by auto
  qed simp
next
  case (failed s hs ls an devname s' es)
  from failed.hyps(2) show ?case
  proof (cases rule: init_cases)
    case (new d)
    then show ?thesis using new_inv(2) [OF failed.IH] by auto
  qed (use failed.IH in simp_all)
next
  case (exited s hs p hs' ls s' es)
  then show ?case by (blast intro: exited_inv)
qed


section \<open>Properties\<close>

text \<open>C27. An open device is shared: whatever is opened, fails to open and is given up in any order, every
  pointer in use has its node with the number of its users, giving one up closes the descriptor and
  takes the node out of the list exactly when it is the last, and counts one down otherwise. A device
  whose initialization failed after it was put into the list counts one user that does not exist, and
  is never closed.\<close>

theorem device_closed_with_last_user:
  assumes "dev_reach s hs ls" "p \<in> set hs"
  shows "\<exists>d. find_device (\<lambda>d. dd_at d = p) s = Some d \<and> dd_refcnt d = int (count_list hs p + count_list ls p) \<and>
    (count_list hs p = 1 \<and> p \<notin> set ls \<longrightarrow>
      (\<exists>s'. audio_devaudio_exit p s = Inr (s', [Dev_Closed (dd_fd d)]) \<and> find_device (\<lambda>e. dd_name e = dd_name d) s' = None)) \<and>
    (\<not> (count_list hs p = 1 \<and> p \<notin> set ls) \<longrightarrow>
      (\<exists>s'. audio_devaudio_exit p s = Inr (s', []) \<and> find_device (\<lambda>e. dd_at e = p) s' = Some (d\<lparr>dd_refcnt := dd_refcnt d - 1\<rparr>)))"
proof -
  note inv = dev_reach_inv [OF assms(1)]
  from exit_result [OF inv assms(2)] obtain d where d: "find_device (\<lambda>d. dd_at d = p) s = Some d" "d \<in> set (Devaudio_devicelist s)" "dd_at d = p"
    and r: "audio_devaudio_exit p s =
      (if count_list hs p = 1 \<and> p \<notin> set ls
       then Inr (s\<lparr>Devaudio_devicelist := filter (\<lambda>e. dd_at e \<noteq> p) (Devaudio_devicelist s)\<rparr>, [Dev_Closed (dd_fd d)])
       else Inr (upd_device p (dd_refcnt_update (\<lambda>n. n - 1)) s, []))" .
  have n: "dd_refcnt d = int (count_list hs p + count_list ls p)" using inv d by (auto simp: dev_inv_def)
  have "find_device (\<lambda>e. dd_name e = dd_name d) (s\<lparr>Devaudio_devicelist := filter (\<lambda>e. dd_at e \<noteq> p) (Devaudio_devicelist s)\<rparr>) = None"
    using inv d by (auto simp: find_device_None dev_inv_def distinct_map inj_on_def)
  moreover have "find_device (\<lambda>e. dd_at e = p) (upd_device p (dd_refcnt_update (\<lambda>n. n - 1)) s) = Some (d\<lparr>dd_refcnt := dd_refcnt d - 1\<rparr>)"
    using find_device_at [of "upd_device p (dd_refcnt_update (\<lambda>n. n - 1)) s" "d\<lparr>dd_refcnt := dd_refcnt d - 1\<rparr>"] inv d
    by (force simp: upd_device_list dev_inv_def o_def)
  ultimately show ?thesis using d(1) n r by (intro exI [of _ d]) auto
qed

text \<open>Opening a device through the two interfaces, and giving it up.\<close>

lemma shared_example:
  fixes an :: dev_answers
  assumes "an_open an = 5" "an_props an = Some (True, False)" "an_alloc an" "an_mixer an = 6" "an_controls an = []" "an_duplex an"
  shows "\<exists>s. dev_reach s [0, 0] [] \<and> find_device (\<lambda>d. dd_at d = 0) s
    = Some \<lparr>dd_at = 0, dd_name = ''/dev/audio1'', dd_fd = 5, dd_refcnt = 2, dd_devnr = 1, dd_shmem = False\<rparr>"
proof -
  let ?d = "\<lparr>dd_at = 0, dd_name = ''/dev/audio1'', dd_fd = 5, dd_refcnt = 1, dd_devnr = 1, dd_shmem = False\<rparr>"
  let ?s = "\<lparr>Devaudio_devicelist = [?d], next_at = 1\<rparr>"
  have "audio_devaudio_init an ''/dev/audio1'' \<lparr>Devaudio_devicelist = [], next_at = 0\<rparr>
      = Inr (?s, [Dev_Opened ''/dev/audio1'' 5, Mixer_Opened 1 6, Mixer_Closed 6], Some 0)"
    using assms by (simp add: audio_devaudio_init_def find_device_def devaudio_unmute_def digit_value_def)
  from dev_reach.opened [OF dev_reach.start this] have "dev_reach ?s [0] []" .
  from dev_reach.opened [OF this, of an "''/dev/audio1''"]
  show ?thesis by (intro exI [of _ "upd_device 0 (dd_refcnt_update (\<lambda>n. n + 1)) ?s"]) (simp add: audio_devaudio_init_def find_device_def upd_device_def)
qed

theorem device_closed_with_last_user_witness:
  "\<exists>s s'. dev_reach s [0, 0] [] \<and> audio_devaudio_exit 0 s = Inr (s', [])"
proof -
  let ?an = "\<lparr>an_open = 5, an_props = Some (True, False), an_alloc = True, an_mixer = 6, an_controls = [], an_off = \<lambda>_. True, an_duplex = True, an_dbg = True\<rparr>"
  obtain s where "dev_reach s [0, 0] []" using shared_example [of ?an] by auto
  then show ?thesis using device_closed_with_last_user [of s "[0, 0]" "[]" 0] by auto
qed


text \<open>C26. A device that maps its buffer never plays: it is set up for shared memory, but the question for
  the length of the buffer is not known to the driver, so the length stays zero and the first packet
  and the first background audio divide by it; and were the length known, the driver would copy the
  packet to its position as an address, outside the mapped memory.\<close>

theorem shared_memory_never_plays:
  assumes "audio_devaudio_play_open an getinfo mmap devname (ap0, s0) = Inr ((ap, s), es, 0)"
    and "device_of (ap_devaudio ap) s = Inr d" "dd_shmem d"
  shows "ap_playout_type ap = PLAYOUT_SHMEM \<and>
    (\<exists>ps t. devaudio_playout True usecs now ap s = Inr (Some (Shbuf ps), Some t, 0) \<and> ps_playbuflen ps = 0 \<and>
      playout_shbuf_play (Some pos) pr sc sp ps buf len st = Inl Div_By_Zero \<and>
      silentout_play (Some pos') prs now' ps = Inl Div_By_Zero) \<and>
    (buf \<noteq> [] \<and> 0 \<le> c \<and> c < ap_mmap_buffer_size ap \<and> ap_mmap_buffer_size ap \<le> int (fst (ap_mmap_buffer ap)) \<longrightarrow>
      audio_devaudio_play_play wr buf c s (ap, rst) = Inl Out_Of_Bounds)"
proof (intro conjI impI)
  obtain p where p: "ap_devaudio ap = Some p" using assms(2) by (cases "ap_devaudio ap") (auto simp: device_of_def)
  show t: "ap_playout_type ap = PLAYOUT_SHMEM"
    using assms by (auto simp: audio_devaudio_play_open_def Let_def elim!: bnd_InrE split: if_splits option.splits)
  have "playout_init True (Some 0) usecs now PLAYOUT_SHMEM = Inr (Some (Shbuf ps), Some t, 0) \<longleftrightarrow>
      playout_shbuf_init (Some 0) usecs now = Inr (ps, Some t, 0)" for ps t
    by (auto simp: playout_init_def playout_shbuf_init_def Let_def silentbuf_init_def)
  moreover obtain ps tm where "playout_shbuf_init (Some 0) usecs now = Inr (ps, Some tm, 0)" "ps_playbuflen ps = 0"
    by (auto simp: playout_shbuf_init_def Let_def silentbuf_init_def)
  ultimately show "\<exists>ps t. devaudio_playout True usecs now ap s = Inr (Some (Shbuf ps), Some t, 0) \<and> ps_playbuflen ps = 0 \<and>
      playout_shbuf_play (Some pos) pr sc sp ps buf len st = Inl Div_By_Zero \<and>
      silentout_play (Some pos') prs now' ps = Inl Div_By_Zero"
    by (intro exI [of _ ps] exI [of _ tm])
      (simp add: devaudio_playout_def audio_devaudio_play_ioctl_def t buflen_answer_def playout_shbuf_play_def silentout_play_def Let_def split: prod.split)
  show "audio_devaudio_play_play wr buf c s (ap, rst) = Inl Out_Of_Bounds"
    if "buf \<noteq> [] \<and> 0 \<le> c \<and> c < ap_mmap_buffer_size ap \<and> ap_mmap_buffer_size ap \<le> int (fst (ap_mmap_buffer ap))"
    using that by (auto simp: audio_devaudio_play_play_def p t audio_devaudio_play_play_mmap_def Let_def copy_to_def)
qed

definition mapped_answers :: dev_answers where
  "mapped_answers = \<lparr>an_open = 5, an_props = Some (True, True), an_alloc = True, an_mixer = 6, an_controls = [(True, ''mute'')],
     an_off = \<lambda>_. True, an_duplex = True, an_dbg = True\<rparr>"

theorem shared_memory_never_plays_witness:
  "\<exists>ap s. audio_devaudio_play_open mapped_answers (Some 8) (Some 65536) ''/dev/audio'' (the (fst (audio_devaudio_play_init True)),
      \<lparr>Devaudio_devicelist = [], next_at = 0\<rparr>) = Inr ((ap, s), [Dev_Opened ''/dev/audio'' 5, Mixer_Opened 0 6, Mixer_Off 0, Mixer_Closed 6], 0) \<and>
    (\<exists>ps t. devaudio_playout True [] (tv 0 0) ap s = Inr (Some (Shbuf ps), Some t, 0) \<and>
      playout_shbuf_play (Some (0, 0)) 0 1 0 ps [1, 2] 2 SEQ_RESET = Inl Div_By_Zero) \<and>
    audio_devaudio_play_play (Some 2) [1, 2] 3 s (ap, \<lparr>rst_rbytes = 0, rst_rpkt = 0, rst_pbytes = 0, rst_ppkt = 0, rst_lost_pkts = 0\<rparr>) = Inl Out_Of_Bounds"
proof -
  let ?ap = "\<lparr>ap_devaudio = Some 0, ap_mode = {}, ap_playout_type = PLAYOUT_SHMEM, ap_mmap_buffer_size = 8, ap_mmap_buffer = (65536, replicate 8 0)\<rparr>"
  let ?d = "\<lparr>dd_at = 0, dd_name = ''/dev/audio'', dd_fd = 5, dd_refcnt = 1, dd_devnr = 0, dd_shmem = True\<rparr>"
  let ?s = "\<lparr>Devaudio_devicelist = [?d], next_at = 1\<rparr>"
  have o: "audio_devaudio_play_open mapped_answers (Some 8) (Some 65536) ''/dev/audio'' (the (fst (audio_devaudio_play_init True)),
      \<lparr>Devaudio_devicelist = [], next_at = 0\<rparr>) = Inr ((?ap, ?s), [Dev_Opened ''/dev/audio'' 5, Mixer_Opened 0 6, Mixer_Off 0, Mixer_Closed 6], 0)"
    by (simp add: audio_devaudio_play_open_def audio_devaudio_play_init_def audio_devaudio_init_def mapped_answers_def find_device_def
        devaudio_unmute_def digit_value_def device_of_def Let_def)
  have "device_of (ap_devaudio ?ap) ?s = Inr ?d" by (simp add: device_of_def find_device_def)
  from shared_memory_never_plays [OF o this, of "[]" "tv 0 0" "(0, 0)" 0 1 0 "[1, 2]" 2 SEQ_RESET "(0, 0)" "[]" "tv 0 0" 3 "Some 2"
      "\<lparr>rst_rbytes = 0, rst_rpkt = 0, rst_pbytes = 0, rst_ppkt = 0, rst_lost_pkts = 0\<rparr>"] o
  show ?thesis by (intro exI [of _ ?ap] exI [of _ ?s]) auto
qed

text \<open>A poll of the device takes the packets it has, two at most, hands them to the callback in order,
  and registers the next poll one packet after the current time. A buffer is lost in every poll that
  finds the device empty.\<close>

lemma device_poll_takes_two:
  assumes "\<forall>b \<in> set bs. length b = unat (cp_size_bytes cp)" "\<forall>b l w. cb b l w = Inr (f b w, g b, 0)"
    and "device_of (dr_devaudio ar) s = Inr d" "tv_usec now + uint (cp_size_ms cp * 1000) = us"
  shows "\<exists>sst'. audio_devaudio_record_poll_wrapper (map (\<lambda>b. (True, Got b)) bs) cb cp s now True (ar, sst, w) =
      Inr ((ar\<lparr>dr_T := timevalfix (tv (tv_sec now) us)\<rparr>, sst', fold f (take 2 bs) w),
        concat (map g (take 2 bs)) @ [Reg_Timeout (timevalfix (tv (tv_sec now) us)) ''/dev/audio record''], 0,
        if length bs < 2 then 1 else 0) \<and>
    sst_rpkt sst' = sst_rpkt sst + of_nat (min 2 (length bs))"
proof -
  have two: "\<exists>sst'. record_two 2 (map (\<lambda>b. (True, Got b)) bs) cb (cp_size_bytes cp) sst w =
      Inr ((sst', fold f (take 2 bs) w), concat (map g (take 2 bs)), 0, if length bs < 2 then 1 else 0) \<and>
    sst_rpkt sst' = sst_rpkt sst + of_nat (min 2 (length bs))"
  proof (cases bs)
    case (Cons b r)
    then show ?thesis using assms(1,2) by (cases r) (auto simp: Let_def numeral_2_eq_2)
  qed (simp add: numeral_2_eq_2)
  then show ?thesis using assms(3,4)
    by (auto simp: audio_devaudio_record_poll_wrapper_def audio_devaudio_record_poll_def Let_def)
qed

lemma device_poll_takes_two_witness:
  "\<exists>sst'. audio_devaudio_record_poll_wrapper (map (\<lambda>b. (True, Got b)) [[1, 2], [3, 4], [5, 6]]) (\<lambda>b l w. Inr (w @ b, [], 0))
      (demo_cpa\<lparr>cp_size_bytes := 2\<rparr>) \<lparr>Devaudio_devicelist = [\<lparr>dd_at = 0, dd_name = ''a'', dd_fd = 5, dd_refcnt = 1, dd_devnr = 0, dd_shmem = False\<rparr>], next_at = 1\<rparr>
      (tv 5 0) True (\<lparr>dr_devaudio = Some 0, dr_mode = {}, dr_T = tv 0 0\<rparr>, ss_stats send_session_zero, []) =
    Inr ((\<lparr>dr_devaudio = Some 0, dr_mode = {}, dr_T = timevalfix (tv 5 20000)\<rparr>, sst', [1, 2, 3, 4]),
      [Reg_Timeout (timevalfix (tv 5 20000)) ''/dev/audio record''], 0, 0) \<and> sst_rpkt sst' = sst_rpkt (ss_stats send_session_zero) + 2"
  using device_poll_takes_two [of "[[1, 2], [3, 4], [5, 6]]" "demo_cpa\<lparr>cp_size_bytes := 2\<rparr>" "\<lambda>b l w. Inr (w @ b, [], 0)" "\<lambda>b w. w @ b" "\<lambda>_. []"
      "\<lparr>dr_devaudio = Some 0, dr_mode = {}, dr_T = tv 0 0\<rparr>" "\<lparr>Devaudio_devicelist = [\<lparr>dd_at = 0, dd_name = ''a'', dd_fd = 5, dd_refcnt = 1, dd_devnr = 0, dd_shmem = False\<rparr>], next_at = 1\<rparr>"
      _ "tv 5 0" 20000 "ss_stats send_session_zero" "[]"]
  by (simp add: device_of_def find_device_def demo_cpa_def)

end
