(* ===== verification/Getopt.thy ===== *)
theory Getopt
  imports Sphone_Base
begin

text \<open>
  The option parser that comes with the programs, \<open>src/getopt.c\<close>. Its state is in static variables:
  the place in the current argument (the empty string between arguments), the index of that argument,
  and the argument of the last option. A message that is printed is a character in the result.

  A reference is the command line itself: options grouped behind one dash, the last of a group with its
  argument attached or in the next argument.
\<close>

section \<open>The parser\<close>

record getopt_state =
  place :: string
  optind :: nat
  optreset :: bool
  optarg :: "string option"
  opterr :: bool

abbreviation "BADCH \<equiv> CHR ''?''"
abbreviation "BADARG \<equiv> CHR '':''"

definition getopt_init :: getopt_state where
  "getopt_init = \<lparr>place = [], optind = 1, optreset = False, optarg = None, opterr = True\<rparr>"

text \<open>The first block: \<open>None\<close> is the return with -1, \<open>Some\<close> the place to go on from.\<close>

definition getopt_scan :: "string list \<Rightarrow> getopt_state \<Rightarrow> getopt_state \<times> string option" where
  "getopt_scan nargv g =
    (if optreset g \<or> place g = [] then
       (let g = g\<lparr>optreset := False\<rparr> in
        if length nargv \<le> optind g then (g\<lparr>place := []\<rparr>, None)
        else case nargv ! optind g of
          [] \<Rightarrow> (g\<lparr>place := []\<rparr>, None)
        | c # r \<Rightarrow>
            if c \<noteq> CHR ''-'' then (g\<lparr>place := []\<rparr>, None)
            else case r of
              [] \<Rightarrow> (g, Some [c])
            | d # _ \<Rightarrow> if d = CHR ''-'' then (g\<lparr>optind := optind g + 1, place := []\<rparr>, None) else (g, Some r))
     else (g, Some (place g)))"

text \<open>What stands behind the first occurrence of a character in the list of options.\<close>

fun after_char :: "char \<Rightarrow> string \<Rightarrow> string option" where
  "after_char c [] = None"
| "after_char c (d # ds) = (if c = d then Some ds else after_char c ds)"

text \<open>An option letter, with what is left of its argument behind it. The result is the state, the character
  returned and whether a message is printed.\<close>

definition getopt_letter :: "string list \<Rightarrow> string \<Rightarrow> char \<Rightarrow> string \<Rightarrow> getopt_state \<Rightarrow> getopt_state \<times> char option \<times> bool" where
  "getopt_letter nargv ostr optopt pl g =
    (case (if optopt = CHR '':'' then None else after_char optopt ostr) of
       None \<Rightarrow>
         if optopt = CHR ''-'' then (g\<lparr>place := pl\<rparr>, None, False)
         else (g\<lparr>place := pl, optind := if pl = [] then optind g + 1 else optind g\<rparr>, Some BADCH, opterr g \<and> take 1 ostr \<noteq> '':'')
     | Some oli \<Rightarrow>
         if take 1 oli \<noteq> '':'' then
           (g\<lparr>place := pl, optarg := None, optind := if pl = [] then optind g + 1 else optind g\<rparr>, Some optopt, False)
         else if pl \<noteq> [] then (g\<lparr>place := [], optarg := Some pl, optind := optind g + 1\<rparr>, Some optopt, False)
         else if length nargv \<le> optind g + 1 then
           (g\<lparr>place := [], optind := optind g + 1\<rparr>, Some (if take 1 ostr = '':'' then BADARG else BADCH), take 1 ostr \<noteq> '':'' \<and> opterr g)
         else (g\<lparr>place := [], optarg := Some (nargv ! (optind g + 1)), optind := optind g + 2\<rparr>, Some optopt, False))"

definition getopt :: "string list \<Rightarrow> string \<Rightarrow> getopt_state \<Rightarrow> (getopt_state \<times> char option \<times> bool) res" where
  "getopt nargv ostr g =
    (case getopt_scan nargv g of
       (g, None) \<Rightarrow> Inr (g, None, False)
     | (g, Some []) \<Rightarrow> Inl Out_Of_Bounds
     | (g, Some (optopt # pl)) \<Rightarrow> Inr (getopt_letter nargv ostr optopt pl g))"

text \<open>The loop of every program: \<open>while ((c = getopt(argc, argv, ...)) != -1)\<close>, here with the options and their
  arguments collected. \<open>None\<close> says that \<open>fuel\<close> calls were not enough.\<close>

fun getopt_loop :: "nat \<Rightarrow> string list \<Rightarrow> string \<Rightarrow> getopt_state \<Rightarrow> ((char \<times> string option) list \<times> getopt_state) res option" where
  "getopt_loop fuel nargv ostr g =
    (case fuel of
       0 \<Rightarrow> None
     | Suc fuel \<Rightarrow>
         (case getopt nargv ostr g of
            Inl e \<Rightarrow> Some (Inl e)
          | Inr (g, None, _) \<Rightarrow> Some (Inr ([], g))
          | Inr (g, Some c, _) \<Rightarrow>
              map_option (\<lambda>m. bnd m (\<lambda>(cs, g'). Inr ((c, optarg g) # cs, g'))) (getopt_loop fuel nargv ostr g)))"

declare getopt_loop.simps [simp del]


section \<open>The command line as a grammar\<close>

text \<open>Options behind one dash, and perhaps a last one with an argument, which is attached or not.\<close>

datatype opt_group = Group (flags: string) (last_opt: "(char \<times> string \<times> bool) option")

definition is_flag :: "string \<Rightarrow> char \<Rightarrow> bool" where
  "is_flag ostr c \<longleftrightarrow> c \<noteq> CHR '':'' \<and> (\<exists>oli. after_char c ostr = Some oli \<and> take 1 oli \<noteq> '':'')"

definition takes_arg :: "string \<Rightarrow> char \<Rightarrow> bool" where
  "takes_arg ostr c \<longleftrightarrow> c \<noteq> CHR '':'' \<and> (\<exists>oli. after_char c ostr = Some oli \<and> take 1 oli = '':'')"

primrec group_tail :: "opt_group \<Rightarrow> string" where
  "group_tail (Group cs l) = cs @ (case l of None \<Rightarrow> [] | Some (c, a, attached) \<Rightarrow> if attached then c # a else [c])"

primrec group_more :: "opt_group \<Rightarrow> string list" where
  "group_more (Group cs l) = (case l of None \<Rightarrow> [] | Some (c, a, attached) \<Rightarrow> if attached then [] else [a])"

definition render :: "opt_group \<Rightarrow> string list" where
  "render grp = (CHR ''-'' # group_tail grp) # group_more grp"

primrec meaning :: "opt_group \<Rightarrow> (char \<times> string option) list" where
  "meaning (Group cs l) = map (\<lambda>c. (c, None)) cs @ (case l of None \<Rightarrow> [] | Some (c, a, attached) \<Rightarrow> [(c, Some a)])"

definition group_ok :: "string \<Rightarrow> opt_group \<Rightarrow> bool" where
  "group_ok ostr grp \<longleftrightarrow> (\<exists>d r. group_tail grp = d # r \<and> d \<noteq> CHR ''-'') \<and> (\<forall>c \<in> set (flags grp). is_flag ostr c) \<and>
    (case last_opt grp of None \<Rightarrow> True | Some (c, a, attached) \<Rightarrow> takes_arg ostr c \<and> (attached \<longrightarrow> a \<noteq> []))"

text \<open>Where the options end: before an operand, at the end of the line, or behind two dashes.\<close>

definition ends_options :: "string list \<Rightarrow> nat \<Rightarrow> bool" where
  "ends_options rest k \<longleftrightarrow> k = 0 \<and> (rest = [] \<or> take 1 (hd rest) \<noteq> ''-'') \<or> k = 1 \<and> rest \<noteq> [] \<and> take 2 (hd rest) = ''--''"

section \<open>Lemmas\<close>

definition prepend :: "'a list \<Rightarrow> ('a list \<times> getopt_state) res option \<Rightarrow> ('a list \<times> getopt_state) res option" where
  "prepend out m = map_option (\<lambda>m. bnd m (\<lambda>(cs, g). Inr (out @ cs, g))) m"

lemma prepend_prepend: "prepend a (prepend b m) = prepend (a @ b) m"
  by (cases m) (auto simp: prepend_def bnd_def split: sum.splits)

lemma prepend_Nil: "prepend [] m = m"
  by (cases m) (auto simp: prepend_def bnd_def split: sum.splits)

lemma loop_step: "getopt nargv ostr g = Inr (g', Some c, b) \<Longrightarrow>
  getopt_loop (Suc fuel) nargv ostr g = prepend [(c, optarg g')] (getopt_loop fuel nargv ostr g')"
  by (subst getopt_loop.simps) (simp add: prepend_def)

lemma loop_stop: "getopt nargv ostr g = Inr (g', None, b) \<Longrightarrow> getopt_loop (Suc fuel) nargv ostr g = Some (Inr ([], g'))"
  by (subst getopt_loop.simps) simp

lemma getopt_letter_place: "getopt_letter nargv ostr c pl (g\<lparr>place := x\<rparr>) = getopt_letter nargv ostr c pl g"
  by (cases "after_char c ostr") (simp_all add: getopt_letter_def)

lemma getopt_start:
  assumes "place g = []" "\<not> optreset g" "optind g < length nargv" "nargv ! optind g = CHR ''-'' # d # r" "d \<noteq> CHR ''-''"
  shows "getopt_loop (Suc fuel) nargv ostr g = getopt_loop (Suc fuel) nargv ostr (g\<lparr>place := d # r\<rparr>)"
proof -
  have eq: "g\<lparr>optreset := False\<rparr> = g" using assms(2) by (cases g) simp
  have "getopt nargv ostr (g\<lparr>place := d # r\<rparr>) = getopt nargv ostr g"
    using assms by (simp add: getopt_def getopt_scan_def getopt_letter_place eq)
  then show ?thesis by (subst (1 2) getopt_loop.simps) simp
qed

lemma getopt_flag:
  assumes "place g = c # pl" "\<not> optreset g" "is_flag ostr c"
  shows "getopt nargv ostr g = Inr (g\<lparr>place := pl, optarg := None, optind := if pl = [] then optind g + 1 else optind g\<rparr>, Some c, False)"
  using assms by (auto simp: getopt_def getopt_scan_def getopt_letter_def is_flag_def)

lemma getopt_attached:
  assumes "place g = c # pl" "\<not> optreset g" "takes_arg ostr c" "pl \<noteq> []"
  shows "getopt nargv ostr g = Inr (g\<lparr>place := [], optarg := Some pl, optind := optind g + 1\<rparr>, Some c, False)"
  using assms by (auto simp: getopt_def getopt_scan_def getopt_letter_def takes_arg_def)

lemma getopt_separate:
  assumes "place g = [c]" "\<not> optreset g" "takes_arg ostr c" "optind g + 1 < length nargv"
  shows "getopt nargv ostr g = Inr (g\<lparr>place := [], optarg := Some (nargv ! (optind g + 1)), optind := optind g + 2\<rparr>, Some c, False)"
  using assms by (auto simp: getopt_def getopt_scan_def getopt_letter_def takes_arg_def)

text \<open>One group, from inside it.\<close>

lemma loop_group:
  assumes "\<forall>c \<in> set cs. is_flag ostr c"
    and "case l of None \<Rightarrow> True | Some (c, a, attached) \<Rightarrow> takes_arg ostr c \<and> (attached \<longrightarrow> a \<noteq> [])"
    and "place g = group_tail (Group cs l)" "place g \<noteq> []" "\<not> optreset g"
    and "case l of Some (c, a, False) \<Rightarrow> optind g + 1 < length nargv \<and> nargv ! (optind g + 1) = a | _ \<Rightarrow> True"
  shows "\<exists>g'. getopt_loop (length (meaning (Group cs l)) + fuel) nargv ostr g = prepend (meaning (Group cs l)) (getopt_loop fuel nargv ostr g') \<and>
    place g' = [] \<and> \<not> optreset g' \<and> optind g' = optind g + 1 + length (group_more (Group cs l))"
  using assms
proof (induction cs arbitrary: g)
  case Nil
  then obtain c a attached where l: "l = Some (c, a, attached)" by (cases l) auto
  then show ?case
  proof (cases attached)
    case True
    then show ?thesis using Nil l loop_step [OF getopt_attached [of g c a ostr nargv], of fuel] by (intro exI [of _ "g\<lparr>place := [], optarg := Some a, optind := optind g + 1\<rparr>"]) simp
  next
    case False
    then show ?thesis using Nil l loop_step [OF getopt_separate [of g c ostr nargv], of fuel]
      by (intro exI [of _ "g\<lparr>place := [], optarg := Some a, optind := optind g + 2\<rparr>"]) simp
  qed
next
  case (Cons c cs)
  let ?pl = "group_tail (Group cs l)"
  let ?g = "g\<lparr>place := ?pl, optarg := None, optind := if ?pl = [] then optind g + 1 else optind g\<rparr>"
  have step: "getopt_loop (Suc n) nargv ostr g = prepend [(c, None)] (getopt_loop n nargv ostr ?g)" for n
    using loop_step [OF getopt_flag [of g c ?pl ostr nargv]] Cons.prems by simp
  show ?case
  proof (cases "?pl = []")
    case True
    then have "cs = []" "l = None" by (auto split: option.splits if_splits)
    then show ?thesis using step [of fuel] Cons.prems by (intro exI [of _ ?g]) simp
  next
    case False
    have ind: "optind ?g = optind g" using False by simp
    have "\<exists>g'. getopt_loop (length (meaning (Group cs l)) + fuel) nargv ostr ?g = prepend (meaning (Group cs l)) (getopt_loop fuel nargv ostr g') \<and>
      place g' = [] \<and> \<not> optreset g' \<and> optind g' = optind ?g + 1 + length (group_more (Group cs l))"
    proof (rule Cons.IH)
      show "\<forall>c \<in> set cs. is_flag ostr c" using Cons.prems(1) by simp
      show "case l of None \<Rightarrow> True | Some (c, a, attached) \<Rightarrow> takes_arg ostr c \<and> (attached \<longrightarrow> a \<noteq> [])" by (rule Cons.prems(2))
      show "case l of Some (c, a, False) \<Rightarrow> optind ?g + 1 < length nargv \<and> nargv ! (optind ?g + 1) = a | _ \<Rightarrow> True"
        unfolding ind by (rule Cons.prems(6))
    qed (use Cons.prems(5) False in simp_all)
    then show ?thesis using step [of "length (meaning (Group cs l)) + fuel"] False by (auto simp: prepend_prepend)
  qed
qed

lemma drop_Cons_facts:
  assumes "drop n xs = y # ys"
  shows "n < length xs" "xs ! n = y" "drop (n + 1) xs = ys"
  using assms by (auto simp: nth_via_drop intro: ccontr) (metis drop_Suc list.sel(3) tl_drop)

text \<open>A group and then a whole line of them, from the state between two arguments.\<close>

lemma loop_render:
  assumes "group_ok ostr grp" "place g = []" "\<not> optreset g" "drop (optind g) nargv = render grp @ rest"
  shows "\<exists>g'. getopt_loop (length (meaning grp) + fuel) nargv ostr g = prepend (meaning grp) (getopt_loop fuel nargv ostr g') \<and>
    place g' = [] \<and> \<not> optreset g' \<and> drop (optind g') nargv = rest"
proof -
  obtain cs l where grp: "grp = Group cs l" by (cases grp)
  obtain d r where tail: "group_tail grp = d # r" "d \<noteq> CHR ''-''" using assms(1) by (auto simp: group_ok_def)
  let ?g = "g\<lparr>place := d # r\<rparr>"
  have here: "optind g < length nargv" "nargv ! optind g = CHR ''-'' # d # r" "drop (optind g + 1) nargv = group_more grp @ rest"
    using drop_Cons_facts [OF assms(4) [unfolded render_def tail append_Cons]] by simp_all
  have sep: "optind g + 1 < length nargv \<and> nargv ! (optind g + 1) = a" if "group_more grp = [a]" for a
    using here(3) that nth_via_drop [of "optind g + 1" nargv a rest] by (auto intro: ccontr)
  have "meaning grp \<noteq> []" using tail grp by (auto split: option.splits)
  then obtain n where n: "length (meaning grp) + fuel = Suc n" by (cases "meaning grp") auto
  have "\<exists>g'. getopt_loop (length (meaning grp) + fuel) nargv ostr ?g = prepend (meaning grp) (getopt_loop fuel nargv ostr g') \<and>
      place g' = [] \<and> \<not> optreset g' \<and> optind g' = optind ?g + 1 + length (group_more grp)"
    unfolding grp
  proof (rule loop_group)
    show "case l of Some (c, a, False) \<Rightarrow> optind ?g + 1 < length nargv \<and> nargv ! (optind ?g + 1) = a | _ \<Rightarrow> True"
      using sep grp by (simp split: option.splits prod.splits bool.splits)
  qed (use assms grp tail in \<open>simp_all add: group_ok_def split: option.splits\<close>)
  moreover have "getopt_loop (length (meaning grp) + fuel) nargv ostr g = getopt_loop (length (meaning grp) + fuel) nargv ostr ?g"
    unfolding n using getopt_start [OF assms(2,3) here(1,2) tail(2)] .
  moreover have "drop (optind g + 1 + length (group_more grp)) nargv = rest"
    using here(3) by (metis append_eq_conv_conj drop_drop add.commute)
  ultimately show ?thesis by auto
qed

lemma loop_groups:
  assumes "\<forall>grp \<in> set gs. group_ok ostr grp" "place g = []" "\<not> optreset g" "drop (optind g) nargv = concat (map render gs) @ rest"
  shows "\<exists>g'. getopt_loop (length (concat (map meaning gs)) + fuel) nargv ostr g = prepend (concat (map meaning gs)) (getopt_loop fuel nargv ostr g') \<and>
    place g' = [] \<and> \<not> optreset g' \<and> drop (optind g') nargv = rest"
  using assms
proof (induction gs arbitrary: g)
  case Nil
  then show ?case by (auto simp: prepend_Nil)
next
  case (Cons grp gs)
  obtain g' where g': "getopt_loop (length (meaning grp) + (length (concat (map meaning gs)) + fuel)) nargv ostr g =
      prepend (meaning grp) (getopt_loop (length (concat (map meaning gs)) + fuel) nargv ostr g')"
    "place g' = []" "\<not> optreset g'" "drop (optind g') nargv = concat (map render gs) @ rest"
    using loop_render [of ostr grp g nargv "concat (map render gs) @ rest"] Cons.prems by auto
  show ?case using Cons.IH [of g'] Cons.prems(1) g' by (auto simp: prepend_prepend add.assoc)
qed

lemma loop_ends:
  assumes "ends_options rest k" "place g = []" "\<not> optreset g" "drop (optind g) nargv = rest"
  shows "\<exists>g'. getopt_loop (Suc fuel) nargv ostr g = Some (Inr ([], g')) \<and> place g' = [] \<and> drop (optind g') nargv = drop k rest"
proof (cases rest)
  case Nil
  then show ?thesis using assms by (subst getopt_loop.simps) (simp add: getopt_def getopt_scan_def ends_options_def)
next
  case (Cons w ws)
  have w: "optind g < length nargv" "nargv ! optind g = w" "drop (optind g + 1) nargv = ws"
    using drop_Cons_facts [of "optind g" nargv w ws] Cons assms(4) by simp_all
  have two: "take 2 w = ''--'' \<Longrightarrow> \<exists>r. w = CHR ''-'' # CHR ''-'' # r"
    by (cases w; cases "tl w") simp_all
  from assms(1) Cons consider "k = 0" "take 1 w \<noteq> ''-''" | r where "k = 1" "w = CHR ''-'' # CHR ''-'' # r"
    unfolding ends_options_def using two by force
  then show ?thesis
  proof cases
    case 1
    then have "getopt nargv ostr g = Inr (g\<lparr>optreset := False, place := []\<rparr>, None, False)"
      using assms(2) w by (cases w) (auto simp: getopt_def getopt_scan_def)
    from loop_stop [OF this] show ?thesis using 1 assms(4) by simp
  next
    case 2
    then have "getopt nargv ostr g = Inr (g\<lparr>optreset := False, optind := optind g + 1, place := []\<rparr>, None, False)"
      using assms(2) w by (simp add: getopt_def getopt_scan_def Let_def)
    from loop_stop [OF this] show ?thesis using 2 w(3) Cons by simp
  qed
qed

text \<open>The parser terminates: what is left of the line becomes shorter with every option.\<close>

definition left_over :: "string list \<Rightarrow> getopt_state \<Rightarrow> nat" where
  "left_over nargv g = (let w = \<lambda>n. \<Sum>a\<leftarrow>drop n nargv. length a + 1 in
    if optreset g \<or> place g = [] then w (optind g) else length (place g) + 1 + w (optind g + 1))"

lemma left_over_scan:
  assumes "getopt_scan nargv g = (g', Some pl)"
  shows "pl \<noteq> [] \<and> \<not> optreset g' \<and> optarg g' = optarg g \<and> length pl + 1 + (\<Sum>a\<leftarrow>drop (optind g' + 1) nargv. length a + 1) \<le> left_over nargv g"
proof (cases "optreset g \<or> place g = []")
  case True
  then obtain c r where c: "optind g < length nargv" "nargv ! optind g = c # r" "g' = g\<lparr>optreset := False\<rparr>" "pl = (if r = [] then [c] else r)"
    using assms by (auto simp: getopt_scan_def Let_def split: if_splits list.splits)
  have "(\<Sum>a\<leftarrow>drop (optind g) nargv. length a + 1) = length (c # r) + 1 + (\<Sum>a\<leftarrow>drop (optind g + 1) nargv. length a + 1)"
    using c(1,2) by (simp flip: Cons_nth_drop_Suc)
  then show ?thesis using c True by (simp add: left_over_def)
next
  case False
  then show ?thesis using assms by (auto simp: getopt_scan_def left_over_def)
qed

lemma sum_drop_mono: "(\<Sum>a\<leftarrow>drop (n + k) xs. length a + 1) \<le> (\<Sum>a\<leftarrow>drop n xs. length a + 1)"
proof -
  have "drop n xs = take k (drop n xs) @ drop (n + k) xs" by (simp add: add.commute flip: drop_drop)
  then show ?thesis by (metis le_add2 map_append sum_list_append)
qed

lemma left_over_letter:
  assumes "getopt_letter nargv ostr c pl g = (g', Some d, b)" "\<not> optreset g"
  shows "left_over nargv g' < length pl + 2 + (\<Sum>a\<leftarrow>drop (optind g + 1) nargv. length a + 1)"
  using assms sum_drop_mono [of "optind g + 1" 1 nargv]
  by (auto simp: getopt_letter_def left_over_def Let_def split: option.splits if_splits)

lemma left_over_getopt: "\<exists>r. getopt nargv ostr g = Inr r \<and> (\<forall>g' c b. r = (g', Some c, b) \<longrightarrow> left_over nargv g' < left_over nargv g)"
proof (cases "getopt_scan nargv g")
  case (Pair g1 o1)
  show ?thesis
  proof (cases o1)
    case None
    then show ?thesis using Pair by (simp add: getopt_def)
  next
    case (Some pl)
    note scan = left_over_scan [of nargv g g1 pl, OF Pair [unfolded Some]]
    then obtain c cs where pl: "pl = c # cs" by (cases pl) auto
    have r: "getopt nargv ostr g = Inr (getopt_letter nargv ostr c cs g1)" using Pair Some pl by (simp add: getopt_def)
    have "left_over nargv g' < left_over nargv g" if "getopt_letter nargv ostr c cs g1 = (g', Some d, b)" for g' d b
      using left_over_letter [OF that] scan pl by simp
    with r show ?thesis by auto
  qed
qed

lemma loop_returns: "left_over nargv g < fuel \<Longrightarrow> \<exists>r. getopt_loop fuel nargv ostr g = Some (Inr r)"
proof (induction fuel arbitrary: g)
  case (Suc fuel)
  obtain g' c b where r: "getopt nargv ostr g = Inr (g', c, b)" "\<And>d. c = Some d \<Longrightarrow> left_over nargv g' < left_over nargv g"
    using left_over_getopt [of nargv ostr g] by (metis prod_cases3)
  show ?case
  proof (cases c)
    case None
    then show ?thesis using loop_stop r by auto
  next
    case (Some d)
    then have "left_over nargv g' < fuel" using Suc.prems r(2) [of d] by simp
    from Suc.IH [OF this] have "\<exists>r. getopt_loop fuel nargv ostr g' = Some (Inr r)" .
    then show ?thesis using loop_step [OF r(1) [unfolded Some]] by (auto simp: prepend_def bnd_def)
  qed
qed simp

section \<open>Properties\<close>

text \<open>C28. The parser reads a command line as it was written: for options behind one dash, grouped in any way, where
  the last of a group may have an argument, attached to it or in the next element, and behind them an operand, the end
  of the line or two dashes, the loop of the programs returns just these options with these arguments, and the index
  where it stops is that of the first operand.\<close>

theorem options_as_written:
  assumes "\<forall>grp \<in> set gs. group_ok ostr grp" "ends_options rest k" "length (concat (map meaning gs)) < fuel"
  shows "\<exists>g. getopt_loop fuel (prog # concat (map render gs) @ rest) ostr getopt_init = Some (Inr (concat (map meaning gs), g)) \<and>
    drop (optind g) (prog # concat (map render gs) @ rest) = drop k rest"
proof -
  let ?nargv = "prog # concat (map render gs) @ rest" and ?n = "length (concat (map meaning gs))"
  obtain n where fuel: "fuel = ?n + Suc n" using assms(3) less_imp_Suc_add by fastforce
  obtain g where g: "getopt_loop fuel ?nargv ostr getopt_init = prepend (concat (map meaning gs)) (getopt_loop (Suc n) ?nargv ostr g)"
    "place g = []" "\<not> optreset g" "drop (optind g) ?nargv = rest"
    unfolding fuel using loop_groups [of gs ostr getopt_init ?nargv rest "Suc n"] assms(1) by (auto simp: getopt_init_def)
  then show ?thesis using loop_ends [OF assms(2) g(2-4), of n ostr] by (auto simp: prepend_def bnd_def)
qed

theorem options_as_written_witness:
  "\<exists>g. getopt_loop 5 [''send'', ''-ve'', ''-p'', ''5004'', ''-cilbc'', ''--'', ''-h''] ''hvef:c:p:'' getopt_init =
      Some (Inr ([(CHR ''v'', None), (CHR ''e'', None), (CHR ''p'', Some ''5004''), (CHR ''c'', Some ''ilbc'')], g)) \<and>
    drop (optind g) [''send'', ''-ve'', ''-p'', ''5004'', ''-cilbc'', ''--'', ''-h''] = [''-h'']"
  using options_as_written [of "[Group ''ve'' None, Group [] (Some (CHR ''p'', ''5004'', False)), Group [] (Some (CHR ''c'', ''ilbc'', True))]"
    "''hvef:c:p:''" "[''--'', ''-h'']" 1 5 "''send''"]
  by (simp add: group_ok_def is_flag_def takes_arg_def ends_options_def render_def)

text \<open>C29. The parser terminates on every command line and every list of options, in every state of its variables, and
  reads nothing out of its argument: with one call more than the characters that are left, counting one for the end of
  each argument, the loop of the programs ends.\<close>

theorem options_end: "\<exists>r. getopt_loop (left_over nargv g + 1) nargv ostr g = Some (Inr r)"
  by (rule loop_returns) simp

end
