(* ===== verification/Apps.thy ===== *)
theory Apps
  imports Call Rtcp_Session Getopt
begin

text \<open>
  The programs of a call: \<open>apps/send.c\<close>, \<open>apps/rcv.c\<close> and \<open>apps/phone.c\<close>, from the command line to the
  start of the event loop. The system has no sound device, so audio is on files, and the iLBC coder is
  compiled in.

  The local variables of \<open>main\<close> that hold options are a record, with those of all three programs. A
  program that ends with \<open>exit(0)\<close> before its event loop has the result \<open>None\<close>.
\<close>

section \<open>Options\<close>

abbreviation "SPHONE_SIZE_MS \<equiv> 20 :: u32"
abbreviation "SPHONE_SAMPLES \<equiv> 8000 :: u32"
abbreviation "SPHONE_BITS \<equiv> 8 :: u32"
abbreviation "SPHONE_RTP_PORT \<equiv> 8888 :: u16"

record options =
  o_filename :: string
  o_play_filename :: string
  o_logfilename :: string
  o_hostname :: string
  o_type :: u32
  o_samp_sec :: u32
  o_precision :: u32
  o_size_ms :: u32
  o_nw_type :: u32
  o_rtp_port :: u16
  o_rtp_sport :: u16
  o_use_rtcp :: bool
  o_rtcp_rport :: "u16 option"
  o_rtcp_sport :: "u16 option"
  o_audio :: u32
  o_duration :: timeval
  o_debug :: u32

text \<open>The defaults of all three; the host is the destination of \<open>send\<close> and \<open>phone\<close>, and for \<open>rcv\<close> the
  source to probe.\<close>

definition default_options :: "string \<Rightarrow> options" where
  "default_options host = \<lparr>o_filename = [], o_play_filename = [], o_logfilename = [], o_hostname = host, o_type = 0,
     o_samp_sec = SPHONE_SAMPLES, o_precision = SPHONE_BITS, o_size_ms = SPHONE_SIZE_MS, o_nw_type = 1,
     o_rtp_port = SPHONE_RTP_PORT, o_rtp_sport = 0, o_use_rtcp = False, o_rtcp_rport = None, o_rtcp_sport = None,
     o_audio = 0, o_duration = tv 0 0, o_debug = 0\<rparr>"

text \<open>The conversions of \<open>sscanf\<close>. A number is optional blanks, a sign and at least one digit; it saturates
  like \<open>strtoul\<close> and is negated modulo the word length. The result has the rest of the string.\<close>

definition is_space :: "char \<Rightarrow> bool" where
  "is_space c \<longleftrightarrow> of_char c \<in> {9, 10, 11, 12, 13, 32 :: nat}"

definition digit_val :: "nat \<Rightarrow> char \<Rightarrow> nat option" where
  "digit_val base c =
    (let n = of_char c :: nat;
         d = (if 48 \<le> n \<and> n \<le> 57 then n - 48 else if 97 \<le> n \<and> n \<le> 102 then n - 87 else if 65 \<le> n \<and> n \<le> 70 then n - 55 else 16)
     in if d < base then Some d else None)"

fun take_digits :: "nat \<Rightarrow> nat \<Rightarrow> string \<Rightarrow> nat \<times> string" where
  "take_digits base acc [] = (acc, [])"
| "take_digits base acc (c # cs) =
    (case digit_val base c of None \<Rightarrow> (acc, c # cs) | Some d \<Rightarrow> take_digits base (acc * base + d) cs)"

definition scan_num :: "nat \<Rightarrow> string \<Rightarrow> (u32 \<times> string) option" where
  "scan_num base str =
    (let str = dropWhile is_space str;
         neg = (take 1 str = ''-'');
         str = (if take 1 str = ''-'' \<or> take 1 str = ''+'' then drop 1 str else str);
         str = (if base = 16 \<and> (take 2 str = ''0x'' \<or> take 2 str = ''0X'') then drop 2 str else str);
         (n, rest) = take_digits base 0 str
     in if rest = str then None
        else let v = (if 2 ^ 32 \<le> n then - 1 else if neg then - of_nat n else of_nat n) in Some (v, rest))"

definition scan_word :: "string \<Rightarrow> string option" where
  "scan_word str = (let w = takeWhile (\<lambda>c. \<not> is_space c) (dropWhile is_space str) in if w = [] then None else Some w)"

text \<open>The three kinds of case in the \<open>switch\<close>: a number, a word into an array of 64 characters, and a copy
  into such an array. \<open>None\<close> is \<open>usage\<close>, which ends the program.\<close>

definition opt_num :: "nat \<Rightarrow> string option \<Rightarrow> (u32 \<Rightarrow> options \<Rightarrow> options) \<Rightarrow> options \<Rightarrow> options option res" where
  "opt_num base arg upd o1 =
    Inr (case arg of None \<Rightarrow> None | Some a \<Rightarrow> map_option (\<lambda>(n, _). upd n o1) (scan_num base a))"

definition opt_word :: "string option \<Rightarrow> (string \<Rightarrow> options \<Rightarrow> options) \<Rightarrow> options \<Rightarrow> options option res" where
  "opt_word arg upd o1 =
    (case arg of None \<Rightarrow> Inr None
     | Some a \<Rightarrow> (case scan_word a of None \<Rightarrow> Inr None
         | Some w \<Rightarrow> if 64 \<le> length w then Inl Out_Of_Bounds else Inr (Some (upd w o1))))"

definition opt_copy :: "string option \<Rightarrow> (string \<Rightarrow> options \<Rightarrow> options) \<Rightarrow> options \<Rightarrow> options option res" where
  "opt_copy arg upd o1 = bnd (deref arg) (\<lambda>a. if 64 \<le> length a then Inl Out_Of_Bounds else Inr (Some (upd a o1)))"

text \<open>\<open>%lu%c%lu\<close>: what stands behind a character after the seconds goes to the microseconds as it is.\<close>

definition opt_duration :: "string option \<Rightarrow> options \<Rightarrow> options option res" where
  "opt_duration arg o1 =
    Inr (case arg of None \<Rightarrow> None
      | Some a \<Rightarrow> (case scan_num 10 a of None \<Rightarrow> None
          | Some (s, rest) \<Rightarrow>
              let us = (case scan_num 10 (drop 1 rest) of None \<Rightarrow> tv_usec (o_duration o1) | Some (u, _) \<Rightarrow> sint u)
              in Some (o1\<lparr>o_duration := tv (sint s) us\<rparr>)))"

definition send_option :: "char \<Rightarrow> string option \<Rightarrow> options \<Rightarrow> options option res" where
  "send_option c arg o1 =
    (if c = CHR ''f'' then opt_word arg (\<lambda>w. o_filename_update (\<lambda>_. w)) o1
     else if c = CHR ''C'' then opt_num 10 arg (\<lambda>n. o_type_update (\<lambda>_. n)) o1
     else if c = CHR ''c'' then opt_num 10 arg (\<lambda>n. o_nw_type_update (\<lambda>_. n)) o1
     else if c = CHR ''S'' then opt_num 10 arg (\<lambda>n. o_samp_sec_update (\<lambda>_. n)) o1
     else if c = CHR ''B'' then opt_num 10 arg (\<lambda>n. o_precision_update (\<lambda>_. n)) o1
     else if c = CHR ''d'' then opt_copy arg (\<lambda>w. o_hostname_update (\<lambda>_. w)) o1
     else if c = CHR ''r'' then opt_num 10 arg (\<lambda>n. o_rtp_port_update (\<lambda>_. ucast n)) o1
     else if c = CHR ''t'' then opt_num 10 arg (\<lambda>n. o_rtp_sport_update (\<lambda>_. ucast n)) o1
     else if c = CHR ''p'' then Inr (Some (o1\<lparr>o_use_rtcp := True\<rparr>))
     else if c = CHR ''R'' then opt_num 10 arg (\<lambda>n. o_rtcp_rport_update (\<lambda>_. Some (ucast n))) o1
     else if c = CHR ''T'' then opt_num 10 arg (\<lambda>n. o_rtcp_sport_update (\<lambda>_. Some (ucast n))) o1
     else if c = CHR ''s'' then opt_num 10 arg (\<lambda>n. o_size_ms_update (\<lambda>_. n)) o1
     else if c = CHR ''a'' then opt_num 16 arg (\<lambda>n. o_audio_update (\<lambda>_. n)) o1
     else if c = CHR ''u'' then opt_duration arg o1
     else if c = CHR ''D'' then opt_num 16 arg (\<lambda>n. o_debug_update (\<lambda>_. n)) o1
     else Inr None)"

definition rcv_option :: "char \<Rightarrow> string option \<Rightarrow> options \<Rightarrow> options option res" where
  "rcv_option c arg o1 =
    (if c = CHR ''f'' then opt_word arg (\<lambda>w. o_filename_update (\<lambda>_. w)) o1
     else if c = CHR ''C'' then opt_num 10 arg (\<lambda>n. o_type_update (\<lambda>_. n)) o1
     else if c = CHR ''c'' then opt_num 10 arg (\<lambda>n. o_nw_type_update (\<lambda>_. n)) o1
     else if c = CHR ''S'' then opt_num 10 arg (\<lambda>n. o_samp_sec_update (\<lambda>_. n)) o1
     else if c = CHR ''B'' then opt_num 10 arg (\<lambda>n. o_precision_update (\<lambda>_. n)) o1
     else if c = CHR ''r'' then opt_num 10 arg (\<lambda>n. o_rtp_port_update (\<lambda>_. ucast n)) o1
     else if c = CHR ''p'' then Inr (Some (o1\<lparr>o_use_rtcp := True\<rparr>))
     else if c = CHR ''R'' then opt_num 10 arg (\<lambda>n. o_rtcp_rport_update (\<lambda>_. Some (ucast n))) o1
     else if c = CHR ''T'' then opt_num 10 arg (\<lambda>n. o_rtcp_sport_update (\<lambda>_. Some (ucast n))) o1
     else if c = CHR ''x'' then opt_copy arg (\<lambda>w. o_hostname_update (\<lambda>_. w)) o1
     else if c = CHR ''X'' then opt_num 10 arg (\<lambda>n. o_rtp_sport_update (\<lambda>_. ucast n)) o1
     else if c = CHR ''s'' then opt_num 10 arg (\<lambda>n. o_size_ms_update (\<lambda>_. n)) o1
     else if c = CHR ''a'' then opt_num 16 arg (\<lambda>n. o_audio_update (\<lambda>_. n)) o1
     else if c = CHR ''L'' then opt_word arg (\<lambda>w. o_logfilename_update (\<lambda>_. w)) o1
     else if c = CHR ''u'' then opt_duration arg o1
     else if c = CHR ''D'' then opt_num 16 arg (\<lambda>n. o_debug_update (\<lambda>_. n)) o1
     else Inr None)"

definition phone_option :: "char \<Rightarrow> string option \<Rightarrow> options \<Rightarrow> options option res" where
  "phone_option c arg o1 =
    (if c = CHR ''f'' then opt_word arg (\<lambda>w. o_filename_update (\<lambda>_. w)) o1
     else if c = CHR ''F'' then opt_word arg (\<lambda>w. o_play_filename_update (\<lambda>_. w)) o1
     else if c = CHR ''C'' then opt_num 10 arg (\<lambda>n. o_type_update (\<lambda>_. n)) o1
     else if c = CHR ''c'' then opt_num 10 arg (\<lambda>n. o_nw_type_update (\<lambda>_. n)) o1
     else if c = CHR ''S'' then opt_num 10 arg (\<lambda>n. o_samp_sec_update (\<lambda>_. n)) o1
     else if c = CHR ''B'' then opt_num 10 arg (\<lambda>n. o_precision_update (\<lambda>_. n)) o1
     else if c = CHR ''d'' then opt_copy arg (\<lambda>w. o_hostname_update (\<lambda>_. w)) o1
     else if c = CHR ''r'' then opt_num 10 arg (\<lambda>n. o_rtp_port_update (\<lambda>_. ucast n)) o1
     else if c = CHR ''p'' then Inr (Some (o1\<lparr>o_use_rtcp := True\<rparr>))
     else if c = CHR ''R'' then opt_num 10 arg (\<lambda>n. o_rtcp_rport_update (\<lambda>_. Some (ucast n))) o1
     else if c = CHR ''T'' then opt_num 10 arg (\<lambda>n. o_rtcp_sport_update (\<lambda>_. Some (ucast n))) o1
     else if c = CHR ''s'' then opt_num 10 arg (\<lambda>n. o_size_ms_update (\<lambda>_. n)) o1
     else if c = CHR ''a'' then opt_num 16 arg (\<lambda>n. o_audio_update (\<lambda>_. n)) o1
     else if c = CHR ''D'' then opt_num 16 arg (\<lambda>n. o_debug_update (\<lambda>_. n)) o1
     else Inr None)"

fun take_options :: "(char \<Rightarrow> string option \<Rightarrow> options \<Rightarrow> options option res) \<Rightarrow> (char \<times> string option) list
    \<Rightarrow> options \<Rightarrow> options option res" where
  "take_options handle [] o1 = Inr (Some o1)"
| "take_options handle ((c, arg) # cs) o1 =
    bnd (handle c arg o1) (\<lambda>r. case r of None \<Rightarrow> Inr None | Some o1 \<Rightarrow> take_options handle cs o1)"

definition program_options :: "(char \<Rightarrow> string option \<Rightarrow> options \<Rightarrow> options option res) \<Rightarrow> string \<Rightarrow> string \<Rightarrow> string list
    \<Rightarrow> options option res" where
  "program_options handle ostr host argv =
    (case getopt_loop (left_over argv getopt_init + 1) argv ostr getopt_init of
       None \<Rightarrow> Inl Endless_Loop
     | Some m \<Rightarrow> bnd m (\<lambda>(cs, _). take_options handle cs (default_options host)))"

definition send_options :: "string list \<Rightarrow> options option res" where
  "send_options = program_options send_option ''hvf:C:c:S:B:d:r:t:pR:T:s:a:f:u:D:'' ''127.0.0.1''"

definition rcv_options :: "string list \<Rightarrow> options option res" where
  "rcv_options = program_options rcv_option ''hvf:C:c:S:B:r:pR:T:X:x:s:a:L:u:D:'' []"

definition phone_options :: "string list \<Rightarrow> options option res" where
  "phone_options = program_options phone_option ''hvf:F:C:c:S:B:d:r:pR:T:s:a:D:'' ''127.0.0.1''"

section \<open>From the options to the event loop\<close>

text \<open>
  \<open>Inr (None, es)\<close> is a program that ends after the effects \<open>es\<close>. The three lifts are the idioms
  \<open>if ((p = f()) == NULL) exit(0)\<close> and \<open>if (f() < 0) exit(0)\<close> of \<open>main\<close>, without and with faults.
\<close>

type_synonym 'a prog = "('a option \<times> effect list) res"

definition andthen :: "'a prog \<Rightarrow> ('a \<Rightarrow> 'b prog) \<Rightarrow> 'b prog" where
  "andthen m k = bnd m (\<lambda>(x, es). case x of None \<Rightarrow> Inr (None, es)
     | Some x \<Rightarrow> bnd (k x) (\<lambda>(y, es'). Inr (y, es @ es')))"

text \<open>An error that a part of the program reports and survives has run the exit functions and set
  \<open>sphone_exit\<close>: \<open>eventloop\<close> returns at once, and the program ends.\<close>

definition run_eventloop :: "'a prog \<Rightarrow> 'a prog" where
  "run_eventloop m = bnd m (\<lambda>(x, es). Inr (if Sphone_Error \<in> set es then None else x, es))"

definition need :: "'a option \<times> effect list \<Rightarrow> 'a prog" where
  "need r = Inr r"

definition try_call :: "'a called \<Rightarrow> 'a prog" where
  "try_call m = bnd m (\<lambda>(s, es, r). Inr (if r < 0 then None else Some s, es))"

text \<open>What the system answers: \<open>me_ok\<close> tells of the allocations and registrations, by number, whether they
  succeed, and \<open>me_sock\<close> gives the sockets in the order of the calls.\<close>

record main_env =
  me_ok :: "nat \<Rightarrow> bool"
  me_inet_addr :: "string \<Rightarrow> u32"
  me_hostbyname :: "string \<Rightarrow> bytes option"
  me_sock :: "nat \<Rightarrow> int"
  me_bind :: "int \<Rightarrow> u16 \<Rightarrow> bool"
  me_random :: u32
  me_junk_hdr :: rtp_header
  me_open :: "string \<Rightarrow> int"
  me_file :: "string \<Rightarrow> in_file"
  me_rtcp :: rtcp_env
  me_now :: timeval

definition coding_of :: "u32 \<Rightarrow> coding_type option" where
  "coding_of n = (if n = 0 then Some CODING_LINEAR16 else if n = 1 then Some CODING_ULAW else if n = 2 then Some CODING_ALAW
     else if n = 3 then Some CODING_LINEAR8 else if n = 4 then Some CODING_iLBC else None)"

definition audio_of :: "u32 \<Rightarrow> audio_type option" where
  "audio_of n = (if n = 0 then Some AUDIO_FILE else if n = 1 then Some AUDIO_DIRECTSOUND else if n = 2 then Some AUDIO_DEVAUDIO
     else None)"

text \<open>The parameters of the audio side, and the coder. A coding that does not exist ends the program.\<close>

definition audio_params :: "options \<Rightarrow> coding_type \<Rightarrow> coding_params" where
  "audio_params o1 t = \<lparr>cp_type = t, cp_samp_sec = o_samp_sec o1, cp_precision = o_precision o1, cp_size_ms = o_size_ms o1,
     cp_size_bytes = ms2bytes (o_samp_sec o1) (o_precision o1) 1 (o_size_ms o1), cp_channels = 1\<rparr>"

definition nw_params :: "coding_type \<Rightarrow> coding_params" where
  "nw_params t = \<lparr>cp_type = t, cp_samp_sec = 0, cp_precision = 0, cp_size_ms = 0, cp_size_bytes = 0, cp_channels = 0\<rparr>"

definition coding_setup :: "bool \<Rightarrow> options \<Rightarrow> (coding_params \<times> coding_params \<times> coding_api) prog" where
  "coding_setup ok o1 =
    (case (coding_of (o_type o1), coding_of (o_nw_type o1)) of
       (Some t, Some n) \<Rightarrow> (case coding_init ok (audio_params o1 t) (nw_params n) of
           (cpa, cpn, Some ca) \<Rightarrow> Inr (Some (cpa, cpn, ca), [])
         | (cpa, cpn, None) \<Rightarrow> Inr (None, [Sphone_Error]))
     | _ \<Rightarrow> Inr (None, [Sphone_Error]))"

text \<open>The iLBC coder wants packets of 30 ms: \<open>send\<close> and \<open>phone\<close> see to that, \<open>rcv\<close> does not.\<close>

definition force_ilbc :: "options \<Rightarrow> options" where
  "force_ilbc o1 = (if o_nw_type o1 = 4 \<and> o_size_ms o1 \<noteq> 30 then o1\<lparr>o_size_ms := 30\<rparr> else o1)"

definition session_ports :: "options \<Rightarrow> coding_params \<Rightarrow> rtp_session \<Rightarrow> rtp_session" where
  "session_ports o1 cpn rtp = rtp\<lparr>rtp_port := o_rtp_port o1, rtp_sport := o_rtp_sport o1,
     rtcp_rport := (case o_rtcp_rport o1 of Some p \<Rightarrow> p | None \<Rightarrow> o_rtp_port o1 + 1),
     rtcp_sport := (case o_rtcp_sport o1 of Some p \<Rightarrow> p | None \<Rightarrow> o_rtp_port o1 + 1),
     rtp_payload := word_of_int (coding2rtp (cp_type cpn))\<rparr>"

definition rtp_new :: "bool \<Rightarrow> rtp_session prog" where
  "rtp_new ok = need (if ok then (Some rtp_session_new, []) else (None, [Sphone_Error]))"

definition rtp_start :: "main_env \<Rightarrow> u32 option \<Rightarrow> u32 option prog" where
  "rtp_start env ssrc = (case rtp_init (me_random env) (me_junk_hdr env) ssrc of
     (s, r) \<Rightarrow> Inr (if r < 0 then None else Some s, []))"

text \<open>A session that ends by itself after a given time.\<close>

definition reg_duration :: "main_env \<Rightarrow> nat \<Rightarrow> options \<Rightarrow> unit prog" where
  "reg_duration env k o1 =
    (if o_duration o1 = tv 0 0 then Inr (Some (), [])
     else if me_ok env k then Inr (Some (), [Reg_Timeout (timeradd (me_now env) (o_duration o1)) ''duration''])
     else Inr (None, []))"

text \<open>The device to record from, of a session that is otherwise set up.\<close>

definition record_setup :: "main_env \<Rightarrow> nat \<Rightarrow> int \<Rightarrow> options \<Rightarrow> audio_file_record prog" where
  "record_setup env k loop o1 =
    andthen (case audio_of (o_audio o1) of None \<Rightarrow> Inr (None, [Sphone_Error])
       | Some t \<Rightarrow> need (audio_record_init (me_ok env k) (me_ok env (k + 1)) t)) (\<lambda>ra.
    andthen (if o_audio o1 = 0 then try_call (audio_file_record_ioctl SPHONE_AUDIO_IOCTL_LOOP loop ra) else Inr (Some ra, []))
      (\<lambda>ra. try_call (audio_file_record_open (me_open env (o_filename o1)) (me_file env (o_filename o1)) ra)))"

definition play_setup :: "main_env \<Rightarrow> nat \<Rightarrow> string \<Rightarrow> options \<Rightarrow> audio_file_play prog" where
  "play_setup env k file o1 =
    andthen (case audio_of (o_audio o1) of None \<Rightarrow> Inr (None, [Sphone_Error])
       | Some t \<Rightarrow> need (audio_play_init (me_ok env k) (me_ok env (k + 1)) t)) (\<lambda>pa.
    try_call (audio_file_play_open (me_open env file) pa))"

definition playout_setup :: "main_env \<Rightarrow> nat \<Rightarrow> rcv_session \<Rightarrow> rcv_session prog" where
  "playout_setup env k rs =
    (case audio_file_play_ioctl SPHONE_AUDIO_IOCTL_PLAYOUT_GET of
       (Some type, es, r) \<Rightarrow>
         if r < 0 then Inr (None, es)
         else bnd (playout_init (me_ok env k) None [] (me_now env) type) (\<lambda>(pl, t, r).
           Inr (if r < 0 then None else Some (rs\<lparr>rs_playout := pl\<rparr>), es))
     | (None, es, r) \<Rightarrow> Inr (None, es))"

definition send_reports :: "main_env \<Rightarrow> nat \<Rightarrow> options \<Rightarrow> int \<Rightarrow> send_session \<Rightarrow> send_session prog" where
  "send_reports env k o1 s ss =
    (if o_use_rtcp o1 then try_call (rtcp_send_init (me_rtcp env) (me_ok env k) s ss) else Inr (Some ss, []))"

definition rcv_reports :: "main_env \<Rightarrow> nat \<Rightarrow> options \<Rightarrow> int \<Rightarrow> rcv_session \<Rightarrow> rcv_session prog" where
  "rcv_reports env k o1 s rs =
    (if o_use_rtcp o1 then try_call (rtcp_rcv_init (me_rtcp env) (me_ok env k) s rs) else Inr (Some rs, []))"

text \<open>\<open>send\<close>: the session keeps no pointer to the device it records from.\<close>

definition send_session_setup :: "main_env \<Rightarrow> coding_params \<times> coding_params \<times> coding_api \<Rightarrow> rtp_session \<Rightarrow> send_session prog" where
  "send_session_setup env coding rtp =
    (case coding of (cpa, cpn, ca) \<Rightarrow>
     andthen (need (send_session_new (me_ok env 3) (me_ok env 4))) (\<lambda>ss.
     let ss = ss\<lparr>ss_cp_audio := Some cpa, ss_cp_nw := Some cpn, ss_rtp := Some rtp\<rparr> in
     andthen (need (rtcp_send_stats_new (me_ok env 5))) (\<lambda>rss.
     Inr (Some (ss\<lparr>ss_rtcp := Some rss, ss_coding_api := Some ca\<rparr>), []))))"

definition send_network :: "main_env \<Rightarrow> options \<Rightarrow> (coding_params \<times> rtp_session \<times> send_session) prog" where
  "send_network env o1 =
    andthen (coding_setup (me_ok env 1) o1) (\<lambda>coding. case coding of (cpa, cpn, ca) \<Rightarrow>
    andthen (rtp_new (me_ok env 2)) (\<lambda>rtp.
    andthen (rtp_start env (Some (rtp_ssrc rtp))) (\<lambda>ssrc.
    andthen (try_call (rtp_send_session_init (me_inet_addr env) (me_hostbyname env) (me_sock env 0) (me_sock env 1)
         (me_bind env) (session_ports o1 cpn (rtp\<lparr>rtp_ssrc := the ssrc\<rparr>)) (o_hostname o1))) (\<lambda>rtp.
    andthen (send_session_setup env coding rtp) (\<lambda>ss.
    Inr (Some (cpa, rtp, ss), []))))))"

definition send_start :: "main_env \<Rightarrow> options \<Rightarrow> coding_params \<Rightarrow> rtp_session \<Rightarrow> send_session \<Rightarrow> (send_session \<times> audio_file_record) prog" where
  "send_start env o1 cpa rtp ss = run_eventloop (
    andthen (record_setup env 6 0 o1) (\<lambda>ra.
    andthen (send_reports env 8 o1 (rtcp_s rtp) ss) (\<lambda>ss.
    andthen (reg_duration env 9 o1) (\<lambda>_.
    andthen (try_call (audio_file_record_start (me_ok env 10) (me_ok env 11) cpa (me_now env) ra)) (\<lambda>ra.
    Inr (Some (ss, ra), []))))))"

definition send_setup :: "main_env \<Rightarrow> options \<Rightarrow> (send_session \<times> audio_file_record) prog" where
  "send_setup env o1 =
    (if o_audio o1 = 0 \<and> o_filename o1 = [] then Inr (None, [Sphone_Error])
     else let o1 = force_ilbc o1 in
       andthen (send_network env o1) (\<lambda>(cpa, rtp, ss). send_start env o1 cpa rtp ss))"

text \<open>\<open>rcv\<close>, with the packet of 32 octets that opens the way through an address translator; the octets are
  those of an array that is not initialized.\<close>

definition rcv_session_setup :: "main_env \<Rightarrow> coding_params \<times> coding_params \<times> coding_api \<Rightarrow> rtp_session \<Rightarrow> rcv_session prog" where
  "rcv_session_setup env coding rtp =
    (case coding of (cpa, cpn, ca) \<Rightarrow>
     andthen (need (rcv_session_new (me_ok env 3) (me_ok env 4))) (\<lambda>rs.
     let rs = rs\<lparr>rs_cp_audio := Some cpa, rs_cp_nw := Some cpn, rs_rtp := Some rtp\<rparr> in
     andthen (need (rtcp_rcv_stats_new (me_ok env 5))) (\<lambda>rrs.
     Inr (Some (rs\<lparr>rs_rtcp := Some rrs, rs_coding_api := Some ca\<rparr>), []))))"

definition open_log :: "main_env \<Rightarrow> options \<Rightarrow> rcv_session \<Rightarrow> rcv_session prog" where
  "open_log env o1 rs =
    (if o_logfilename o1 = [] then Inr (Some rs, [])
     else if me_open env (o_logfilename o1) < 0 then Inr (None, []) else Inr (Some (rs\<lparr>rs_logf := True\<rparr>), []))"

definition napt_probing :: "main_env \<Rightarrow> bytes \<Rightarrow> string \<Rightarrow> rtp_session \<Rightarrow> unit called" where
  "napt_probing env stack src_hostname rtp =
    call_or (inet_host2addr (me_inet_addr env) (me_hostbyname env) src_hostname (htons (rtp_sport rtp)) zero_addr) (\<lambda>addr.
      Inr ((), Send_To (rtp_s rtp) (take 32 stack) addr # (if me_ok env 16 then [] else [Sphone_Error]), 0)) (\<lambda>_. ())"

definition rcv_network :: "main_env \<Rightarrow> options \<Rightarrow> (rtp_session \<times> rcv_session) prog" where
  "rcv_network env o1 =
    andthen (coding_setup (me_ok env 1) o1) (\<lambda>coding.
    andthen (rtp_new (me_ok env 2)) (\<lambda>rtp.
    andthen (rtp_start env None) (\<lambda>_.
    andthen (try_call (rtp_rcv_session_init (me_sock env 0) (me_sock env 1) (me_bind env) (session_ports o1 (fst (snd coding)) rtp))) (\<lambda>rtp.
    andthen (rcv_session_setup env coding rtp) (\<lambda>rs.
    Inr (Some (rtp, rs), []))))))"

definition rcv_play :: "main_env \<Rightarrow> options \<Rightarrow> string \<Rightarrow> rcv_session \<Rightarrow> (rcv_session \<times> audio_file_play) prog" where
  "rcv_play env o1 file rs =
    andthen (play_setup env 6 file o1) (\<lambda>pa.
    andthen (playout_setup env 8 (rs\<lparr>rs_play_api := True\<rparr>)) (\<lambda>rs.
    Inr (Some (rs, pa), [])))"

definition rcv_run :: "main_env \<Rightarrow> bytes \<Rightarrow> options \<Rightarrow> rtp_session \<Rightarrow> rcv_session \<Rightarrow> rcv_session prog" where
  "rcv_run env stack o1 rtp rs = run_eventloop (
    andthen (rcv_reports env 9 o1 (rtcp_s rtp) rs) (\<lambda>rs.
    andthen (reg_duration env 10 o1) (\<lambda>_.
    andthen (try_call (rcv_start (me_ok env 11) rs)) (\<lambda>rs.
    andthen (if o_hostname o1 \<noteq> [] \<and> o_rtp_sport o1 \<noteq> 0 then try_call (napt_probing env stack (o_hostname o1) rtp)
              else Inr (Some (), [])) (\<lambda>_.
    Inr (Some rs, []))))))"

definition rcv_setup :: "main_env \<Rightarrow> bytes \<Rightarrow> options \<Rightarrow> (rcv_session \<times> audio_file_play) prog" where
  "rcv_setup env stack o1 =
    (if o_audio o1 = 0 \<and> o_filename o1 = [] then Inr (None, [Sphone_Error])
     else
       andthen (rcv_network env o1) (\<lambda>(rtp, rs).
       andthen (open_log env o1 rs) (\<lambda>rs.
       andthen (rcv_play env o1 (o_filename o1) rs) (\<lambda>(rs, pa).
       andthen (rcv_run env stack o1 rtp rs) (\<lambda>rs.
       Inr (Some (rs, pa), []))))))"

text \<open>\<open>phone\<close>: both halves. The session of the sender starts as a copy of the receiver's, whose ports it
  has; nobody gives either of them a source identifier.\<close>

definition phone_network :: "main_env \<Rightarrow> options \<Rightarrow> (coding_params \<times> rtp_session \<times> rtp_session \<times> rcv_session \<times> send_session) prog" where
  "phone_network env o1 =
    andthen (coding_setup (me_ok env 1) o1) (\<lambda>coding_r.
    andthen (coding_setup (me_ok env 17) o1) (\<lambda>coding_s.
    andthen (rtp_new (me_ok env 2)) (\<lambda>rtpr.
    andthen (rtp_new (me_ok env 18)) (\<lambda>_.
    andthen (rtp_start env None) (\<lambda>_.
    andthen (try_call (rtp_rcv_session_init (me_sock env 0) (me_sock env 1) (me_bind env)
         (session_ports o1 (fst (snd coding_r)) rtpr))) (\<lambda>rtpr.
    andthen (try_call (rtp_send_session_init (me_inet_addr env) (me_hostbyname env) (me_sock env 2) (me_sock env 3)
         (me_bind env) rtpr (o_hostname o1))) (\<lambda>rtps.
    let rtpr = rtpr\<lparr>rtp_payload := word_of_int (coding2rtp (cp_type (fst (snd coding_s))))\<rparr> in
    andthen (rcv_session_setup env coding_r rtpr) (\<lambda>rs.
    andthen (send_session_setup (env\<lparr>me_ok := \<lambda>k. me_ok env (k + 20)\<rparr>) coding_s rtps) (\<lambda>ss.
    Inr (Some (fst coding_s, rtpr, rtps, rs, ss\<lparr>ss_silence_detection := False\<rparr>), []))))))))))"

definition phone_start :: "main_env \<Rightarrow> options \<Rightarrow> coding_params \<Rightarrow> rtp_session \<Rightarrow> rtp_session \<Rightarrow> rcv_session \<Rightarrow> send_session
    \<Rightarrow> (rcv_session \<times> send_session \<times> audio_file_play \<times> audio_file_record) prog" where
  "phone_start env o1 cpa rtpr rtps rs ss = run_eventloop (
    andthen (play_setup env 6 (o_play_filename o1) o1) (\<lambda>pa.
    andthen (record_setup env 26 1 o1) (\<lambda>ra.
    andthen (playout_setup env 8 (rs\<lparr>rs_play_api := True\<rparr>)) (\<lambda>rs.
    andthen (rcv_reports env 9 o1 (rtcp_s rtpr) rs) (\<lambda>rs.
    andthen (send_reports env 28 o1 (rtcp_s rtps) (ss\<lparr>ss_record_api := True\<rparr>)) (\<lambda>ss.
    andthen (try_call (audio_file_record_start (me_ok env 30) (me_ok env 31) cpa (me_now env) ra)) (\<lambda>ra.
    andthen (try_call (rcv_start (me_ok env 11) rs)) (\<lambda>rs.
    Inr (Some (rs, ss, pa, ra), [])))))))))"

definition phone_setup :: "main_env \<Rightarrow> options \<Rightarrow> (rcv_session \<times> send_session \<times> audio_file_play \<times> audio_file_record) prog" where
  "phone_setup env o1 =
    (if o_audio o1 = 0 \<and> o_filename o1 = [] \<and> o_play_filename o1 = [] then Inr (None, [Sphone_Error])
     else let o1 = force_ilbc o1 in
       andthen (phone_network env o1) (\<lambda>(cpa, rtpr, rtps, rs, ss). phone_start env o1 cpa rtpr rtps rs ss))"

text \<open>The programs: options first. The allocation of the parameters comes before the options and is counted
  with the first of the allocations.\<close>

definition run_program :: "options option res \<Rightarrow> (options \<Rightarrow> 'a prog) \<Rightarrow> bool \<Rightarrow> 'a prog" where
  "run_program opts setup ok = (if \<not> ok then Inr (None, [])
     else bnd opts (\<lambda>r. case r of None \<Rightarrow> Inr (None, []) | Some o1 \<Rightarrow> setup o1))"

definition send_main :: "main_env \<Rightarrow> string list \<Rightarrow> (send_session \<times> audio_file_record) prog" where
  "send_main env argv = run_program (send_options argv) (send_setup env) (me_ok env 0)"

definition rcv_main :: "main_env \<Rightarrow> bytes \<Rightarrow> string list \<Rightarrow> (rcv_session \<times> audio_file_play) prog" where
  "rcv_main env stack argv = run_program (rcv_options argv) (rcv_setup env stack) (me_ok env 0)"

definition phone_main :: "main_env \<Rightarrow> string list \<Rightarrow> (rcv_session \<times> send_session \<times> audio_file_play \<times> audio_file_record) prog" where
  "phone_main env argv = run_program (phone_options argv) (phone_setup env) (me_ok env 0)"

section \<open>Lemmas\<close>

lemma andthenE:
  assumes "andthen m k = Inr (Some y, es)"
  obtains x es1 es2 where "m = Inr (Some x, es1)" "k x = Inr (Some y, es2)" "es = es1 @ es2"
  using assms by (auto simp: andthen_def bnd_eq_Inr split: option.splits)

lemma andthen_Some: "andthen m k = Inr (Some y, es) \<longleftrightarrow>
    (\<exists>x es1 es2. m = Inr (Some x, es1) \<and> k x = Inr (Some y, es2) \<and> es = es1 @ es2)"
  by (auto simp: andthen_def bnd_eq_Inr split: option.splits)

lemma run_eventloop_Some: "run_eventloop m = Inr (Some x, es) \<longleftrightarrow> m = Inr (Some x, es) \<and> Sphone_Error \<notin> set es"
  by (auto simp: run_eventloop_def bnd_eq_Inr)

lemma try_call_Some: "try_call m = Inr (Some s, es) \<longleftrightarrow> (\<exists>r. m = Inr (s, es, r) \<and> 0 \<le> r)"
  by (cases m) (auto simp: try_call_def split: if_splits)

lemma try_callE:
  assumes "try_call m = Inr (Some s, es)"
  obtains r where "m = Inr (s, es, r)" "0 \<le> r"
  using assms by (auto simp: try_call_def bnd_eq_Inr split: if_splits)

lemma needE:
  assumes "need r = Inr (Some x, es)"
  obtains "r = (Some x, es)"
  using assms by (simp add: need_def)

lemma call_or_ge:
  assumes "call_or m k fail = Inr (t, es, r)" "0 \<le> r"
  obtains s es1 r1 es2 where "m = Inr (s, es1, r1)" "0 \<le> r1" "k s = Inr (t, es2, r)" "es = es1 @ es2"
  using assms by (auto simp: call_or_def bnd_eq_Inr split: if_splits)

text \<open>The loop over the options does not depend on the number of calls it is given.\<close>

lemma getopt_loop_more: "getopt_loop n argv ostr g = Some r \<Longrightarrow> n \<le> m \<Longrightarrow> getopt_loop m argv ostr g = Some r"
proof (induction n arbitrary: g m r)
  case 0
  then show ?case by (simp add: getopt_loop.simps [of 0])
next
  case (Suc n)
  obtain k where m: "m = Suc k" "n \<le> k" using Suc.prems(2) by (cases m) auto
  show ?case
  proof (cases "getopt argv ostr g")
    case (Inl e)
    then show ?thesis using Suc.prems m by (simp add: getopt_loop.simps [of "Suc _"])
  next
    case (Inr x)
    obtain g' c b where x: "x = (g', c, b)" by (cases x)
    show ?thesis
    proof (cases c)
      case None
      then show ?thesis using Suc.prems(1) m Inr x by (simp add: getopt_loop.simps [of "Suc _"])
    next
      case (Some d)
      then obtain r' where r': "getopt_loop n argv ostr g' = Some r'" using Suc.prems(1) Inr x
        by (auto simp: getopt_loop.simps [of "Suc _"])
      show ?thesis using Suc.prems(1) Suc.IH [OF r' m(2)] r' Some m Inr x by (simp add: getopt_loop.simps [of "Suc _"])
    qed
  qed
qed

lemma program_options_groups:
  assumes "\<forall>grp \<in> set gs. group_ok ostr grp" "ends_options rest k"
  shows "program_options handle ostr host (prog # concat (map render gs) @ rest) =
    take_options handle (concat (map meaning gs)) (default_options host)"
proof -
  let ?argv = "prog # concat (map render gs) @ rest" and ?n = "length (concat (map meaning gs))"
  let ?l = "left_over ?argv getopt_init + 1"
  obtain g where g: "getopt_loop (?n + Suc 0) ?argv ostr getopt_init = prepend (concat (map meaning gs)) (getopt_loop (Suc 0) ?argv ostr g)"
    "place g = []" "\<not> optreset g" "drop (optind g) ?argv = rest"
    using loop_groups [of gs ostr getopt_init ?argv rest "Suc 0"] assms(1) by (auto simp: getopt_init_def)
  then obtain g' where "getopt_loop (?n + Suc 0) ?argv ostr getopt_init = Some (Inr (concat (map meaning gs), g'))"
    using loop_ends [OF assms(2) g(2-4), of 0 ostr] by (auto simp: prepend_def bnd_def)
  moreover obtain r where "getopt_loop ?l ?argv ostr getopt_init = Some (Inr r)"
    using loop_returns [of ?argv getopt_init ?l ostr] by auto
  ultimately have "getopt_loop ?l ?argv ostr getopt_init = Some (Inr (concat (map meaning gs), g'))"
    by (metis getopt_loop_more nat_le_linear)
  then show ?thesis by (simp add: program_options_def)
qed

text \<open>What the parts of the set-up leave.\<close>

lemma send_session_keeps:
  assumes "rtp_send_session_init ia gh s0 s1 b rtp h = Inr (s, es, r)" "0 \<le> r"
  shows "r = 0 \<and> rtp_payload s = rtp_payload rtp \<and> rtp_ssrc s = rtp_ssrc rtp"
  using assms unfolding rtp_send_session_init_def
  by (elim call_or_ge) (auto simp: Let_def elim!: call_or_ge dest!: session_sockets_ok inet_host2addr_ok inet_bind_ok
      split: if_splits)

lemma rcv_session_keeps:
  assumes "rtp_rcv_session_init s0 s1 b rtp = Inr (s, es, r)" "0 \<le> r"
  shows "r = 0 \<and> rtp_payload s = rtp_payload rtp \<and> rtp_ssrc s = rtp_ssrc rtp \<and> rtp_port s = rtp_port rtp \<and>
    rtcp_sport s = rtcp_sport rtp \<and> rtcp_rport s = rtcp_rport rtp"
  using assms unfolding rtp_rcv_session_init_def
  by (elim call_or_ge) (auto simp: Let_def elim!: call_or_ge dest!: session_sockets_ok inet_bind_ok)

lemma rtcp_send_init_keeps:
  assumes "rtcp_send_init env b s ss = Inr (ss', es, r)" "0 \<le> r" "ss_rtp ss = Some rtp"
  shows "\<exists>t. ss' = ss\<lparr>ss_rtp := Some (rtp\<lparr>rtcp_timer := t\<rparr>)\<rparr>"
  using assms by (auto simp: rtcp_send_init_def arm_report_def Let_def call_or_def bnd_eq_Inr split: if_splits)

lemma rtcp_rcv_init_keeps:
  assumes "rtcp_rcv_init env b s rs = Inr (rs', es, r)" "0 \<le> r" "rs_rtp rs = Some rtp"
  shows "\<exists>t. rs' = rs\<lparr>rs_rtp := Some (rtp\<lparr>rtcp_timer := t\<rparr>)\<rparr>"
  using assms by (auto simp: rtcp_rcv_init_def arm_report_def Let_def call_or_def bnd_eq_Inr split: if_splits)

definition law_of :: "u32 \<Rightarrow> int \<Rightarrow> int" where
  "law_of n = (if n = 1 then ulaw2linear \<circ> linear2ulaw else alaw2linear \<circ> linear2alaw)"

lemma coding_setup_g711:
  assumes "coding_setup ok o1 = Inr (Some (cpa, cpn, ca), es)" "o_type o1 = 0" "o_nw_type o1 \<in> {1, 2}"
  shows "g711_coder ca cpa cpn (law_of (o_nw_type o1))"
  using assms by (auto simp: coding_setup_def coding_of_def coding_init_def coding_sanity_def audio_params_def nw_params_def Let_def
      g711_coder_def law_of_def split: if_splits)

lemma coding_setup_again:
  assumes "coding_setup ok o1 = Inr (Some (cpa, cpn, ca), es)" "coding_setup ok' o2 = Inr (Some (cpa', cpn', ca'), es')"
    "o_type o1 = 0" "o_type o2 = 0" "o_nw_type o2 = o_nw_type o1" "o_nw_type o1 \<in> {1, 2}"
    "o_samp_sec o2 = o_samp_sec o1" "o_size_ms o2 = o_size_ms o1"
  shows "cpa' = cpa \<and> cpn' = cpn \<and> ca' = ca"
  using assms by (auto simp: coding_setup_def coding_of_def coding_init_def coding_sanity_def audio_params_def nw_params_def Let_def
      split: if_splits)

lemma send_session_setup_parts:
  assumes "send_session_setup env (cpa, cpn, ca) rtp = Inr (Some ss, es)"
  shows "ss_rtp ss = Some rtp \<and> ss_coding_api ss = Some ca \<and> ss_cp_audio ss = Some cpa \<and> ss_cp_nw ss = Some cpn \<and>
    \<not> ss_silence_detection ss \<and> ss_seq ss = 0"
  using assms unfolding send_session_setup_def
  by (auto simp: Let_def send_session_new_def send_session_zero_def elim!: andthenE needE split: if_splits)

lemma rcv_session_setup_parts:
  assumes "rcv_session_setup env (cpa, cpn, ca) rtp = Inr (Some rs, es)"
  shows "rs_rtp rs = Some rtp \<and> rs_coding_api rs = Some ca \<and> rs_cp_audio rs = Some cpa \<and> rs_cp_nw rs = Some cpn \<and>
    rs_rtcp rs \<noteq> None \<and> rs_accept_all_ssrc rs \<and> rs_cur_pkt rs = rs_prev_pkt rs \<and> seq_initial rs = 0 \<and> seq_cycles rs = 0"
  using assms unfolding rcv_session_setup_def
  by (auto simp: Let_def rcv_session_new_def rcv_session_zero_def elim!: andthenE needE split: if_splits)

lemma force_ilbc_fields [simp]:
  "o_rtp_port (force_ilbc o1) = o_rtp_port o1" "o_rtcp_rport (force_ilbc o1) = o_rtcp_rport o1"
  "o_rtcp_sport (force_ilbc o1) = o_rtcp_sport o1"
  by (simp_all add: force_ilbc_def)

lemma send_reports_keep:
  assumes "send_reports env k o1 s ss = Inr (Some ss', es)" "ss_rtp ss = Some rtp"
  shows "\<exists>t. ss' = ss\<lparr>ss_rtp := Some (rtp\<lparr>rtcp_timer := t\<rparr>)\<rparr>"
proof (cases "o_use_rtcp o1")
  case True
  then show ?thesis using assms by (auto simp: send_reports_def elim!: try_callE dest!: rtcp_send_init_keeps)
next
  case False
  then show ?thesis using assms by (intro exI [of _ "rtcp_timer rtp"]) (simp add: send_reports_def)
qed

lemma rcv_reports_keep:
  assumes "rcv_reports env k o1 s rs = Inr (Some rs', es)" "rs_rtp rs = Some rtp"
  shows "\<exists>t. rs' = rs\<lparr>rs_rtp := Some (rtp\<lparr>rtcp_timer := t\<rparr>)\<rparr>"
proof (cases "o_use_rtcp o1")
  case True
  then show ?thesis using assms by (auto simp: rcv_reports_def elim!: try_callE dest!: rtcp_rcv_init_keeps)
next
  case False
  then show ?thesis using assms by (intro exI [of _ "rtcp_timer rtp"]) (simp add: rcv_reports_def)
qed

lemma coding_setup_mono:
  assumes "coding_setup ok o1 = Inr (Some (cpa, cpn, ca), es)"
  shows "es = [] \<and> cp_channels cpa = 1 \<and> cp_channels cpn = 1"
  using assms by (auto simp: coding_setup_def coding_init_def coding_sanity_def audio_params_def nw_params_def Let_def
      split: if_splits option.splits coding_type.splits)

lemma send_network_result:
  assumes "send_network env o1 = Inr (Some (cpa, rtp, ss), es)"
  shows "\<exists>cpn ca. coding_setup (me_ok env 1) o1 = Inr (Some (cpa, cpn, ca), []) \<and> mono_sender ca cpa cpn rtp ss \<and> ss_seq ss = 0 \<and>
    rtp_payload rtp = word_of_int (coding2rtp (cp_type cpn)) \<and> sin_port (rtp_rcv_addr rtp) = htons (o_rtp_port o1)"
proof -
  obtain coding e1 rtp0 e0 r0 e2 where c: "coding_setup (me_ok env 1) o1 = Inr (Some coding, e1)" "cpa = fst coding"
    and n: "rtp_send_session_init (me_inet_addr env) (me_hostbyname env) (me_sock env 0) (me_sock env 1) (me_bind env)
      (session_ports o1 (fst (snd coding)) rtp0) (o_hostname o1) = Inr (rtp, e0, r0)" "0 \<le> r0"
    and s: "send_session_setup env coding rtp = Inr (Some ss, e2)"
    using assms unfolding send_network_def andthen_Some try_call_Some split_beta by blast
  obtain cpn ca where coding: "coding = (cpa, cpn, ca)" using c(2) by (cases coding) auto
  have n0: "rtp_send_session_init (me_inet_addr env) (me_hostbyname env) (me_sock env 0) (me_sock env 1) (me_bind env)
      (session_ports o1 (fst (snd coding)) rtp0) (o_hostname o1) = Inr (rtp, e0, 0)" using n send_session_keeps [OF n] by simp
  have "rtp_payload rtp = word_of_int (coding2rtp (cp_type cpn))" "sin_port (rtp_rcv_addr rtp) = htons (o_rtp_port o1)"
    using send_session_keeps [OF n] send_session_ok [OF n0] coding by (simp_all add: session_ports_def)
  then show ?thesis
    using c(1) coding_setup_mono [OF c(1) [unfolded coding]] send_session_setup_parts [OF s [unfolded coding]] coding
    by (auto simp: mono_sender_def)
qed

lemma send_setup_result:
  assumes "send_setup env o1 = Inr (Some (ss, ra), es)"
  shows "\<exists>cpa cpn ca rtp. coding_setup (me_ok env 1) (force_ilbc o1) = Inr (Some (cpa, cpn, ca), []) \<and>
    mono_sender ca cpa cpn rtp ss \<and> ss_seq ss = 0 \<and>
    rtp_payload rtp = word_of_int (coding2rtp (cp_type cpn)) \<and> sin_port (rtp_rcv_addr rtp) = htons (o_rtp_port o1)"
proof -
  let ?o = "force_ilbc o1"
  obtain cpa rtp ss1 e1 e2 where n: "send_network env ?o = Inr (Some (cpa, rtp, ss1), e1)"
    and "send_start env ?o cpa rtp ss1 = Inr (Some (ss, ra), e2)"
    using assms by (auto simp: send_setup_def andthen_Some Let_def split: if_splits)
  then obtain e3 where r: "send_reports env 8 ?o (rtcp_s rtp) ss1 = Inr (Some ss, e3)"
    by (auto simp: send_start_def run_eventloop_Some andthen_Some)
  obtain cpn ca where *: "coding_setup (me_ok env 1) ?o = Inr (Some (cpa, cpn, ca), [])" "mono_sender ca cpa cpn rtp ss1" "ss_seq ss1 = 0"
    "rtp_payload rtp = word_of_int (coding2rtp (cp_type cpn))" "sin_port (rtp_rcv_addr rtp) = htons (o_rtp_port o1)"
    using send_network_result [OF n] by (auto simp: force_ilbc_def)
  obtain t where "ss = ss1\<lparr>ss_rtp := Some (rtp\<lparr>rtcp_timer := t\<rparr>)\<rparr>"
    using send_reports_keep [OF r] *(2) by (auto simp: mono_sender_def)
  then show ?thesis using * by (intro exI [of _ cpa] exI [of _ cpn] exI [of _ ca] exI [of _ "rtp\<lparr>rtcp_timer := t\<rparr>"]) (auto simp: mono_sender_def)
qed

lemma rcv_network_result:
  assumes "rcv_network env o1 = Inr (Some (rtp, rs), es)"
  shows "\<exists>cpa cpn ca. coding_setup (me_ok env 1) o1 = Inr (Some (cpa, cpn, ca), []) \<and>
    rs_rtp rs = Some rtp \<and> rs_coding_api rs = Some ca \<and> rs_cp_audio rs = Some cpa \<and> rs_cp_nw rs = Some cpn \<and>
    rs_rtcp rs \<noteq> None \<and> rs_accept_all_ssrc rs \<and> rs_cur_pkt rs = rs_prev_pkt rs \<and> seq_initial rs = 0 \<and> seq_cycles rs = 0 \<and>
    rtp_payload rtp = word_of_int (coding2rtp (cp_type cpn)) \<and>
    rtp_s rtp = me_sock env 0 \<and> Bind (rtp_s rtp) (htons (o_rtp_port o1)) \<in> set es"
proof -
  obtain coding e1 rtp0 e0 r0 e2 f1 f2 where c: "coding_setup (me_ok env 1) o1 = Inr (Some coding, e1)"
    and n: "rtp_rcv_session_init (me_sock env 0) (me_sock env 1) (me_bind env) (session_ports o1 (fst (snd coding)) rtp0) = Inr (rtp, e0, r0)" "0 \<le> r0"
    and s: "rcv_session_setup env coding rtp = Inr (Some rs, e2)" and e: "es = e1 @ f1 @ f2 @ e0 @ e2"
    using assms unfolding rcv_network_def andthen_Some try_call_Some by auto
  obtain cpa cpn ca where coding: "coding = (cpa, cpn, ca)" by (cases coding)
  have n0: "rtp_rcv_session_init (me_sock env 0) (me_sock env 1) (me_bind env) (session_ports o1 (fst (snd coding)) rtp0) = Inr (rtp, e0, 0)"
    using n rcv_session_keeps [OF n] by simp
  have "rtp_payload rtp = word_of_int (coding2rtp (cp_type cpn))" "rtp_s rtp = me_sock env 0" "Bind (rtp_s rtp) (htons (o_rtp_port o1)) \<in> set es"
    using rcv_session_keeps [OF n] rcv_session_ok [OF n0] coding e by (auto simp: session_ports_def)
  then show ?thesis
    using c coding_setup_mono [OF c [unfolded coding]] rcv_session_setup_parts [OF s [unfolded coding]] coding by auto
qed

lemma playout_setup_result:
  "playout_setup env k rs = Inr (Some rs', es) \<Longrightarrow> rs' = rs\<lparr>rs_playout := Some Fifo\<rparr>"
  by (auto simp: playout_setup_def audio_file_play_ioctl_def playout_init_def bnd_eq_Inr split: if_splits)

lemma rcv_setup_result:
  assumes "rcv_setup env stack o1 = Inr (Some (rs, pa), es)"
  shows "\<exists>cpa cpn ca. coding_setup (me_ok env 1) o1 = Inr (Some (cpa, cpn, ca), []) \<and>
    fifo_session ca cpa cpn (word_of_int (coding2rtp (cp_type cpn))) rs \<and> seq_initial rs = 0 \<and> seq_cycles rs = 0 \<and>
    Bind (me_sock env 0) (htons (o_rtp_port o1)) \<in> set es \<and> Reg_Fd (me_sock env 0) ''rcv_start - rtp receive'' \<in> set es"
proof -
  obtain rtp rs1 e1 rs2 e2 rs3 e3 e4 where n: "rcv_network env o1 = Inr (Some (rtp, rs1), e1)"
    and l: "open_log env o1 rs1 = Inr (Some rs2, e2)" and p: "rcv_play env o1 (o_filename o1) rs2 = Inr (Some (rs3, pa), e3)"
    and r: "rcv_run env stack o1 rtp rs3 = Inr (Some rs, e4)" and e: "es = e1 @ e2 @ e3 @ e4"
    using assms by (auto simp: rcv_setup_def andthen_Some Let_def split: if_splits)
  obtain cpa cpn ca where *: "coding_setup (me_ok env 1) o1 = Inr (Some (cpa, cpn, ca), [])"
    "rs_rtp rs1 = Some rtp" "rs_coding_api rs1 = Some ca" "rs_cp_audio rs1 = Some cpa" "rs_cp_nw rs1 = Some cpn"
    "rs_rtcp rs1 \<noteq> None" "rs_accept_all_ssrc rs1" "rs_cur_pkt rs1 = rs_prev_pkt rs1" "seq_initial rs1 = 0" "seq_cycles rs1 = 0"
    "rtp_payload rtp = word_of_int (coding2rtp (cp_type cpn))" "rtp_s rtp = me_sock env 0" "Bind (rtp_s rtp) (htons (o_rtp_port o1)) \<in> set e1"
    using rcv_network_result [OF n] by blast
  have rs2: "rs2 = rs1 \<or> rs2 = rs1\<lparr>rs_logf := True\<rparr>" using l by (auto simp: open_log_def split: if_splits)
  have rs3: "rs3 = rs2\<lparr>rs_play_api := True, rs_playout := Some Fifo\<rparr>"
    using p by (auto simp: rcv_play_def andthen_Some dest!: playout_setup_result)
  obtain rs4 e5 e6 r6 f1 f2 where r4: "rcv_reports env 9 o1 (rtcp_s rtp) rs3 = Inr (Some rs4, e5)"
    and st: "rcv_start (me_ok env 11) rs4 = Inr (rs, e6, r6)" "0 \<le> r6" "e4 = e5 @ f1 @ e6 @ f2"
    using r by (auto simp: rcv_run_def run_eventloop_Some andthen_Some try_call_Some)
  obtain t where rs4: "rs4 = rs3\<lparr>rs_rtp := Some (rtp\<lparr>rtcp_timer := t\<rparr>)\<rparr>"
    using rcv_reports_keep [OF r4, of rtp] rs3 rs2 *(2) by auto
  have "rs = rs4 \<and> e6 = [Reg_Fd (me_sock env 0) ''rcv_start - rtp receive'']"
    using st(1,2) rs4 *(12) by (auto simp: rcv_start_def bnd_eq_Inr split: if_splits)
  then show ?thesis using * rs2 rs3 rs4 e st(3)
    by (intro exI [of _ cpa] exI [of _ cpn] exI [of _ ca]) (auto simp: fifo_session_def rcv_ready_def)
qed

lemma run_program_Some:
  "run_program opts setup ok = Inr (Some x, es) \<longleftrightarrow> ok \<and> (\<exists>o1. opts = Inr (Some o1) \<and> setup o1 = Inr (Some x, es))"
  by (auto simp: run_program_def bnd_eq_Inr split: option.splits if_splits)

section \<open>Samples\<close>

definition sample_env :: main_env where
  "sample_env = \<lparr>me_ok = \<lambda>_. True, me_inet_addr = \<lambda>_. 0x0100007f, me_hostbyname = \<lambda>_. None, me_sock = \<lambda>n. int n + 3,
     me_bind = \<lambda>_ _. True, me_random = 77, me_junk_hdr = rtp_header_zero, me_open = \<lambda>_. 9,
     me_file = \<lambda>_. \<lparr>f_data = [1, 2], f_pos = 0, f_reads = True, f_seeks = True\<rparr>,
     me_rtcp = \<lparr>renv_now = tv 1 0, renv_alloc = True, renv_sendto = True, renv_reg = True, renv_junk = 0\<rparr>, me_now = tv 1 0\<rparr>"

lemma sample_scans:
  "scan_num 10 ''5004'' = Some (5004, [])" "scan_num 10 ''2'' = Some (2, [])" "scan_word ''in'' = Some ''in''" "scan_word ''out'' = Some ''out''"
  by (simp_all add: scan_num_def scan_word_def digit_val_def is_space_def Let_def)

lemma sample_send_options:
  "send_options [''send'', ''-f'', ''in'', ''-pc2'', ''-r'', ''5004''] =
    Inr (Some ((default_options ''127.0.0.1'')\<lparr>o_filename := ''in'', o_use_rtcp := True, o_nw_type := 2, o_rtp_port := 5004\<rparr>))"
  unfolding send_options_def
  using program_options_groups [of "[Group [] (Some (CHR ''f'', ''in'', False)), Group ''p'' (Some (CHR ''c'', ''2'', True)),
      Group [] (Some (CHR ''r'', ''5004'', False))]" "''hvf:C:c:S:B:d:r:t:pR:T:s:a:f:u:D:''" "[]" 0]
  by (simp add: group_ok_def is_flag_def takes_arg_def ends_options_def render_def send_option_def opt_word_def opt_num_def sample_scans default_options_def)

lemma sample_rcv_options:
  "rcv_options [''rcv'', ''-fout'', ''-c'', ''2'', ''-r5004''] =
    Inr (Some ((default_options [])\<lparr>o_filename := ''out'', o_nw_type := 2, o_rtp_port := 5004\<rparr>))"
  unfolding rcv_options_def
  using program_options_groups [of "[Group [] (Some (CHR ''f'', ''out'', True)), Group [] (Some (CHR ''c'', ''2'', False)),
      Group [] (Some (CHR ''r'', ''5004'', True))]" "''hvf:C:c:S:B:r:pR:T:X:x:s:a:L:u:D:''" "[]" 0]
  by (simp add: group_ok_def is_flag_def takes_arg_def ends_options_def render_def rcv_option_def opt_word_def opt_num_def sample_scans default_options_def)

lemma rtp_start_result: "rtp_start env s = Inr (Some (if s = Some 0 then Some (me_random env) else s), [])"
  by (simp add: rtp_start_def rtp_init_def marshal_rtp_hdr_def)

lemmas setup_defs = rtp_start_result andthen_def run_eventloop_def need_def try_call_def coding_setup_def coding_of_def coding_init_def coding_sanity_def audio_params_def
  nw_params_def rtp_new_def session_ports_def rtp_session_new_def session_sockets_def inet_init_def
  inet_host2addr_def inet_bind_def

lemma sample_send: "\<exists>r es. send_main sample_env [''send'', ''-f'', ''in'', ''-pc2'', ''-r'', ''5004''] = Inr (Some r, es)"
  by (simp add: send_main_def sample_send_options run_program_def send_setup_def force_ilbc_def send_network_def send_start_def
     setup_defs sample_env_def default_options_def Let_def rtp_send_session_init_def send_session_setup_def send_session_new_def rtcp_send_stats_new_def
     record_setup_def audio_of_def audio_record_init_def audio_file_record_init_def audio_file_record_ioctl_def audio_file_record_open_def
     send_reports_def rtcp_send_init_def arm_report_def reg_duration_def audio_file_record_start_def send_session_zero_def)


lemma sample_rcv: "\<exists>r es. rcv_main sample_env [] [''rcv'', ''-fout'', ''-c'', ''2'', ''-r5004''] = Inr (Some r, es)"
  by (simp add: rcv_main_def sample_rcv_options run_program_def rcv_setup_def rcv_network_def rcv_play_def rcv_run_def open_log_def
     setup_defs sample_env_def default_options_def Let_def rtp_rcv_session_init_def rcv_session_setup_def rcv_session_new_def rtcp_rcv_stats_new_def
     play_setup_def audio_of_def audio_play_init_def audio_file_play_init_def audio_file_play_open_def playout_setup_def
     audio_file_play_ioctl_def playout_init_def rcv_reports_def reg_duration_def rcv_start_def rcv_session_zero_def)


lemma sample_phone_options:
  "phone_options [''phone'', ''-fin'', ''-Fout'', ''-p''] =
    Inr (Some ((default_options ''127.0.0.1'')\<lparr>o_filename := ''in'', o_play_filename := ''out'', o_use_rtcp := True\<rparr>))"
  unfolding phone_options_def
  using program_options_groups [of "[Group [] (Some (CHR ''f'', ''in'', True)), Group [] (Some (CHR ''F'', ''out'', True)), Group ''p'' None]"
      "''hvf:F:C:c:S:B:d:r:pR:T:s:a:D:''" "[]" 0]
  by (simp add: group_ok_def is_flag_def takes_arg_def ends_options_def render_def phone_option_def opt_word_def sample_scans default_options_def)

lemma sample_phone: "\<exists>rs ss pa ra es. phone_main sample_env [''phone'', ''-fin'', ''-Fout'', ''-p''] = Inr (Some (rs, ss, pa, ra), es)"
  by (simp add: phone_main_def sample_phone_options run_program_def phone_setup_def force_ilbc_def phone_network_def phone_start_def
     setup_defs sample_env_def default_options_def Let_def rtp_send_session_init_def rtp_rcv_session_init_def
     send_session_setup_def send_session_new_def rtcp_send_stats_new_def rcv_session_setup_def rcv_session_new_def rtcp_rcv_stats_new_def
     record_setup_def audio_of_def audio_record_init_def audio_file_record_init_def audio_file_record_ioctl_def audio_file_record_open_def
     play_setup_def audio_play_init_def audio_file_play_init_def audio_file_play_open_def playout_setup_def
     audio_file_play_ioctl_def playout_init_def send_reports_def rcv_reports_def rtcp_rcv_init_def
     rtcp_send_init_def arm_report_def audio_file_record_start_def rcv_start_def send_session_zero_def rcv_session_zero_def)

lemma rtp_new_Some: "rtp_new ok = Inr (Some r, es) \<longleftrightarrow> ok \<and> r = rtp_session_new \<and> es = []"
  by (auto simp: rtp_new_def need_def)

lemma phone_network_result:
  assumes "phone_network env o1 = Inr (Some (cpa, rtpr, rtps, rs, ss), es)"
  shows "rs_rtp rs = Some rtpr \<and> ss_rtp ss = Some rtps \<and> rtp_ssrc rtpr = 0 \<and> rtp_ssrc rtps = 0 \<and>
    rtcp_s rtpr = me_sock env 1 \<and> rtcp_s rtps = me_sock env 3 \<and>
    Bind (me_sock env 1) (htons (rtcp_rport (session_ports o1 cpa rtp_session_new))) \<in> set es \<and>
    Bind (me_sock env 3) (htons (rtcp_sport (session_ports o1 cpa rtp_session_new))) \<in> set es"
proof -
  obtain coding_r coding_s e1 e2 e3 r3 rtp1 e4 r4 e5 e6 ss1 f1 where
    n: "rtp_rcv_session_init (me_sock env 0) (me_sock env 1) (me_bind env)
        (session_ports o1 (fst (snd coding_r)) rtp_session_new) = Inr (rtp1, e3, r3)" "0 \<le> r3"
    and m: "rtp_send_session_init (me_inet_addr env) (me_hostbyname env) (me_sock env 2) (me_sock env 3) (me_bind env) rtp1 (o_hostname o1)
        = Inr (rtps, e4, r4)" "0 \<le> r4"
    and r: "rtpr = rtp1\<lparr>rtp_payload := word_of_int (coding2rtp (cp_type (fst (snd coding_s))))\<rparr>"
    and s: "rcv_session_setup env coding_r rtpr = Inr (Some rs, e5)"
      "send_session_setup (env\<lparr>me_ok := \<lambda>k. me_ok env (k + 20)\<rparr>) coding_s rtps = Inr (Some ss1, e6)" "ss = ss1\<lparr>ss_silence_detection := False\<rparr>"
    and e: "es = e1 @ e2 @ [] @ [] @ f1 @ e3 @ e4 @ e5 @ e6 @ []"
    using assms unfolding phone_network_def andthen_Some try_call_Some Let_def rtp_new_Some by blast
  have n0: "rtp_rcv_session_init (me_sock env 0) (me_sock env 1) (me_bind env)
        (session_ports o1 (fst (snd coding_r)) rtp_session_new) = Inr (rtp1, e3, 0)" using n rcv_session_keeps [OF n] by simp
  have m0: "rtp_send_session_init (me_inet_addr env) (me_hostbyname env) (me_sock env 2) (me_sock env 3) (me_bind env) rtp1 (o_hostname o1)
        = Inr (rtps, e4, 0)" using m send_session_keeps [OF m] by simp
  obtain x y z x' y' z' where c: "coding_r = (x, y, z)" "coding_s = (x', y', z')" by (cases coding_r, cases coding_s) auto
  show ?thesis
    using rcv_session_keeps [OF n] rcv_session_ok [OF n0] send_session_keeps [OF m] send_session_ok [OF m0] r e
      rcv_session_setup_parts [OF s(1) [unfolded c]] send_session_setup_parts [OF s(2) [unfolded c]] s(3)
    by (auto simp: session_ports_def rtp_session_new_def)
qed

section \<open>Properties\<close>

text \<open>C2. The programs make a call: when \<open>send\<close> and \<open>rcv\<close> come to their event loops, from whatever command
  lines, with G.711 on 16-bit samples and the same port, sampling rate, packet time and coding, then the sender sends to
  the port on which the receiver is registered for packets, and as long as every block has 2 to 1460 samples, the packets
  can be sent, arrive in order, and the device takes them, the receiver plays every recorded block, in order, coded and decoded
  in the law that was chosen.\<close>

theorem programs_make_a_call:
  assumes "send_main env argv = Inr (Some (ss, ra), es)" "send_options argv = Inr (Some o1)"
    and "rcv_main env' stack argv' = Inr (Some (rs, pa), es')" "rcv_options argv' = Inr (Some o2)"
    and "o_type o1 = 0" "o_nw_type o1 \<in> {1, 2}"
    and "o_type o2 = o_type o1" "o_nw_type o2 = o_nw_type o1" "o_rtp_port o2 = o_rtp_port o1" "o_samp_sec o2 = o_samp_sec o1" "o_size_ms o2 = o_size_ms o1"
    and "\<forall>(se, re, ws) \<in> set bs. senv_sendto se \<and> device_ok re \<and> 2 \<le> length ws \<and> length ws \<le> 1460"
  shows "(\<exists>rtp. ss_rtp ss = Some rtp \<and> Bind (me_sock env' 0) (sin_port (rtp_rcv_addr rtp)) \<in> set es') \<and>
    Reg_Fd (me_sock env' 0) ''rcv_start - rtp receive'' \<in> set es' \<and>
    call_run ie idec addr bs ss rs = Inr (map (\<lambda>(_, _, ws). played (law_of (o_nw_type o1)) ws) bs)"
proof -
  have s: "send_setup env o1 = Inr (Some (ss, ra), es)" and r: "rcv_setup env' stack o2 = Inr (Some (rs, pa), es')"
    using assms(1-4) by (auto simp: send_main_def rcv_main_def run_program_Some)
  have f: "force_ilbc o1 = o1" using assms(6) by (auto simp: force_ilbc_def)
  obtain cpa cpn ca rtp where S: "coding_setup (me_ok env 1) o1 = Inr (Some (cpa, cpn, ca), [])"
    "mono_sender ca cpa cpn rtp ss" "ss_seq ss = 0" "rtp_payload rtp = word_of_int (coding2rtp (cp_type cpn))"
    "sin_port (rtp_rcv_addr rtp) = htons (o_rtp_port o1)"
    using send_setup_result [OF s] f by auto
  obtain cpa' cpn' ca' where R: "coding_setup (me_ok env' 1) o2 = Inr (Some (cpa', cpn', ca'), [])"
    "fifo_session ca' cpa' cpn' (word_of_int (coding2rtp (cp_type cpn'))) rs" "seq_initial rs = 0" "seq_cycles rs = 0"
    "Bind (me_sock env' 0) (htons (o_rtp_port o2)) \<in> set es'" "Reg_Fd (me_sock env' 0) ''rcv_start - rtp receive'' \<in> set es'"
    using rcv_setup_result [OF r] by auto
  have same: "cpa' = cpa" "cpn' = cpn" "ca' = ca"
    using coding_setup_again [OF S(1) R(1) assms(5) _ assms(8) assms(6)] assms(5,7,10,11) by auto
  have g: "g711_coder ca cpa cpn (law_of (o_nw_type o1))" by (rule coding_setup_g711 [OF S(1) assms(5,6)])
  then have pt: "rtp_payload rtp < 128" using S(4) by (auto simp: g711_coder_def)
  have "in_step ss rs" using R(3,4) by (simp add: in_step_def)
  then show ?thesis
    using call_run_blocks [OF g S(2) _ pt _ assms(12), of rs ie idec addr] R(2,5,6) S(2,4,5) same assms(9) by (auto simp: mono_sender_def)
qed


theorem programs_make_a_call_witness:
  "\<exists>ss ra es rs pa es'. send_main sample_env [''send'', ''-f'', ''in'', ''-pc2'', ''-r'', ''5004''] = Inr (Some (ss, ra), es) \<and>
    rcv_main sample_env [] [''rcv'', ''-fout'', ''-c'', ''2'', ''-r5004''] = Inr (Some (rs, pa), es') \<and>
    call_run (\<lambda>_. []) (\<lambda>_. []) zero_addr [(demo_send_env, demo_env Recv_Failed, [0, 1000])] ss rs =
      Inr [played (alaw2linear \<circ> linear2alaw) [0, 1000]]"
proof -
  obtain ss ra es where s: "send_main sample_env [''send'', ''-f'', ''in'', ''-pc2'', ''-r'', ''5004''] = Inr (Some (ss, ra), es)"
    using sample_send by auto
  obtain rs pa es' where r: "rcv_main sample_env [] [''rcv'', ''-fout'', ''-c'', ''2'', ''-r5004''] = Inr (Some (rs, pa), es')"
    using sample_rcv by auto
  show ?thesis
    using programs_make_a_call [OF s sample_send_options r sample_rcv_options, of "[(demo_send_env, demo_env Recv_Failed, [0, 1000])]" "\<lambda>_. []" "\<lambda>_. []" zero_addr] s r
    by (auto simp: default_options_def demo_send_env_def demo_env_def device_ok_def law_of_def)
qed

text \<open>C30. The phone uses one control port twice: when it comes to its event loop without the options for the ports of
  the reports, the control sockets of its receiver and of its sender have both been bound to the port behind the media
  port, where the system lets only one of them have the packets. Its two sessions have no source identifier: every
  packet that it sends carries 0, the mark of a receiver that has not heard its sender yet.\<close>

theorem phone_shares_its_control_port:
  assumes "phone_main env argv = Inr (Some (rs, ss, pa, ra), es)" "phone_options argv = Inr (Some o1)"
    and "o_rtcp_rport o1 = None" "o_rtcp_sport o1 = None"
  shows "Bind (me_sock env 1) (htons (o_rtp_port o1 + 1)) \<in> set es \<and> Bind (me_sock env 3) (htons (o_rtp_port o1 + 1)) \<in> set es \<and>
    (\<exists>rtp_1 rtp_2. rs_rtp rs = Some rtp_1 \<and> ss_rtp ss = Some rtp_2 \<and> rtcp_s rtp_1 = me_sock env 1 \<and> rtcp_s rtp_2 = me_sock env 3 \<and>
      rtp_ssrc rtp_1 = 0 \<and> rtp_ssrc rtp_2 = 0 \<and> (\<forall>senv seq. rh_ssrc (sent_hdr senv rtp_2 seq) = 0))"
proof -
  let ?o = "force_ilbc o1"
  have "phone_setup env o1 = Inr (Some (rs, ss, pa, ra), es)" using assms(1,2) by (auto simp: phone_main_def run_program_Some)
  then obtain cpa rtp_1 rtp_2 rs1 ss1 e1 e2 where n: "phone_network env ?o = Inr (Some (cpa, rtp_1, rtp_2, rs1, ss1), e1)"
    and st: "phone_start env ?o cpa rtp_1 rtp_2 rs1 ss1 = Inr (Some (rs, ss, pa, ra), e2)" and e: "es = e1 @ e2"
    by (auto simp: phone_setup_def andthen_Some Let_def split: if_splits)
  note N = phone_network_result [OF n]
  obtain rs2 rs3 k1 k2 k3 where p: "rs2 = rs1\<lparr>rs_play_api := True, rs_playout := Some Fifo\<rparr>"
    and q: "rcv_reports env 9 ?o (rtcp_s rtp_1) rs2 = Inr (Some rs3, k1)"
    and t: "send_reports env 28 ?o (rtcp_s rtp_2) (ss1\<lparr>ss_record_api := True\<rparr>) = Inr (Some ss, k2)"
    and u: "rcv_start (me_ok env 11) rs3 = Inr (rs, k3)"
    using st by (auto simp: phone_start_def run_eventloop_Some andthen_Some try_call_Some dest!: playout_setup_result)
  obtain t1 where t1: "rs3 = rs2\<lparr>rs_rtp := Some (rtp_1\<lparr>rtcp_timer := t1\<rparr>)\<rparr>" using rcv_reports_keep [OF q, of rtp_1] p N by auto
  obtain t2 where t2: "ss = ss1\<lparr>ss_record_api := True, ss_rtp := Some (rtp_2\<lparr>rtcp_timer := t2\<rparr>)\<rparr>"
    using send_reports_keep [OF t, of rtp_2] N by auto
  have "rs = rs3" using u t1 by (auto simp: rcv_start_def bnd_eq_Inr split: if_splits)
  then show ?thesis using N t1 t2 e assms(3,4) by (auto simp: session_ports_def sent_hdr_fields)
qed

theorem phone_shares_its_control_port_witness:
  "\<exists>rs ss pa ra es. phone_main sample_env [''phone'', ''-fin'', ''-Fout'', ''-p''] = Inr (Some (rs, ss, pa, ra), es) \<and>
    Bind 4 (htons 8889) \<in> set es \<and> Bind 6 (htons 8889) \<in> set es"
proof -
  obtain rs ss pa ra es where p: "phone_main sample_env [''phone'', ''-fin'', ''-Fout'', ''-p''] = Inr (Some (rs, ss, pa, ra), es)"
    using sample_phone by auto
  show ?thesis using phone_shares_its_control_port [OF p sample_phone_options] p by (auto simp: default_options_def sample_env_def)
qed

end
