(* ===== verification/Spc_Sanity.thy ===== *)
theory Spc_Sanity
  imports Measurement
begin

text \<open>
  The checker of the reports, \<open>utils/spc_sanity.c\<close>. It reads the file that the server writes for a call:
  seven lines of header and then a line for every echo. The header is what \<open>utils/sps.c\<close> prints, the
  lines are those of \<open>utils/spc_send.c\<close>.

  A stream is what is left of the file and whether its end has been met. The conversions of
  \<open>fscanf\<close> are a list; the blanks of the formats stand before conversions that skip blanks anyway.
\<close>

section \<open>Reading\<close>

type_synonym stream = "bytes \<times> bool"

datatype conversion = C_Int | C_Word | C_Char
datatype scanned = V_Int int | V_Word bytes | V_Char u8

definition blank :: "u8 \<Rightarrow> bool" where
  "blank c \<longleftrightarrow> c = 32 \<or> 9 \<le> c \<and> c \<le> 13"

definition is_digit :: "u8 \<Rightarrow> bool" where
  "is_digit c \<longleftrightarrow> 48 \<le> c \<and> c \<le> 57"

definition skip_blanks :: "stream \<Rightarrow> stream" where
  "skip_blanks st = (let r = dropWhile blank (fst st) in (r, snd st \<or> r = []))"

text \<open>The value of the digits, which \<open>%d\<close> keeps within the type.\<close>

definition digits_value :: "bytes \<Rightarrow> int" where
  "digits_value ds = foldl (\<lambda>v d. 10 * v + (uint d - 48)) 0 ds"

definition clamp_int :: "int \<Rightarrow> int" where
  "clamp_int v = max (- (2 ^ 31)) (min (2 ^ 31 - 1) v)"

definition scan_int :: "stream \<Rightarrow> scanned option \<times> stream" where
  "scan_int st =
    (let (r, e) = skip_blanks st;
         sign = (take 1 r = [45] \<or> take 1 r = [43]);
         neg = (take 1 r = [45]);
         r = (if sign then drop 1 r else r);
         ds = takeWhile is_digit r; r = dropWhile is_digit r
     in (if ds = [] then None else Some (V_Int (clamp_int (if neg then - digits_value ds else digits_value ds))),
         (r, e \<or> r = [])))"

definition scan_token :: "stream \<Rightarrow> scanned option \<times> stream" where
  "scan_token st =
    (let (r, e) = skip_blanks st; w = takeWhile (\<lambda>c. \<not> blank c) r; r = dropWhile (\<lambda>c. \<not> blank c) r
     in (if w = [] then None else Some (V_Word w), (r, e \<or> r = [])))"

definition scan_char :: "stream \<Rightarrow> scanned option \<times> stream" where
  "scan_char st = (case st of ([], e) \<Rightarrow> (None, ([], True)) | (c # r, e) \<Rightarrow> (Some (V_Char c), (r, e)))"

definition scan_one :: "conversion \<Rightarrow> stream \<Rightarrow> scanned option \<times> stream" where
  "scan_one c st = (case c of C_Int \<Rightarrow> scan_int st | C_Word \<Rightarrow> scan_token st | C_Char \<Rightarrow> scan_char st)"

text \<open>\<open>fscanf\<close>: what was converted before the first failure. The arrays for words have 64 characters.\<close>

fun fscanf :: "conversion list \<Rightarrow> stream \<Rightarrow> (scanned list \<times> stream) res" where
  "fscanf [] st = Inr ([], st)"
| "fscanf (c # cs) st =
    (case scan_one c st of
       (None, st) \<Rightarrow> Inr ([], st)
     | (Some v, st) \<Rightarrow>
         if (case v of V_Word w \<Rightarrow> 64 \<le> length w | _ \<Rightarrow> False) then Inl Out_Of_Bounds
         else bnd (fscanf cs st) (\<lambda>(vs, st). Inr (v # vs, st)))"

section \<open>Checking\<close>

text \<open>The exits: 0, and 1 with the number of a line or because of the arguments.\<close>

datatype sanity = Passes | Fails nat | Not_Read

definition ascii :: "string \<Rightarrow> bytes" where
  "ascii = map of_char"

definition num_line :: "bytes \<Rightarrow> nat \<Rightarrow> stream \<Rightarrow> (stream \<Rightarrow> sanity res) \<Rightarrow> sanity res" where
  "num_line key line st k =
    bnd (fscanf [C_Word, C_Int] st) (\<lambda>(vs, st).
      case vs of [V_Word w, _] \<Rightarrow> if w \<noteq> key then Inr (Fails line) else k st
      | _ \<Rightarrow> Inr (Fails line))"

definition addr_line :: "bytes \<Rightarrow> nat \<Rightarrow> stream \<Rightarrow> (stream \<Rightarrow> sanity res) \<Rightarrow> sanity res" where
  "addr_line key line st k =
    bnd (fscanf [C_Word, C_Word] st) (\<lambda>(vs, st).
      case vs of [V_Word w, V_Word a] \<Rightarrow> if w \<noteq> key then Inr (Fails line) else if 47 \<notin> set a then Inr (Fails line) else k st
      | _ \<Rightarrow> Inr (Fails line))"

definition entry_format :: "conversion list" where
  "entry_format = [C_Int, C_Int, C_Char, C_Int, C_Int, C_Char, C_Int]"

text \<open>The test of the two dots is with \<open>&&\<close>: one of them is enough. The difference is that of two \<open>int\<close>s,
  taken to wrap around.\<close>

definition int_diff :: "int \<Rightarrow> int \<Rightarrow> int" where
  "int_diff a b = sint (word_of_int (a - b) :: 32 word)"


definition check_entry :: "scanned list \<Rightarrow> int \<Rightarrow> int option" where
  "check_entry vs seq_prev =
    (case vs of [V_Int sq, _, V_Char c0, _, _, V_Char c1, _] \<Rightarrow>
       if c0 \<noteq> 46 \<and> c1 \<noteq> 46 then None
       else if 32000 < int_diff sq seq_prev \<or> int_diff sq seq_prev < - 32000 then None
       else Some sq
     | _ \<Rightarrow> None)"

lemma length_dropWhile_le: "length (dropWhile P xs) \<le> length xs"
  by (induction xs) auto

lemma length_dropWhile_less: "takeWhile P xs \<noteq> [] \<Longrightarrow> length (dropWhile P xs) < length xs"
  by (cases xs) (auto simp: less_Suc_eq_le length_dropWhile_le split: if_splits)

lemma length_skip_blanks: "skip_blanks st = (r, e) \<Longrightarrow> length r \<le> length (fst st)"
  by (auto simp: skip_blanks_def Let_def length_dropWhile_le)

lemma scan_int_shorter: "scan_int st = (Some v, st') \<Longrightarrow> length (fst st') < length (fst st)"
proof -
  assume s: "scan_int st = (Some v, st')"
  obtain r e where r: "skip_blanks st = (r, e)" by fastforce
  let ?r = "if take 1 r = [45] \<or> take 1 r = [43] then drop 1 r else r"
  have "takeWhile is_digit ?r \<noteq> []" "fst st' = dropWhile is_digit ?r"
    using s r by (auto simp: scan_int_def Let_def split: if_splits)
  then have "length (fst st') < length ?r" using length_dropWhile_less [of is_digit ?r] by simp
  also have "\<dots> \<le> length r" by simp
  also have "\<dots> \<le> length (fst st)" by (rule length_skip_blanks [OF r])
  finally show ?thesis .
qed

lemma scan_token_shorter: "scan_token st = (Some v, st') \<Longrightarrow> length (fst st') < length (fst st)"
proof -
  assume s: "scan_token st = (Some v, st')"
  obtain r e where r: "skip_blanks st = (r, e)" by fastforce
  have "takeWhile (\<lambda>c. \<not> blank c) r \<noteq> []" "fst st' = dropWhile (\<lambda>c. \<not> blank c) r"
    using s r by (auto simp: scan_token_def Let_def split: if_splits)
  then have "length (fst st') < length r" using length_dropWhile_less by metis
  also have "\<dots> \<le> length (fst st)" by (rule length_skip_blanks [OF r])
  finally show ?thesis .
qed

lemma scan_one_shorter: "scan_one c st = (Some v, st') \<Longrightarrow> length (fst st') < length (fst st)"
  by (cases c) (auto simp: scan_one_def scan_char_def scan_int_shorter scan_token_shorter split: prod.splits list.splits)

lemma fscanf_shorter:
  assumes "fscanf cs st = Inr (vs, st')" "length vs = length cs" "cs \<noteq> []"
  shows "length (fst st') < length (fst st)"
  using assms
proof (induction cs arbitrary: st vs)
  case (Cons c cs)
  then obtain v s1 vs1 where "scan_one c st = (Some v, s1)" "fscanf cs s1 = Inr (vs1, st')" "length vs1 = length cs"
    by (auto simp: bnd_eq_Inr split: prod.splits option.splits if_splits)
  then show ?case using scan_one_shorter [of c st v s1] Cons.IH [of s1 vs1] by (cases "cs = []") auto
qed simp

lemma entry_format_length: "length entry_format = 7" "entry_format \<noteq> []"
  by (simp_all add: entry_format_def)

function check_entries :: "nat \<Rightarrow> int \<Rightarrow> stream \<Rightarrow> sanity res" where
  "check_entries line seq_prev st =
    (if snd st then Inr Passes
     else case fscanf entry_format st of
       Inl e \<Rightarrow> Inl e
     | Inr (vs, st) \<Rightarrow>
         if snd st then Inr Passes
         else if length vs \<noteq> 7 then Inr (Fails line)
         else case check_entry vs seq_prev of None \<Rightarrow> Inr (Fails line) | Some sq \<Rightarrow> check_entries (line + 1) sq st)"
  by pat_completeness auto
termination
  by (relation "measure (\<lambda>(_, _, st). length (fst st))") (use entry_format_length fscanf_shorter [of entry_format] in \<open>fastforce simp del: fscanf.simps\<close>)+

declare check_entries.simps [simp del]

definition sanity_main :: "nat \<Rightarrow> bytes option \<Rightarrow> sanity res" where
  "sanity_main argc file =
    (if argc \<noteq> 2 then Inr Not_Read
     else case file of None \<Rightarrow> Inr Not_Read
     | Some bs \<Rightarrow>
         num_line (ascii ''testid:'') 0 (bs, False) (\<lambda>st.
         num_line (ascii ''srcid:'') 1 st (\<lambda>st.
         num_line (ascii ''dstid:'') 2 st (\<lambda>st.
         addr_line (ascii ''src:'') 3 st (\<lambda>st.
         addr_line (ascii ''dst:'') 4 st (\<lambda>st.
         num_line (ascii ''start:'') 5 st (\<lambda>st.
         num_line (ascii ''dur:'') 6 st (check_entries 7 0))))))))"

section \<open>Writing\<close>

text \<open>What the server prints for an item of its log; an address is in network order.\<close>

definition inet_ntoa :: "u32 \<Rightarrow> bytes" where
  "inet_ntoa a = (case store32 a of [p, q, r, s] \<Rightarrow>
     print_nat (unat p) @ [46] @ print_nat (unat q) @ [46] @ print_nat (unat r) @ [46] @ print_nat (unat s))"

definition log_text :: "log_item \<Rightarrow> bytes" where
  "log_text i = (case i of
       Log_Num key n \<Rightarrow> ascii key @ [58, 9] @ print_nat (unat n) @ [10]
     | Log_Addr key a p \<Rightarrow> ascii key @ [58, 9] @ inet_ntoa a @ [47] @ print_nat (unat p) @ [10]
     | Log_Times t d \<Rightarrow> ascii ''start:'' @ [9] @ print_nat (unat t) @ [10] @ ascii ''dur:'' @ [9] @ print_nat (unat d) @ [10]
     | Log_Octets bs \<Rightarrow> bs)"

text \<open>What is written to a descriptor, and what its file holds then. The server opens the file without
  truncating it, so that it writes over what the file held before, and the rest of that stays.\<close>

fun octets_written :: "int \<Rightarrow> sps_effect list \<Rightarrow> bytes" where
  "octets_written fd [] = []"
| "octets_written fd (Log_Write f i # es) = (if f = fd then log_text i else []) @ octets_written fd es"
| "octets_written fd (_ # es) = octets_written fd es"

definition file_of :: "int \<Rightarrow> bytes \<Rightarrow> sps_effect list \<Rightarrow> bytes" where
  "file_of fd old es = octets_written fd es @ drop (length (octets_written fd es)) old"

text \<open>Where a sequence of numbers jumps, with the lines counted like the checker does.\<close>

fun first_jump :: "nat \<Rightarrow> int \<Rightarrow> int list \<Rightarrow> nat option" where
  "first_jump line seq_prev [] = None"
| "first_jump line seq_prev (sq # sqs) =
    (if 32000 < \<bar>sq - seq_prev\<bar> then Some line else first_jump (line + 1) sq sqs)"

section \<open>Numerals\<close>

definition numeral_for :: "bytes \<Rightarrow> int \<Rightarrow> bool" where
  "numeral_for s v \<longleftrightarrow> (\<exists>neg ds. s = (if neg then [45] else []) @ ds \<and> ds \<noteq> [] \<and> (\<forall>d \<in> set ds. is_digit d) \<and>
     v = (if neg then - digits_value ds else digits_value ds))"

lemma digits_value_snoc: "digits_value (ds @ [d]) = 10 * digits_value ds + (uint d - 48)"
  by (simp add: digits_value_def)

lemma print_nat_digits: "print_nat n \<noteq> [] \<and> (\<forall>d \<in> set (print_nat n). is_digit d) \<and> digits_value (print_nat n) = int n"
proof (induction n rule: dec_digits.induct)
  case (1 n)
  have one: "is_digit (48 + of_nat k) \<and> uint (48 + of_nat k :: u8) = 48 + int k" if "k < 10" for k
  proof -
    have "k \<in> {0,1,2,3,4,5,6,7,8,9}" using that by auto
    then show ?thesis by (auto simp: is_digit_def)
  qed
  show ?case
  proof (cases "n < 10")
    case True
    then show ?thesis using one [of n] by (subst (1 2 3) print_nat_def, subst (1 2 3) dec_digits.simps) (simp add: digits_value_def)
  next
    case False
    have "print_nat n = print_nat (n div 10) @ [48 + of_nat (n mod 10)]"
      using False by (simp add: print_nat_def dec_digits.simps [of n])
    moreover have "10 * int (n div 10) + int (n mod 10) = int n" by (metis mult_div_mod_eq of_nat_add of_nat_mult of_nat_numeral)
    ultimately show ?thesis using 1 [OF False] one [of "n mod 10"] by (auto simp: digits_value_snoc)
  qed
qed

lemma digits_value_zeros: "digits_value (replicate n 48 @ ds) = digits_value ds"
  by (induction n) (simp_all add: digits_value_def)

lemma print_numerals:
  "numeral_for (print_nat n) (int n)" "numeral_for (print_int i) i" "numeral_for (print_06 i) i"
proof -
  show "numeral_for (print_nat n) (int n)" using print_nat_digits [of n] unfolding numeral_for_def by (intro exI [of _ False]) auto
  show "numeral_for (print_int i) i" using print_nat_digits [of "nat \<bar>i\<bar>"] unfolding numeral_for_def
    by (intro exI [of _ "i < 0"] exI [of _ "print_nat (nat \<bar>i\<bar>)"]) (auto simp: print_int_def)
  have "digits_value (replicate k 48 @ print_nat (nat \<bar>i\<bar>)) = \<bar>i\<bar>" for k
    using print_nat_digits [of "nat \<bar>i\<bar>"] by (simp add: digits_value_zeros)
  then show "numeral_for (print_06 i) i" using print_nat_digits [of "nat \<bar>i\<bar>"] unfolding numeral_for_def
    by (intro exI [of _ "i < 0"] exI [of _ "replicate ((if i < 0 then 5 else 6) - length (print_nat (nat \<bar>i\<bar>))) 48 @ print_nat (nat \<bar>i\<bar>)"])
      (auto simp: print_06_def Let_def is_digit_def)
qed

text \<open>A numeral behind blanks, with something else behind it, is read back.\<close>

lemma digit_facts: "is_digit d \<Longrightarrow> \<not> blank d \<and> d \<noteq> 45 \<and> d \<noteq> 43"
  by (auto simp: is_digit_def blank_def word_le_nat_alt)

lemma skip_to: "\<forall>b \<in> set bs. blank b \<Longrightarrow> r \<noteq> [] \<Longrightarrow> \<not> blank (hd r) \<Longrightarrow> skip_blanks (bs @ r, False) = (r, False)"
  by (cases r) (simp_all add: skip_blanks_def)

lemma scan_numeral:
  assumes "numeral_for s v" "\<forall>b \<in> set bs. blank b" "\<not> is_digit c"
  shows "scan_int (bs @ s @ c # r, False) = (Some (V_Int (clamp_int v)), (c # r, False))"
proof -
  obtain neg ds where s: "s = (if neg then [45] else []) @ ds" "ds \<noteq> []" "\<forall>d \<in> set ds. is_digit d"
    "v = (if neg then - digits_value ds else digits_value ds)" using assms(1) by (auto simp: numeral_for_def)
  have hd: "is_digit (hd ds)" using s(2,3) by auto
  have "\<not> blank (hd (s @ c # r))" using s(1,2) digit_facts [OF hd] by (cases neg) (auto simp: blank_def)
  then have skip: "skip_blanks (bs @ s @ c # r, False) = (s @ c # r, False)" using assms(2) by (intro skip_to) auto
  have tw: "takeWhile is_digit (ds @ c # r) = ds" "dropWhile is_digit (ds @ c # r) = c # r" using s(3) assms(3) by simp_all
  show ?thesis
  proof (cases neg)
    case True
    then show ?thesis using skip s tw assms(3) by (simp add: scan_int_def del: takeWhile_append dropWhile_append)
  next
    case False
    have "take 1 (ds @ c # r) = [hd ds]" using s(2) by (cases ds) auto
    then show ?thesis using False skip s tw digit_facts [OF hd] assms(3) by (simp add: scan_int_def del: takeWhile_append dropWhile_append take_append)
  qed
qed

lemma scan_word_behind:
  assumes "w \<noteq> []" "\<forall>x \<in> set w. \<not> blank x" "\<forall>b \<in> set bs. blank b" "blank c"
  shows "scan_token (bs @ w @ c # r, False) = (Some (V_Word w), (c # r, False))"
proof -
  have "skip_blanks (bs @ w @ c # r, False) = (w @ c # r, False)" using assms by (intro skip_to) auto
  moreover have "takeWhile (\<lambda>c. \<not> blank c) (w @ c # r) = w" "dropWhile (\<lambda>c. \<not> blank c) (w @ c # r) = c # r"
    using assms by simp_all
  ultimately show ?thesis using assms(1,4) by (simp add: scan_token_def del: takeWhile_append dropWhile_append)
qed

section \<open>A report\<close>

text \<open>Words and addresses of the header.\<close>

definition key_ok :: "bytes \<Rightarrow> bool" where
  "key_ok w \<longleftrightarrow> w \<noteq> [] \<and> length w < 64 \<and> (\<forall>x \<in> set w. \<not> blank x)"

lemma num_line_printed:
  assumes "key_ok key" "numeral_for s v" "\<forall>b \<in> set bs. blank b"
  shows "num_line key line (bs @ key @ [9] @ s @ 10 # r, False) k = k (10 # r, False)"
proof -
  have "scan_token (bs @ key @ 9 # s @ 10 # r, False) = (Some (V_Word key), (9 # s @ 10 # r, False))"
    using assms by (intro scan_word_behind) (auto simp: key_ok_def blank_def)
  moreover have "scan_int ([9] @ s @ 10 # r, False) = (Some (V_Int (clamp_int v)), (10 # r, False))"
    using assms(2) by (intro scan_numeral) (auto simp: blank_def is_digit_def)
  ultimately show ?thesis using assms(1) by (simp add: num_line_def scan_one_def key_ok_def)
qed

lemma addr_line_printed:
  assumes "key_ok key" "key_ok a" "47 \<in> set a" "\<forall>b \<in> set bs. blank b"
  shows "addr_line key line (bs @ key @ [9] @ a @ 10 # r, False) k = k (10 # r, False)"
proof -
  have "scan_token (bs @ key @ 9 # a @ 10 # r, False) = (Some (V_Word key), (9 # a @ 10 # r, False))"
    using assms by (intro scan_word_behind) (auto simp: key_ok_def blank_def)
  moreover have "scan_token ([9] @ a @ 10 # r, False) = (Some (V_Word a), (10 # r, False))"
    using assms(2) by (intro scan_word_behind) (auto simp: blank_def key_ok_def)
  ultimately show ?thesis using assms(1-3) by (simp add: addr_line_def scan_one_def key_ok_def)
qed

lemma print_nat_short: "n < 10 ^ k \<Longrightarrow> 0 < k \<Longrightarrow> length (print_nat n) \<le> k"
proof (induction k arbitrary: n)
  case (Suc k)
  show ?case
  proof (cases "n < 10")
    case True
    then show ?thesis by (simp add: print_nat_def dec_digits.simps [of n])
  next
    case False
    then have "0 < k" using Suc.prems by (cases k) auto
    moreover have "n div 10 < 10 ^ k" using Suc.prems(1) by (simp add: less_mult_imp_div_less mult.commute)
    ultimately show ?thesis using Suc.IH [of "n div 10"] False by (simp add: print_nat_def dec_digits.simps [of n])
  qed
qed simp

lemma address_ok: "key_ok (inet_ntoa a @ 47 # print_nat (unat (p :: u16))) \<and> 47 \<in> set (inet_ntoa a @ 47 # print_nat (unat p))"
proof -
  have b: "length (print_nat (unat x)) \<le> 3" for x :: u8
  proof -
    have "unat x < 2 ^ LENGTH(8)" by (rule unsigned_less)
    then show ?thesis by (intro print_nat_short) simp_all
  qed
  have "unat p < 2 ^ LENGTH(16)" by (rule unsigned_less)
  then have q: "length (print_nat (unat p)) \<le> 5" by (intro print_nat_short) simp_all
  have n: "\<forall>c \<in> set (print_nat n). \<not> blank c" for n using print_nat_digits [of n] digit_facts by blast
  obtain w x y z where a: "store32 a = [w, x, y, z]" by (simp add: store32_def)
  have l: "length (inet_ntoa a) \<le> 15" using b [of w] b [of x] b [of y] b [of z] a by (simp add: inet_ntoa_def)
  have "\<forall>c \<in> set (inet_ntoa a). \<not> blank c" using n a by (auto simp: inet_ntoa_def blank_def)
  then show ?thesis using l q n by (auto simp: key_ok_def blank_def)
qed

lemma entry_scanned:
  assumes "b = 10" "- (2 ^ 31) \<le> sq" "sq < 2 ^ 31"
  shows "\<exists>u v x y. fscanf entry_format (b # log_line sq d t @ r, False) =
    Inr ([V_Int sq, V_Int u, V_Char 46, V_Int v, V_Int x, V_Char 46, V_Int y], (10 # r, False))"
proof -
  let ?d = "print_int (tv_sec d)" and ?du = "print_06 (tv_usec d)" and ?t = "print_int (tv_sec t)" and ?tu = "print_06 (tv_usec t)"
  have nd: "\<not> is_digit 32" "\<not> is_digit 46" "\<not> is_digit 10" and bl: "blank 32" "blank 10" by (simp_all add: is_digit_def blank_def)
  have 1: "scan_int (10 # print_int sq @ 32 # r, False) = (Some (V_Int sq), (32 # r, False))" for r
    using scan_numeral [OF print_numerals(2), of "[10]" 32 sq r] nd bl assms(2,3) by (simp add: clamp_int_def)
  have 2: "scan_int (32 # print_int i @ 46 # r, False) = (Some (V_Int (clamp_int i)), (46 # r, False))" for i r
    using scan_numeral [OF print_numerals(2), of "[32]" 46 i r] nd bl by simp
  have 3: "scan_int (print_06 i @ c # r, False) = (Some (V_Int (clamp_int i)), (c # r, False))" if "c = 32 \<or> c = 10" for i c r
    using scan_numeral [OF print_numerals(3), of "[]" c i r] nd that by auto
  show ?thesis using assms(1) by (simp add: entry_format_def log_line_def scan_one_def scan_char_def 1 2 3)
qed

lemma int_diff_small: "\<bar>a\<bar> < 2 ^ 30 \<Longrightarrow> \<bar>b\<bar> < 2 ^ 30 \<Longrightarrow> int_diff a b = a - b"
  unfolding int_diff_def sint_sbintrunc' by (rule signed_take_bit_int_eq_self) auto

lemma first_jump_entries:
  assumes "\<forall>(sq, d, t) \<in> set ls. \<bar>sq\<bar> < 2 ^ 30" "\<bar>seq_prev\<bar> < 2 ^ 30"
  shows "check_entries line seq_prev (10 # concat (map (\<lambda>(sq, d, t). log_line sq d t) ls), False) =
    Inr (case first_jump line seq_prev (map fst ls) of None \<Rightarrow> Passes | Some n \<Rightarrow> Fails n)"
  using assms
proof (induction ls arbitrary: line seq_prev)
  case Nil
  have "scan_int ([10], False) = (None, ([], True))" by (simp add: scan_int_def skip_blanks_def blank_def)
  then show ?case by (subst check_entries.simps) (simp add: entry_format_def scan_one_def)
next
  case (Cons l ls)
  obtain sq d t where l: "l = (sq, d, t)" by (cases l)
  have sq: "- (2 ^ 31) \<le> sq" "sq < 2 ^ 31" using Cons.prems(1) l by auto
  obtain u v x y where "fscanf entry_format (10 # log_line sq d t @ concat (map (\<lambda>(sq, d, t). log_line sq d t) ls), False) =
    Inr ([V_Int sq, V_Int u, V_Char 46, V_Int v, V_Int x, V_Char 46, V_Int y], (10 # concat (map (\<lambda>(sq, d, t). log_line sq d t) ls), False))"
    using entry_scanned [of 10 sq d t "concat (map (\<lambda>(sq, d, t). log_line sq d t) ls)"] sq l by auto
  then show ?case using Cons.IH [of sq "line + 1"] Cons.prems l
    by (subst check_entries.simps) (auto simp: check_entry_def int_diff_small)
qed

lemma keys_ok:
  "key_ok (ascii ''testid:'')" "key_ok (ascii ''srcid:'')" "key_ok (ascii ''dstid:'')" "key_ok (ascii ''src:'')" "key_ok (ascii ''dst:'')"
  "key_ok (ascii ''start:'')" "key_ok (ascii ''dur:'')"
  by (simp_all add: key_ok_def ascii_def blank_def)

lemma ascii_append: "ascii (s @ t) = ascii s @ ascii t" "ascii '':'' = [58]"
  by (simp_all add: ascii_def)

lemma header_checked:
  "sanity_main 2 (Some (concat (map log_text (log_header h)) @ r)) = check_entries 7 0 (10 # r, False)"
proof -
  define n1 n2 n3 n4 n5 where "n1 = unat (ntohl (ss_testid h))" "n2 = unat (ntohl (ss_clientid_src h))" "n3 = unat (ntohl (ss_clientid_dst h))"
    "n4 = unat (ntohl (ss_start_sec h))" "n5 = unat (ntohl (ss_duration_sec h) + 1)"
  define a1 a2 where "a1 = inet_ntoa (load32 (drop 4 (ss_addr_src_pub h))) @ 47 # print_nat (unat (ntohs (load16 (drop 2 (ss_addr_src_pub h)))))"
    "a2 = inet_ntoa (load32 (drop 4 (ss_addr_dst_pub h))) @ 47 # print_nat (unat (ntohs (load16 (drop 2 (ss_addr_dst_pub h)))))"
  have keys: "ascii ''testid'' @ 58 # x = ascii ''testid:'' @ x" "ascii ''srcid'' @ 58 # x = ascii ''srcid:'' @ x"
    "ascii ''dstid'' @ 58 # x = ascii ''dstid:'' @ x" "ascii ''src'' @ 58 # x = ascii ''src:'' @ x" "ascii ''dst'' @ 58 # x = ascii ''dst:'' @ x" for x
    by (simp_all add: ascii_def)
  have whole: "concat (map log_text (log_header h)) @ r = ascii ''testid:'' @ [9] @ print_nat n1 @ 10 # ascii ''srcid:'' @ [9] @ print_nat n2 @ 10 #
    ascii ''dstid:'' @ [9] @ print_nat n3 @ 10 # ascii ''src:'' @ [9] @ a1 @ 10 # ascii ''dst:'' @ [9] @ a2 @ 10 #
    ascii ''start:'' @ [9] @ print_nat n4 @ 10 # ascii ''dur:'' @ [9] @ print_nat n5 @ 10 # r"
    by (simp add: log_header_def log_text_def n1_n2_n3_n4_n5_def a1_a2_def keys)
  have num: "num_line key line (10 # key @ 9 # print_nat n @ 10 # x, False) k = k (10 # x, False)" if "key_ok key" for key line n x k
    using num_line_printed [OF that print_numerals(1), of "[10]"] by (simp add: blank_def)
  have adr: "addr_line key line (10 # key @ 9 # a @ 10 # x, False) k = k (10 # x, False)" if "key_ok key" "key_ok a \<and> 47 \<in> set a" for key line a x k
    using addr_line_printed [OF that(1), of a "[10]"] that(2) by (simp add: blank_def)
  have first: "num_line (ascii ''testid:'') 0 (ascii ''testid:'' @ 9 # print_nat n1 @ 10 # x, False) k = k (10 # x, False)" for x k
    using num_line_printed [OF keys_ok(1) print_numerals(1), of "[]"] by simp
  have a: "key_ok a1 \<and> 47 \<in> set a1" "key_ok a2 \<and> 47 \<in> set a2" unfolding a1_a2_def by (rule address_ok)+
  show ?thesis unfolding whole by (simp add: sanity_main_def first num adr keys_ok a)
qed

section \<open>Properties\<close>

text \<open>C5. A report passes the check exactly when its numbers do not jump: the file that the server writes for a call, the
  header and the entries of the sender's log in whatever pieces they came, is read to its end, and it passes unless
  the numbers of two echoes in a row, or the first one, are more than 32000 apart; then the first such line is named,
  counted from 0. This holds for a file that is new, and for one of the same name that held no more than is written:
  the server does not truncate the file, so that of a longer one the tail stays behind the report.\<close>

theorem report_passes_the_check:
  assumes "concat ws = concat (map (\<lambda>(sq, d, t). log_line sq d t) ls)"
    and "\<forall>(sq, d, t) \<in> set ls. \<bar>sq\<bar> < 2 ^ 30"
    and "length old \<le> length (octets_written (ev_open ev) (report_log ev h ws))"
  shows "sanity_main 2 (Some (file_of (ev_open ev) old (report_log ev h ws))) =
    Inr (case first_jump 7 0 (map fst ls) of None \<Rightarrow> Passes | Some n \<Rightarrow> Fails n)"
proof -
  have "octets_written fd (map (Log_Write fd) xs @ es) = concat (map log_text xs) @ octets_written fd es" for fd xs es by (induction xs) simp_all
  then have "octets_written (ev_open ev) (report_log ev h ws) = concat (map log_text (log_header h @ map Log_Octets ws))"
    unfolding report_log_def by (simp del: map_append map_map concat_map_singleton)
  then have "file_of (ev_open ev) old (report_log ev h ws) = concat (map log_text (log_header h @ map Log_Octets ws))"
    using assms(3) unfolding file_of_def by simp
  moreover have "concat (map log_text (map Log_Octets ws)) = concat ws" by (induction ws) (simp_all add: log_text_def)
  ultimately show ?thesis using header_checked [of h] first_jump_entries [OF assms(2), of 0] assms(1) by simp
qed

text \<open>An older file of forty octets is covered.\<close>

theorem report_passes_the_check_witness:
  "sanity_main 2 (Some (file_of (ev_open sample_env) (replicate 40 7)
      (report_log sample_env (start_hdr 1 2 3 zero_addr zero_addr (tv 1 0) (tv 2 0))
        [log_line 5 (tv 0 7) (tv 9 1) @ log_line 65000 (tv 1 0) (tv 10 2)]))) = Inr (Fails 8)"
proof -
  let ?ws = "[log_line 5 (tv 0 7) (tv 9 1) @ log_line 65000 (tv 1 0) (tv 10 2)]"
  let ?h = "start_hdr 1 2 3 zero_addr zero_addr (tv 1 0) (tv 2 0)"
  have "length (replicate 40 7) \<le> length (octets_written (ev_open sample_env) (report_log sample_env ?h ?ws))"
    by (simp add: report_log_def log_header_def log_text_def ascii_def inet_ntoa_def store32_def)
  then show ?thesis using report_passes_the_check [of ?ws "[(5, tv 0 7, tv 9 1), (65000, tv 1 0, tv 10 2)]" "replicate 40 7" sample_env ?h] by simp
qed

end
