(* ===== verification/Spec2Isabelle.thy ===== *)
theory Spec2Isabelle
  imports Call Rtcp_Session Errors Measurement Sip Ilbc_Decode Devaudio Getopt Apps Spc_Sanity
begin

text \<open>
  Sicsophone: a verification library of an IP telephone in C.

  \<^bold>\<open>The program.\<close> A sender records blocks of samples from an audio device, codes them, puts an RTP
  header before them and sends them over UDP; a receiver checks the header, follows the sequence
  numbers, decodes the samples and plays them. Both ends exchange RTCP reports. Everything is driven
  by one event loop with timers and file descriptors, and everything that is opened is given up by
  exit functions when an error is reported. A measurement server, with clients that register with
  it over TCP, arranges calls between pairs of clients and collects their reports.

  \<^bold>\<open>Theories and sources\<close> (paths under src/), from the bottom up.

  \<^item> Sphone_Base: the prelude. Machine words, the result type \<open>fault + 'a\<close> of operations that can
    stop the program, byte order, reading and writing buffers through a moving pointer, and the
    locale \<open>header_codec\<close> of fixed-size headers with its pairing \<open>codec_pair\<close>.
  \<^item> Sphone_Lib: src/sphone_lib.c. Time values with their order as an instance of \<open>linorder\<close>,
    packet sizes, the hash.
  \<^item> G711: coding/g711.c. Both laws, their tables and the direct conversions.
  \<^item> Coding: coding/sphone_coding.c. The codec functions over packets, the table of coders, channels.
    The iLBC coder is a parameter here.
  \<^item> Silence: src/sphone_silence.c. Detection of quiet packets.
  \<^item> Rtp and Rtcp: src/sphone_rtp.c, src/sphone_rtcp.c and their headers. Flag fields, encoders and
    decoders, times on the wire; the codecs interpret \<open>header_codec\<close>.
  \<^item> Errors: src/sphone_error.c. Registration and running of the exit functions.
  \<^item> Eventloop: src/sphone_eventloop.c. The two lists, registration and dispatch; the timer list
    interprets the locale \<open>timed_queue\<close>.
  \<^item> Rtp_Session: src/sphone_inet.c and src/sphone_rtp_session.c. Sockets, addresses, and the type
    \<open>called\<close> of a C function that returns an \<open>int\<close> and has effects.
  \<^item> Playout: src/sphone_playout.c and src/sphone_playout_shbuf.c. The choice between a queueing device
    and a circular buffer, and the positions in the buffer.
  \<^item> Receive: src/sphone_rcv.c. The receiving session, \<open>update_seq\<close>, \<open>receive_and_playout\<close>.
  \<^item> Send: src/sphone_send.c. The sending session and \<open>record_and_send\<close>.
  \<^item> Rtcp_Session: src/sphone_rtcp_send.c and src/sphone_rtcp_rcv.c. Reports and their timers.
  \<^item> Audio_File: audio/sphone_audio_file_play.c and audio/sphone_audio_file_record.c with the selection
    of a device. The locale \<open>fifo_device\<close> says what the playout expects of a queueing device.
  \<^item> Call: a sender and a receiver over a network that keeps its packets, played to a file.
  \<^item> Sp_Proto and Sps_Server: utils/sp.c and utils/sps.c. The messages of the measurement server as
    they lie in memory, and the server as a state machine over the model of the event loop.
  \<^item> Spc_Client: utils/spc.c, utils/spc_send.c and utils/spc_rcv.c. The measurement client over the same
    event loop: its state machine, the session of a call in either role, the log and the report.
  \<^item> Measurement: the server and its clients together, over the messages they exchange.
  \<^item> Sip: sip/ and apps/sip_phone.c. SIP messages, their construction, packing, parsing and freeing, over an
    allocator, and the phone that sends one INVITE. The functions for a single header are parameters.
  \<^item> Apps: apps/send.c, apps/rcv.c and apps/phone.c, from the command line to the event loop, with the
    names of sound devices and coders that their options take.
  \<^item> Getopt: src/getopt.c, with the variables it keeps between calls.
  \<^item> Devaudio: audio/sphone_audio_devaudio.c with its playing and recording parts; the nodes of the list
    of open devices have addresses, the driver is a parameter.
  \<^item> Spc_Sanity: utils/spc_sanity.c, the program that checks the files that the server writes.
  \<^item> Ilbc_Stream: the bit stream of coding/iLBC_1.1.0 (packing.c, the loops over the parameters of a frame in
    iLBC_encode.c and iLBC_decode.c, the table of the allocation in constants.c).
  \<^item> Ilbc_Arith to Ilbc_Decode: the decoder of coding/iLBC_1.1.0. Ilbc_Arith holds the arithmetic of
    \<open>float\<close> as a record of operations, which is a parameter of every function, arrays with checked accesses,
    loops, and the rules by which a loop is shown to stay in its arrays; Ilbc_Tables constants.c;
    Ilbc_Residual StateConstructW.c, iCBConstruct.c, getCBvec.c, gainquant.c and filter.c; Ilbc_Lpc lsf.c, LPCdecode.c,
    helpfun.c and syntFilter.c; Ilbc_Plc doCPLC.c; Ilbc_Enhancer enhancer.c; Ilbc_Decode iLBC_decode.c and the
    decoder's part of coding/sphone_coding.c.

  \<^bold>\<open>Correspondence.\<close> A struct is a record and an enum a datatype, with the names of the source; a C
  function is a definition of the same name. Unsigned integers are words of their width, \<open>int\<close> is the
  HOL type (signed overflow has no meaning in C) except for the count of cycles of a receiver, which grows for ever
  and is a word that wraps, pointers that may be null are options, and linked
  lists are lists. Where the aliasing of nodes matters the nodes have addresses: the event list
  carries the address of each allocation, and the clients of the server live in a store from which a
  freed entry is removed, so that a later access is the fault \<open>Use_After_Free\<close>. An error that the code reports
  runs the exit functions: the session of a receiver is then \<open>None\<close>, a measurement client has left, and the event
  loop of a program ends. A \<open>recv\<close> that waits for what never comes is the fault \<open>Blocks_Forever\<close>, a send on a broken
  connection \<open>Killed_By_Signal\<close>; other system calls are taken to return. What the operating
  system, the resolver, the audio device and the allocator answer is an input; what the code does to
  them is a list of effects or a trace. The host is a 32-bit little-endian machine.

  \<^bold>\<open>What the lemmas show.\<close>

  \<^item> Calls: whatever is recorded at one end is played at the other, block for block, coded and decoded
    (Call); the receiver follows a stream over every wrap of 16 bits, up to the wrap of its own count, and keeps its
    session until an error is reported, as for an empty datagram (Receive); the sender's counter counts packets (Send); recorded files
    are played without gaps and a poll catches up with the clock (Audio_File). The sessions that two
    of the programs set up from their command lines are such a call (Apps), and options are read as
    they are written, from every command line in finitely many calls (Getopt). This is for blocks of 2 to 1460 samples and a system whose sends succeed.
  \<^item> Playing: packets are laid end to end round a circular buffer, and afresh after a gap (Playout).
  \<^item> Devices: an open device is shared by its users and closed with the last one (Devaudio).
  \<^item> Codecs: both G.711 laws lose at most a 32nd of the magnitude, keep the order of samples and map
    every code to itself (G711, Coding).
  \<^item> Wire formats: every header and report survives encoding and decoding, and decoding fails exactly
    on short buffers (Rtp, Rtcp); a message of the server is read the same in any segments with at
    least four octets in the first (Sp_Proto).
  \<^item> Scheduling: timers run in the order of the stable sort of their times, every ready descriptor is
    served once per round, reports recur without drift (Eventloop, Rtcp_Session).
  \<^item> The server: the invariant of its client list, store and registrations, the complete list of what
    can stop a handler, a wait for the rest of a message included, and the pairing of clients (Sps_Server).
  \<^item> The client: the state of the machine decides what it owns, the stream keeps the pace of the clock,
    an echo is attributed to its packet over the wrap of 16 bits (Spc_Client).
  \<^item> A measurement: a registration, the start of a call and a report have at the other end the effect
    they are meant to have (Measurement). The check of a report passes exactly when its numbers do not
    jump (Spc_Sanity).
  \<^item> SIP: an INVITE goes over the wire, has the headers it must have, and the client that is built is freed once, while its
    registration and the messages it received are not (Sip).
  \<^item> iLBC: the frames of the coder and the packets of 50 octets correspond one to one (Ilbc_Stream);
    no packet makes the decoder leave one of its arrays (Ilbc_Decode).
  \<^item> Failures of the code, as theorems: a coder that writes past its buffer (Send), packets from the
    network that stop a receiver (Receive), a bye that does not fit its allocation (Rtcp_Session), a
    freed list node that the event loop follows (Eventloop), exit functions that are skipped or run
    twice (Errors), a server that goes on with a freed client or counts a client twice (Sps_Server), a
    client whose timer outlives its session (Spc_Client), a driver that divides by a length that it
    never reports (Devaudio), a phone that binds one control port twice (Apps). The search of the enhancer
    reads a fifth correlation that is not set (Ilbc_Enhancer): its value is whatever the arithmetic says
    an uninitialised number is.

  \<^bold>\<open>Bounds and fuel.\<close> Functions that recurse on data are total. \<open>fd_dispatch\<close> takes the number of
  nodes it may visit, and as many as there are descriptors are enough (\<open>ready_descriptors_all_served\<close>);
  \<open>ifconf_loop\<close> takes the number of questions, and one for each ten interfaces and two more are enough
  (\<open>default_addr_complete\<close>); \<open>record_loop\<close> is bounded by the packets that are due and one more
  (\<open>poll_catches_up\<close>). The loops over a connection and over a report are recursions with a measure.
  The search for a second random client runs over the random numbers given: it ends when one of them
  denotes another client (\<open>draw_other_total\<close>). The parser of options takes the number of calls, and one
  more than the characters left is enough (\<open>options_end\<close>). The check of a report ends with its file. The loops of
  the decoder run over intervals, as they do in C, and end with them.

  \<^bold>\<open>Arithmetic of the iLBC coder.\<close> No law of \<open>float\<close> is assumed but one: that multiples of a quarter of
  small integers are represented exactly and truncated to integers (\<open>exact_quarters\<close>), which the lengths of the
  enhancer's periods need. The property holds for every arithmetic with it, and one in fixed point is shown
  to have it (\<open>fixed_point_exact\<close>).

  \<^bold>\<open>Not modelled.\<close> The analysis of the iLBC encoder: its choices are searches over sums of \<open>float\<close>, and what
  it may choose is what Ilbc_Stream packs. coding/iLBC_1.1.0/iLBCInterface.c, iLBC_test.c and hpOutput.c are not
  compiled or not called. The DirectSound driver and src/sphone_win32.c: calls of Windows, with the Winsock and
  OpenBSD branches of the other files. apps/devaudio.c, src/sphone_debug.c, usage texts and dumps: printing.
  src/sphone_queue.c: its body is compiled out. The two files that pack and parse single SIP headers are not in
  the repository. The floating point arithmetic of the poll of a recorded file has its rounding as a
  parameter, of which the error bound of \<open>double\<close> is assumed (\<open>rounds\<close>) and for which the rounding to 53 bits is an
  instance; other floating point conversions of times are replaced by the exact quotients where these agree, and the two exponentially distributed times of the server are inputs.

  \<^bold>\<open>Remaining.\<close> What is left of the program prints, calls Windows, or is not compiled, apart from the encoder's
  analysis named above.
\<close>

end
